(* ===== verification/Prelude.thy ===== *)
theory Prelude
  imports Main "HOL-Library.Word"
begin

text \<open>
  Shared vocabulary of the development. Go's fixed-width integers are words, a byte slice is
  a list of 8-bit words and a Go string is the list of its bytes (\<^typ>\<open>string\<close>; a
  \<^typ>\<open>char\<close> is one byte). The theory holds the big-endian accessors of
  \<^verbatim>\<open>encoding/binary\<close> that the frame layer uses, the conversions between
  strings and byte slices, and the generic list, option and map lemmas that several
  components share, collected in the named collections below.
\<close>

named_theorems wire_simps \<open>unfolding rules for byte-level encoders and decoders\<close>
named_theorems op_defs \<open>definitions of stateful operations\<close>
named_theorems inv_defs \<open>definitions of component invariants\<close>

type_synonym byte = "8 word"
type_synonym bytes = "byte list"
type_synonym u16 = "16 word"
type_synonym u32 = "32 word"
type_synonym u64 = "64 word"

subsection \<open>encoding/binary: big-endian accessors\<close>

definition put_uint16 :: "u16 \<Rightarrow> bytes" where
  "put_uint16 v = [ucast (drop_bit 8 v), ucast v]"

definition put_uint32 :: "u32 \<Rightarrow> bytes" where
  "put_uint32 v = [ucast (drop_bit 24 v), ucast (drop_bit 16 v), ucast (drop_bit 8 v), ucast v]"

definition get_uint16 :: "byte \<Rightarrow> byte \<Rightarrow> u16" where
  "get_uint16 a b = or (push_bit 8 (ucast a)) (ucast b)"

definition get_uint32 :: "byte \<Rightarrow> byte \<Rightarrow> byte \<Rightarrow> byte \<Rightarrow> u32" where
  "get_uint32 a b c d =
     or (or (push_bit 24 (ucast a)) (push_bit 16 (ucast b)))
        (or (push_bit 8 (ucast c)) (ucast d))"

subsection \<open>Strings as byte sequences\<close>

definition byte_of_char :: "char \<Rightarrow> byte" where
  "byte_of_char c = word_of_nat (of_char c)"

definition char_of_byte :: "byte \<Rightarrow> char" where
  "char_of_byte b = char_of (unat b)"

definition bytes_of_string :: "string \<Rightarrow> bytes" where
  "bytes_of_string s = map byte_of_char s"

definition string_of_bytes :: "bytes \<Rightarrow> string" where
  "string_of_bytes bs = map char_of_byte bs"

subsection \<open>copy, strconv and hexadecimal formatting\<close>

text \<open>\<open>copy(dst[i:], src)\<close>: as many bytes as fit, the rest of \<open>dst\<close> unchanged.\<close>

definition go_copy :: "'a list \<Rightarrow> nat \<Rightarrow> 'a list \<Rightarrow> 'a list" where
  "go_copy dst i src =
     (let n = min (length src) (length dst - i)
      in take i dst @ take n src @ drop (i + n) dst)"

text \<open>\<open>strconv.FormatUint(n, 10)\<close> and \<open>strconv.ParseUint(s, 10, w)\<close>.\<close>

definition digit_char :: "nat \<Rightarrow> char" where
  "digit_char d = char_of (48 + d)"

fun format_uint :: "nat \<Rightarrow> string" where
  "format_uint n =
     (if n < 10 then [digit_char n] else format_uint (n div 10) @ [digit_char (n mod 10)])"

definition is_digit :: "char \<Rightarrow> bool" where
  "is_digit c \<longleftrightarrow> 48 \<le> (of_char c :: nat) \<and> (of_char c :: nat) \<le> 57"

fun digits_value :: "nat \<Rightarrow> string \<Rightarrow> nat option" where
  "digits_value acc [] = Some acc"
| "digits_value acc (c # cs) =
     (if is_digit c then digits_value (acc * 10 + (of_char c - 48)) cs else None)"

definition parse_uint :: "nat \<Rightarrow> string \<Rightarrow> nat option" where
  "parse_uint w s =
     (if s = [] then None
      else case digits_value 0 s of
        None \<Rightarrow> None
      | Some n \<Rightarrow> if n < 2 ^ w then Some n else None)"

definition hex_char :: "nat \<Rightarrow> char" where
  "hex_char d = (if d < 10 then char_of (48 + d) else char_of (87 + d))"

definition hex2 :: "byte \<Rightarrow> string" where
  "hex2 b = [hex_char (unat b div 16), hex_char (unat b mod 16)]"

declare format_uint.simps [simp del]

subsection \<open>Lemmas on the accessors\<close>

lemma byte_bit_out: "8 \<le> n \<Longrightarrow> \<not> bit (b :: byte) n"
  using bit_imp_le_length [of b n] by auto

lemmas word_bits = bit_or_iff bit_push_bit_iff bit_ucast_iff bit_drop_bit_eq byte_bit_out

lemma get_put_uint16:
  "get_uint16 (ucast (drop_bit 8 v)) (ucast v) = v"
  unfolding get_uint16_def by (rule bit_word_eqI) (auto simp: word_bits)

lemma get_put_uint32:
  fixes v :: u32
  shows "get_uint32 (ucast (drop_bit 24 v)) (ucast (drop_bit 16 v)) (ucast (drop_bit 8 v))
    (ucast v) = v"
  unfolding get_uint32_def
proof (rule bit_word_eqI)
  fix n assume "n < LENGTH(32)"
  then consider "n < 8" | "8 \<le> n" "n < 16" | "16 \<le> n" "n < 24" | "24 \<le> n" "n < 32"
    by force
  then show "bit (or (or (push_bit 24 (ucast (ucast (drop_bit 24 v) :: byte)))
      (push_bit 16 (ucast (ucast (drop_bit 16 v) :: byte))))
      (or (push_bit 8 (ucast (ucast (drop_bit 8 v) :: byte))) (ucast (ucast v :: byte))) :: u32) n
      = bit v n"
    by cases (auto simp: word_bits)
qed

lemma put_get_uint16: "put_uint16 (get_uint16 a b) = [a, b]"
  unfolding put_uint16_def get_uint16_def
  by (auto intro!: bit_word_eqI simp: word_bits)

lemma put_get_uint32: "put_uint32 (get_uint32 a b c d) = [a, b, c, d]"
  unfolding put_uint32_def get_uint32_def
  by (auto intro!: bit_word_eqI simp: word_bits)

lemma word_of_unat: "unat w = n \<Longrightarrow> w = of_nat n"
  by auto

lemma length_put_uint16 [simp]: "length (put_uint16 v) = 2"
  by (simp add: put_uint16_def)

lemma length_put_uint32 [simp]: "length (put_uint32 v) = 4"
  by (simp add: put_uint32_def)

lemma length_go_copy [simp]: "i \<le> length dst \<Longrightarrow> length (go_copy dst i src) = length dst"
  by (simp add: go_copy_def Let_def)

lemma go_copy_fits:
  "i + length src \<le> length dst \<Longrightarrow>
     go_copy dst i src = take i dst @ src @ drop (i + length src) dst"
  by (simp add: go_copy_def Let_def)

lemma digits_value_append:
  "digits_value acc (s @ t) = Option.bind (digits_value acc s) (\<lambda>a. digits_value a t)"
  by (induction acc s rule: digits_value.induct) simp_all

lemma digit_char_digit [simp]:
  "d < 10 \<Longrightarrow> is_digit (digit_char d)" "d < 10 \<Longrightarrow> of_char (digit_char d) - (48 :: nat) = d"
  by (simp_all add: digit_char_def is_digit_def)

lemma digits_value_format: "digits_value 0 (format_uint n) = Some n"
proof (induction n rule: format_uint.induct)
  case (1 n)
  show ?case
  proof (cases "n < 10")
    case True
    then show ?thesis by (simp add: format_uint.simps)
  next
    case False
    with 1 have "digits_value 0 (format_uint (n div 10)) = Some (n div 10)" by simp
    with False show ?thesis
      by (subst format_uint.simps) (simp add: digits_value_append)
  qed
qed

lemma format_uint_nonempty [simp]: "format_uint n \<noteq> []"
  by (subst format_uint.simps) simp

lemma parse_format_uint: "n < 2 ^ w \<Longrightarrow> parse_uint w (format_uint n) = Some n"
  by (simp add: parse_uint_def digits_value_format)

lemma char_of_byte_of_char [simp]: "char_of_byte (byte_of_char c) = c"
proof -
  have "of_char c < (256 :: nat)" by (cases c) (simp add: of_char_def horner_sum_bit_eq_take_bit)
  then show ?thesis
    by (simp add: char_of_byte_def byte_of_char_def unat_of_nat)
qed

lemma byte_of_char_of_byte [simp]: "byte_of_char (char_of_byte b) = b"
proof -
  have "unat b < 256" using unsigned_less [of b, where ?'a = nat] by simp
  then show ?thesis
    by (simp add: char_of_byte_def byte_of_char_def)
qed

lemma string_of_bytes_of_string [simp]: "string_of_bytes (bytes_of_string s) = s"
  by (simp add: string_of_bytes_def bytes_of_string_def comp_def)

lemma bytes_of_string_of_bytes [simp]: "bytes_of_string (string_of_bytes bs) = bs"
  by (simp add: string_of_bytes_def bytes_of_string_def comp_def)

lemma length_bytes_of_string [simp]: "length (bytes_of_string s) = length s"
  by (simp add: bytes_of_string_def)

lemma length_string_of_bytes [simp]: "length (string_of_bytes bs) = length bs"
  by (simp add: string_of_bytes_def)

lemma string_of_bytes_inject [simp]: "string_of_bytes a = string_of_bytes b \<longleftrightarrow> a = b"
  using bytes_of_string_of_bytes by metis

lemma take_bytes_of_string: "take n (bytes_of_string s) = bytes_of_string (take n s)"
  by (simp add: bytes_of_string_def take_map)

lemma take_drop_append [simp]: "take n xs @ drop n xs @ ys = xs @ ys"
  by (simp flip: append_assoc)

lemma length_concat_bound:
  "\<forall>x \<in> set xs. length x \<le> m \<Longrightarrow> length (concat xs) \<le> length xs * m"
  by (induction xs) auto

end
