(* ===== verification/Utf8.thy ===== *)
theory Utf8
  imports Prelude
begin

text \<open>
  The part of \<^verbatim>\<open>unicode/utf8\<close>, \<^verbatim>\<open>unicode\<close> and
  \<^verbatim>\<open>strings\<close> that the repository uses: rune decoding with Go's acceptance
  ranges (an ill-formed byte decodes to \<open>U+FFFD\<close> with width 1), validity, the
  \<open>range\<close> loop over a string, control characters and white space, and
  \<open>TrimSpace\<close>. The lemmas show that validity is closed under concatenation and that
  cutting a valid string inside a rune loses at most the three bytes of that rune.
\<close>

subsection \<open>Rune decoding\<close>

type_synonym rune = nat

definition RuneError :: rune where
  "RuneError = 65533"

definition cont_byte :: "nat \<Rightarrow> bool" where
  "cont_byte b \<longleftrightarrow> 128 \<le> b \<and> b \<le> 191"

text \<open>
  \<open>rune_width b0\<close> is the sequence length announced by a leading byte and
  \<open>second_ok b0 b1\<close> the range its second byte must fall in (the \<open>acceptRanges\<close>
  table of \<^verbatim>\<open>unicode/utf8\<close>).
\<close>

definition rune_width :: "nat \<Rightarrow> nat" where
  "rune_width b =
     (if b < 128 then 1 else if b < 194 then 0 else if b < 224 then 2
      else if b < 240 then 3 else if b < 245 then 4 else 0)"

definition second_ok :: "nat \<Rightarrow> nat \<Rightarrow> bool" where
  "second_ok b0 b1 \<longleftrightarrow>
     (if b0 = 224 then 160 \<le> b1 \<and> b1 \<le> 191
      else if b0 = 237 then 128 \<le> b1 \<and> b1 \<le> 159
      else if b0 = 240 then 144 \<le> b1 \<and> b1 \<le> 191
      else if b0 = 244 then 128 \<le> b1 \<and> b1 \<le> 143
      else cont_byte b1)"

text \<open>\<open>full_rune bs\<close> is the width of the well-formed encoding at the head of \<open>bs\<close>, or 0.\<close>

fun full_rune :: "bytes \<Rightarrow> nat" where
  "full_rune [] = 0"
| "full_rune (a # bs) =
     (let w = rune_width (unat a) in
      if w = 2 then (case bs of b # _ \<Rightarrow> if second_ok (unat a) (unat b) then 2 else 0 | _ \<Rightarrow> 0)
      else if w = 3 then
        (case bs of b # c # _ \<Rightarrow>
           if second_ok (unat a) (unat b) \<and> cont_byte (unat c) then 3 else 0 | _ \<Rightarrow> 0)
      else if w = 4 then
        (case bs of b # c # d # _ \<Rightarrow>
           if second_ok (unat a) (unat b) \<and> cont_byte (unat c) \<and> cont_byte (unat d)
           then 4 else 0 | _ \<Rightarrow> 0)
      else w)"

fun rune_value :: "bytes \<Rightarrow> rune" where
  "rune_value [a] = unat a"
| "rune_value [a, b] = (unat a mod 32) * 64 + unat b mod 64"
| "rune_value [a, b, c] = (unat a mod 16) * 4096 + (unat b mod 64) * 64 + unat c mod 64"
| "rune_value [a, b, c, d] =
     (unat a mod 8) * 262144 + (unat b mod 64) * 4096 + (unat c mod 64) * 64 + unat d mod 64"
| "rune_value _ = RuneError"

text \<open>\<open>utf8.DecodeRune\<close> on a non-empty slice: the rune and its width.\<close>

definition decode_rune :: "bytes \<Rightarrow> rune \<times> nat" where
  "decode_rune bs =
     (let w = full_rune bs in if w = 0 then (RuneError, 1) else (rune_value (take w bs), w))"

text \<open>The \<open>range\<close> loop over a string: every rune with the bytes it was decoded from.\<close>

function runes :: "bytes \<Rightarrow> (rune \<times> bytes) list" where
  "runes [] = []"
| "runes (b # bs) =
     (case decode_rune (b # bs) of (r, w) \<Rightarrow> (r, take w (b # bs)) # runes (drop w (b # bs)))"
  by pat_completeness auto

lemma decode_rune_width: "0 < snd (decode_rune bs)"
  by (simp add: decode_rune_def Let_def)

termination runes
  by (relation "measure length")
     (use decode_rune_width in \<open>auto simp: prod_eq_iff simp del: full_rune.simps(2)\<close>)

definition bad_rune :: "rune \<times> bytes \<Rightarrow> bool" where
  "bad_rune p \<longleftrightarrow> fst p = RuneError \<and> length (snd p) = 1"

function utf8_valid :: "bytes \<Rightarrow> bool" where
  "utf8_valid [] = True"
| "utf8_valid (b # bs) =
     (if full_rune (b # bs) = 0 then False
      else utf8_valid (drop (full_rune (b # bs)) (b # bs)))"
  by pat_completeness auto
termination utf8_valid
  by (relation "measure length") (auto simp del: full_rune.simps(2))

subsection \<open>Rune classes and TrimSpace\<close>

definition is_control :: "rune \<Rightarrow> bool" where
  "is_control r \<longleftrightarrow> r < 32 \<or> (127 \<le> r \<and> r < 160)"

definition is_space :: "rune \<Rightarrow> bool" where
  "is_space r \<longleftrightarrow> (9 \<le> r \<and> r \<le> 13) \<or>
     r \<in> {32, 133, 160, 5760, 8232, 8233, 8239, 8287, 12288} \<or> (8192 \<le> r \<and> r \<le> 8202)"

definition trim_space :: "bytes \<Rightarrow> bytes" where
  "trim_space bs =
     (let sp = (\<lambda>p :: rune \<times> bytes. is_space (fst p))
      in concat (map snd (rev (dropWhile sp (rev (dropWhile sp (runes bs)))))))"

definition trimSpace :: "string \<Rightarrow> string" where
  "trimSpace s = string_of_bytes (trim_space (bytes_of_string s))"

declare runes.simps(2) [simp del] utf8_valid.simps(2) [simp del] full_rune.simps(2) [simp del]

subsection \<open>Lemmas\<close>

lemma full_rune_cases:
  "full_rune (a # bs) = w \<Longrightarrow> w \<noteq> 0 \<Longrightarrow> w \<le> 4 \<and> w \<le> length (a # bs) \<and> w = rune_width (unat a)"
  by (auto simp: full_rune.simps rune_width_def Let_def split: list.splits if_splits)

lemma full_rune_le4: "full_rune bs \<le> 4"
  using full_rune_cases [OF refl] by (cases bs; cases "full_rune bs = 0") auto

lemma full_rune_length: "full_rune bs \<le> length bs"
  using full_rune_cases [OF refl] by (cases bs; cases "full_rune bs = 0") auto

lemma full_rune_pos: "full_rune bs \<noteq> 0 \<Longrightarrow> bs \<noteq> []"
  by auto

text \<open>The width depends on the bytes of the encoding only.\<close>

lemma full_rune_append: "full_rune bs \<noteq> 0 \<Longrightarrow> full_rune (bs @ cs) = full_rune bs"
  by (cases bs) (auto simp: full_rune.simps Let_def split: list.splits if_splits)

lemma full_rune_take:
  "full_rune bs \<noteq> 0 \<Longrightarrow> full_rune bs \<le> n \<Longrightarrow> full_rune (take n bs) = full_rune bs"
  by (cases bs; cases n)
     (auto simp: full_rune.simps Let_def take_Cons' split: list.splits if_splits nat.splits)

lemma utf8_valid_unfold:
  "bs \<noteq> [] \<Longrightarrow> utf8_valid bs = (full_rune bs \<noteq> 0 \<and> utf8_valid (drop (full_rune bs) bs))"
  by (cases bs) (simp_all add: utf8_valid.simps(2))

lemma utf8_valid_append: "utf8_valid xs \<Longrightarrow> utf8_valid ys \<Longrightarrow> utf8_valid (xs @ ys)"
proof (induction xs rule: utf8_valid.induct)
  case (2 b bs)
  let ?w = "full_rune (b # bs)"
  from "2.prems" have w: "?w \<noteq> 0" and v: "utf8_valid (drop ?w (b # bs))"
    by (simp_all add: utf8_valid.simps split: if_splits)
  have "utf8_valid (drop ?w (b # bs) @ ys)" by (rule "2.IH" [OF w v "2.prems"(2)])
  moreover have "full_rune ((b # bs) @ ys) = ?w" using w by (rule full_rune_append)
  moreover have "drop ?w ((b # bs) @ ys) = drop ?w (b # bs) @ ys"
    using full_rune_length [of "b # bs"] drop_append [of ?w "b # bs" ys] by simp
  ultimately show ?case using w
    by (metis append_is_Nil_conv list.distinct(1) utf8_valid_unfold)
qed simp

lemma utf8_valid_ascii: "(\<forall>b \<in> set bs. unat b < 128) \<Longrightarrow> utf8_valid bs"
proof (induction bs)
  case (Cons b bs)
  then have "full_rune (b # bs) = 1" by (simp add: full_rune.simps rune_width_def)
  with Cons show ?case by (simp add: utf8_valid.simps)
qed simp

text \<open>
  Cutting a valid string: some prefix that is at most three bytes shorter than the cut is
  valid.
\<close>

lemma utf8_valid_cut:
  "utf8_valid bs \<Longrightarrow> n \<le> length bs \<Longrightarrow> \<exists>m \<le> n. n \<le> m + 3 \<and> utf8_valid (take m bs)"
proof (induction bs arbitrary: n rule: utf8_valid.induct)
  case (2 b bs)
  let ?w = "full_rune (b # bs)"
  from "2.prems" have w: "?w \<noteq> 0" and v: "utf8_valid (drop ?w (b # bs))"
    by (simp_all add: utf8_valid.simps split: if_splits)
  show ?case
  proof (cases "n < ?w")
    case True
    then have "n \<le> 3" using full_rune_le4 [of "b # bs"] by simp
    then show ?thesis by (intro exI [of _ 0]) simp
  next
    case False
    then have "n - ?w \<le> length (drop ?w (b # bs))" using "2.prems"(2) by simp
    from "2.IH" [OF w v this] obtain m where m: "m \<le> n - ?w" "n - ?w \<le> m + 3"
      "utf8_valid (take m (drop ?w (b # bs)))" by blast
    have "full_rune (take (?w + m) (b # bs)) = ?w" using w by (intro full_rune_take) simp_all
    moreover have "drop ?w (take (?w + m) (b # bs)) = take m (drop ?w (b # bs))"
      by (simp add: drop_take)
    ultimately have "utf8_valid (take (?w + m) (b # bs))"
      using m(3) w by (metis full_rune.simps(1) utf8_valid_unfold)
    with m False show ?thesis by (intro exI [of _ "?w + m"]) auto
  qed
qed simp

end
