(* ===== verification/Errors.thy ===== *)
theory Errors
  imports Prelude
begin

text \<open>
  Error values (\<^verbatim>\<open>errors.go\<close> and the sentinels of the packages it is used with).
  An error is a tree: a sentinel, a categorized error with an optional cause, a
  \<open>fmt.Errorf\<close> error wrapping one or two others, a \<open>net.OpError\<close>, a
  \<open>RejectedError\<close>, a foreign \<open>net.Error\<close>, or a plain error. \<open>errors_Is\<close> is
  \<open>errors.Is\<close> and \<open>as_net_error\<close> is \<open>errors.As\<close> with a \<open>net.Error\<close>
  target. The human-readable message texts are not part of the model; every decision
  the program takes on an error goes through \<open>errors.Is\<close> and \<open>errors.As\<close>.
\<close>

datatype sentinel =
    ErrClosed | ErrTimeout | ErrSignaling | ErrNegotiation | ErrICE | ErrProtocol
  | ErrPeerRejected | ErrPeerUnavailable | ErrDuplicatePeer | ErrDisconnected | ErrConfig
  | ErrAlreadyListening | ErrNotImplemented
  | EOF | ErrDeadlineExceeded | ContextCanceled | ContextDeadlineExceeded
  | ErrClosedPipe | ErrShortBuffer | ErrShortWrite
  | FrameErrProtocol | ErrControlBusy | ErrPingOutstanding
  | PionxErrNegotiation | ErrChannelRejected | PionxErrClosed
  | ErrPermanent | ErrUnauthorized | NetErrClosed

text \<open>The sentinels declared in \<^verbatim>\<open>errors.go\<close>: the documented categories.\<close>

definition categories :: "sentinel list" where
  "categories = [ErrClosed, ErrTimeout, ErrSignaling, ErrNegotiation, ErrICE, ErrProtocol,
     ErrPeerRejected, ErrPeerUnavailable, ErrDuplicatePeer, ErrDisconnected, ErrConfig,
     ErrAlreadyListening, ErrNotImplemented]"

datatype gerror =
    Sentinel sentinel
  | Categorized sentinel "gerror option"
  | Wrap gerror
  | Wrap2 gerror gerror
  | OpError string gerror
  | RejectedError string string string
  | NetError bool
  | Plain string

text \<open>\<open>errors.Is(err, target)\<close> for a sentinel target.\<close>

fun errors_Is :: "gerror \<Rightarrow> sentinel \<Rightarrow> bool" where
  "errors_Is (Sentinel s) t = (s = t)"
| "errors_Is (Categorized c None) t = (c = t)"
| "errors_Is (Categorized c (Some e)) t = (c = t \<or> errors_Is e t)"
| "errors_Is (Wrap e) t = errors_Is e t"
| "errors_Is (Wrap2 e f) t = (errors_Is e t \<or> errors_Is f t)"
| "errors_Is (OpError op e) t = errors_Is e t"
| "errors_Is (RejectedError code reason peer) t = (t = ErrPeerRejected)"
| "errors_Is (NetError b) t = False"
| "errors_Is (Plain m) t = False"

text \<open>
  \<open>as_net_error e\<close> is \<open>errors.As(e, &ne)\<close> for a \<open>net.Error\<close>: the
  \<open>Timeout()\<close> of the first error of the tree that has one, or \<^const>\<open>None\<close>.
\<close>

fun as_net_error :: "gerror \<Rightarrow> bool option" where
  "as_net_error (Sentinel s) =
     (if s = ErrDeadlineExceeded \<or> s = ContextDeadlineExceeded then Some True else None)"
| "as_net_error (Categorized c None) = Some (c = ErrTimeout)"
| "as_net_error (Categorized c (Some e)) = Some (c = ErrTimeout \<or> as_net_error e = Some True)"
| "as_net_error (Wrap e) = as_net_error e"
| "as_net_error (Wrap2 e f) = (case as_net_error e of Some b \<Rightarrow> Some b | None \<Rightarrow> as_net_error f)"
| "as_net_error (OpError op e) =
     (case e of
        Sentinel _ \<Rightarrow> Some (as_net_error e = Some True)
      | Categorized _ _ \<Rightarrow> Some (as_net_error e = Some True)
      | OpError _ _ \<Rightarrow> Some (as_net_error e = Some True)
      | NetError b \<Rightarrow> Some b
      | _ \<Rightarrow> Some False)"
| "as_net_error (RejectedError code reason peer) = None"
| "as_net_error (NetError b) = Some b"
| "as_net_error (Plain m) = None"

text \<open>\<open>categorized.Timeout()\<close>.\<close>

definition categorized_Timeout :: "sentinel \<Rightarrow> gerror option \<Rightarrow> bool" where
  "categorized_Timeout category cause =
     (if errors_Is (Sentinel category) ErrTimeout then True
      else case cause of None \<Rightarrow> False | Some e \<Rightarrow> as_net_error e = Some True)"

text \<open>\<open>categorized.Unwrap()\<close>.\<close>

definition categorized_Unwrap :: "sentinel \<Rightarrow> gerror option \<Rightarrow> gerror list" where
  "categorized_Unwrap category cause =
     (case cause of None \<Rightarrow> [Sentinel category] | Some e \<Rightarrow> [Sentinel category, e])"

definition errorf :: "sentinel \<Rightarrow> gerror option \<Rightarrow> gerror" where
  "errorf category cause = Categorized category cause"

definition wrapErr :: "sentinel \<Rightarrow> gerror option \<Rightarrow> gerror option" where
  "wrapErr category cause =
     (case cause of None \<Rightarrow> None | Some e \<Rightarrow> Some (Categorized category (Some e)))"

definition deadlineError :: gerror where
  "deadlineError = Categorized ErrTimeout (Some (Sentinel ErrDeadlineExceeded))"

definition opError :: "string \<Rightarrow> gerror option \<Rightarrow> gerror option" where
  "opError op err = (case err of None \<Rightarrow> None | Some e \<Rightarrow> Some (OpError op e))"

text \<open>\<open>isTimeout\<close> of \<^verbatim>\<open>internal/frame/stream.go\<close>.\<close>

definition isTimeout :: "gerror \<Rightarrow> bool" where
  "isTimeout err \<longleftrightarrow>
     (if errors_Is err ErrDeadlineExceeded \<or> errors_Is err ContextDeadlineExceeded then True
      else as_net_error err = Some True)"

subsection \<open>Lemmas\<close>

lemma errors_Is_Categorized [simp]:
  "errors_Is (Categorized c cause) t \<longleftrightarrow> c = t \<or> (\<exists>e. cause = Some e \<and> errors_Is e t)"
  by (cases cause) auto

lemma errors_Is_errorf [simp]:
  "errors_Is (errorf c cause) t \<longleftrightarrow> c = t \<or> (\<exists>e. cause = Some e \<and> errors_Is e t)"
  by (simp add: errorf_def)

lemma errors_Is_Unwrap:
  "errors_Is (Categorized c cause) t \<longleftrightarrow> (\<exists>e \<in> set (categorized_Unwrap c cause). errors_Is e t)"
  by (cases cause) (auto simp: categorized_Unwrap_def)

lemma as_net_error_Categorized:
  "as_net_error (Categorized c cause) = Some (categorized_Timeout c cause)"
  by (cases cause) (auto simp: categorized_Timeout_def)

lemma wrapErr_Some [simp]: "wrapErr c (Some e) = Some (Categorized c (Some e))"
  by (simp add: wrapErr_def)

lemma wrapErr_None [simp]: "wrapErr c None = None"
  by (simp add: wrapErr_def)

lemma deadlineError_both:
  "errors_Is deadlineError ErrTimeout" "errors_Is deadlineError ErrDeadlineExceeded"
  "as_net_error deadlineError = Some True"
  by (simp_all add: deadlineError_def)

end
