(* ===== verification/Frame.thy ===== *)
theory Frame
  imports Utf8 Errors
begin

text \<open>
  The frame codec (\<^verbatim>\<open>internal/frame/frame.go\<close>): header layout, \<open>Encode\<close>,
  \<open>Append\<close>, \<open>Parse\<close> and the close-frame body. Frames are byte lists; a decoding
  error is the value \<open>Inl e\<close>. The lemmas show that encoding and parsing are inverse to
  each other on exactly the frames the protocol admits, that \<open>Append\<close> and \<open>Encode\<close>
  agree, that every rejection is a protocol violation, and that the close reason is cut on
  a rune boundary.
\<close>

subsection \<open>Constants and types\<close>

definition HeaderSize :: nat where "HeaderSize = 8"
definition Version :: byte where "Version = 1"
definition PayloadLimit :: nat where "PayloadLimit = 262144"
definition PingSize :: nat where "PingSize = 8"
definition MaxCloseReason :: nat where "MaxCloseReason = 256"

definition TypeData :: byte where "TypeData = 1"
definition TypePing :: byte where "TypePing = 2"
definition TypePong :: byte where "TypePong = 3"
definition TypeClose :: byte where "TypeClose = 4"

definition FrameCloseNormal :: u16 where "FrameCloseNormal = 0"
definition FrameCloseProtocolError :: u16 where "FrameCloseProtocolError = 1"
definition FrameCloseInternal :: u16 where "FrameCloseInternal = 2"
definition FrameCloseGoingAway :: u16 where "FrameCloseGoingAway = 3"

lemmas frame_consts = HeaderSize_def Version_def PayloadLimit_def PingSize_def
  MaxCloseReason_def TypeData_def TypePing_def TypePong_def TypeClose_def

definition Type_String :: "byte \<Rightarrow> string" where
  "Type_String t =
     (if t = TypeData then ''data''
      else if t = TypePing then ''ping''
      else if t = TypePong then ''pong''
      else if t = TypeClose then ''close''
      else ''unknown(0x'' @ hex2 t @ '')'')"

definition Type_valid :: "byte \<Rightarrow> bool" where
  "Type_valid t \<longleftrightarrow> t = TypeData \<or> t = TypePing \<or> t = TypePong \<or> t = TypeClose"

record Header =
  hdr_Version :: byte
  hdr_Type :: byte
  hdr_Flags :: u16
  hdr_Length :: u32

record CloseInfo =
  close_Code :: u16
  close_Reason :: string

definition frame_violation :: gerror where
  "frame_violation = Wrap (Sentinel FrameErrProtocol)"

subsection \<open>Encoding\<close>

definition Encode :: "bytes \<Rightarrow> byte \<Rightarrow> bytes \<Rightarrow> gerror + bytes" where
  "Encode dst t payload =
     (let total = HeaderSize + length payload in
      if length payload > PayloadLimit then Inl frame_violation
      else if length dst < total then Inl (Plain ''frame: destination is too small'')
      else
        let dst = dst[0 := Version];
            dst = dst[1 := t];
            dst = go_copy dst 2 (put_uint16 0);
            dst = go_copy dst 4 (put_uint32 (of_nat (length payload)));
            dst = go_copy dst HeaderSize payload
        in Inr (take total dst))"

definition Append :: "bytes \<Rightarrow> byte \<Rightarrow> bytes \<Rightarrow> gerror + bytes" where
  "Append dst t payload =
     (if length payload > PayloadLimit then Inl frame_violation
      else
        let hdr = replicate HeaderSize 0;
            hdr = hdr[0 := Version];
            hdr = hdr[1 := t];
            hdr = go_copy hdr 4 (put_uint32 (of_nat (length payload)))
        in Inr ((dst @ hdr) @ payload))"

subsection \<open>Parsing\<close>

definition clampMax :: "int \<Rightarrow> nat" where
  "clampMax maxPayload =
     (if maxPayload < 0 \<or> maxPayload > int PayloadLimit then PayloadLimit else nat maxPayload)"

definition readHeader :: "bytes \<Rightarrow> Header" where
  "readHeader msg =
     \<lparr> hdr_Version = msg ! 0, hdr_Type = msg ! 1,
       hdr_Flags = get_uint16 (msg ! 2) (msg ! 3),
       hdr_Length = get_uint32 (msg ! 4) (msg ! 5) (msg ! 6) (msg ! 7) \<rparr>"

definition Parse :: "bytes \<Rightarrow> int \<Rightarrow> gerror + Header \<times> bytes" where
  "Parse msg maxPayload =
     (let maxPayload = clampMax maxPayload in
      if length msg < HeaderSize then Inl frame_violation
      else
        let hdr = readHeader msg in
        if hdr_Version hdr \<noteq> Version then Inl frame_violation
        else if \<not> Type_valid (hdr_Type hdr) then Inl frame_violation
        else if hdr_Flags hdr \<noteq> 0 then Inl frame_violation
        else if hdr_Length hdr > of_nat maxPayload then Inl frame_violation
        else if unat (hdr_Length hdr) \<noteq> length msg - HeaderSize then Inl frame_violation
        else
          let payload = take (unat (hdr_Length hdr)) (drop HeaderSize msg) in
          if hdr_Type hdr = TypePing \<or> hdr_Type hdr = TypePong then
            if length payload \<noteq> PingSize then Inl frame_violation else Inr (hdr, payload)
          else if hdr_Type hdr = TypeClose then
            if length payload < 2 then Inl frame_violation else Inr (hdr, payload)
          else Inr (hdr, payload))"

subsection \<open>Close bodies\<close>

definition CloseInfo_String :: "CloseInfo \<Rightarrow> string" where
  "CloseInfo_String c =
     (if close_Reason c = '''' then ''code '' @ format_uint (unat (close_Code c))
      else ''code '' @ format_uint (unat (close_Code c)) @ '': '' @ close_Reason c)"

text \<open>The loop that drops trailing bytes until the reason is valid UTF-8.\<close>

function cutInvalid :: "string \<Rightarrow> string" where
  "cutInvalid reason =
     (if reason \<noteq> '''' \<and> \<not> utf8_valid (bytes_of_string reason)
      then cutInvalid (butlast reason) else reason)"
  by pat_completeness auto
termination
  by (relation "measure length") auto

declare cutInvalid.simps [simp del]

definition EncodeClose :: "u16 \<Rightarrow> string \<Rightarrow> bytes" where
  "EncodeClose code reason =
     (let reason = (if length reason > MaxCloseReason
                    then cutInvalid (take MaxCloseReason reason) else reason);
          out = replicate (2 + length reason) 0;
          out = go_copy out 0 (put_uint16 code)
      in go_copy out 2 (bytes_of_string reason))"

definition ParseClose :: "bytes \<Rightarrow> gerror + CloseInfo" where
  "ParseClose payload =
     (if length payload < 2 then Inl frame_violation
      else
        let reason = drop 2 payload in
        if length reason > MaxCloseReason then Inl frame_violation
        else if \<not> utf8_valid reason then Inl frame_violation
        else Inr \<lparr> close_Code = get_uint16 (payload ! 0) (payload ! 1),
                   close_Reason = string_of_bytes reason \<rparr>)"

text \<open>
  The wire format of a frame, as the protocol document draws it: version, type, two zero
  flag bytes, the big-endian payload length, the payload. This is the specification the
  encoders and the parser are compared with.
\<close>

definition wire :: "byte \<Rightarrow> bytes \<Rightarrow> bytes" where
  "wire t payload = [Version, t, 0, 0] @ put_uint32 (of_nat (length payload)) @ payload"

text \<open>The frames version 1 admits, for a receiver that accepts payloads up to \<open>m\<close> bytes.\<close>

definition frame_ok :: "nat \<Rightarrow> byte \<Rightarrow> bytes \<Rightarrow> bool" where
  "frame_ok m t payload \<longleftrightarrow>
     Type_valid t \<and> length payload \<le> m \<and>
     (t = TypePing \<or> t = TypePong \<longrightarrow> length payload = PingSize) \<and>
     (t = TypeClose \<longrightarrow> 2 \<le> length payload)"


subsection \<open>Encoders produce the wire format\<close>

lemma length_wire [simp]: "length (wire t p) = HeaderSize + length p"
  by (simp add: wire_def frame_consts)

lemma eight_cons: "8 \<le> length xs \<Longrightarrow>
    \<exists>a b c d e f g h ys. xs = a # b # c # d # e # f # g # h # ys"
  by (auto simp: numeral_eq_Suc Suc_le_length_iff)

lemma put_uint32_cons: "\<exists>w x y z. put_uint32 v = [w, x, y, z]"
  by (simp add: put_uint32_def)

lemma Encode_wire:
  assumes "length p \<le> PayloadLimit" and "HeaderSize + length p \<le> length dst"
  shows "Encode dst t p = Inr (wire t p)"
proof -
  obtain a b c d e f g h ys where dst: "dst = a # b # c # d # e # f # g # h # ys"
    using eight_cons assms(2) by (metis HeaderSize_def add_leD1)
  obtain w x y z where u: "put_uint32 (of_nat (length p)) = [w, x, y, z]"
    using put_uint32_cons by blast
  have ys: "length p \<le> length ys" using assms(2) by (simp add: dst HeaderSize_def)
  have s1: "go_copy (Version # t # c # d # e # f # g # h # ys) 2 (put_uint16 0) =
      Version # t # 0 # 0 # e # f # g # h # ys"
    by (simp add: go_copy_fits put_uint16_def)
  have s2: "go_copy (Version # t # 0 # 0 # e # f # g # h # ys) 4 [w, x, y, z] =
      Version # t # 0 # 0 # w # x # y # z # ys"
    by (simp add: go_copy_fits)
  have s3: "go_copy (Version # t # 0 # 0 # w # x # y # z # ys) HeaderSize p =
      Version # t # 0 # 0 # w # x # y # z # p @ drop (length p) ys"
    using ys drop_drop [of "length p" 8 "Version # t # 0 # 0 # w # x # y # z # ys"]
    by (simp add: go_copy_fits HeaderSize_def add.commute)
  have up: "dst[0 := Version, 1 := t] = Version # t # c # d # e # f # g # h # ys"
    by (simp add: dst)
  show ?thesis
    unfolding Encode_def Let_def up u s1 s2 s3
    using assms by (simp add: wire_def u HeaderSize_def take_add)
qed

lemma Append_wire:
  assumes "length p \<le> PayloadLimit"
  shows "Append dst t p = Inr (dst @ wire t p)"
proof -
  obtain w x y z where u: "put_uint32 (of_nat (length p)) = [w, x, y, z]"
    using put_uint32_cons by blast
  have "replicate HeaderSize (0 :: byte) = [0, 0, 0, 0, 0, 0, 0, 0]"
    by (simp add: HeaderSize_def numeral_eq_Suc)
  with assms show ?thesis by (simp add: Append_def wire_def Let_def go_copy_def u)
qed

lemma unat_payload_length: "length p \<le> PayloadLimit \<Longrightarrow> unat (of_nat (length p) :: u32) = length p"
  by (simp add: unat_of_nat PayloadLimit_def)

lemma clampMax_le [simp]: "clampMax m \<le> PayloadLimit"
  by (auto simp: clampMax_def)

lemma unat_clampMax: "unat (of_nat (clampMax m) :: u32) = clampMax m"
  using clampMax_le [of m] by (simp add: unat_of_nat PayloadLimit_def)

lemma readHeader_wire:
  "readHeader (wire t p) =
     \<lparr> hdr_Version = Version, hdr_Type = t, hdr_Flags = 0, hdr_Length = of_nat (length p) \<rparr>"
  by (simp add: readHeader_def wire_def put_uint32_def get_put_uint32 get_uint16_def)

subsection \<open>The parser accepts exactly the admissible frames\<close>

lemma Parse_wire:
  assumes "frame_ok (clampMax m) t p"
  shows "Parse (wire t p) m =
    Inr (\<lparr> hdr_Version = Version, hdr_Type = t, hdr_Flags = 0, hdr_Length = of_nat (length p) \<rparr>, p)"
proof -
  have le: "length p \<le> PayloadLimit"
    using assms clampMax_le [of m] by (auto simp: frame_ok_def intro: order_trans)
  have d: "drop HeaderSize (wire t p) = p" by (simp add: wire_def put_uint32_def HeaderSize_def)
  have nle: "\<not> (of_nat (length p) :: u32) > of_nat (clampMax m)"
    using assms by (simp add: word_less_nat_alt unat_clampMax unat_payload_length [OF le] frame_ok_def)
  show ?thesis
    using assms nle
    by (auto simp: Parse_def Let_def readHeader_wire d unat_payload_length [OF le] frame_ok_def)
qed

lemma readHeader_eq_wire:
  assumes "HeaderSize \<le> length msg" and "hdr_Version (readHeader msg) = Version"
    and "hdr_Flags (readHeader msg) = 0"
    and "unat (hdr_Length (readHeader msg)) = length msg - HeaderSize"
  shows "msg = wire (hdr_Type (readHeader msg)) (drop HeaderSize msg)"
proof -
  obtain a b c d e f g h ys where msg: "msg = a # b # c # d # e # f # g # h # ys"
    using eight_cons assms(1) by (metis HeaderSize_def)
  have "put_uint16 (get_uint16 c d) = put_uint16 0"
    using assms(3) by (simp add: msg readHeader_def)
  then have cd: "c = 0" "d = 0" by (simp_all only: put_get_uint16) (simp_all add: put_uint16_def)
  have "unat (get_uint32 e f g h) = length ys"
    using assms(4) by (simp add: msg readHeader_def HeaderSize_def)
  then have "get_uint32 e f g h = of_nat (length ys)" by (rule word_of_unat)
  then have "put_uint32 (of_nat (length ys)) = [e, f, g, h]" by (metis put_get_uint32)
  with assms(2) cd show ?thesis by (simp add: msg wire_def readHeader_def HeaderSize_def)
qed

lemma Parse_sound:
  assumes "Parse msg m = Inr (hdr, p)"
  shows "msg = wire (hdr_Type hdr) p \<and> frame_ok (clampMax m) (hdr_Type hdr) p \<and>
    hdr = \<lparr> hdr_Version = Version, hdr_Type = hdr_Type hdr, hdr_Flags = 0,
            hdr_Length = of_nat (length p) \<rparr>"
proof -
  let ?h = "readHeader msg"
  from assms have hs: "HeaderSize \<le> length msg" and v: "hdr_Version ?h = Version"
    and ty: "Type_valid (hdr_Type ?h)" and fl: "hdr_Flags ?h = 0"
    and mx: "\<not> hdr_Length ?h > of_nat (clampMax m)"
    and ln: "unat (hdr_Length ?h) = length msg - HeaderSize"
    and p: "p = drop HeaderSize msg" and hdr: "hdr = ?h"
    and pp: "hdr_Type ?h = TypePing \<or> hdr_Type ?h = TypePong \<longrightarrow> length p = PingSize"
    and cl: "hdr_Type ?h = TypeClose \<longrightarrow> 2 \<le> length p"
    by (auto simp: Parse_def Let_def TypePing_def TypePong_def TypeClose_def split: if_splits)
  have "length p \<le> clampMax m"
    using mx ln p by (simp add: word_less_nat_alt unat_clampMax)
  then have "frame_ok (clampMax m) (hdr_Type ?h) p" using ty pp cl by (simp add: frame_ok_def)
  moreover have "msg = wire (hdr_Type ?h) p"
    using readHeader_eq_wire [OF hs v fl ln] p by simp
  moreover have "hdr_Length ?h = of_nat (length p)"
    by (rule word_of_unat) (use ln p in simp)
  ultimately show ?thesis using v fl hdr by simp
qed

lemma Parse_error: "Parse msg m = Inl e \<Longrightarrow> e = frame_violation"
  by (auto simp: Parse_def Let_def split: if_splits)

subsection \<open>Close bodies: the cut reason\<close>

lemma EncodeClose_eq:
  "EncodeClose code reason = put_uint16 code @ bytes_of_string
     (if length reason > MaxCloseReason then cutInvalid (take MaxCloseReason reason) else reason)"
  by (simp add: EncodeClose_def Let_def go_copy_fits)

lemma cutInvalid_prefix: "\<exists>k. cutInvalid r = take k r"
proof (induction r rule: cutInvalid.induct)
  case (1 r)
  show ?case
  proof (cases "r \<noteq> [] \<and> \<not> utf8_valid (bytes_of_string r)")
    case True
    then obtain k where "cutInvalid (butlast r) = take k (butlast r)" using 1 by blast
    then show ?thesis using True
      by (subst cutInvalid.simps) (auto simp: butlast_conv_take min_def)
  next
    case False
    then have "cutInvalid r = take (length r) r" by (subst cutInvalid.simps) auto
    then show ?thesis by blast
  qed
qed

lemma cutInvalid_valid: "utf8_valid (bytes_of_string (cutInvalid r))"
proof (induction r rule: cutInvalid.induct)
  case (1 r)
  then show ?case by (subst cutInvalid.simps) (auto simp: bytes_of_string_def)
qed

text \<open>The loop stops at the longest valid prefix.\<close>

lemma cutInvalid_longest:
  "m \<le> length r \<Longrightarrow> utf8_valid (bytes_of_string (take m r)) \<Longrightarrow> m \<le> length (cutInvalid r)"
proof (induction r rule: cutInvalid.induct)
  case (1 r)
  show ?case
  proof (cases "r \<noteq> [] \<and> \<not> utf8_valid (bytes_of_string r)")
    case True
    then have "m \<noteq> length r" using "1.prems" by auto
    then have "m \<le> length (butlast r)" "take m (butlast r) = take m r"
      using "1.prems"(1) by (simp_all add: take_butlast)
    then have "m \<le> length (cutInvalid (butlast r))" using 1 True by simp
    then show ?thesis using True by (subst cutInvalid.simps) simp
  next
    case False
    then show ?thesis using "1.prems" by (subst cutInvalid.simps) auto
  qed
qed

text \<open>The reason a close frame carries: the whole reason, or its cut.\<close>

definition sentReason :: "string \<Rightarrow> string" where
  "sentReason reason =
     (if length reason > MaxCloseReason then cutInvalid (take MaxCloseReason reason) else reason)"

lemma length_sentReason: "length (sentReason r) \<le> MaxCloseReason"
  using cutInvalid_prefix [of "take MaxCloseReason r"] by (auto simp: sentReason_def)

lemma sentReason_prefix: "\<exists>k. sentReason r = take k r"
  using cutInvalid_prefix [of "take MaxCloseReason r"]
  by (auto simp: sentReason_def intro: exI [of _ "length r"])

lemma sentReason_valid:
  "utf8_valid (bytes_of_string r) \<Longrightarrow> utf8_valid (bytes_of_string (sentReason r))"
  by (simp add: sentReason_def cutInvalid_valid)

lemma sentReason_cut:
  assumes "utf8_valid (bytes_of_string r)" and "length r > MaxCloseReason"
  shows "MaxCloseReason \<le> length (sentReason r) + 3"
proof -
  obtain m where m: "m \<le> MaxCloseReason" "MaxCloseReason \<le> m + 3"
    "utf8_valid (take m (bytes_of_string r))"
    using utf8_valid_cut [OF assms(1), of MaxCloseReason] assms(2) by auto
  then have "utf8_valid (bytes_of_string (take m (take MaxCloseReason r)))"
    by (simp add: take_bytes_of_string min_def)
  then have "m \<le> length (cutInvalid (take MaxCloseReason r))"
    using m assms(2) by (intro cutInvalid_longest) simp_all
  then show ?thesis using assms(2) m by (simp add: sentReason_def)
qed

lemma ParseClose_EncodeClose:
  assumes "utf8_valid (bytes_of_string r)"
  shows "ParseClose (EncodeClose code r) = Inr \<lparr> close_Code = code, close_Reason = sentReason r \<rparr>"
proof -
  have e: "EncodeClose code r = put_uint16 code @ bytes_of_string (sentReason r)"
    by (simp add: EncodeClose_eq sentReason_def)
  show ?thesis
    using length_sentReason [of r] sentReason_valid [OF assms]
    by (simp add: ParseClose_def e put_uint16_def get_put_uint16)
qed

subsection \<open>Properties\<close>

text \<open>C5: \<open>Parse\<close> accepts a message if and only if it is the wire encoding of an admissible
  frame (known type, zero flags, a payload within the clamped limit that fits its type), and
  then returns exactly that frame's header and payload. In particular a message has at most
  one decoding, and no shorter, longer or differently flagged message is accepted.\<close>

theorem parse_accepts_exactly:
  "Parse msg m = Inr (hdr, p) \<longleftrightarrow>
     msg = wire (hdr_Type hdr) p \<and> frame_ok (clampMax m) (hdr_Type hdr) p \<and>
     hdr = \<lparr> hdr_Version = Version, hdr_Type = hdr_Type hdr, hdr_Flags = 0,
             hdr_Length = of_nat (length p) \<rparr>"
proof
  assume "Parse msg m = Inr (hdr, p)"
  then show "msg = wire (hdr_Type hdr) p \<and> frame_ok (clampMax m) (hdr_Type hdr) p \<and>
      hdr = \<lparr> hdr_Version = Version, hdr_Type = hdr_Type hdr, hdr_Flags = 0,
              hdr_Length = of_nat (length p) \<rparr>"
    by (rule Parse_sound)
next
  assume a: "msg = wire (hdr_Type hdr) p \<and> frame_ok (clampMax m) (hdr_Type hdr) p \<and>
      hdr = \<lparr> hdr_Version = Version, hdr_Type = hdr_Type hdr, hdr_Flags = 0,
              hdr_Length = of_nat (length p) \<rparr>"
  then have "Parse msg m = Inr (\<lparr> hdr_Version = Version, hdr_Type = hdr_Type hdr,
      hdr_Flags = 0, hdr_Length = of_nat (length p) \<rparr>, p)"
    using Parse_wire by simp
  with a show "Parse msg m = Inr (hdr, p)" by (metis)
qed

text \<open>C6: for every admissible frame and every destination with room, \<open>Encode\<close> and
  \<open>Append\<close> produce the same bytes, and parsing those bytes gives the frame back.\<close>

theorem encode_append_parse_roundtrip:
  assumes "frame_ok (clampMax m) t p" and "HeaderSize + length p \<le> length dst"
  shows "\<exists>frame. Encode dst t p = Inr frame \<and> Append pre t p = Inr (pre @ frame) \<and>
    Parse frame m = Inr (\<lparr> hdr_Version = Version, hdr_Type = t, hdr_Flags = 0,
                           hdr_Length = of_nat (length p) \<rparr>, p)"
proof -
  have "length p \<le> PayloadLimit"
    using assms(1) clampMax_le [of m] by (auto simp: frame_ok_def intro: order_trans)
  then show ?thesis using Encode_wire assms Append_wire Parse_wire by blast
qed

theorem encode_append_parse_roundtrip_witness:
  "\<exists>frame. Encode (replicate 16 0) TypeData [7, 8, 9] = Inr frame \<and>
    Append [1] TypeData [7, 8, 9] = Inr ([1] @ frame) \<and>
    Parse frame 16384 = Inr (\<lparr> hdr_Version = Version, hdr_Type = TypeData, hdr_Flags = 0,
                           hdr_Length = of_nat (length ([7, 8, 9] :: bytes)) \<rparr>, [7, 8, 9])"
proof (rule encode_append_parse_roundtrip)
  show "frame_ok (clampMax 16384) TypeData [7, 8, 9]"
    by (simp add: frame_ok_def clampMax_def Type_valid_def frame_consts)
  show "HeaderSize + length ([7, 8, 9] :: bytes) \<le> length (replicate 16 (0 :: byte))"
    by (simp add: HeaderSize_def)
qed

text \<open>C7: a close reason that is valid UTF-8 survives the wire: the peer decodes the same code
  and a prefix of the reason that is itself valid, that is the whole reason when it fits in
  \<open>MaxCloseReason\<close> bytes, and that loses no more than one incomplete rune (at most three
  bytes below the limit) otherwise.\<close>

theorem close_reason_roundtrip:
  assumes "utf8_valid (bytes_of_string r)"
  shows "\<exists>r' k. ParseClose (EncodeClose code r) = Inr \<lparr> close_Code = code, close_Reason = r' \<rparr> \<and>
    r' = take k r \<and> utf8_valid (bytes_of_string r') \<and>
    (if length r \<le> MaxCloseReason then r' = r
     else MaxCloseReason - 3 \<le> length r' \<and> length r' \<le> MaxCloseReason)"
proof -
  obtain k where "sentReason r = take k r" using sentReason_prefix by blast
  moreover have "length r \<le> MaxCloseReason \<Longrightarrow> sentReason r = r" by (simp add: sentReason_def)
  moreover have "\<not> length r \<le> MaxCloseReason \<Longrightarrow> MaxCloseReason - 3 \<le> length (sentReason r)"
    using sentReason_cut [OF assms] by simp
  ultimately show ?thesis
    using ParseClose_EncodeClose [OF assms] sentReason_valid [OF assms] length_sentReason [of r]
    by (intro exI [of _ "sentReason r"] exI [of _ k]) auto
qed

theorem close_reason_roundtrip_witness:
  "\<exists>r' k. ParseClose (EncodeClose 3 ''bye'') = Inr \<lparr> close_Code = 3, close_Reason = r' \<rparr> \<and>
    r' = take k ''bye'' \<and> utf8_valid (bytes_of_string r') \<and>
    (if length ''bye'' \<le> MaxCloseReason then r' = ''bye''
     else MaxCloseReason - 3 \<le> length r' \<and> length r' \<le> MaxCloseReason)"
proof (rule close_reason_roundtrip)
  show "utf8_valid (bytes_of_string ''bye'')"
    by (rule utf8_valid_ascii) (simp add: bytes_of_string_def byte_of_char_def)
qed

end
