(* ===== verification/Stream.thy ===== *)
theory Stream
  imports Frame "HOL-Library.Sublist"
begin

text \<open>
  The byte stream over one DataChannel (\<^verbatim>\<open>internal/frame/stream.go\<close>). The state
  record holds the fields of \<open>Stream\<close>; goroutines are interleaved through a step
  relation whose steps are the critical sections of the code.

  \<^item> Receive buffers are modelled as an explicit store (\<open>s_heap\<close>, addressed by
    buffer number), because the read loop, the queue, the reader and the free list hand the
    same arrays to each other; slices are a buffer number with bounds.
  \<^item> A \<open>select\<close> with several ready cases may take any of them: an operation with a
    \<open>select\<close> returns the list of its possible outcomes, and an empty list means that the
    call stays blocked.
  \<^item> The detached channel, the pion deadline timers, the random source and the clock are
    not part of the repository: their results (\<open>chres\<close>, \<open>expired\<close>, messages and
    errors read, \<open>now\<close>) are arguments of the operations.
  \<^item> \<open>localOnce\<close> and \<open>termOnce\<close> are done exactly when \<open>closed\<close> and
    \<open>term\<close> are closed, so the flags stand for both; the write semaphore is held exactly
    while \<open>s_wjob\<close> is set, the other holders release it within one step.
  \<^item> The fields \<open>s_sent\<close>, \<open>s_committed\<close>, \<open>s_rx\<close> and \<open>s_out\<close> are
    history: the messages the channel accepted, the application bytes counted by
    \<open>Write\<close>, the frames the read loop decoded and the bytes \<open>Read\<close> returned. No
    operation reads them.
\<close>

subsection \<open>State\<close>

type_synonym time = "int option"

definition controlWriteTimeout :: int where "controlWriteTimeout = 5 * 10 ^ 9"
definition drainTimeout :: int where "drainTimeout = 2 * 10 ^ 9"

record pendingPing =
  pp_id :: nat
  pp_nonce :: bytes
  pp_sent :: int

datatype rlpc = RLRead | RLSend nat | RLPong bytes | RLExit

datatype relpc = RelIdle | RelWaitDone | RelDraining | RelClosing | RelDone

record stream =
  s_maxPayload :: nat
  s_depth :: nat
  s_wjob :: "(bytes \<times> nat) option"
  s_readDl :: time
  s_wall :: time
  s_chWall :: time
  s_wbuf :: bytes
  s_heap :: "nat \<Rightarrow> bytes"
  s_next :: nat
  s_dataCh :: "(nat \<times> nat) list"
  s_cur :: "(nat \<times> nat \<times> nat) option"
  s_free :: "nat list"
  s_buf :: nat
  s_pc :: rlpc
  s_closed :: bool
  s_term :: bool
  s_dataClosed :: bool
  s_done :: bool
  s_released :: bool
  s_rel :: relpc
  s_readErr :: "gerror option"
  s_remoteClose :: "CloseInfo option"
  s_pending :: "pendingPing option"
  s_pingId :: nat
  s_replies :: "nat \<Rightarrow> int option"
  s_bytesRead :: u64
  s_bytesWritten :: u64
  s_framesRead :: u64
  s_framesWritten :: u64
  s_droppedPongs :: u64
  s_sent :: "bytes list"
  s_committed :: bytes
  s_rx :: "bytes list"
  s_out :: bytes

record Stats =
  BytesRead :: u64
  BytesWritten :: u64
  FramesRead :: u64
  FramesWritten :: u64
  DroppedPongs :: u64

text \<open>
  The result of one \<open>SetWriteDeadline\<close>/\<open>Write\<close> pair on the channel: the error of
  setting the deadline, the bytes reported written, the error of the write.
\<close>

type_synonym chres = "gerror option \<times> nat \<times> gerror option"

definition bufSize :: "stream \<Rightarrow> nat" where
  "bufSize s = HeaderSize + s_maxPayload s"

definition streamMaxPayload :: "int \<Rightarrow> nat" where
  "streamMaxPayload m =
     (let m = (if m \<le> 0 then 16384 else m)
      in if m > int PayloadLimit then PayloadLimit else nat m)"

definition streamDepth :: "int \<Rightarrow> nat \<Rightarrow> nat" where
  "streamDepth readBuffer maxPayload =
     (let b = (if readBuffer \<le> 0 then 1048576 else nat readBuffer);
          d = b div maxPayload
      in if d < 1 then 1 else d)"

text \<open>\<open>NewStream\<close>; its read loop starts by taking a fresh buffer.\<close>

definition NewStream :: "int \<Rightarrow> int \<Rightarrow> stream" where
  "NewStream maxPayload readBuffer =
     (let mp = streamMaxPayload maxPayload in
      \<lparr> s_maxPayload = mp, s_depth = streamDepth readBuffer mp, s_wjob = None,
        s_readDl = None, s_wall = None, s_chWall = None,
        s_wbuf = replicate (HeaderSize + mp) 0,
        s_heap = (\<lambda>_. replicate (HeaderSize + mp) 0), s_next = 1,
        s_dataCh = [], s_cur = None, s_free = [], s_buf = 0, s_pc = RLRead,
        s_closed = False, s_term = False, s_dataClosed = False, s_done = False,
        s_released = False, s_rel = RelIdle, s_readErr = None, s_remoteClose = None,
        s_pending = None, s_pingId = 0, s_replies = (\<lambda>_. None),
        s_bytesRead = 0, s_bytesWritten = 0, s_framesRead = 0, s_framesWritten = 0,
        s_droppedPongs = 0, s_sent = [], s_committed = [], s_rx = [], s_out = [] \<rparr>)"

subsection \<open>Buffers, errors and counters\<close>

definition getBuf :: "stream \<Rightarrow> nat \<times> stream" where
  "getBuf s =
     (case s_free s of
        b # bs \<Rightarrow> (b, s\<lparr>s_free := bs\<rparr>)
      | [] \<Rightarrow> (s_next s,
          s\<lparr>s_next := s_next s + 1, s_heap := (s_heap s)(s_next s := replicate (bufSize s) 0)\<rparr>))"

definition putBuf :: "stream \<Rightarrow> nat \<Rightarrow> stream" where
  "putBuf s b =
     (if length (s_heap s b) < bufSize s then s
      else if length (s_free s) < s_depth s + 2 then s\<lparr>s_free := s_free s @ [b]\<rparr>
      else s)"

definition setReadErr :: "stream \<Rightarrow> gerror \<Rightarrow> stream" where
  "setReadErr s e = (case s_readErr s of None \<Rightarrow> s\<lparr>s_readErr := Some e\<rparr> | Some _ \<Rightarrow> s)"

definition terminalErr :: "stream \<Rightarrow> gerror" where
  "terminalErr s = (case s_readErr s of Some e \<Rightarrow> e | None \<Rightarrow> Sentinel EOF)"

definition writeTerminalErr :: "stream \<Rightarrow> gerror" where
  "writeTerminalErr s =
     (if errors_Is (terminalErr s) EOF then Sentinel ErrClosed else terminalErr s)"

definition writable :: "stream \<Rightarrow> gerror option" where
  "writable s =
     (if s_closed s then Some (Sentinel ErrClosed)
      else if s_term s \<or> s_done s then Some (writeTerminalErr s)
      else None)"

definition mapWriteErr :: "stream \<Rightarrow> gerror \<Rightarrow> gerror" where
  "mapWriteErr s err =
     (if s_closed s then Sentinel ErrClosed
      else if s_term s then writeTerminalErr s
      else if isTimeout err then Sentinel ErrDeadlineExceeded
      else err)"

definition classifyReadErr :: "stream \<Rightarrow> gerror \<Rightarrow> gerror" where
  "classifyReadErr s err =
     (if s_term s then Sentinel ErrClosed
      else if errors_Is err EOF \<or> errors_Is err ErrClosedPipe then Sentinel EOF
      else if errors_Is err ErrShortBuffer then frame_violation
      else err)"

definition Stream_Stats :: "stream \<Rightarrow> Stats" where
  "Stream_Stats s =
     \<lparr> BytesRead = s_bytesRead s, BytesWritten = s_bytesWritten s,
       FramesRead = s_framesRead s, FramesWritten = s_framesWritten s,
       DroppedPongs = s_droppedPongs s \<rparr>"

subsection \<open>Read\<close>

datatype rdres = RdOk bytes | RdErr gerror

definition slice :: "stream \<Rightarrow> nat \<times> nat \<times> nat \<Rightarrow> bytes" where
  "slice s c = (case c of (b, i, j) \<Rightarrow> take (j - i) (drop i (s_heap s b)))"

definition curBytes :: "stream \<Rightarrow> bytes" where
  "curBytes s = (case s_cur s of None \<Rightarrow> [] | Some c \<Rightarrow> slice s c)"

text \<open>\<open>take\<close>: the message \<open>buf[:n]\<close> becomes the current payload \<open>buf[HeaderSize:n]\<close>.\<close>

definition takeMsg :: "stream \<Rightarrow> nat \<times> nat \<Rightarrow> stream" where
  "takeMsg s m = s\<lparr>s_cur := Some (fst m, HeaderSize, snd m)\<rparr>"

text \<open>The tail of \<open>Read\<close>: copy, advance, and recycle the buffer once it is consumed.\<close>

definition readCopy :: "stream \<Rightarrow> nat \<Rightarrow> rdres \<times> stream" where
  "readCopy s len =
     (case s_cur s of
        None \<Rightarrow> (RdOk [], s)
      | Some (b, i, j) \<Rightarrow>
          let out = take len (slice s (b, i, j));
              n = length out;
              s1 = s\<lparr>s_cur := Some (b, i + n, j),
                     s_bytesRead := s_bytesRead s + of_nat n, s_out := s_out s @ out\<rparr>
          in (RdOk out, if curBytes s1 = [] then (putBuf s1 b)\<lparr>s_cur := None\<rparr> else s1))"

fun readBody :: "(nat \<times> nat) list \<Rightarrow> stream \<Rightarrow> bool \<Rightarrow> nat \<Rightarrow> (rdres \<times> stream) list" where
  "readBody q s expired len =
     (if curBytes s \<noteq> [] then [readCopy s len]
      else if s_closed s then [(RdErr (Sentinel ErrClosed), s)]
      else case q of
        m # q' \<Rightarrow> readBody q' (takeMsg (s\<lparr>s_dataCh := q'\<rparr>) m) expired len
      | [] \<Rightarrow>
          if s_dataClosed s then [(RdErr (terminalErr s), s)]
          else if expired then [(RdErr (Sentinel ErrDeadlineExceeded), s)] else [])"

definition Read :: "stream \<Rightarrow> bool \<Rightarrow> nat \<Rightarrow> (rdres \<times> stream) list" where
  "Read s expired len =
     (if len = 0 then [(RdOk [], s)]
      else readBody (s_dataCh s) s expired len
        @ (if s_closed s then [(RdErr (Sentinel ErrClosed), s)] else [])
        @ (if expired then [(RdErr (Sentinel ErrDeadlineExceeded), s)] else []))"

declare readBody.simps [simp del]

subsection \<open>Write\<close>

definition writeMessage :: "stream \<Rightarrow> bytes \<Rightarrow> time \<Rightarrow> chres \<Rightarrow> gerror option \<times> stream" where
  "writeMessage s msg dl cr =
     (let s = s\<lparr>s_chWall := dl\<rparr> in
      case cr of
        (Some e, _, _) \<Rightarrow> (Some e, s)
      | (None, _, Some e) \<Rightarrow> (Some (mapWriteErr s e), s)
      | (None, n, None) \<Rightarrow>
          if n \<noteq> length msg then (Some (Wrap (Sentinel ErrShortWrite)), s)
          else (None, s\<lparr>s_framesWritten := s_framesWritten s + 1, s_sent := s_sent s @ [msg]\<rparr>))"

text \<open>A finished \<open>Write\<close> reports its count and error; \<open>None\<close> is still in progress.\<close>

type_synonym wrres = "(nat \<times> gerror option) option"

definition writeBegin :: "stream \<Rightarrow> bool \<Rightarrow> bytes \<Rightarrow> (wrres \<times> stream) list" where
  "writeBegin s expired p =
     (if p = [] then
        (case writable s of Some e \<Rightarrow> [(Some (0, Some e), s)] | None \<Rightarrow> [(Some (0, None), s)])
      else
        (if s_wjob s = None then
           (case writable s of
              Some e \<Rightarrow> [(Some (0, Some e), s)]
            | None \<Rightarrow> [(None, s\<lparr>s_wjob := Some (p, 0)\<rparr>)])
         else [])
        @ (if s_closed s then [(Some (0, Some (Sentinel ErrClosed)), s)] else [])
        @ (if s_term s then [(Some (0, Some (writeTerminalErr s)), s)] else [])
        @ (if expired then [(Some (0, Some (Sentinel ErrDeadlineExceeded)), s)] else []))"

text \<open>One iteration of the frame loop of \<open>Write\<close>, for the write that holds the lock.\<close>

definition writeFrame :: "stream \<Rightarrow> chres \<Rightarrow> wrres \<times> stream" where
  "writeFrame s cr =
     (case s_wjob s of
        None \<Rightarrow> (None, s)
      | Some (p, written) \<Rightarrow>
          let chunk = (if length p > s_maxPayload s then take (s_maxPayload s) p else p) in
          (case Encode (s_wbuf s) TypeData chunk of
             Inl e \<Rightarrow> (Some (written, Some e), s\<lparr>s_wjob := None\<rparr>)
           | Inr msg \<Rightarrow>
               let s = s\<lparr>s_wbuf := msg @ drop (length msg) (s_wbuf s)\<rparr> in
               (case writeMessage s msg (s_wall s) cr of
                  (Some e, s) \<Rightarrow> (Some (written, Some e), s\<lparr>s_wjob := None\<rparr>)
                | (None, s) \<Rightarrow>
                    let written = written + length chunk;
                        p = drop (length chunk) p;
                        s = s\<lparr>s_bytesWritten := s_bytesWritten s + of_nat (length chunk),
                              s_committed := s_committed s @ chunk\<rparr>
                    in if p = [] then (Some (written, None), s\<lparr>s_wjob := None\<rparr>)
                       else (None, s\<lparr>s_wjob := Some (p, written)\<rparr>))))"

text \<open>The loop itself, driven by the channel results it meets.\<close>

fun writeRun :: "stream \<Rightarrow> chres list \<Rightarrow> wrres \<times> stream" where
  "writeRun s [] = (None, s)"
| "writeRun s (cr # crs) =
     (case writeFrame s cr of (Some r, s') \<Rightarrow> (Some r, s') | (None, s') \<Rightarrow> writeRun s' crs)"

subsection \<open>Control frames and probes\<close>

definition writeControl :: "stream \<Rightarrow> byte \<Rightarrow> bytes \<Rightarrow> int \<Rightarrow> chres \<Rightarrow> (gerror option \<times> stream) list" where
  "writeControl s t payload now cr =
     (if s_wjob s = None then
        (case Encode (replicate (HeaderSize + length payload) 0) t payload of
           Inl e \<Rightarrow> [(Some e, s\<lparr>s_chWall := s_wall s\<rparr>)]
         | Inr msg \<Rightarrow>
             (case writeMessage s msg (Some (now + controlWriteTimeout)) cr of
                (r, s') \<Rightarrow> [(r, s'\<lparr>s_chWall := s_wall s'\<rparr>)]))
      else [(Some (Sentinel ErrControlBusy), s)])
     @ (if s_closed s then [(Some (Sentinel ErrClosed), s)] else [])
     @ (if s_term s then [(Some (Sentinel ErrClosed), s)] else [])"

text \<open>The deferred part of \<open>Ping\<close>: forget the probe if it is still ours.\<close>

definition clearPing :: "stream \<Rightarrow> nat \<Rightarrow> stream" where
  "clearPing s i =
     (case s_pending s of
        Some p \<Rightarrow> if pp_id p = i then s\<lparr>s_pending := None\<rparr> else s
      | None \<Rightarrow> s)"

text \<open>\<open>Ping\<close> up to its wait: \<open>Inl e\<close> is an early return, \<open>Inr i\<close> the outstanding probe.\<close>

definition pingBegin :: "stream \<Rightarrow> gerror + bytes \<Rightarrow> int \<Rightarrow> chres \<Rightarrow> ((gerror + nat) \<times> stream) list" where
  "pingBegin s rnd now cr =
     (case rnd of
        Inl e \<Rightarrow> [(Inl e, s)]
      | Inr nonce \<Rightarrow>
          (case s_pending s of
             Some _ \<Rightarrow> [(Inl (Sentinel ErrPingOutstanding), s)]
           | None \<Rightarrow>
               let i = s_pingId s;
                   s1 = s\<lparr>s_pingId := i + 1,
                          s_pending := Some \<lparr>pp_id = i, pp_nonce = nonce, pp_sent = now\<rparr>\<rparr>
               in map (\<lambda>(r, s'). case r of
                         Some e \<Rightarrow> (Inl e, clearPing s' i)
                       | None \<Rightarrow> (Inr i, s'))
                    (writeControl s1 TypePing nonce now cr)))"

definition pingWait :: "stream \<Rightarrow> nat \<Rightarrow> gerror option \<Rightarrow> ((gerror + int) \<times> stream) list" where
  "pingWait s i ctxErr =
     (case s_replies s i of Some rtt \<Rightarrow> [(Inr rtt, clearPing s i)] | None \<Rightarrow> [])
     @ (case ctxErr of Some e \<Rightarrow> [(Inl e, clearPing s i)] | None \<Rightarrow> [])
     @ (if s_closed s then [(Inl (Sentinel ErrClosed), clearPing s i)] else [])
     @ (if s_term s then [(Inl (writeTerminalErr s), clearPing s i)] else [])"

definition deliverPong :: "stream \<Rightarrow> bytes \<Rightarrow> int \<Rightarrow> stream" where
  "deliverPong s payload now =
     (case s_pending s of
        None \<Rightarrow> s
      | Some p \<Rightarrow>
          if pp_nonce p \<noteq> payload then s
          else s\<lparr>s_pending := None,
                 s_replies := (case s_replies s (pp_id p) of
                    None \<Rightarrow> (s_replies s)(pp_id p \<mapsto> now - pp_sent p)
                  | Some _ \<Rightarrow> s_replies s)\<rparr>)"

subsection \<open>Deadlines\<close>

definition SetReadDeadline :: "stream \<Rightarrow> time \<Rightarrow> gerror option \<times> stream" where
  "SetReadDeadline s t =
     (if s_closed s then (Some (Sentinel ErrClosed), s) else (None, s\<lparr>s_readDl := t\<rparr>))"

definition SetWriteDeadline :: "stream \<Rightarrow> time \<Rightarrow> gerror option \<Rightarrow> gerror option \<times> stream" where
  "SetWriteDeadline s t chErr =
     (if s_closed s then (Some (Sentinel ErrClosed), s)
      else (chErr, s\<lparr>s_wall := t, s_chWall := t\<rparr>))"

definition SetDeadline :: "stream \<Rightarrow> time \<Rightarrow> gerror option \<Rightarrow> gerror option \<times> stream" where
  "SetDeadline s t chErr =
     (case SetReadDeadline s t of
        (Some e, s') \<Rightarrow> (Some e, s')
      | (None, s') \<Rightarrow> SetWriteDeadline s' t chErr)"

subsection \<open>Close and shutdown\<close>

definition sendCloseFrame :: "stream \<Rightarrow> u16 \<Rightarrow> string \<Rightarrow> int \<Rightarrow> chres \<Rightarrow> stream" where
  "sendCloseFrame s code reason now cr =
     (if s_wjob s \<noteq> None then s
      else
        let body = EncodeClose code reason in
        (case Encode (replicate (HeaderSize + length body) 0) TypeClose body of
           Inl _ \<Rightarrow> s
         | Inr msg \<Rightarrow> snd (writeMessage s msg (Some (now + controlWriteTimeout)) cr)))"

definition terminate :: "stream \<Rightarrow> u16 \<Rightarrow> string \<Rightarrow> bool \<Rightarrow> int \<Rightarrow> chres \<Rightarrow> stream" where
  "terminate s code reason local now cr =
     (let drain = (local \<and> s_readErr s = None);
          s = (if local \<and> \<not> s_closed s
               then (setReadErr s (Sentinel ErrClosed))\<lparr>s_closed := True\<rparr> else s)
      in if s_term s then s
         else
           let s = sendCloseFrame s code reason now cr;
               s = (if \<not> local then setReadErr s (Sentinel EOF) else s)
           in s\<lparr>s_term := True, s_rel := (if drain then RelWaitDone else RelClosing)\<rparr>)"

definition CloseWith :: "stream \<Rightarrow> u16 \<Rightarrow> string \<Rightarrow> int \<Rightarrow> chres \<Rightarrow> stream" where
  "CloseWith s code reason now cr = terminate s code reason True now cr"

definition Stream_Close :: "stream \<Rightarrow> int \<Rightarrow> chres \<Rightarrow> stream" where
  "Stream_Close s now cr = CloseWith s FrameCloseNormal [] now cr"

definition Shutdown :: "stream \<Rightarrow> u16 \<Rightarrow> string \<Rightarrow> int \<Rightarrow> chres \<Rightarrow> stream" where
  "Shutdown s code reason now cr = terminate s code reason False now cr"

definition ShutdownEOF :: "stream \<Rightarrow> u16 \<Rightarrow> string \<Rightarrow> int \<Rightarrow> chres \<Rightarrow> stream" where
  "ShutdownEOF s code reason now cr =
     terminate (s\<lparr>s_readErr := Some (Sentinel EOF)\<rparr>) code reason False now cr"

text \<open>
  \<open>awaitAcks\<close>: \<open>ba\<close> says whether the channel reports its buffered amount; each element
  of \<open>iters\<close> is what one turn of the loop meets: the buffered amount, the current time
  and the outcome of the short read. \<open>None\<close> means that the loop is still running.
\<close>

fun awaitLoop :: "stream \<Rightarrow> nat \<Rightarrow> int \<Rightarrow> (nat \<times> int \<times> (gerror + bytes)) list \<Rightarrow> stream option" where
  "awaitLoop s b deadline [] = None"
| "awaitLoop s b deadline ((amount, now, r) # iters) =
     (if amount > 0 \<and> now < deadline then
        (case r of
           Inl e \<Rightarrow> if \<not> isTimeout e then Some s else awaitLoop s b deadline iters
         | Inr d \<Rightarrow> awaitLoop (s\<lparr>s_heap := (s_heap s)(b := go_copy (s_heap s b) 0 d)\<rparr>)
                      b deadline iters)
      else Some s)"

definition awaitAcks :: "stream \<Rightarrow> bool \<Rightarrow> int \<Rightarrow> (nat \<times> int \<times> (gerror + bytes)) list \<Rightarrow> stream option" where
  "awaitAcks s ba start iters =
     (if \<not> ba then Some s
      else case getBuf s of
        (b, s1) \<Rightarrow> map_option (\<lambda>s2. putBuf s2 b) (awaitLoop s1 b (start + drainTimeout) iters))"

text \<open>\<open>release\<close>: wait for the read loop, drain, close the channel, signal \<open>released\<close>.\<close>

definition releaseWait :: "stream \<Rightarrow> stream" where
  "releaseWait s =
     (if s_rel s = RelWaitDone \<and> s_done s then s\<lparr>s_rel := RelDraining\<rparr> else s)"

definition releaseDrain :: "stream \<Rightarrow> bool \<Rightarrow> int \<Rightarrow> (nat \<times> int \<times> (gerror + bytes)) list \<Rightarrow> stream" where
  "releaseDrain s ba start iters =
     (if s_rel s = RelDraining
      then (case awaitAcks s ba start iters of None \<Rightarrow> s | Some s' \<Rightarrow> s'\<lparr>s_rel := RelClosing\<rparr>)
      else s)"

definition releaseClose :: "stream \<Rightarrow> stream" where
  "releaseClose s =
     (if s_rel s = RelClosing then s\<lparr>s_rel := RelDone, s_released := True\<rparr> else s)"

subsection \<open>The read loop\<close>

definition rlExit :: "stream \<Rightarrow> stream" where
  "rlExit s = s\<lparr>s_pc := RLExit, s_dataClosed := True, s_done := True\<rparr>"

text \<open>One \<open>ch.Read\<close> and the dispatch on the frame it returned.\<close>

definition rlRead :: "stream \<Rightarrow> gerror + bytes \<Rightarrow> int \<Rightarrow> stream" where
  "rlRead s r now =
     (case r of
        Inl err \<Rightarrow> rlExit (setReadErr s (classifyReadErr s err))
      | Inr m \<Rightarrow>
          let b = s_buf s;
              s = s\<lparr>s_heap := (s_heap s)(b := go_copy (s_heap s b) 0 m)\<rparr>;
              n = min (length m) (length (s_heap s b));
              msg = take n (s_heap s b)
          in case Parse msg (int (s_maxPayload s)) of
               Inl err \<Rightarrow> rlExit (setReadErr s err)
             | Inr (hdr, payload) \<Rightarrow>
                 let s = s\<lparr>s_framesRead := s_framesRead s + 1, s_rx := s_rx s @ [msg]\<rparr> in
                 if hdr_Type hdr = TypeData then
                   (if payload = [] then s else s\<lparr>s_pc := RLSend n\<rparr>)
                 else if hdr_Type hdr = TypePing then s\<lparr>s_pc := RLPong payload\<rparr>
                 else if hdr_Type hdr = TypePong then deliverPong s payload now
                 else
                   (case ParseClose payload of
                      Inl err \<Rightarrow> rlExit (setReadErr s err)
                    | Inr info \<Rightarrow>
                        rlExit (setReadErr (s\<lparr>s_remoteClose := Some info\<rparr>) (Sentinel EOF))))"

text \<open>The \<open>select\<close> that hands \<open>buf[:n]\<close> to \<open>Read\<close> or gives up on \<open>term\<close>.\<close>

definition rlSend :: "stream \<Rightarrow> stream list" where
  "rlSend s =
     (case s_pc s of
        RLSend n \<Rightarrow>
          (if length (s_dataCh s) < s_depth s then
             (case getBuf (s\<lparr>s_dataCh := s_dataCh s @ [(s_buf s, n)]\<rparr>) of
                (b, s') \<Rightarrow> [s'\<lparr>s_buf := b, s_pc := RLRead\<rparr>])
           else [])
          @ (if s_term s then [rlExit (setReadErr s (Sentinel ErrClosed))] else [])
      | _ \<Rightarrow> [])"

text \<open>Answering a ping.\<close>

definition rlPong :: "stream \<Rightarrow> int \<Rightarrow> chres \<Rightarrow> stream list" where
  "rlPong s now cr =
     (case s_pc s of
        RLPong payload \<Rightarrow>
          map (\<lambda>(r, s'). case r of
                 None \<Rightarrow> s'\<lparr>s_pc := RLRead\<rparr>
               | Some e \<Rightarrow>
                   if errors_Is e ErrControlBusy
                   then s'\<lparr>s_pc := RLRead, s_droppedPongs := s_droppedPongs s' + 1\<rparr>
                   else if errors_Is e ErrClosed then rlExit (setReadErr s' (Sentinel ErrClosed))
                   else rlExit (setReadErr s' e))
            (writeControl s TypePong payload now cr)
      | _ \<Rightarrow> [])"

subsection \<open>The step relation\<close>

text \<open>
  One step of any goroutine. A message the channel delivers fits the read buffer (a longer
  one is reported as \<open>io.ErrShortBuffer\<close> instead).
\<close>

inductive stream_step :: "stream \<Rightarrow> stream \<Rightarrow> bool" where
  st_read: "(r, s') \<in> set (Read s expired len) \<Longrightarrow> stream_step s s'"
| st_writeBegin: "(r, s') \<in> set (writeBegin s expired p) \<Longrightarrow> stream_step s s'"
| st_writeFrame: "s_wjob s \<noteq> None \<Longrightarrow> stream_step s (snd (writeFrame s cr))"
| st_pingBegin: "(r, s') \<in> set (pingBegin s rnd now cr) \<Longrightarrow>
    (\<forall>n. rnd = Inr n \<longrightarrow> length n = PingSize) \<Longrightarrow> stream_step s s'"
| st_pingWait: "(r, s') \<in> set (pingWait s i ctxErr) \<Longrightarrow> stream_step s s'"
| st_setReadDl: "stream_step s (snd (SetReadDeadline s t))"
| st_setWriteDl: "stream_step s (snd (SetWriteDeadline s t e))"
| st_terminate: "stream_step s (terminate s code reason local now cr)"
| st_shutdownEOF: "stream_step s (ShutdownEOF s code reason now cr)"
| st_relWait: "stream_step s (releaseWait s)"
| st_relDrain: "stream_step s (releaseDrain s ba start iters)"
| st_relClose: "stream_step s (releaseClose s)"
| st_rlRead: "s_pc s = RLRead \<Longrightarrow> (\<forall>m. r = Inr m \<longrightarrow> length m \<le> bufSize s) \<Longrightarrow>
    stream_step s (rlRead s r now)"
| st_rlSend: "s' \<in> set (rlSend s) \<Longrightarrow> stream_step s s'"
| st_rlPong: "s' \<in> set (rlPong s now cr) \<Longrightarrow> stream_step s s'"

inductive stream_reach :: "stream \<Rightarrow> bool" where
  reach_new: "stream_reach (NewStream maxPayload readBuffer)"
| reach_step: "stream_reach s \<Longrightarrow> stream_step s s' \<Longrightarrow> stream_reach s'"

end
