(* ===== verification/Json.thy ===== *)
theory Json
  imports Utf8
begin

text \<open>
  The part of \<^verbatim>\<open>encoding/json\<close> the signaling payloads go through. Texts are byte strings.

  \<^item> Decoding: the scanner's grammar with its nesting limit, string unquoting with the repair of
    ill-formed UTF-8 and lone surrogates, and the assignment of object members to struct fields
    (exact name first, then case-folded; \<open>null\<close> leaves a field alone; a type mismatch is an error).
  \<^item> Encoding: string escaping with HTML escaping on, decimal integers, object members in field
    order, absent optional members omitted.
  \<^item> The lemmas show that unquoting inverts escaping on valid UTF-8 and that the parser reads back
    every encoded object.
\<close>

datatype json =
    JNull
  | JBool bool
  | JNum string
  | JStr string
  | JArr "json list"
  | JObj "(string \<times> json) list"

subsection \<open>Strings\<close>

definition code_of :: "char \<Rightarrow> nat" where
  "code_of c = of_char c"

definition full_rune_str :: "string \<Rightarrow> nat" where
  "full_rune_str s = full_rune (bytes_of_string s)"

definition rune_of_str :: "string \<Rightarrow> nat" where
  "rune_of_str s = rune_value (bytes_of_string s)"

text \<open>\<open>utf8.AppendRune\<close> for a rune outside the surrogate range.\<close>

definition utf8_encode :: "nat \<Rightarrow> bytes" where
  "utf8_encode r =
     map of_nat
       (if r < 128 then [r]
        else if r < 2048 then [192 + r div 64, 128 + r mod 64]
        else if r < 65536 then [224 + r div 4096, 128 + (r div 64) mod 64, 128 + r mod 64]
        else [240 + r div 262144, 128 + (r div 4096) mod 64, 128 + (r div 64) mod 64, 128 + r mod 64])"

definition rune_str :: "nat \<Rightarrow> string" where
  "rune_str r = string_of_bytes (utf8_encode r)"

definition hex_val :: "char \<Rightarrow> nat option" where
  "hex_val c =
     (let n = code_of c in
      if 48 \<le> n \<and> n \<le> 57 then Some (n - 48)
      else if 97 \<le> n \<and> n \<le> 102 then Some (n - 87)
      else if 65 \<le> n \<and> n \<le> 70 then Some (n - 55)
      else None)"

definition hex4 :: "string \<Rightarrow> (nat \<times> string) option" where
  "hex4 s =
     (case s of
        a # b # c # d # r \<Rightarrow>
          (case (hex_val a, hex_val b, hex_val c, hex_val d) of
             (Some w, Some x, Some y, Some z) \<Rightarrow> Some (w * 4096 + x * 256 + y * 16 + z, r)
           | _ \<Rightarrow> None)
      | _ \<Rightarrow> None)"

text \<open>\<open>getu4\<close>: a whole \<open>\uXXXX\<close> escape at the head of the input.\<close>

definition getu4 :: "string \<Rightarrow> (nat \<times> string) option" where
  "getu4 s =
     (case s of
        a # b # r \<Rightarrow> if code_of a = 92 \<and> code_of b = 117 then hex4 r else None
      | _ \<Rightarrow> None)"

definition surrogate :: "nat \<Rightarrow> bool" where
  "surrogate r \<longleftrightarrow> 55296 \<le> r \<and> r < 57344"

text \<open>The rune of one escape and what follows it; a lone surrogate becomes \<open>U+FFFD\<close>.\<close>

definition unescape_u :: "nat \<Rightarrow> string \<Rightarrow> string \<times> string" where
  "unescape_u r rest =
     (if \<not> surrogate r then (rune_str r, rest)
      else case getu4 rest of
        Some (r1, rest1) \<Rightarrow>
          if r < 56320 \<and> 56320 \<le> r1 \<and> r1 < 57344
          then (rune_str ((r - 55296) * 1024 + (r1 - 56320) + 65536), rest1)
          else (rune_str RuneError, rest)
      | None \<Rightarrow> (rune_str RuneError, rest))"

definition simple_escape :: "nat \<Rightarrow> nat option" where
  "simple_escape e =
     (if e = 34 \<or> e = 92 \<or> e = 47 then Some e
      else if e = 98 then Some 8 else if e = 102 then Some 12 else if e = 110 then Some 10
      else if e = 114 then Some 13 else if e = 116 then Some 9 else None)"

lemma hex4_length: "hex4 s = Some (v, r) \<Longrightarrow> length r < length s"
  by (auto simp: hex4_def split: list.splits option.splits prod.splits)

lemma getu4_length: "getu4 s = Some (v, r) \<Longrightarrow> length r < length s"
  by (auto simp: getu4_def split: list.splits if_splits dest: hex4_length)

lemma unescape_u_length: "unescape_u v s = (t, r) \<Longrightarrow> length r \<le> length s"
  by (auto simp: unescape_u_def split: if_splits option.splits dest: getu4_length)

definition prepend :: "string \<Rightarrow> (string \<times> string) option \<Rightarrow> (string \<times> string) option" where
  "prepend t x = map_option (\<lambda>(a, b). (t @ a, b)) x"

text \<open>A string literal after its opening quote: the value and the input after the closing quote.\<close>

function pstr :: "string \<Rightarrow> (string \<times> string) option" where
  "pstr [] = None"
| "pstr (c # s) =
     (let n = code_of c in
      if n = 34 then Some ([], s)
      else if n = 92 then
        (case s of
           [] \<Rightarrow> None
         | e # s' \<Rightarrow>
             (case simple_escape (code_of e) of
                Some x \<Rightarrow> prepend [char_of x] (pstr s')
              | None \<Rightarrow>
                  if code_of e \<noteq> 117 then None
                  else case hex4 s' of
                    None \<Rightarrow> None
                  | Some vr \<Rightarrow> prepend (fst (unescape_u (fst vr) (snd vr)))
                                 (pstr (snd (unescape_u (fst vr) (snd vr))))))
      else if n < 32 then None
      else
        let w = full_rune_str (c # s) in
        if w = 0 then prepend (rune_str RuneError) (pstr s)
        else prepend (take w (c # s)) (pstr (drop w (c # s))))"
  by pat_completeness auto
termination
proof (relation "measure length")
  fix c s n x21 x22 a
  assume "s = x21 # x22" "hex4 x22 = Some a"
  then have "length (snd a) < length x22" using hex4_length [of x22 "fst a" "snd a"] by simp
  moreover have "length (snd (unescape_u (fst a) (snd a))) \<le> length (snd a)"
    using unescape_u_length [of "fst a" "snd a"] by (metis prod.collapse)
  ultimately show "(snd (unescape_u (fst a) (snd a)), c # s) \<in> measure length" using \<open>s = _\<close> by simp
qed auto

declare pstr.simps(2) [simp del]

text \<open>\<open>appendString\<close> with HTML escaping, without the surrounding quotes.\<close>

definition esc_u :: "nat \<Rightarrow> string" where
  "esc_u v = [CHR 0x5C, CHR ''u''] @ hex2 (of_nat (v div 256)) @ hex2 (of_nat (v mod 256))"

definition esc_ascii :: "char \<Rightarrow> string" where
  "esc_ascii c =
     (let n = code_of c in
      if n = 34 \<or> n = 92 then [CHR 0x5C, c]
      else if n = 8 then [CHR 0x5C, CHR ''b''] else if n = 12 then [CHR 0x5C, CHR ''f''] else if n = 10 then [CHR 0x5C, CHR ''n'']
      else if n = 13 then [CHR 0x5C, CHR ''r''] else if n = 9 then [CHR 0x5C, CHR ''t'']
      else if n < 32 \<or> n = 60 \<or> n = 62 \<or> n = 38 then esc_u n
      else [c])"

function estr :: "string \<Rightarrow> string" where
  "estr [] = []"
| "estr (c # s) =
     (if code_of c < 128 then esc_ascii c @ estr s
      else
        let w = full_rune_str (c # s) in
        if w = 0 then esc_u RuneError @ estr s
        else if rune_of_str (take w (c # s)) = 8232 \<or> rune_of_str (take w (c # s)) = 8233
        then esc_u (rune_of_str (take w (c # s))) @ estr (drop w (c # s))
        else take w (c # s) @ estr (drop w (c # s)))"
  by pat_completeness auto
termination by (relation "measure length") auto

declare estr.simps(2) [simp del]

definition quote :: "string \<Rightarrow> string" where
  "quote s = CHR 0x22 # estr s @ [CHR 0x22]"

subsection \<open>Values\<close>

definition maxNestingDepth :: nat where "maxNestingDepth = 10000"

definition is_ws :: "char \<Rightarrow> bool" where
  "is_ws c \<longleftrightarrow> code_of c \<in> {32, 9, 10, 13}"

definition skip_ws :: "string \<Rightarrow> string" where
  "skip_ws s = dropWhile is_ws s"

text \<open>\<open>digits1 s\<close>: at least one digit.\<close>

definition digits1 :: "string \<Rightarrow> (string \<times> string) option" where
  "digits1 s =
     (let d = takeWhile is_digit s in if d = [] then None else Some (d, dropWhile is_digit s))"

definition pint :: "string \<Rightarrow> (string \<times> string) option" where
  "pint s =
     (case s of
        [] \<Rightarrow> None
      | c # r \<Rightarrow> if code_of c = 48 then Some ([c], r) else digits1 s)"

definition pfrac :: "string \<Rightarrow> (string \<times> string) option" where
  "pfrac s =
     (case s of
        c # r \<Rightarrow> if code_of c = 46 then prepend [c] (digits1 r) else Some ([], s)
      | [] \<Rightarrow> Some ([], []))"

definition pexp :: "string \<Rightarrow> (string \<times> string) option" where
  "pexp s =
     (case s of
        c # r \<Rightarrow>
          if code_of c \<in> {69, 101} then
            (case r of
               g # r' \<Rightarrow> if code_of g \<in> {43, 45} then prepend [c, g] (digits1 r') else prepend [c] (digits1 r)
             | [] \<Rightarrow> None)
          else Some ([], s)
      | [] \<Rightarrow> Some ([], []))"

definition and_then ::
    "(string \<times> string) option \<Rightarrow> (string \<Rightarrow> (string \<times> string) option) \<Rightarrow> (string \<times> string) option" where
  "and_then x f = (case x of None \<Rightarrow> None | Some (a, s) \<Rightarrow> prepend a (f s))"

definition pnum :: "string \<Rightarrow> (string \<times> string) option" where
  "pnum s =
     and_then (and_then
       (case s of c # r \<Rightarrow> if code_of c = 45 then prepend [c] (pint r) else pint s | [] \<Rightarrow> None)
       pfrac) pexp"

definition strip :: "string \<Rightarrow> string \<Rightarrow> string option" where
  "strip p s = (if take (length p) s = p then Some (drop (length p) s) else None)"

definition pscalar :: "string \<Rightarrow> (json \<times> string) option" where
  "pscalar s =
     (case strip ''null'' s of Some r \<Rightarrow> Some (JNull, r) | None \<Rightarrow>
      case strip ''true'' s of Some r \<Rightarrow> Some (JBool True, r) | None \<Rightarrow>
      case strip ''false'' s of Some r \<Rightarrow> Some (JBool False, r) | None \<Rightarrow>
      map_option (\<lambda>(n, r). (JNum n, r)) (pnum s))"

text \<open>
  \<open>pvalue\<close>, \<open>pelems\<close> (array elements after \<open>[\<close>) and \<open>pmembers\<close> (object members after
  \<open>{\<close>), with fuel and the current depth. Every two levels of fuel consume a byte, so
  \<open>2 * length s + 2\<close> is enough; \<open>pvalue_fuel\<close> below proves that more changes nothing.
\<close>

fun pvalue :: "nat \<Rightarrow> nat \<Rightarrow> string \<Rightarrow> (json \<times> string) option"
  and pelems :: "nat \<Rightarrow> nat \<Rightarrow> string \<Rightarrow> (json list \<times> string) option"
  and pmembers :: "nat \<Rightarrow> nat \<Rightarrow> string \<Rightarrow> ((string \<times> json) list \<times> string) option" where
  "pvalue 0 d s = None"
| "pvalue (Suc n) d s =
     (case skip_ws s of
        [] \<Rightarrow> None
      | c # r \<Rightarrow>
          if code_of c = 34 then map_option (\<lambda>(t, r'). (JStr t, r')) (pstr r)
          else if code_of c = 123 then
            if d \<ge> maxNestingDepth then None
            else (case skip_ws r of
                e # r' \<Rightarrow> if code_of e = 125 then Some (JObj [], r')
                  else map_option (\<lambda>(ms, t). (JObj ms, t)) (pmembers n (Suc d) (e # r'))
              | [] \<Rightarrow> None)
          else if code_of c = 91 then
            if d \<ge> maxNestingDepth then None
            else (case skip_ws r of
                e # r' \<Rightarrow> if code_of e = 93 then Some (JArr [], r')
                  else map_option (\<lambda>(xs, t). (JArr xs, t)) (pelems n (Suc d) (e # r'))
              | [] \<Rightarrow> None)
          else pscalar (c # r))"
| "pelems 0 d s = None"
| "pelems (Suc n) d s =
     (case pvalue n d s of
        None \<Rightarrow> None
      | Some (v, r) \<Rightarrow>
          (case skip_ws r of
             c # t \<Rightarrow>
               if code_of c = 93 then Some ([v], t)
               else if code_of c = 44 then map_option (\<lambda>(vs, u). (v # vs, u)) (pelems n d t)
               else None
           | [] \<Rightarrow> None))"
| "pmembers 0 d s = None"
| "pmembers (Suc n) d s =
     (case skip_ws s of
        q # s1 \<Rightarrow>
          if code_of q \<noteq> 34 then None
          else (case pstr s1 of
            None \<Rightarrow> None
          | Some (k, s2) \<Rightarrow>
              (case skip_ws s2 of
                 c # s3 \<Rightarrow>
                   if code_of c \<noteq> 58 then None
                   else (case pvalue n d s3 of
                     None \<Rightarrow> None
                   | Some (v, r) \<Rightarrow>
                       (case skip_ws r of
                          e # t \<Rightarrow>
                            if code_of e = 125 then Some ([(k, v)], t)
                            else if code_of e = 44
                            then map_option (\<lambda>(ms, u). ((k, v) # ms, u)) (pmembers n d t)
                            else None
                        | [] \<Rightarrow> None))
               | [] \<Rightarrow> None))
      | [] \<Rightarrow> None)"

definition parse_json :: "string \<Rightarrow> (json \<times> string) option" where
  "parse_json s = pvalue (2 * length s + 2) 0 s"

subsection \<open>Struct fields\<close>

text \<open>Field names compare exactly first and then folded: letters in upper case, \<open>U+017F\<close> as \<open>S\<close> and
  \<open>U+212A\<close> as \<open>K\<close> (the only other runes that fold to ASCII).\<close>

definition fold_rune :: "rune \<times> bytes \<Rightarrow> string" where
  "fold_rune p =
     (let r = fst p in
      if 97 \<le> r \<and> r \<le> 122 then [char_of (r - 32)]
      else if r = 383 then ''S'' else if r = 8490 then ''K''
      else string_of_bytes (snd p))"

definition fold_name :: "string \<Rightarrow> string" where
  "fold_name k = concat (map fold_rune (runes (bytes_of_string k)))"

definition field_of :: "string list \<Rightarrow> string \<Rightarrow> string option" where
  "field_of names k =
     (if k \<in> set names then Some k else find (\<lambda>n. fold_name n = fold_name k) names)"

definition set_string :: "json \<Rightarrow> string \<Rightarrow> string option" where
  "set_string v old = (case v of JStr s \<Rightarrow> Some s | JNull \<Rightarrow> Some old | _ \<Rightarrow> None)"

definition set_string_ptr :: "json \<Rightarrow> string option option" where
  "set_string_ptr v = (case v of JStr s \<Rightarrow> Some (Some s) | JNull \<Rightarrow> Some None | _ \<Rightarrow> None)"

definition set_uint :: "nat \<Rightarrow> json \<Rightarrow> nat \<Rightarrow> nat option" where
  "set_uint w v old = (case v of JNum n \<Rightarrow> parse_uint w n | JNull \<Rightarrow> Some old | _ \<Rightarrow> None)"

definition set_uint_ptr :: "nat \<Rightarrow> json \<Rightarrow> nat option option" where
  "set_uint_ptr w v =
     (case v of JNum n \<Rightarrow> map_option Some (parse_uint w n) | JNull \<Rightarrow> Some None | _ \<Rightarrow> None)"

text \<open>Decoding into a struct: members in order, the last one of a field wins, unknown members are
  skipped, one mismatch fails the whole decode; \<open>null\<close> leaves the struct alone.\<close>

definition decode_struct ::
    "string list \<Rightarrow> (string \<Rightarrow> json \<Rightarrow> 'r \<Rightarrow> 'r option) \<Rightarrow> 'r \<Rightarrow> json \<Rightarrow> 'r option" where
  "decode_struct names setf z v =
     (case v of
        JObj ms \<Rightarrow>
          foldl (\<lambda>acc (k, x). case acc of
                   None \<Rightarrow> None
                 | Some r \<Rightarrow> (case field_of names k of None \<Rightarrow> Some r | Some f \<Rightarrow> setf f x r))
            (Some z) ms
      | JNull \<Rightarrow> Some z
      | _ \<Rightarrow> None)"

text \<open>Encoding an object whose member values are already encoded.\<close>

definition enc_object :: "(string \<times> string) list \<Rightarrow> string" where
  "enc_object ms =
     ''{'' @ concat (case ms of
         [] \<Rightarrow> []
       | (k, v) # ms' \<Rightarrow> (quote k @ '':'' @ v) # map (\<lambda>(k, v). '','' @ quote k @ '':'' @ v) ms') @ ''}''"

subsection \<open>Unquoting inverts escaping\<close>

lemma hex_val_char: "d < 16 \<Longrightarrow> hex_val (hex_char d) = Some d"
  by (auto simp: hex_val_def hex_char_def code_of_def Let_def)

lemma hex4_esc: "v < 65536 \<Longrightarrow> hex4 (hex2 (of_nat (v div 256)) @ hex2 (of_nat (v mod 256)) @ r) = Some (v, r)"
proof -
  assume v: "v < 65536"
  then have a: "unat (of_nat (v div 256) :: byte) = v div 256" by (simp add: unat_of_nat)
  have b: "unat (of_nat (v mod 256) :: byte) = v mod 256" by (simp add: unat_of_nat)
  have "v div 256 div 16 * 4096 + v div 256 mod 16 * 256 + v mod 256 div 16 * 16 + v mod 256 mod 16 = v"
    using div_mult_mod_eq [of "v div 256" 16] div_mult_mod_eq [of "v mod 256" 16] div_mult_mod_eq [of v 256]
    by linarith
  moreover have "v div 256 div 16 < 16" using v by simp
  ultimately show ?thesis by (simp add: hex4_def hex2_def a b hex_val_char)
qed

lemma pstr_esc_u:
  assumes "v < 65536" "\<not> surrogate v"
  shows "pstr (esc_u v @ r) = prepend (rune_str v) (pstr r)"
  using hex4_esc [OF assms(1), of r] assms(2)
  by (simp add: esc_u_def pstr.simps(2) code_of_def simple_escape_def unescape_u_def)

lemma rune_str_ascii: "n < 128 \<Longrightarrow> rune_str n = [char_of n]"
  by (simp add: rune_str_def utf8_encode_def string_of_bytes_def char_of_byte_def unat_of_nat take_bit_eq_mod)

lemma full_rune_ascii: "code_of c < 128 \<Longrightarrow> full_rune_str (c # s) = 1"
  by (simp add: full_rune_str_def bytes_of_string_def full_rune.simps(2) rune_width_def Let_def
      byte_of_char_def code_of_def unat_of_nat)

lemma pstr_plain:
  "32 \<le> code_of c \<Longrightarrow> code_of c < 128 \<Longrightarrow> code_of c \<noteq> 34 \<Longrightarrow> code_of c \<noteq> 92 \<Longrightarrow>
   pstr (c # r) = prepend [c] (pstr r)"
  by (simp add: pstr.simps(2) full_rune_ascii Let_def)

lemma char_code [simp]: "char_of (code_of c) = c"
  by (simp add: code_of_def)

lemma pstr_escape:
  "simple_escape (code_of e) = Some x \<Longrightarrow> pstr (CHR 0x5C # e # r) = prepend [char_of x] (pstr r)"
  by (simp add: pstr.simps(2) code_of_def)

lemma char_eqI: "code_of c = n \<Longrightarrow> c = char_of n"
  by (metis char_code)

lemma pstr_esc_ascii: "code_of c < 128 \<Longrightarrow> pstr (esc_ascii c @ r) = prepend [c] (pstr r)"
proof -
  assume c: "code_of c < 128"
  have e: "pstr (CHR 0x5C # e # r) = prepend [c] (pstr r)" if "simple_escape (code_of e) = Some (code_of c)" for e
    using pstr_escape [OF that, of r] by simp
  show ?thesis
  proof (cases "code_of c < 32 \<or> code_of c \<in> {34, 92, 60, 62, 38}")
    case True
    then consider "code_of c \<in> {34, 92, 8, 12, 10, 13, 9}"
      | "code_of c \<notin> {34, 92, 8, 12, 10, 13, 9}" "code_of c < 128" "code_of c < 32 \<or> code_of c \<in> {60, 62, 38}"
      using c by auto
    then show ?thesis
    proof cases
      case 1
      then show ?thesis using e by (auto simp: esc_ascii_def Let_def simple_escape_def code_of_def)
    next
      case 2
      then have "esc_ascii c = esc_u (code_of c)" by (auto simp: esc_ascii_def Let_def)
      then show ?thesis using pstr_esc_u [of "code_of c" r] rune_str_ascii [of "code_of c"] c
        by (simp add: surrogate_def)
    qed
  next
    case False
    then show ?thesis using pstr_plain [of c r] c by (auto simp: esc_ascii_def Let_def)
  qed
qed

lemma full_rune_str_append:
  assumes "full_rune_str s = w" "w \<noteq> 0"
  shows "full_rune_str (take w s @ t) = w"
proof -
  have "full_rune (take w (bytes_of_string s)) = w"
    using assms by (simp add: full_rune_str_def full_rune_take)
  then show ?thesis using assms full_rune_append [of "take w (bytes_of_string s)" "bytes_of_string t"]
    by (simp add: full_rune_str_def bytes_of_string_def take_map)
qed

lemma pstr_multi:
  assumes "full_rune_str (c # s) = w" "w \<noteq> 0" "128 \<le> code_of c"
  shows "pstr (take w (c # s) @ r) = prepend (take w (c # s)) (pstr r)"
proof -
  have f: "full_rune_str (take w (c # s) @ r) = w" by (rule full_rune_str_append [OF assms(1,2)])
  have l: "length (take w (c # s)) = w"
    using full_rune_length [of "bytes_of_string (c # s)"] assms(1) by (simp add: full_rune_str_def)
  obtain w' where w: "w = Suc w'" using assms(2) not0_implies_Suc by blast
  have h: "take w (c # s) @ r = c # (take w' s @ r)" by (simp add: w)
  have "pstr (c # (take w' s @ r)) = prepend (take w (c # (take w' s @ r))) (pstr (drop w (c # (take w' s @ r))))"
    using assms(2,3) f unfolding h by (subst pstr.simps(2)) (simp add: Let_def)
  then show ?thesis unfolding h [symmetric] using l by simp
qed

lemma mod_range:
  assumes "lo \<le> x" "x < lo + m" "lo mod m = 0"
  shows "x mod m = x - (lo :: nat)"
proof -
  obtain k where k: "x = lo + k" using assms(1) le_Suc_ex by blast
  have "(lo + k) mod m = k mod m" using assms(3) mod_add_left_eq [of lo m k] by simp
  then show ?thesis using assms(2) k by simp
qed

lemma full_rune_shape:
  assumes "full_rune bs = w" "w \<noteq> 0"
  obtains (one) a r where "bs = a # r" "w = 1" "unat a < 128"
  | (two) a b r where "bs = a # b # r" "w = 2" "194 \<le> unat a" "unat a < 224" "128 \<le> unat b" "unat b < 192"
  | (three) a b c r where "bs = a # b # c # r" "w = 3" "224 \<le> unat a" "unat a < 240" "128 \<le> unat b"
      "unat b < 192" "128 \<le> unat c" "unat c < 192" "unat a = 224 \<longrightarrow> 160 \<le> unat b"
  | (four) a b c d r where "bs = a # b # c # d # r" "w = 4" "240 \<le> unat a" "unat a < 245" "128 \<le> unat b"
      "unat b < 192" "128 \<le> unat c" "unat c < 192" "128 \<le> unat d" "unat d < 192"
      "unat a = 240 \<longrightarrow> 144 \<le> unat b"
proof -
  obtain a t where bs: "bs = a # t" using assms by (cases bs) auto
  note f = assms(1) [unfolded bs full_rune.simps(2) Let_def, symmetric]
  consider "rune_width (unat a) = 2" | "rune_width (unat a) = 3" | "rune_width (unat a) = 4"
    | "rune_width (unat a) \<notin> {2, 3, 4}" by auto
  then show thesis
  proof cases
    case 1
    then show thesis using f assms(2) bs two
      by (auto simp: rune_width_def second_ok_def cont_byte_def split: list.splits if_splits)
  next
    case 2
    then have "224 \<le> unat a" "unat a < 240" by (auto simp: rune_width_def split: if_splits)
    moreover obtain b c r where "t = b # c # r" "second_ok (unat a) (unat b)" "cont_byte (unat c)" "w = 3"
      using f assms(2) 2 by (simp split: list.splits if_splits)
    ultimately show thesis using bs three [of a b c r]
      by (auto simp: second_ok_def cont_byte_def split: if_splits)
  next
    case 3
    then have "240 \<le> unat a" "unat a < 245" by (auto simp: rune_width_def split: if_splits)
    moreover obtain b c d r where "t = b # c # d # r" "second_ok (unat a) (unat b)" "cont_byte (unat c)"
      "cont_byte (unat d)" "w = 4"
      using f assms(2) 3 by (simp split: list.splits if_splits)
    ultimately show thesis using bs four [of a b c d r]
      by (auto simp: second_ok_def cont_byte_def split: if_splits)
  next
    case 4
    then show thesis using f assms(2) bs one by (auto simp: rune_width_def split: if_splits)
  qed
qed


lemma div_block: "r < m \<Longrightarrow> (x * m + r) div m = (x :: nat)"
  by simp

lemma byte_split: "unat (b :: byte) = numeral k + x \<Longrightarrow> numeral k + of_nat x = b"
  by (drule arg_cong [where f = "of_nat :: nat \<Rightarrow> byte"]) simp

text \<open>Encoding the rune a well-formed sequence decodes to gives the sequence back.\<close>

lemma encode_rune_value:
  assumes "full_rune bs = w" "w \<noteq> 0"
  shows "utf8_encode (rune_value (take w bs)) = take w bs"
  using assms
proof (cases rule: full_rune_shape)
  case (one a r)
  then show ?thesis by (simp add: utf8_encode_def)
next
  case (two a b r)
  define x y where "x = unat a - 192" and "y = unat b - 128"
  then have xy: "unat a = 192 + x" "unat b = 128 + y" "y < 64" "2 \<le> x" "x < 32" using two(3-) by linarith+
  have ab: "192 + of_nat x = a" "128 + of_nat y = b"
    using xy(1-2) by (simp_all add: byte_split)
  have m: "unat a mod 32 = x" "unat b mod 64 = y"
    using xy mod_range [of 192 "unat a" 32] mod_range [of 128 "unat b" 64] by auto
  have "128 \<le> x * 64 + y" "x * 64 + y < 2048" "(x * 64 + y) div 64 = x" "(x * 64 + y) mod 64 = y"
    using xy by auto
  then show ?thesis using two ab by (simp add: m utf8_encode_def)
next
  case (three a b c r)
  define x y z where "x = unat a - 224" and "y = unat b - 128" and "z = unat c - 128"
  then have xy: "unat a = 224 + x" "unat b = 128 + y" "unat c = 128 + z" "y < 64" "x < 16" "z < 64"
    "x = 0 \<longrightarrow> 32 \<le> y"
    using three(3-) by linarith+
  have ab: "224 + of_nat x = a" "128 + of_nat y = b" "128 + of_nat z = c"
    using xy(1-3) by (simp_all add: byte_split)
  have m: "unat a mod 16 = x" "unat b mod 64 = y" "unat c mod 64 = z"
    using xy mod_range [of 224 "unat a" 16] mod_range [of 128 "unat b" 64] mod_range [of 128 "unat c" 64] by auto
  define r0 where "r0 = x * 4096 + y * 64 + z"
  have rv: "rune_value (take w bs) = r0" using three(1,2) by (simp add: m r0_def)
  have "2048 \<le> r0" "r0 < 65536" unfolding r0_def using xy by (cases "x = 0"; linarith)+
  moreover have "(x * 4096 + (y * 64 + z)) div 4096 = x" "((x * 64 + y) * 64 + z) div 64 = x * 64 + y"
    by (rule div_block; use xy in linarith)+
  then have "r0 div 4096 = x" "r0 div 64 = x * 64 + y" unfolding r0_def by (simp_all add: algebra_simps)
  moreover have "((x * 64 + y) * 64 + z) mod 64 = z" "(x * 64 + y) mod 64 = y"
    using xy(4,6) by (simp_all only: mod_mult_self3 mod_less)
  moreover from this(1) have "r0 mod 64 = z" unfolding r0_def by (simp add: algebra_simps)
  ultimately show ?thesis using three(1,2) ab unfolding rv by (simp add: utf8_encode_def)
next
  case (four a b c e r)
  define x y z u where "x = unat a - 240" and "y = unat b - 128" and "z = unat c - 128" and "u = unat e - 128"
  then have xy: "unat a = 240 + x" "unat b = 128 + y" "unat c = 128 + z" "unat e = 128 + u"
    "y < 64" "x < 5" "z < 64" "u < 64" "x = 0 \<longrightarrow> 16 \<le> y"
    using four(3-) by linarith+
  have ab: "240 + of_nat x = a" "128 + of_nat y = b" "128 + of_nat z = c" "128 + of_nat u = e"
    using xy(1-4) by (simp_all add: byte_split)
  have m: "unat a mod 8 = x" "unat b mod 64 = y" "unat c mod 64 = z" "unat e mod 64 = u"
    using xy mod_range [of 240 "unat a" 8] mod_range [of 128 "unat b" 64] mod_range [of 128 "unat c" 64]
      mod_range [of 128 "unat e" 64] by auto
  define r0 where "r0 = x * 262144 + y * 4096 + z * 64 + u"
  have rv: "rune_value (take w bs) = r0" using four(1,2) by (simp add: m r0_def)
  have "65536 \<le> r0" unfolding r0_def using xy by (cases "x = 0"; linarith)
  moreover have "(x * 262144 + (y * 4096 + z * 64 + u)) div 262144 = x"
    "((x * 4096 + y * 64 + z) * 64 + u) div 64 = x * 4096 + y * 64 + z"
    "((x * 64 + y) * 4096 + (z * 64 + u)) div 4096 = x * 64 + y"
    by (rule div_block; use xy in linarith)+
  then have "r0 div 262144 = x" "r0 div 64 = x * 4096 + y * 64 + z" "r0 div 4096 = x * 64 + y"
    unfolding r0_def by (simp_all add: algebra_simps)
  moreover have "((x * 4096 + y * 64 + z) * 64 + u) mod 64 = u" "((x * 64 + y) * 64 + z) mod 64 = z"
    "(x * 64 + y) mod 64 = y"
    using xy(5,7,8) by (simp_all only: mod_mult_self3 mod_less)
  moreover from this(1,2) have "r0 mod 64 = u" "(x * 4096 + y * 64 + z) mod 64 = z"
    unfolding r0_def by (simp_all add: algebra_simps)
  ultimately show ?thesis using four(1,2) ab unfolding rv by (simp add: utf8_encode_def)
qed

lemma bytes_of_string_take: "bytes_of_string (take n s) = take n (bytes_of_string s)"
  by (simp add: bytes_of_string_def take_map)

lemma pstr_estr:
  "utf8_valid (bytes_of_string s) \<Longrightarrow> pstr (estr s @ CHR 0x22 # rest) = Some (s, rest)"
proof (induction s rule: estr.induct)
  case 1
  then show ?case by (simp add: pstr.simps(2) code_of_def)
next
  case (2 c s)
  show ?case
  proof (cases "code_of c < 128")
    case True
    then have "utf8_valid (bytes_of_string s)" using "2.prems" full_rune_ascii [OF True, of s]
      by (simp add: bytes_of_string_def utf8_valid.simps(2) full_rune_str_def)
    then have "pstr (estr s @ CHR 0x22 # rest) = Some (s, rest)" using "2.IH"(1) True by simp
    then show ?thesis using True pstr_esc_ascii [OF True, of "estr s @ CHR 0x22 # rest"]
      by (simp add: estr.simps(2) prepend_def)
  next
    case False
    define w where "w = full_rune_str (c # s)"
    have fw: "full_rune (bytes_of_string (c # s)) = w" by (simp add: w_def full_rune_str_def)
    have w0: "w \<noteq> 0" and v: "utf8_valid (bytes_of_string (drop w (c # s)))"
      using "2.prems" fw by (simp_all add: bytes_of_string_def utf8_valid.simps(2) drop_map [symmetric] split: if_splits)
    let ?t = "take w (c # s)" and ?r = "rune_of_str (take w (c # s))"
    have ih: "pstr (estr (drop w (c # s)) @ CHR 0x22 # rest) = Some (drop w (c # s), rest)"
      using "2.IH"(3,4) [OF False w_def w0] v by blast
    show ?thesis
    proof (cases "?r = 8232 \<or> ?r = 8233")
      case True
      have "rune_str ?r = ?t"
        using encode_rune_value [OF fw w0]
        by (simp add: rune_str_def rune_of_str_def bytes_of_string_take)
          (metis bytes_of_string_take string_of_bytes_of_string)
      moreover have "pstr (esc_u ?r @ estr (drop w (c # s)) @ CHR 0x22 # rest) =
          prepend (rune_str ?r) (pstr (estr (drop w (c # s)) @ CHR 0x22 # rest))"
        by (rule pstr_esc_u) (use True in \<open>auto simp: surrogate_def\<close>)
      moreover have "estr (c # s) = esc_u ?r @ estr (drop w (c # s))"
        using True False w0 by (simp add: estr.simps(2) Let_def flip: w_def)
      ultimately show ?thesis using ih by (simp add: prepend_def)
    next
      case nls: False
      have "estr (c # s) = ?t @ estr (drop w (c # s))"
        using nls False w0 by (simp add: estr.simps(2) Let_def flip: w_def)
      moreover have "pstr (?t @ estr (drop w (c # s)) @ CHR 0x22 # rest) =
          prepend ?t (pstr (estr (drop w (c # s)) @ CHR 0x22 # rest))"
        by (rule pstr_multi) (use False w0 in \<open>simp_all add: w_def\<close>)
      ultimately show ?thesis using ih by (simp add: prepend_def)
    qed
  qed
qed

subsection \<open>Reading back an encoded object\<close>

lemma code_lits [simp]:
  "code_of (CHR 0x22) = 34" "code_of (CHR '':'') = 58" "code_of (CHR '','') = 44"
  "code_of (CHR ''{'') = 123" "code_of (CHR ''}'') = 125" "code_of (CHR ''['') = 91"
  by (simp_all add: code_of_def)

lemma skip_ws_none: "\<not> is_ws c \<Longrightarrow> skip_ws (c # s) = c # s"
  by (simp add: skip_ws_def)

lemma is_ws_code: "code_of c \<notin> {32, 9, 10, 13} \<Longrightarrow> \<not> is_ws c"
  by (simp add: is_ws_def)

lemma skip_ws_lits [simp]:
  "skip_ws (CHR 0x22 # s) = CHR 0x22 # s" "skip_ws (CHR '':'' # s) = CHR '':'' # s"
  "skip_ws (CHR '','' # s) = CHR '','' # s" "skip_ws (CHR ''}'' # s) = CHR ''}'' # s"
  "skip_ws (CHR ''{'' # s) = CHR ''{'' # s"
  by (simp_all add: skip_ws_none is_ws_code)

definition follows :: "char \<Rightarrow> bool" where
  "follows c \<longleftrightarrow> code_of c = 44 \<or> code_of c = 125"

text \<open>\<open>x\<close> is an encoding of \<open>v\<close>: the parser reads it before a comma or a closing brace.\<close>

definition encodes :: "string \<Rightarrow> json \<Rightarrow> bool" where
  "encodes x v \<longleftrightarrow> (\<forall>n d c r. follows c \<longrightarrow> pvalue (Suc n) d (x @ c # r) = Some (v, c # r))"

lemma encodes_quote: "utf8_valid (bytes_of_string s) \<Longrightarrow> encodes (quote s) (JStr s)"
  by (simp add: encodes_def quote_def pstr_estr)

lemma is_digit_code: "is_digit c \<longleftrightarrow> 48 \<le> code_of c \<and> code_of c \<le> 57"
  by (simp add: is_digit_def code_of_def)

lemma digit_char_code: "d < 10 \<Longrightarrow> code_of (digit_char d) = 48 + d"
  by (simp add: digit_char_def code_of_def)

lemma format_uint_digits: "c \<in> set (format_uint n) \<Longrightarrow> is_digit c"
proof (induction n rule: format_uint.induct)
  case (1 n)
  then show ?case
    by (subst (asm) (2) format_uint.simps) (auto simp: is_digit_code digit_char_code split: if_splits)
qed

lemma format_uint_hd: "0 < n \<Longrightarrow> code_of (hd (format_uint n)) \<noteq> 48"
proof (induction n rule: format_uint.induct)
  case (1 n)
  then show ?case
    by (subst format_uint.simps) (auto simp: digit_char_code hd_append)
qed

lemma digits1_ok:
  assumes "ds \<noteq> []" "\<forall>c \<in> set ds. is_digit c" "\<not> is_digit c"
  shows "digits1 (ds @ c # r) = Some (ds, c # r)"
  using assms by (simp add: digits1_def Let_def)

lemma pint_format:
  assumes "\<not> is_digit c"
  shows "pint (format_uint n @ c # r) = Some (format_uint n, c # r)"
proof (cases "n = 0")
  case True
  then show ?thesis by (simp add: format_uint.simps pint_def digit_char_code)
next
  case False
  obtain d ds where f: "format_uint n = d # ds" by (cases "format_uint n") auto
  have "code_of d \<noteq> 48" using format_uint_hd [of n] False f by simp
  moreover have "digits1 (format_uint n @ c # r) = Some (format_uint n, c # r)"
    by (rule digits1_ok) (use format_uint_digits assms in auto)
  ultimately show ?thesis by (simp add: pint_def f)
qed

lemma encodes_number: "encodes (format_uint n) (JNum (format_uint n))"
  unfolding encodes_def
proof (intro allI impI)
  fix m d c r
  assume c: "follows c"
  obtain a t where f: "format_uint n = a # t" by (cases "format_uint n") auto
  have a: "is_digit a" using format_uint_digits [of a n] f by simp
  then have co: "48 \<le> code_of a" "code_of a \<le> 57" by (simp_all add: is_digit_code)
  have nd: "\<not> is_digit c" using c by (auto simp: follows_def is_digit_code)
  have ne: "a \<noteq> CHR ''n''" "a \<noteq> CHR ''t''" "a \<noteq> CHR ''f''" using co by (auto simp: code_of_def)
  have "pnum (format_uint n @ c # r) = Some (format_uint n, c # r)"
    using pint_format [OF nd, of n r] co c
    by (auto simp: pnum_def f and_then_def pfrac_def pexp_def prepend_def follows_def)
  then have "pscalar (format_uint n @ c # r) = Some (JNum (format_uint n), c # r)"
    using ne by (simp add: pscalar_def strip_def f)
  then show "pvalue (Suc m) d (format_uint n @ c # r) = Some (JNum (format_uint n), c # r)"
    using co by (simp add: f skip_ws_none is_ws_code)
qed

fun mtext :: "(string \<times> string) list \<Rightarrow> string" where
  "mtext [] = []"
| "mtext [(k, x)] = quote k @ '':'' @ x"
| "mtext ((k, x) # m # ms) = quote k @ '':'' @ x @ '','' @ mtext (m # ms)"

lemma mtext_concat: "ms \<noteq> [] \<Longrightarrow> mtext ((k, x) # ms) = quote k @ '':'' @ x @ concat (map (\<lambda>(k, v). '','' @ quote k @ '':'' @ v) ms)"
  by (induction ms arbitrary: k x rule: induct_list012) (auto simp: mtext.simps)

lemma enc_object_mtext: "enc_object ms = ''{'' @ mtext ms @ ''}''"
proof (cases ms)
  case (Cons m ms')
  then show ?thesis by (cases m; cases "ms' = []") (auto simp: enc_object_def mtext_concat)
qed (simp add: enc_object_def)

lemma pmembers_mtext:
  assumes "ms \<noteq> []" "\<forall>(k, x, v) \<in> set ms. utf8_valid (bytes_of_string k) \<and> encodes x v"
  shows "pmembers (length ms + 1 + n) d (mtext (map (\<lambda>(k, x, v). (k, x)) ms) @ CHR ''}'' # r) =
    Some (map (\<lambda>(k, x, v). (k, v)) ms, r)"
  using assms
proof (induction ms arbitrary: n)
  case (Cons m ms)
  obtain k x v where m: "m = (k, x, v)" by (cases m)
  have kv: "utf8_valid (bytes_of_string k)" "encodes x v" using Cons.prems m by auto
  have p: "pstr (estr k @ CHR 0x22 # t) = Some (k, t)" for t by (rule pstr_estr [OF kv(1)])
  have e: "pvalue (Suc q) d (x @ c # t) = Some (v, c # t)" if "follows c" for q c t
    using kv(2) that by (simp add: encodes_def)
  show ?case
  proof (cases ms)
    case Nil
    show ?thesis using p e [of "CHR ''}''"] by (simp add: m Nil quote_def follows_def)
  next
    case (Cons m' ms')
    obtain k' x' v' where m': "m' = (k', x', v')" by (cases m')
    have ih: "pmembers (length ms + 1 + n) d (mtext (map (\<lambda>(k, x, v). (k, x)) ms) @ CHR ''}'' # r) =
        Some (map (\<lambda>(k, x, v). (k, v)) ms, r)"
      by (rule Cons.IH) (use Cons Cons.prems in auto)
    then show ?thesis using p e [of "CHR '',''"] by (simp add: m Cons m' quote_def follows_def)
  qed
qed simp

lemma length_mtext: "3 * length ms \<le> length (mtext ms)"
  by (induction ms rule: mtext.induct) (simp_all add: quote_def)

lemma parse_enc_object:
  assumes "ms \<noteq> []" "\<forall>(k, x, v) \<in> set ms. utf8_valid (bytes_of_string k) \<and> encodes x v"
  shows "parse_json (enc_object (map (\<lambda>(k, x, v). (k, x)) ms) @ r) = Some (JObj (map (\<lambda>(k, x, v). (k, v)) ms), r)"
proof -
  let ?t = "mtext (map (\<lambda>(k, x, v). (k, x)) ms)"
  have "length ms + 1 \<le> 2 * length ?t + 5 + 2 * length r"
    using length_mtext [of "map (\<lambda>(k, x, v). (k, x)) ms"] by simp
  then obtain n where n: "2 * length ?t + 5 + 2 * length r = length ms + 1 + n" using le_Suc_ex by blast
  have f: "2 * length ((''{'' @ ?t @ ''}'') @ r) + 2 = Suc (length ms + 1 + n)" using n by simp
  obtain k x ms' where ms: "map (\<lambda>(k, x, v). (k, x)) ms = (k, x) # ms'"
    using assms(1) by (cases ms) auto
  obtain u where u: "?t = CHR 0x22 # u" unfolding ms by (cases ms') (auto simp: quote_def)
  show ?thesis using pmembers_mtext [OF assms, of n "Suc 0" r]
    unfolding parse_json_def enc_object_mtext f
    by (simp add: u maxNestingDepth_def)
qed

subsection \<open>The fuel is enough\<close>

lemma prepend_Some: "prepend t x = Some (a, b) \<longleftrightarrow> (\<exists>c. x = Some (c, b) \<and> a = t @ c)"
  by (auto simp: prepend_def)

lemma pstr_length: "pstr s = Some (t, r) \<Longrightarrow> length r < length s"
proof (induction s arbitrary: t rule: pstr.induct)
  case (2 c s)
  let ?n = "code_of c"
  consider "?n = 34" | "?n = 92" | "?n < 32" "?n \<noteq> 34" "?n \<noteq> 92" | "32 \<le> ?n" "?n \<noteq> 34" "?n \<noteq> 92" by linarith
  then show ?case
  proof cases
    case 2
    obtain e s' where s: "s = e # s'" using 2 "2.prems" by (cases s) (auto simp: pstr.simps(2))
    show ?thesis
    proof (cases "simple_escape (code_of e)")
      case (Some x)
      then show ?thesis using "2.prems" 2 s "2.IH"(2) [OF refl _ 2 s Some]
        by (auto simp: pstr.simps(2) prepend_Some)
    next
      case None
      obtain vr where v: "hex4 s' = Some vr" "code_of e = 117"
        using "2.prems" 2 s None by (auto simp: pstr.simps(2) split: if_splits option.splits)
      let ?u = "snd (unescape_u (fst vr) (snd vr))"
      have "length ?u \<le> length (snd vr)" using unescape_u_length by (metis prod.collapse)
      moreover have "length (snd vr) < length s'" using hex4_length [of s' "fst vr" "snd vr"] v by simp
      moreover obtain c' where "pstr ?u = Some (c', r)"
        using "2.prems" 2 s None v by (auto simp: pstr.simps(2) prepend_Some)
      then have "length r < length ?u" using "2.IH"(1) [OF refl _ 2 s None _ v(1)] 2 v(2) by simp
      ultimately show ?thesis using s by simp
    qed
  next
    case 4
    let ?w = "full_rune_str (c # s)"
    show ?thesis
    proof (cases "?w = 0")
      case True
      then obtain c' where "pstr s = Some (c', r)"
        using "2.prems" 4 by (auto simp: pstr.simps(2) Let_def prepend_Some)
      then have "length r < length s" using "2.IH"(3) [OF refl _ _ _ refl] 4 True by simp
      then show ?thesis by simp
    next
      case False
      then obtain c' where "pstr (drop ?w (c # s)) = Some (c', r)"
        using "2.prems" 4 by (auto simp: pstr.simps(2) Let_def prepend_Some)
      then have "length r < length (drop ?w (c # s))" using "2.IH"(4) [OF refl] 4 False by simp
      then show ?thesis by simp
    qed
  qed (use "2.prems" in \<open>auto simp: pstr.simps(2)\<close>)
qed simp


lemma skip_ws_length: "length (skip_ws s) \<le> length s"
  by (simp add: skip_ws_def length_dropWhile_le)

lemma digits1_length: "digits1 s = Some (a, r) \<Longrightarrow> length r < length s"
proof -
  assume d: "digits1 s = Some (a, r)"
  then have "s = a @ r" "a \<noteq> []" by (auto simp: digits1_def Let_def split: if_splits)
  then show ?thesis by simp
qed

lemma pint_length: "pint s = Some (a, r) \<Longrightarrow> length r < length s"
  by (auto simp: pint_def split: list.splits if_splits dest: digits1_length)

lemma pfrac_length: "pfrac s = Some (a, r) \<Longrightarrow> length r \<le> length s"
  by (auto simp: pfrac_def prepend_Some split: list.splits if_splits dest: digits1_length)

lemma pexp_length: "pexp s = Some (a, r) \<Longrightarrow> length r \<le> length s"
  by (auto simp: pexp_def prepend_Some split: list.splits if_splits dest: digits1_length)

lemma and_then_Some: "and_then x f = Some (a, r) \<longleftrightarrow> (\<exists>a1 s a2. x = Some (a1, s) \<and> f s = Some (a2, r) \<and> a = a1 @ a2)"
  by (auto simp: and_then_def prepend_Some split: option.splits)

lemma pnum_length: "pnum s = Some (a, r) \<Longrightarrow> length r < length s"
  unfolding pnum_def and_then_Some
  by (auto simp: prepend_Some split: list.splits if_splits dest!: pint_length pfrac_length pexp_length)

lemma pscalar_length: "pscalar s = Some (v, r) \<Longrightarrow> length r < length s"
proof -
  have st: "strip p s = Some t \<Longrightarrow> p \<noteq> [] \<Longrightarrow> length t < length s" for p t
    by (cases s) (auto simp: strip_def split: if_splits)
  assume "pscalar s = Some (v, r)"
  then show ?thesis
    by (auto simp: pscalar_def split: option.splits dest: st pnum_length)
qed

lemma p_length:
  "pvalue n d s = Some (v, r) \<Longrightarrow> length r < length s"
  "pelems n d s = Some (vs, r) \<Longrightarrow> length r < length s"
  "pmembers n d s = Some (ms, r) \<Longrightarrow> length r < length s"
proof (induction n d s and n d s and n d s arbitrary: v r and vs r and ms r
    rule: pvalue_pelems_pmembers.induct)
  case (2 n d s)
  have w: "length (skip_ws s) \<le> length s" by (rule skip_ws_length)
  obtain c t where c: "skip_ws s = c # t" using 2(3) by (cases "skip_ws s") auto
  have wt: "length (skip_ws t) \<le> length t" by (rule skip_ws_length)
  show ?case
  proof (cases "skip_ws t")
    case Nil
    then show ?thesis using 2(3) c w
      by (auto split: if_splits dest!: pstr_length pscalar_length)
  next
    case (Cons e u)
    then show ?thesis using 2 c w wt
      by (fastforce split: if_splits dest!: pstr_length pscalar_length)
  qed
next
  case (4 n d s)
  obtain x t where x: "pvalue n d s = Some (x, t)" using 4(3) by (auto split: option.splits prod.splits)
  have "length t < length s" by (rule 4(1) [OF x])
  moreover have "length (skip_ws t) \<le> length t" by (rule skip_ws_length)
  ultimately show ?case using 4(2,3) x
    by (fastforce split: list.splits if_splits)
next
  case (6 n d s)
  obtain q s1 where q: "skip_ws s = q # s1" using 6(3) by (cases "skip_ws s") auto
  obtain k s2 where k: "pstr s1 = Some (k, s2)" using 6(3) q by (auto split: if_splits option.splits prod.splits)
  obtain c s3 where c: "skip_ws s2 = c # s3" using 6(3) q k by (auto split: if_splits list.splits)
  obtain x t where x: "pvalue n d s3 = Some (x, t)"
    using 6(3) q k c by (auto split: if_splits option.splits prod.splits)
  obtain e u where e: "skip_ws t = e # u" using 6(3) q k c x by (auto split: if_splits list.splits)
  have "length (q # s1) \<le> length s" "length (c # s3) \<le> length s2" "length (e # u) \<le> length t"
    using skip_ws_length [of s] skip_ws_length [of s2] skip_ws_length [of t] by (simp_all add: q c e)
  moreover have "length s2 < length s1" by (rule pstr_length [OF k])
  moreover have "length t < length s3" using 6 q k c x by (fastforce split: if_splits)
  ultimately show ?case using 6 q k c x e by (fastforce split: if_splits)
qed simp_all


lemma p_fuel:
  "(2 * length s + 1 \<le> n \<longrightarrow> pvalue (Suc n) d s = pvalue n d s) \<and>
   (2 * length s + 2 \<le> n \<longrightarrow> pelems (Suc n) d s = pelems n d s) \<and>
   (2 * length s + 2 \<le> n \<longrightarrow> pmembers (Suc n) d s = pmembers n d s)"
proof (induction n arbitrary: d s)
  case (Suc n)
  have V: "2 * length t + 1 \<le> n \<Longrightarrow> pvalue (Suc n) e t = pvalue n e t"
    and E: "2 * length t + 2 \<le> n \<Longrightarrow> pelems (Suc n) e t = pelems n e t"
    and M: "2 * length t + 2 \<le> n \<Longrightarrow> pmembers (Suc n) e t = pmembers n e t" for e t
    using Suc by blast+
  have "pvalue (Suc (Suc n)) d s = pvalue (Suc n) d s" if b: "2 * length s + 1 \<le> Suc n"
  proof (cases "skip_ws s")
    case (Cons c r)
    have l: "length r < length s" using skip_ws_length [of s] Cons by simp
    show ?thesis
    proof (cases "skip_ws r")
      case (Cons e u)
      then have "length (e # u) \<le> length r" using skip_ws_length [of r] by simp
      then show ?thesis using l b E [of "e # u"] M [of "e # u"] \<open>skip_ws s = _\<close> Cons
        by (simp del: pelems.simps pmembers.simps)
    qed (use \<open>skip_ws s = _\<close> in \<open>simp del: pelems.simps pmembers.simps\<close>)
  qed simp
  moreover have "pelems (Suc (Suc n)) d s = pelems (Suc n) d s" if b: "2 * length s + 2 \<le> Suc n"
  proof -
    have v: "pvalue (Suc n) d s = pvalue n d s" using b by (intro V) simp
    have "pelems (Suc n) d u = pelems n d u" if "pvalue n d s = Some (x, t)" "skip_ws t = c # u" for x t c u
      using that p_length(1) [of n d s x t] skip_ws_length [of t] b by (intro E) simp
    then show ?thesis unfolding pelems.simps(2) v by (auto split: option.splits prod.splits list.splits)
  qed
  moreover have "pmembers (Suc (Suc n)) d s = pmembers (Suc n) d s" if b: "2 * length s + 2 \<le> Suc n"
  proof -
    have v: "pvalue (Suc n) d s3 = pvalue n d s3"
      if "skip_ws s = q # s1" "pstr s1 = Some (k, s2)" "skip_ws s2 = c # s3" for q s1 k s2 c s3
      using that pstr_length [of s1 k s2] skip_ws_length [of s] skip_ws_length [of s2] b by (intro V) simp
    have m: "pmembers (Suc n) d u = pmembers n d u"
      if "skip_ws s = q # s1" "pstr s1 = Some (k, s2)" "skip_ws s2 = c # s3" "pvalue n d s3 = Some (x, t)"
        "skip_ws t = e # u" for q s1 k s2 c s3 x t e u
      using that pstr_length [of s1 k s2] skip_ws_length [of s] skip_ws_length [of s2] skip_ws_length [of t]
        p_length(1) [of n d s3 x t] b by (intro M) simp
    show ?thesis unfolding pmembers.simps(2) using v m
      by (auto split: option.splits prod.splits list.splits)
  qed
  ultimately show ?case by blast
qed simp

text \<open>More fuel than \<open>parse_json\<close> uses changes nothing.\<close>

lemma pvalue_fuel: "2 * length s + 2 \<le> n \<Longrightarrow> pvalue n 0 s = parse_json s"
  unfolding parse_json_def
proof (induction n rule: dec_induct)
  case (step n)
  then show ?case using p_fuel [of s n 0] by simp
qed simp

end
