(* ===== verification/Signal.thy ===== *)
theory Signal
  imports Json Errors
begin

text \<open>
  The signaling envelope (\<^verbatim>\<open>signaling.go\<close>), its payload bodies
  (\<^verbatim>\<open>signal_payload.go\<close>) and its validation (\<^verbatim>\<open>signal_validate.go\<close>).
  Strings are byte strings; the raw payload is the JSON text. The random source of \<open>NewID\<close> is an
  argument. The interfaces \<open>Signaler\<close> and \<open>SignalConn\<close> are implemented elsewhere.
\<close>

subsection \<open>Data\<close>

type_synonym PeerID = string

definition ProtocolVersion :: u16 where "ProtocolVersion = 1"

definition KindOffer :: string where "KindOffer = ''offer''"
definition KindAnswer :: string where "KindAnswer = ''answer''"
definition KindCandidate :: string where "KindCandidate = ''candidate''"
definition KindICEComplete :: string where "KindICEComplete = ''ice-complete''"
definition KindRestart :: string where "KindRestart = ''restart''"
definition KindReject :: string where "KindReject = ''reject''"
definition KindClose :: string where "KindClose = ''close''"

lemmas kind_defs = KindOffer_def KindAnswer_def KindCandidate_def KindICEComplete_def
  KindRestart_def KindReject_def KindClose_def

record Signal =
  sig_Version :: u16
  sig_ID :: string
  sig_SessionID :: string
  sig_Kind :: string
  sig_From :: PeerID
  sig_To :: PeerID
  sig_Payload :: string

definition RejectNotListening :: string where "RejectNotListening = ''not_listening''"
definition RejectBusy :: string where "RejectBusy = ''busy''"
definition RejectUnauthorized :: string where "RejectUnauthorized = ''unauthorized''"
definition RejectUnsupportedVersion :: string where "RejectUnsupportedVersion = ''unsupported_version''"
definition RejectInvalidOffer :: string where "RejectInvalidOffer = ''invalid_offer''"
definition RejectInternal :: string where "RejectInternal = ''internal''"

lemmas reject_defs = RejectNotListening_def RejectBusy_def RejectUnauthorized_def
  RejectUnsupportedVersion_def RejectInvalidOffer_def RejectInternal_def

definition RejectCode_valid :: "string \<Rightarrow> bool" where
  "RejectCode_valid c \<longleftrightarrow> c \<in> set [RejectNotListening, RejectBusy, RejectUnauthorized,
     RejectUnsupportedVersion, RejectInvalidOffer, RejectInternal]"

definition CloseNormal :: string where "CloseNormal = ''normal''"
definition CloseGoingAway :: string where "CloseGoingAway = ''going_away''"
definition CloseProtocolError :: string where "CloseProtocolError = ''protocol_error''"
definition CloseTimeout :: string where "CloseTimeout = ''timeout''"
definition CloseInternal :: string where "CloseInternal = ''internal''"

lemmas close_defs = CloseNormal_def CloseGoingAway_def CloseProtocolError_def CloseTimeout_def
  CloseInternal_def

definition CloseCode_valid :: "string \<Rightarrow> bool" where
  "CloseCode_valid c \<longleftrightarrow>
     c \<in> set [CloseNormal, CloseGoingAway, CloseProtocolError, CloseTimeout, CloseInternal]"

record sdpPayload =
  sp_SDP :: string

record candidatePayload =
  cp_Candidate :: string
  cp_SDPMid :: "string option"
  cp_SDPMLineIndex :: "u16 option"
  cp_UsernameFragment :: "string option"

record restartPayload =
  rp_Generation :: u32
  rp_SDP :: string

record rejectPayload =
  rj_Code :: string
  rj_Reason :: string

record closePayload =
  cl_Code :: string
  cl_Reason :: string

text \<open>The bodies \<open>encodePayload\<close> is called with.\<close>

datatype payload =
    PSdp sdpPayload
  | PCandidate candidatePayload
  | PRestart restartPayload
  | PReject rejectPayload
  | PClose closePayload

definition MaxEnvelopeSize :: nat where "MaxEnvelopeSize = 262144"
definition MaxSDPSize :: nat where "MaxSDPSize = 131072"
definition MaxCandidateSize :: nat where "MaxCandidateSize = 8192"
definition MaxPeerIDLength :: nat where "MaxPeerIDLength = 128"
definition MaxReasonLength :: nat where "MaxReasonLength = 512"
definition maxUsernameFragmentLength :: nat where "maxUsernameFragmentLength = 256"
definition maxPendingCandidates :: nat where "maxPendingCandidates = 256"

subsection \<open>Payload encoding\<close>

definition NewID :: "bytes \<Rightarrow> string" where
  "NewID buf = concat (map hex2 buf)"

definition opt_member :: "string \<Rightarrow> ('a \<Rightarrow> string) \<Rightarrow> 'a option \<Rightarrow> (string \<times> string) list" where
  "opt_member k enc v = (case v of None \<Rightarrow> [] | Some x \<Rightarrow> [(k, enc x)])"

fun encodePayload :: "payload \<Rightarrow> string" where
  "encodePayload (PSdp p) = enc_object [(''sdp'', quote (sp_SDP p))]"
| "encodePayload (PCandidate p) =
     enc_object ([(''candidate'', quote (cp_Candidate p))]
       @ opt_member ''sdp_mid'' quote (cp_SDPMid p)
       @ opt_member ''sdp_mline_index'' (\<lambda>i. format_uint (unat i)) (cp_SDPMLineIndex p)
       @ opt_member ''username_fragment'' quote (cp_UsernameFragment p))"
| "encodePayload (PRestart p) =
     enc_object [(''generation'', format_uint (unat (rp_Generation p))), (''sdp'', quote (rp_SDP p))]"
| "encodePayload (PReject p) =
     enc_object [(''code'', quote (rj_Code p)), (''reason'', quote (rj_Reason p))]"
| "encodePayload (PClose p) =
     enc_object [(''code'', quote (cl_Code p)), (''reason'', quote (cl_Reason p))]"

subsection \<open>Payload decoding\<close>

text \<open>\<open>dec.More()\<close>: the next byte that is not white space exists and closes nothing.\<close>

definition dec_More :: "string \<Rightarrow> bool" where
  "dec_More rest =
     (case skip_ws rest of [] \<Rightarrow> False | c # _ \<Rightarrow> code_of c \<noteq> 93 \<and> code_of c \<noteq> 125)"

definition decodePayload :: "(json \<Rightarrow> 'r option) \<Rightarrow> string \<Rightarrow> gerror + 'r" where
  "decodePayload dec raw =
     (if raw = [] then Inl (errorf ErrProtocol None)
      else case parse_json raw of
        None \<Rightarrow> Inl (errorf ErrProtocol (Some (Plain ''json: syntax'')))
      | Some (v, rest) \<Rightarrow>
          (case dec v of
             None \<Rightarrow> Inl (errorf ErrProtocol (Some (Plain ''json: type'')))
           | Some r \<Rightarrow> if dec_More rest then Inl (errorf ErrProtocol None) else Inr r))"

definition decode_sdp :: "json \<Rightarrow> sdpPayload option" where
  "decode_sdp = decode_struct [''sdp'']
     (\<lambda>f x r. map_option (\<lambda>s. r\<lparr>sp_SDP := s\<rparr>) (set_string x (sp_SDP r)))
     \<lparr> sp_SDP = [] \<rparr>"

definition decode_candidate :: "json \<Rightarrow> candidatePayload option" where
  "decode_candidate = decode_struct
     [''candidate'', ''sdp_mid'', ''sdp_mline_index'', ''username_fragment'']
     (\<lambda>f x r.
        if f = ''candidate'' then map_option (\<lambda>s. r\<lparr>cp_Candidate := s\<rparr>) (set_string x (cp_Candidate r))
        else if f = ''sdp_mid'' then map_option (\<lambda>s. r\<lparr>cp_SDPMid := s\<rparr>) (set_string_ptr x)
        else if f = ''sdp_mline_index''
        then map_option (\<lambda>i. r\<lparr>cp_SDPMLineIndex := map_option of_nat i\<rparr>) (set_uint_ptr 16 x)
        else map_option (\<lambda>s. r\<lparr>cp_UsernameFragment := s\<rparr>) (set_string_ptr x))
     \<lparr> cp_Candidate = [], cp_SDPMid = None, cp_SDPMLineIndex = None, cp_UsernameFragment = None \<rparr>"

definition decode_restart :: "json \<Rightarrow> restartPayload option" where
  "decode_restart = decode_struct [''generation'', ''sdp'']
     (\<lambda>f x r.
        if f = ''generation''
        then map_option (\<lambda>g. r\<lparr>rp_Generation := of_nat g\<rparr>) (set_uint 32 x (unat (rp_Generation r)))
        else map_option (\<lambda>s. r\<lparr>rp_SDP := s\<rparr>) (set_string x (rp_SDP r)))
     \<lparr> rp_Generation = 0, rp_SDP = [] \<rparr>"

definition decode_reject :: "json \<Rightarrow> rejectPayload option" where
  "decode_reject = decode_struct [''code'', ''reason'']
     (\<lambda>f x r.
        if f = ''code'' then map_option (\<lambda>s. r\<lparr>rj_Code := s\<rparr>) (set_string x (rj_Code r))
        else map_option (\<lambda>s. r\<lparr>rj_Reason := s\<rparr>) (set_string x (rj_Reason r)))
     \<lparr> rj_Code = [], rj_Reason = [] \<rparr>"

definition decode_close :: "json \<Rightarrow> closePayload option" where
  "decode_close = decode_struct [''code'', ''reason'']
     (\<lambda>f x r.
        if f = ''code'' then map_option (\<lambda>s. r\<lparr>cl_Code := s\<rparr>) (set_string x (cl_Code r))
        else map_option (\<lambda>s. r\<lparr>cl_Reason := s\<rparr>) (set_string x (cl_Reason r)))
     \<lparr> cl_Code = [], cl_Reason = [] \<rparr>"

subsection \<open>Validation\<close>

definition str_valid :: "string \<Rightarrow> bool" where
  "str_valid s = utf8_valid (bytes_of_string s)"

definition validSDP :: "string \<Rightarrow> gerror option" where
  "validSDP sdp =
     (if sdp = [] then Some (errorf ErrProtocol None)
      else if length sdp > MaxSDPSize then Some (errorf ErrProtocol None)
      else if \<not> str_valid sdp then Some (errorf ErrProtocol None)
      else None)"

definition validReason :: "string \<Rightarrow> gerror option" where
  "validReason reason =
     (if length reason > MaxReasonLength then Some (errorf ErrProtocol None)
      else if \<not> str_valid reason then Some (errorf ErrProtocol None)
      else None)"

definition isHexLower :: "byte \<Rightarrow> bool" where
  "isHexLower c \<longleftrightarrow> (48 \<le> c \<and> c \<le> 57) \<or> (97 \<le> c \<and> c \<le> 102)"

definition allHexLower :: "string \<Rightarrow> bool" where
  "allHexLower s = list_all isHexLower (bytes_of_string s)"

text \<open>The \<open>range\<close> loop of the 36-byte form: runes with their byte offsets; the conversion
  \<open>byte(r)\<close> keeps the low eight bits.\<close>

fun uuid_loop :: "nat \<Rightarrow> (rune \<times> bytes) list \<Rightarrow> bool" where
  "uuid_loop i [] = True"
| "uuid_loop i ((r, bs) # ps) =
     (if i \<in> {8, 13, 18, 23} then (if r \<noteq> 45 then False else uuid_loop (i + length bs) ps)
      else if \<not> isHexLower (of_nat r) then False
      else uuid_loop (i + length bs) ps)"

definition validID :: "string \<Rightarrow> bool" where
  "validID s =
     (if length s = 32 then allHexLower s
      else if length s = 36 then uuid_loop 0 (runes (bytes_of_string s))
      else False)"

definition validPeerID :: "PeerID \<Rightarrow> gerror option" where
  "validPeerID s =
     (if s = [] then Some (errorf ErrProtocol None)
      else if length s > MaxPeerIDLength then Some (errorf ErrProtocol None)
      else if \<not> str_valid s then Some (errorf ErrProtocol None)
      else if \<exists>p \<in> set (runes (bytes_of_string s)). is_control (fst p)
      then Some (errorf ErrProtocol None)
      else if trim_space (bytes_of_string s) \<noteq> bytes_of_string s
      then Some (errorf ErrProtocol None)
      else None)"

definition validCandidate :: "candidatePayload \<Rightarrow> gerror option" where
  "validCandidate p =
     (if cp_Candidate p = [] then Some (errorf ErrProtocol None)
      else if length (cp_Candidate p) > MaxCandidateSize then Some (errorf ErrProtocol None)
      else if \<not> str_valid (cp_Candidate p) then Some (errorf ErrProtocol None)
      else case cp_UsernameFragment p of
        Some u \<Rightarrow> if length u > maxUsernameFragmentLength then Some (errorf ErrProtocol None) else None
      | None \<Rightarrow> None)"

definition validatePayload :: "Signal \<Rightarrow> gerror option" where
  "validatePayload s =
     (if sig_Kind s = KindOffer \<or> sig_Kind s = KindAnswer then
        (case decodePayload decode_sdp (sig_Payload s) of
           Inl e \<Rightarrow> Some e
         | Inr p \<Rightarrow> validSDP (sp_SDP p))
      else if sig_Kind s = KindCandidate then
        (case decodePayload decode_candidate (sig_Payload s) of
           Inl e \<Rightarrow> Some e
         | Inr p \<Rightarrow> validCandidate p)
      else if sig_Kind s = KindICEComplete then
        (if sig_Payload s \<noteq> [] \<and> sig_Payload s \<noteq> ''null'' \<and> sig_Payload s \<noteq> ''{}''
         then Some (errorf ErrProtocol None) else None)
      else if sig_Kind s = KindRestart then
        (case decodePayload decode_restart (sig_Payload s) of
           Inl e \<Rightarrow> Some e
         | Inr p \<Rightarrow> if rp_Generation p = 0 then Some (errorf ErrProtocol None) else validSDP (rp_SDP p))
      else if sig_Kind s = KindReject then
        (case decodePayload decode_reject (sig_Payload s) of
           Inl e \<Rightarrow> Some e
         | Inr p \<Rightarrow> if \<not> RejectCode_valid (rj_Code p) then Some (errorf ErrProtocol None)
                    else validReason (rj_Reason p))
      else if sig_Kind s = KindClose then
        (case decodePayload decode_close (sig_Payload s) of
           Inl e \<Rightarrow> Some e
         | Inr p \<Rightarrow> if \<not> CloseCode_valid (cl_Code p) then Some (errorf ErrProtocol None)
                    else validReason (cl_Reason p))
      else Some (errorf ErrProtocol None))"

definition Validate :: "Signal \<Rightarrow> gerror option" where
  "Validate s =
     (if sig_Version s \<noteq> ProtocolVersion then Some (errorf ErrProtocol None)
      else if \<not> validID (sig_ID s) then Some (errorf ErrProtocol None)
      else if \<not> validID (sig_SessionID s) then Some (errorf ErrProtocol None)
      else case validPeerID (sig_From s) of
        Some e \<Rightarrow> Some (errorf ErrProtocol (Some e))
      | None \<Rightarrow>
          (case validPeerID (sig_To s) of
             Some e \<Rightarrow> Some (errorf ErrProtocol (Some e))
           | None \<Rightarrow>
               if sig_From s = sig_To s then Some (errorf ErrProtocol None)
               else if length (sig_Payload s) > MaxEnvelopeSize then Some (errorf ErrProtocol None)
               else validatePayload s))"

text \<open>\<open>newSignal\<close>; \<open>buf\<close> is what \<open>crypto/rand\<close> returned for the message ID.\<close>

definition newSignal ::
    "bytes \<Rightarrow> string \<Rightarrow> PeerID \<Rightarrow> PeerID \<Rightarrow> string \<Rightarrow> payload option \<Rightarrow> gerror + Signal" where
  "newSignal buf kind from to sessionID payload =
     (let sig = \<lparr> sig_Version = ProtocolVersion, sig_ID = NewID buf, sig_SessionID = sessionID,
                  sig_Kind = kind, sig_From = from, sig_To = to, sig_Payload = [] \<rparr>;
          sig = (case payload of None \<Rightarrow> sig | Some p \<Rightarrow> sig\<lparr>sig_Payload := encodePayload p\<rparr>)
      in case Validate sig of Some e \<Rightarrow> Inl (Wrap e) | None \<Rightarrow> Inr sig)"

subsection \<open>Payload round trips\<close>

lemma ascii_key: "\<forall>c \<in> set k. code_of c < 128 \<Longrightarrow> utf8_valid (bytes_of_string k)"
  by (rule utf8_valid_ascii) (auto simp: bytes_of_string_def byte_of_char_def code_of_def unat_of_nat)

lemma key_valid:
  "utf8_valid (bytes_of_string ''sdp'')" "utf8_valid (bytes_of_string ''candidate'')"
  "utf8_valid (bytes_of_string ''sdp_mid'')" "utf8_valid (bytes_of_string ''sdp_mline_index'')"
  "utf8_valid (bytes_of_string ''username_fragment'')" "utf8_valid (bytes_of_string ''generation'')"
  "utf8_valid (bytes_of_string ''code'')" "utf8_valid (bytes_of_string ''reason'')"
  by (rule ascii_key, simp add: code_of_def)+

lemma encodes_str: "str_valid s \<Longrightarrow> encodes (quote s) (JStr s)"
  by (simp add: str_valid_def encodes_quote)

lemma decode_encoded:
  assumes "ms \<noteq> []" "\<forall>(k, x, v) \<in> set ms. utf8_valid (bytes_of_string k) \<and> encodes x v"
    "raw = enc_object (map (\<lambda>(k, x, v). (k, x)) ms)" "dec (JObj (map (\<lambda>(k, x, v). (k, v)) ms)) = Some r"
  shows "decodePayload dec raw = Inr r"
proof -
  have "raw \<noteq> []" by (simp add: assms(3) enc_object_def)
  then show ?thesis using parse_enc_object [OF assms(1,2), of "[]"] assms(3,4)
    by (simp add: decodePayload_def dec_More_def skip_ws_def)
qed

lemma parse_u32: "parse_uint 32 (format_uint (unat (g :: u32))) = Some (unat g)"
  by (rule parse_format_uint) (use unsigned_less [of g] in simp)

lemma parse_u16: "parse_uint 16 (format_uint (unat (g :: u16))) = Some (unat g)"
  by (rule parse_format_uint) (use unsigned_less [of g] in simp)

lemma roundtrip_sdp: "str_valid (sp_SDP p) \<Longrightarrow> decodePayload decode_sdp (encodePayload (PSdp p)) = Inr p"
  by (rule decode_encoded [where ms = "[(''sdp'', quote (sp_SDP p), JStr (sp_SDP p))]"])
     (simp_all add: key_valid encodes_str decode_sdp_def decode_struct_def field_of_def set_string_def)

lemma roundtrip_restart:
  "str_valid (rp_SDP p) \<Longrightarrow> decodePayload decode_restart (encodePayload (PRestart p)) = Inr p"
  by (rule decode_encoded [where ms = "[(''generation'', format_uint (unat (rp_Generation p)),
        JNum (format_uint (unat (rp_Generation p)))), (''sdp'', quote (rp_SDP p), JStr (rp_SDP p))]"])
     (simp_all add: key_valid encodes_str encodes_number decode_restart_def decode_struct_def field_of_def
       set_string_def set_uint_def parse_u32)

lemma roundtrip_reject:
  "str_valid (rj_Code p) \<Longrightarrow> str_valid (rj_Reason p) \<Longrightarrow>
   decodePayload decode_reject (encodePayload (PReject p)) = Inr p"
  by (rule decode_encoded [where ms = "[(''code'', quote (rj_Code p), JStr (rj_Code p)),
        (''reason'', quote (rj_Reason p), JStr (rj_Reason p))]"])
     (simp_all add: key_valid encodes_str decode_reject_def decode_struct_def field_of_def set_string_def)

lemma roundtrip_close:
  "str_valid (cl_Code p) \<Longrightarrow> str_valid (cl_Reason p) \<Longrightarrow>
   decodePayload decode_close (encodePayload (PClose p)) = Inr p"
  by (rule decode_encoded [where ms = "[(''code'', quote (cl_Code p), JStr (cl_Code p)),
        (''reason'', quote (cl_Reason p), JStr (cl_Reason p))]"])
     (simp_all add: key_valid encodes_str decode_close_def decode_struct_def field_of_def set_string_def)

definition opt_valid :: "string option \<Rightarrow> bool" where
  "opt_valid s = (case s of None \<Rightarrow> True | Some x \<Rightarrow> str_valid x)"

definition opt_entry :: "string \<Rightarrow> ('a \<Rightarrow> string) \<Rightarrow> ('a \<Rightarrow> json) \<Rightarrow> 'a option \<Rightarrow> (string \<times> string \<times> json) list" where
  "opt_entry k enc js v = (case v of None \<Rightarrow> [] | Some x \<Rightarrow> [(k, enc x, js x)])"

lemma roundtrip_candidate:
  assumes "str_valid (cp_Candidate p)" "opt_valid (cp_SDPMid p)" "opt_valid (cp_UsernameFragment p)"
  shows "decodePayload decode_candidate (encodePayload (PCandidate p)) = Inr p"
proof (rule decode_encoded [where ms = "[(''candidate'', quote (cp_Candidate p), JStr (cp_Candidate p))]
    @ opt_entry ''sdp_mid'' quote JStr (cp_SDPMid p)
    @ opt_entry ''sdp_mline_index'' (\<lambda>i. format_uint (unat i)) (\<lambda>i. JNum (format_uint (unat i))) (cp_SDPMLineIndex p)
    @ opt_entry ''username_fragment'' quote JStr (cp_UsernameFragment p)"])
  show "encodePayload (PCandidate p) = enc_object (map (\<lambda>(k, x, v). (k, x))
    ([(''candidate'', quote (cp_Candidate p), JStr (cp_Candidate p))]
    @ opt_entry ''sdp_mid'' quote JStr (cp_SDPMid p)
    @ opt_entry ''sdp_mline_index'' (\<lambda>i. format_uint (unat i)) (\<lambda>i. JNum (format_uint (unat i))) (cp_SDPMLineIndex p)
    @ opt_entry ''username_fragment'' quote JStr (cp_UsernameFragment p)))"
    by (simp add: opt_entry_def opt_member_def split: option.splits)
qed (use assms in \<open>auto simp: opt_entry_def opt_valid_def key_valid encodes_str encodes_number
  decode_candidate_def decode_struct_def field_of_def set_string_def set_string_ptr_def set_uint_ptr_def parse_u16
  split: option.splits\<close>)

text \<open>C11: Payload bodies survive the wire. For every body whose text fields are valid UTF-8,
  \<open>decodePayload\<close> of \<open>encodePayload\<close> gives the body back, whatever characters the fields hold
  (quotes, control characters, the HTML-escaped ones, the line separators) and whichever optional
  fields are present.\<close>

theorem payload_roundtrip:
  "(str_valid (sp_SDP a) \<longrightarrow> decodePayload decode_sdp (encodePayload (PSdp a)) = Inr a) \<and>
   (str_valid (cp_Candidate b) \<and> opt_valid (cp_SDPMid b) \<and> opt_valid (cp_UsernameFragment b) \<longrightarrow>
      decodePayload decode_candidate (encodePayload (PCandidate b)) = Inr b) \<and>
   (str_valid (rp_SDP c) \<longrightarrow> decodePayload decode_restart (encodePayload (PRestart c)) = Inr c) \<and>
   (str_valid (rj_Code d) \<and> str_valid (rj_Reason d) \<longrightarrow>
      decodePayload decode_reject (encodePayload (PReject d)) = Inr d) \<and>
   (str_valid (cl_Code e) \<and> str_valid (cl_Reason e) \<longrightarrow>
      decodePayload decode_close (encodePayload (PClose e)) = Inr e)"
  by (simp add: roundtrip_sdp roundtrip_candidate roundtrip_restart roundtrip_reject roundtrip_close
      del: encodePayload.simps)

theorem payload_roundtrip_witness:
  "decodePayload decode_candidate (encodePayload (PCandidate
     \<lparr> cp_Candidate = ''a<b'', cp_SDPMid = Some ''0'', cp_SDPMLineIndex = Some 7,
       cp_UsernameFragment = None \<rparr>)) =
   Inr \<lparr> cp_Candidate = ''a<b'', cp_SDPMid = Some ''0'', cp_SDPMLineIndex = Some 7,
       cp_UsernameFragment = None \<rparr>"
proof -
  have "str_valid ''a<b''" "str_valid ''0''"
    unfolding str_valid_def by (rule ascii_key, simp add: code_of_def)+
  then show ?thesis using payload_roundtrip by (simp add: opt_valid_def del: encodePayload.simps)
qed

subsection \<open>Identifiers\<close>

lemma hex2_lower: "\<forall>c \<in> set (hex2 b). isHexLower (byte_of_char c)"
proof -
  have "isHexLower (byte_of_char (hex_char d))" if "d < 16" for d
  proof -
    have "byte_of_char (hex_char d) = of_nat (if d < 10 then 48 + d else 87 + d)"
      using that by (simp add: hex_char_def byte_of_char_def)
    moreover have "unat (of_nat (if d < 10 then 48 + d else 87 + d) :: byte) = (if d < 10 then 48 + d else 87 + d)"
      using that by (simp add: unat_of_nat)
    ultimately show ?thesis using that by (simp add: isHexLower_def word_le_nat_alt split: if_splits)
  qed
  moreover have "unat b < 2 ^ LENGTH(8)" by (rule unsigned_less)
  then have "unat b div 16 < 16" by simp
  ultimately show ?thesis by (simp add: hex2_def)
qed

lemma NewID_valid: "length buf = 16 \<Longrightarrow> validID (NewID buf)"
proof -
  assume l: "length buf = 16"
  have "length (concat (map hex2 bs)) = 2 * length bs" for bs :: bytes
    by (induction bs) (simp_all add: hex2_def)
  then have "length (NewID buf) = 32" using l by (simp add: NewID_def)
  moreover have "allHexLower (NewID buf)"
    using hex2_lower by (auto simp: allHexLower_def NewID_def bytes_of_string_def list_all_iff)
  ultimately show ?thesis by (simp add: validID_def)
qed

subsection \<open>Validation\<close>

lemma decodePayload_error: "decodePayload dec raw = Inl e \<Longrightarrow> errors_Is e ErrProtocol"
  by (auto simp: decodePayload_def split: if_splits option.splits)

lemma valid_errors:
  "validSDP x = Some e \<Longrightarrow> errors_Is e ErrProtocol" "validReason x = Some e \<Longrightarrow> errors_Is e ErrProtocol"
  "validCandidate c = Some e \<Longrightarrow> errors_Is e ErrProtocol" "validatePayload s = Some e \<Longrightarrow> errors_Is e ErrProtocol"
proof -
  show sdp: "validSDP x = Some e \<Longrightarrow> errors_Is e ErrProtocol" for x
    by (auto simp: validSDP_def split: if_splits)
  show rsn: "validReason x = Some e \<Longrightarrow> errors_Is e ErrProtocol" for x
    by (auto simp: validReason_def split: if_splits)
  show cand: "validCandidate c = Some e \<Longrightarrow> errors_Is e ErrProtocol" for c
    by (auto simp: validCandidate_def split: if_splits option.splits)
  show "validatePayload s = Some e \<Longrightarrow> errors_Is e ErrProtocol"
    by (auto simp: validatePayload_def split: if_splits sum.splits dest: sdp rsn cand decodePayload_error)
qed

text \<open>What the rest of the program may rely on once an envelope is validated.\<close>

definition body_ok :: "Signal \<Rightarrow> bool" where
  "body_ok s \<longleftrightarrow>
     (if sig_Kind s \<in> {KindOffer, KindAnswer} then
        \<exists>p. decodePayload decode_sdp (sig_Payload s) = Inr p \<and> 0 < length (sp_SDP p) \<and>
          length (sp_SDP p) \<le> MaxSDPSize
      else if sig_Kind s = KindCandidate then
        \<exists>p. decodePayload decode_candidate (sig_Payload s) = Inr p \<and> 0 < length (cp_Candidate p) \<and>
          length (cp_Candidate p) \<le> MaxCandidateSize
      else if sig_Kind s = KindRestart then
        \<exists>p. decodePayload decode_restart (sig_Payload s) = Inr p \<and> 0 < rp_Generation p \<and>
          0 < length (rp_SDP p) \<and> length (rp_SDP p) \<le> MaxSDPSize
      else if sig_Kind s = KindReject then
        \<exists>p. decodePayload decode_reject (sig_Payload s) = Inr p \<and> RejectCode_valid (rj_Code p) \<and>
          length (rj_Reason p) \<le> MaxReasonLength
      else if sig_Kind s = KindClose then
        \<exists>p. decodePayload decode_close (sig_Payload s) = Inr p \<and> CloseCode_valid (cl_Code p) \<and>
          length (cl_Reason p) \<le> MaxReasonLength
      else sig_Kind s = KindICEComplete)"

lemma kinds_differ [simp]:
  "KindRestart \<noteq> KindOffer" "KindRestart \<noteq> KindAnswer" "KindRestart \<noteq> KindCandidate"
  "KindReject \<noteq> KindOffer" "KindReject \<noteq> KindAnswer" "KindReject \<noteq> KindCandidate"
  "KindReject \<noteq> KindRestart" "KindClose \<noteq> KindOffer" "KindClose \<noteq> KindAnswer"
  "KindClose \<noteq> KindCandidate" "KindClose \<noteq> KindRestart" "KindClose \<noteq> KindReject"
  "KindCandidate \<noteq> KindOffer" "KindCandidate \<noteq> KindAnswer" "KindICEComplete \<noteq> KindOffer"
  "KindICEComplete \<noteq> KindAnswer" "KindICEComplete \<noteq> KindCandidate" "KindICEComplete \<noteq> KindRestart"
  "KindICEComplete \<noteq> KindReject" "KindICEComplete \<noteq> KindClose" "KindAnswer \<noteq> KindOffer"
  by (simp_all add: kind_defs)

lemmas kinds_differ_sym [simp] = kinds_differ [symmetric]

lemma validatePayload_ok: "validatePayload s = None \<Longrightarrow> body_ok s"
  unfolding validatePayload_def body_ok_def
  by (auto simp: validSDP_def validReason_def validCandidate_def word_neq_0_conv
      split: if_splits sum.splits option.splits)

lemma peer_ok: "validPeerID p = None \<Longrightarrow> 0 < length p \<and> length p \<le> MaxPeerIDLength \<and> str_valid p \<and>
    (\<forall>r \<in> set (runes (bytes_of_string p)). \<not> is_control (fst r))"
  by (auto simp: validPeerID_def split: if_splits)

lemma Validate_body: "Validate s = None \<Longrightarrow> body_ok s"
  by (rule validatePayload_ok) (auto simp: Validate_def split: if_splits option.splits)



definition ex_signal :: Signal where
  "ex_signal = \<lparr> sig_Version = 1, sig_ID = replicate 32 (CHR ''0''), sig_SessionID = replicate 32 (CHR ''f''),
     sig_Kind = KindICEComplete, sig_From = ''a'', sig_To = ''b'', sig_Payload = [] \<rparr>"

lemmas rune_eval = runes.simps decode_rune_def full_rune.simps rune_width_def second_ok_def cont_byte_def
  bytes_of_string_def byte_of_char_def utf8_valid.simps

lemma ex_signal_valid: "Validate ex_signal = None"
  by (simp add: ex_signal_def Validate_def validID_def allHexLower_def isHexLower_def validPeerID_def
      ProtocolVersion_def MaxPeerIDLength_def str_valid_def rune_eval is_control_def is_space_def trim_space_def
      validatePayload_def MaxEnvelopeSize_def list_all_iff)


subsection \<open>Where the checks are looser than documented\<close>

text \<open>The 36-byte branch of \<open>validID\<close> ranges over runes, so a two-byte rune can stand on a dash
  position and its low byte is what is compared: an identifier with no dash at all and four runes that are
  not hexadecimal digits is accepted as a canonical UUID.\<close>

definition odd_uuid :: bytes where
  "odd_uuid = [48, 48, 48, 48, 48, 48, 48, 196, 176, 48, 48, 48, 196, 176, 48, 48, 48, 196, 176, 48, 48,
      48, 196, 176, 48, 48, 48, 48, 48, 48, 48, 48, 48, 48, 48, 48]"

lemma odd_runes:
  "runes (48 # bs) = (48, [48]) # runes bs" "runes (196 # 176 # bs) = (304, [196, 176]) # runes bs"
  by (simp_all add: runes.simps(2) decode_rune_def full_rune.simps rune_width_def second_ok_def cont_byte_def)

lemma validID_accepts_non_hex:
  "validID (string_of_bytes odd_uuid) \<and> \<not> allHexLower (string_of_bytes odd_uuid) \<and> 45 \<notin> set odd_uuid"
proof -
  have "uuid_loop 0 (runes odd_uuid)" by (simp add: odd_uuid_def odd_runes isHexLower_def)
  then show ?thesis by (simp add: validID_def allHexLower_def) (simp add: odd_uuid_def isHexLower_def)
qed

text \<open>A payload may be followed by content that starts with a closing bracket: \<open>More\<close> is meant for
  the inside of arrays and objects and reports no further element there.\<close>

lemma trailing_bracket_accepted:
  "decodePayload decode_sdp (encodePayload (PSdp \<lparr> sp_SDP = ''v'' \<rparr>) @ ''}junk'') =
     Inr \<lparr> sp_SDP = ''v'' \<rparr>"
proof -
  have v: "str_valid ''v''" unfolding str_valid_def by (rule ascii_key) (simp add: code_of_def)
  have "parse_json (encodePayload (PSdp \<lparr> sp_SDP = ''v'' \<rparr>) @ ''}junk'') =
      Some (JObj [(''sdp'', JStr ''v'')], ''}junk'')"
    using parse_enc_object [of "[(''sdp'', quote ''v'', JStr ''v'')]" "''}junk''"] key_valid(1) encodes_str [OF v]
    by simp
  then show ?thesis
    by (simp add: decodePayload_def dec_More_def decode_sdp_def decode_struct_def field_of_def set_string_def
        skip_ws_def is_ws_def code_of_def)
qed

end
