(* ===== verification/Conn.thy ===== *)
theory Conn
  imports Stream Signal
begin

text \<open>
  The public connection (\<^verbatim>\<open>conn.go\<close>), its states and statistics (\<^verbatim>\<open>stats.go\<close>) and its
  addresses (\<^verbatim>\<open>addr.go\<close>). The stream is shared with the owning session, so it is an argument and
  a result of the operations instead of a field; \<open>closeFn\<close> is reported as a flag that the owner
  turns into a close request. Durations and times are integers in nanoseconds. A compare-and-swap
  loop over an atomic is one atomic update.
\<close>

subsection \<open>States, roles and addresses\<close>

datatype ConnectionState =
    StateNew | StateSignaling | StateConnecting | StateConnected | StateRecovering
  | StateClosing | StateClosed

text \<open>The \<open>iota\<close> value of a state; the order of the states is the order of these values.\<close>

fun state_code :: "ConnectionState \<Rightarrow> nat" where
  "state_code StateNew = 0"
| "state_code StateSignaling = 1"
| "state_code StateConnecting = 2"
| "state_code StateConnected = 3"
| "state_code StateRecovering = 4"
| "state_code StateClosing = 5"
| "state_code StateClosed = 6"

fun ConnectionState_String :: "ConnectionState \<Rightarrow> string" where
  "ConnectionState_String StateNew = ''new''"
| "ConnectionState_String StateSignaling = ''signaling''"
| "ConnectionState_String StateConnecting = ''connecting''"
| "ConnectionState_String StateConnected = ''connected''"
| "ConnectionState_String StateRecovering = ''recovering''"
| "ConnectionState_String StateClosing = ''closing''"
| "ConnectionState_String StateClosed = ''closed''"

lemma state_code_inject [simp]: "state_code a = state_code b \<longleftrightarrow> a = b"
  by (cases a; cases b) simp_all

instantiation ConnectionState :: linorder
begin

definition less_eq_ConnectionState :: "ConnectionState \<Rightarrow> ConnectionState \<Rightarrow> bool" where
  "less_eq_ConnectionState a b \<longleftrightarrow> state_code a \<le> state_code b"

definition less_ConnectionState :: "ConnectionState \<Rightarrow> ConnectionState \<Rightarrow> bool" where
  "less_ConnectionState a b \<longleftrightarrow> state_code a < state_code b"

instance
  by standard (auto simp: less_eq_ConnectionState_def less_ConnectionState_def)

end

datatype role = roleOfferer | roleAnswerer

fun role_String :: "role \<Rightarrow> string" where
  "role_String roleOfferer = ''offerer''"
| "role_String roleAnswerer = ''answerer''"

type_synonym CandidateType = string

record Addr =
  ad_Peer :: PeerID
  ad_Session :: string

definition networkName :: string where "networkName = ''webrtc''"

definition Addr_Network :: "Addr \<Rightarrow> string" where
  "Addr_Network a = networkName"

definition Addr_String :: "Addr \<Rightarrow> string" where
  "Addr_String a = (if ad_Session a = [] then ad_Peer a else ad_Peer a @ ''#'' @ ad_Session a)"

subsection \<open>The connection\<close>

record sessionStats =
  st_ICERestarts :: int
  st_LocalCandidate :: CandidateType
  st_RemoteCandidate :: CandidateType
  st_KeepAliveRTT :: int

record ConnStats =
  cs_State :: ConnectionState
  cs_BytesRead :: u64
  cs_BytesWritten :: u64
  cs_FramesRead :: u64
  cs_FramesWritten :: u64
  cs_EstablishedAt :: int
  cs_ConnectDuration :: int
  cs_ICERestarts :: int
  cs_LocalCandidate :: CandidateType
  cs_RemoteCandidate :: CandidateType
  cs_KeepAliveRTT :: int

record conn =
  c_peer :: PeerID
  c_local :: PeerID
  c_sessionID :: string
  c_role :: role
  c_localAddr :: Addr
  c_remoteAddr :: Addr
  c_state :: ConnectionState
  c_closed :: bool
  c_establishedAt :: int
  c_connectDuration :: int
  c_snapshot :: sessionStats

text \<open>\<open>newConn\<close>: of the session, the local and remote peer, the identifier and the role.\<close>

definition newConn :: "PeerID \<Rightarrow> PeerID \<Rightarrow> string \<Rightarrow> role \<Rightarrow> int \<Rightarrow> int \<Rightarrow> conn" where
  "newConn local peer sid r now elapsed =
     \<lparr> c_peer = peer, c_local = local, c_sessionID = sid, c_role = r,
       c_localAddr = \<lparr> ad_Peer = local, ad_Session = sid \<rparr>,
       c_remoteAddr = \<lparr> ad_Peer = peer, ad_Session = sid \<rparr>,
       c_state = StateConnected, c_closed = False, c_establishedAt = now, c_connectDuration = elapsed,
       c_snapshot = \<lparr> st_ICERestarts = 0, st_LocalCandidate = [], st_RemoteCandidate = [],
         st_KeepAliveRTT = 0 \<rparr> \<rparr>"

definition setState :: "ConnectionState \<Rightarrow> conn \<Rightarrow> conn" where
  "setState st c = (if c_state c = StateClosed then c else c\<lparr>c_state := st\<rparr>)"

definition updateStats :: "(sessionStats \<Rightarrow> sessionStats) \<Rightarrow> conn \<Rightarrow> conn" where
  "updateStats fn c = c\<lparr>c_snapshot := fn (c_snapshot c)\<rparr>"

definition Conn_Stats :: "conn \<Rightarrow> stream \<Rightarrow> ConnStats" where
  "Conn_Stats c s =
     (let fs = Stream_Stats s; ss = c_snapshot c in
      \<lparr> cs_State = c_state c, cs_BytesRead = BytesRead fs, cs_BytesWritten = BytesWritten fs,
        cs_FramesRead = FramesRead fs, cs_FramesWritten = FramesWritten fs,
        cs_EstablishedAt = c_establishedAt c, cs_ConnectDuration = c_connectDuration c,
        cs_ICERestarts = st_ICERestarts ss, cs_LocalCandidate = st_LocalCandidate ss,
        cs_RemoteCandidate = st_RemoteCandidate ss, cs_KeepAliveRTT = st_KeepAliveRTT ss \<rparr>)"

subsection \<open>Errors\<close>

text \<open>The second \<open>switch\<close> of \<open>wrap\<close>, then \<open>wrap\<close>.\<close>

definition categorize :: "gerror \<Rightarrow> gerror" where
  "categorize e =
     (if errors_Is e ErrDeadlineExceeded then deadlineError
      else if errors_Is e ErrClosed then e
      else if errors_Is e FrameErrProtocol then Categorized ErrProtocol (Some e)
      else Categorized ErrDisconnected (Some e))"

definition wrap :: "string \<Rightarrow> gerror option \<Rightarrow> gerror option" where
  "wrap op err =
     (case err of
        None \<Rightarrow> None
      | Some e \<Rightarrow> if errors_Is e EOF then Some (Sentinel EOF) else opError op (Some (categorize e)))"

subsection \<open>Input, output, deadlines\<close>

definition Conn_Read :: "stream \<Rightarrow> bool \<Rightarrow> nat \<Rightarrow> ((bytes \<times> gerror option) \<times> stream) list" where
  "Conn_Read s expired len =
     map (\<lambda>(r, s'). (case r of RdOk b \<Rightarrow> (b, None) | RdErr e \<Rightarrow> ([], wrap ''read'' (Some e)), s'))
       (Read s expired len)"

text \<open>A finished stream write, as \<open>Conn.Write\<close> reports it.\<close>

definition writeResult :: "wrres \<Rightarrow> wrres" where
  "writeResult r = map_option (\<lambda>(n, e). (n, wrap ''write'' e)) r"

definition Conn_writeBegin :: "stream \<Rightarrow> bool \<Rightarrow> bytes \<Rightarrow> (wrres \<times> stream) list" where
  "Conn_writeBegin s expired p = map (\<lambda>(r, s'). (writeResult r, s')) (writeBegin s expired p)"

definition Conn_writeRun :: "stream \<Rightarrow> chres list \<Rightarrow> wrres \<times> stream" where
  "Conn_writeRun s crs = (case writeRun s crs of (r, s') \<Rightarrow> (writeResult r, s'))"

definition Conn_SetDeadline :: "stream \<Rightarrow> time \<Rightarrow> gerror option \<Rightarrow> gerror option \<times> stream" where
  "Conn_SetDeadline s t chErr = (case SetDeadline s t chErr of (e, s') \<Rightarrow> (wrap ''set'' e, s'))"

definition Conn_SetReadDeadline :: "stream \<Rightarrow> time \<Rightarrow> gerror option \<times> stream" where
  "Conn_SetReadDeadline s t = (case SetReadDeadline s t of (e, s') \<Rightarrow> (wrap ''set'' e, s'))"

definition Conn_SetWriteDeadline :: "stream \<Rightarrow> time \<Rightarrow> gerror option \<Rightarrow> gerror option \<times> stream" where
  "Conn_SetWriteDeadline s t chErr = (case SetWriteDeadline s t chErr of (e, s') \<Rightarrow> (wrap ''set'' e, s'))"

subsection \<open>Close\<close>

text \<open>
  \<open>Close\<close> up to the call of \<open>closeFn\<close> (the flag \<open>first\<close> is remembered for the return value), and
  its end. \<open>Stream.Close\<close> returns no error: \<open>terminate\<close> always returns nil.
\<close>

definition closeBegin :: "conn \<Rightarrow> stream \<Rightarrow> int \<Rightarrow> chres \<Rightarrow> bool \<times> conn \<times> stream" where
  "closeBegin c s now cr =
     (\<not> c_closed c, c\<lparr>c_closed := True, c_state := StateClosing\<rparr>, Stream_Close s now cr)"

definition closeEnd :: "bool \<Rightarrow> gerror option \<Rightarrow> conn \<Rightarrow> gerror option \<times> conn" where
  "closeEnd first err c =
     (if \<not> first \<or> err = None then None else wrap ''close'' err, c\<lparr>c_state := StateClosed\<rparr>)"

definition Conn_Close :: "conn \<Rightarrow> stream \<Rightarrow> int \<Rightarrow> chres \<Rightarrow> gerror option \<times> conn \<times> stream" where
  "Conn_Close c s now cr =
     (case closeBegin c s now cr of (first, c', s') \<Rightarrow>
        case closeEnd first None c' of (r, c'') \<Rightarrow> (r, c'', s'))"

subsection \<open>Lemmas\<close>

lemma setState_closed [simp]: "c_state c = StateClosed \<Longrightarrow> setState st c = c"
  by (simp add: setState_def)

lemma setState_simps [simp]:
  "c_closed (setState st c) = c_closed c" "c_snapshot (setState st c) = c_snapshot c"
  "c_peer (setState st c) = c_peer c" "c_sessionID (setState st c) = c_sessionID c"
  by (simp_all add: setState_def)

lemma setState_monotone: "c_state (setState StateClosed c) = StateClosed"
  by (simp add: setState_def)

lemma updateStats_simps [simp]:
  "c_state (updateStats f c) = c_state c" "c_closed (updateStats f c) = c_closed c"
  by (simp_all add: updateStats_def)

lemma categorize_category:
  "\<exists>k \<in> {ErrTimeout, ErrClosed, ErrProtocol, ErrDisconnected}. errors_Is (categorize e) k"
  by (simp add: categorize_def deadlineError_def)

lemma wrap_Some:
  "wrap op (Some e) = (if errors_Is e EOF then Some (Sentinel EOF) else Some (OpError op (categorize e)))"
  by (simp add: wrap_def opError_def)

lemma wrap_nil [simp]: "wrap op None = None"
  by (simp add: wrap_def)


lemma sendCloseFrame_flags [simp]:
  "s_closed (sendCloseFrame s k r now cr) = s_closed s" "s_term (sendCloseFrame s k r now cr) = s_term s"
  by (simp_all add: sendCloseFrame_def writeMessage_def Let_def split: sum.splits prod.splits option.splits)

lemma setReadErr_flags [simp]:
  "s_closed (setReadErr s e) = s_closed s" "s_term (setReadErr s e) = s_term s"
  by (simp_all add: setReadErr_def split: option.splits)

lemma terminate_local_flags:
  "s_closed (terminate s k r True now cr) \<and> s_term (terminate s k r True now cr)"
  by (simp add: terminate_def Let_def)

lemma terminate_done: "s_closed s \<and> s_term s \<Longrightarrow> terminate s k r True now cr = s"
  by (simp add: terminate_def Let_def)

text \<open>Closing a connection is idempotent towards the caller: both calls return no error, both end in
  the terminal state, the stream is closed once, and a session that publishes a state afterwards
  no longer changes it.\<close>

lemma conn_close_idempotent:
  "case Conn_Close c s now cr of (r, c', s') \<Rightarrow>
     r = None \<and> c_state c' = StateClosed \<and> c_closed c' \<and> s_closed s' \<and> setState st c' = c' \<and>
     (case Conn_Close c' s' now' cr' of (r', c'', s'') \<Rightarrow> r' = None \<and> c'' = c' \<and> s'' = s')"
proof -
  have "s_closed (terminate s k r True now cr) \<and> s_term (terminate s k r True now cr)" for k r
    by (rule terminate_local_flags)
  then show ?thesis
    by (simp add: Conn_Close_def closeBegin_def closeEnd_def Stream_Close_def CloseWith_def setState_def
        terminate_done)
qed

end
