(* ===== verification/Pionx.thy ===== *)
theory Pionx
  imports Conn
begin

text \<open>
  The adapter around one WebRTC peer connection (\<^verbatim>\<open>internal/pionx/pionx.go\<close>). The engine
  \<^verbatim>\<open>github.com/pion/webrtc\<close> is not part of the repository: its calls are the fields of the
  record \<open>pion\<close>, functions on an abstract state \<open>'p\<close> of a peer connection with data channels of
  type \<open>'d\<close>, and the callbacks it makes are arguments of the functions registered for them. The
  setting engine and the two configuration hooks only reach the engine's constructor, so a factory is
  the list of ICE servers and the transport policy handed to it.
\<close>

subsection \<open>The engine\<close>

datatype SDPType = SDPTypeOffer | SDPTypeAnswer

datatype PCState =
    PCNew | PCConnecting | PCConnected | PCDisconnected | PCFailed | PCClosed

record Candidate =
  ca_Candidate :: string
  ca_SDPMid :: "string option"
  ca_SDPMLineIndex :: "u16 option"
  ca_UsernameFragment :: "string option"

text \<open>What a data channel reports about itself.\<close>

record dcparams =
  dp_Label :: string
  dp_Protocol :: string
  dp_Ordered :: bool
  dp_MaxRetransmits :: "u16 option"
  dp_MaxPacketLifeTime :: "u16 option"

record pionICEServer =
  pis_URLs :: "string list"
  pis_Username :: string
  pis_Credential :: string

record pionConfiguration =
  pcf_ICEServers :: "pionICEServer list"
  pcf_RelayOnly :: bool

record ('p, 'd) pion =
  pi_NewPeerConnection :: "pionConfiguration \<Rightarrow> gerror + 'p"
  pi_CreateDataChannel :: "string \<Rightarrow> bool \<Rightarrow> string \<Rightarrow> 'p \<Rightarrow> (gerror + 'd) \<times> 'p"
  pi_CreateOffer :: "bool \<Rightarrow> 'p \<Rightarrow> (gerror + string) \<times> 'p"
  pi_CreateAnswer :: "'p \<Rightarrow> (gerror + string) \<times> 'p"
  pi_SetLocalDescription :: "SDPType \<Rightarrow> string \<Rightarrow> 'p \<Rightarrow> gerror option \<times> 'p"
  pi_SetRemoteDescription :: "SDPType \<Rightarrow> string \<Rightarrow> 'p \<Rightarrow> gerror option \<times> 'p"
  pi_RemoteDescription :: "'p \<Rightarrow> string option"
  pi_AddICECandidate :: "Candidate \<Rightarrow> 'p \<Rightarrow> gerror option \<times> 'p"
  pi_MaxMessageSize :: "'p \<Rightarrow> u32 option"
  pi_SelectedPair :: "'p \<Rightarrow> (string \<times> string) option"
  pi_Close :: "'p \<Rightarrow> gerror option \<times> 'p"
  dc_params :: "'d \<Rightarrow> dcparams"
  dc_isOpen :: "'d \<Rightarrow> 'p \<Rightarrow> bool"
  dc_Detach :: "'d \<Rightarrow> 'p \<Rightarrow> gerror option \<times> 'p"
  dc_Close :: "'d \<Rightarrow> 'p \<Rightarrow> 'p"

subsection \<open>Events and peers\<close>

definition ChannelLabel :: string where "ChannelLabel = ''pipe.stream.v1''"
definition ChannelProtocol :: string where "ChannelProtocol = ''pipe/1''"

text \<open>An event with the field its kind uses.\<close>

datatype pionEvent =
    EventLocalCandidate Candidate
  | EventGatheringComplete
  | EventConnected
  | EventDisconnected
  | EventFailed
  | EventPeerClosed
  | EventChannelOpen
  | EventChannelClosed
  | EventError gerror

fun EventKind_String :: "pionEvent \<Rightarrow> string" where
  "EventKind_String (EventLocalCandidate _) = ''local-candidate''"
| "EventKind_String EventGatheringComplete = ''gathering-complete''"
| "EventKind_String EventConnected = ''connected''"
| "EventKind_String EventDisconnected = ''disconnected''"
| "EventKind_String EventFailed = ''failed''"
| "EventKind_String EventPeerClosed = ''peer-closed''"
| "EventKind_String EventChannelOpen = ''channel-open''"
| "EventKind_String EventChannelClosed = ''channel-closed''"
| "EventKind_String (EventError _) = ''error''"

record ('p, 'd) Peer =
  pe_pc :: 'p
  pe_dc :: "'d option"
  pe_detached :: bool
  pe_closed :: bool

text \<open>An error of this package that wraps a cause: \<open>fmt.Errorf("%w: ...: %w", ErrNegotiation, err)\<close>.\<close>

definition negErr :: "gerror \<Rightarrow> gerror" where
  "negErr e = Wrap2 (Sentinel PionxErrNegotiation) e"

definition NewFactory :: "pionICEServer list \<Rightarrow> bool \<Rightarrow> pionConfiguration" where
  "NewFactory servers relayOnly =
     \<lparr> pcf_ICEServers = map (\<lambda>s. \<lparr> pis_URLs = pis_URLs s, pis_Username = pis_Username s,
         pis_Credential = pis_Credential s \<rparr>) servers,
       pcf_RelayOnly = relayOnly \<rparr>"

definition Peer_Close :: "('p, 'd) pion \<Rightarrow> ('p, 'd) Peer \<Rightarrow> gerror option \<times> ('p, 'd) Peer" where
  "Peer_Close P p =
     (if pe_closed p then (None, p)
      else
        let p = p\<lparr>pe_closed := True\<rparr>;
            p = (case pe_dc p of
                   Some d \<Rightarrow> if pe_detached p then p else p\<lparr>pe_pc := dc_Close P d (pe_pc p)\<rparr>
                 | None \<Rightarrow> p)
        in case pi_Close P (pe_pc p) of (e, q) \<Rightarrow> (e, p\<lparr>pe_pc := q\<rparr>))"

definition newPeer :: "('p, 'd) pion \<Rightarrow> pionConfiguration \<Rightarrow> gerror + ('p, 'd) Peer" where
  "newPeer P f =
     (case pi_NewPeerConnection P f of
        Inl e \<Rightarrow> Inl (negErr e)
      | Inr pc \<Rightarrow> Inr \<lparr> pe_pc = pc, pe_dc = None, pe_detached = False, pe_closed = False \<rparr>)"

text \<open>\<open>NewOfferer\<close>; the peer that is closed on the error path is dropped with the error.\<close>

definition NewOfferer :: "('p, 'd) pion \<Rightarrow> pionConfiguration \<Rightarrow> gerror + ('p, 'd) Peer" where
  "NewOfferer P f =
     (case newPeer P f of
        Inl e \<Rightarrow> Inl e
      | Inr p \<Rightarrow>
          (case pi_CreateDataChannel P ChannelLabel True ChannelProtocol (pe_pc p) of
             (Inl e, q) \<Rightarrow> Inl (negErr e)
           | (Inr d, q) \<Rightarrow> Inr (p\<lparr>pe_pc := q, pe_dc := Some d\<rparr>)))"

definition NewAnswerer :: "('p, 'd) pion \<Rightarrow> pionConfiguration \<Rightarrow> gerror + ('p, 'd) Peer" where
  "NewAnswerer P f = newPeer P f"

subsection \<open>Callbacks\<close>

definition onICECandidate :: "Candidate option \<Rightarrow> pionEvent" where
  "onICECandidate c =
     (case c of
        None \<Rightarrow> EventGatheringComplete
      | Some i \<Rightarrow> EventLocalCandidate \<lparr> ca_Candidate = ca_Candidate i, ca_SDPMid = ca_SDPMid i,
          ca_SDPMLineIndex = ca_SDPMLineIndex i, ca_UsernameFragment = ca_UsernameFragment i \<rparr>)"

fun onConnectionStateChange :: "PCState \<Rightarrow> pionEvent option" where
  "onConnectionStateChange PCConnected = Some EventConnected"
| "onConnectionStateChange PCDisconnected = Some EventDisconnected"
| "onConnectionStateChange PCFailed = Some EventFailed"
| "onConnectionStateChange PCClosed = Some EventPeerClosed"
| "onConnectionStateChange PCNew = None"
| "onConnectionStateChange PCConnecting = None"

datatype dcCallback = DCOpen | DCClose | DCError gerror

fun watchChannel :: "dcCallback \<Rightarrow> pionEvent" where
  "watchChannel DCOpen = EventChannelOpen"
| "watchChannel DCClose = EventChannelClosed"
| "watchChannel (DCError e) = EventError e"

definition rejected :: gerror where
  "rejected = Wrap (Sentinel ErrChannelRejected)"

definition validateChannel :: "dcparams \<Rightarrow> gerror option" where
  "validateChannel d =
     (if dp_Label d \<noteq> ChannelLabel then Some rejected
      else if dp_Protocol d \<noteq> ChannelProtocol then Some rejected
      else if \<not> dp_Ordered d then Some rejected
      else if dp_MaxRetransmits d \<noteq> None then Some rejected
      else if dp_MaxPacketLifeTime d \<noteq> None then Some rejected
      else None)"

text \<open>The function \<open>NewAnswerer\<close> registers for remote data channels: the event it reports, if any,
  and the peer.\<close>

definition onDataChannel :: "('p, 'd) pion \<Rightarrow> 'd \<Rightarrow> ('p, 'd) Peer \<Rightarrow> pionEvent option \<times> ('p, 'd) Peer" where
  "onDataChannel P d p =
     (case validateChannel (dc_params P d) of
        Some e \<Rightarrow> (Some (EventError e), p\<lparr>pe_pc := dc_Close P d (pe_pc p)\<rparr>)
      | None \<Rightarrow>
          (case pe_dc p of
             Some _ \<Rightarrow> (Some (EventError rejected), p\<lparr>pe_pc := dc_Close P d (pe_pc p)\<rparr>)
           | None \<Rightarrow> (None, p\<lparr>pe_dc := Some d\<rparr>)))"

subsection \<open>Descriptions and candidates\<close>

definition CreateOffer :: "('p, 'd) pion \<Rightarrow> bool \<Rightarrow> ('p, 'd) Peer \<Rightarrow> (gerror + string) \<times> ('p, 'd) Peer" where
  "CreateOffer P restart p =
     (case pi_CreateOffer P restart (pe_pc p) of
        (Inl e, q) \<Rightarrow> (Inl (negErr e), p\<lparr>pe_pc := q\<rparr>)
      | (Inr sdp, q) \<Rightarrow>
          (case pi_SetLocalDescription P SDPTypeOffer sdp q of
             (Some e, q') \<Rightarrow> (Inl (negErr e), p\<lparr>pe_pc := q'\<rparr>)
           | (None, q') \<Rightarrow> (Inr sdp, p\<lparr>pe_pc := q'\<rparr>)))"

definition CreateAnswer :: "('p, 'd) pion \<Rightarrow> ('p, 'd) Peer \<Rightarrow> (gerror + string) \<times> ('p, 'd) Peer" where
  "CreateAnswer P p =
     (case pi_CreateAnswer P (pe_pc p) of
        (Inl e, q) \<Rightarrow> (Inl (negErr e), p\<lparr>pe_pc := q\<rparr>)
      | (Inr sdp, q) \<Rightarrow>
          (case pi_SetLocalDescription P SDPTypeAnswer sdp q of
             (Some e, q') \<Rightarrow> (Inl (negErr e), p\<lparr>pe_pc := q'\<rparr>)
           | (None, q') \<Rightarrow> (Inr sdp, p\<lparr>pe_pc := q'\<rparr>)))"

definition SetRemoteOffer :: "('p, 'd) pion \<Rightarrow> string \<Rightarrow> ('p, 'd) Peer \<Rightarrow> gerror option \<times> ('p, 'd) Peer" where
  "SetRemoteOffer P sdp p =
     (case pi_SetRemoteDescription P SDPTypeOffer sdp (pe_pc p) of
        (e, q) \<Rightarrow> (map_option negErr e, p\<lparr>pe_pc := q\<rparr>))"

definition SetRemoteAnswer :: "('p, 'd) pion \<Rightarrow> string \<Rightarrow> ('p, 'd) Peer \<Rightarrow> gerror option \<times> ('p, 'd) Peer" where
  "SetRemoteAnswer P sdp p =
     (case pi_SetRemoteDescription P SDPTypeAnswer sdp (pe_pc p) of
        (e, q) \<Rightarrow> (map_option negErr e, p\<lparr>pe_pc := q\<rparr>))"

definition HasRemoteDescription :: "('p, 'd) pion \<Rightarrow> ('p, 'd) Peer \<Rightarrow> bool" where
  "HasRemoteDescription P p \<longleftrightarrow> pi_RemoteDescription P (pe_pc p) \<noteq> None"

definition AddCandidate :: "('p, 'd) pion \<Rightarrow> Candidate \<Rightarrow> ('p, 'd) Peer \<Rightarrow> gerror option \<times> ('p, 'd) Peer" where
  "AddCandidate P c p =
     (case pi_AddICECandidate P \<lparr> ca_Candidate = ca_Candidate c, ca_SDPMid = ca_SDPMid c,
         ca_SDPMLineIndex = ca_SDPMLineIndex c, ca_UsernameFragment = ca_UsernameFragment c \<rparr> (pe_pc p) of
        (e, q) \<Rightarrow> (map_option negErr e, p\<lparr>pe_pc := q\<rparr>))"

definition EndOfRemoteCandidates :: "('p, 'd) pion \<Rightarrow> ('p, 'd) Peer \<Rightarrow> gerror option \<times> ('p, 'd) Peer" where
  "EndOfRemoteCandidates P p =
     (case pi_AddICECandidate P \<lparr> ca_Candidate = [], ca_SDPMid = None, ca_SDPMLineIndex = None,
         ca_UsernameFragment = None \<rparr> (pe_pc p) of
        (e, q) \<Rightarrow> (map_option negErr e, p\<lparr>pe_pc := q\<rparr>))"

definition Detach :: "('p, 'd) pion \<Rightarrow> ('p, 'd) Peer \<Rightarrow> (gerror + 'd) \<times> ('p, 'd) Peer" where
  "Detach P p =
     (if pe_closed p then (Inl (Sentinel PionxErrClosed), p)
      else case pe_dc p of
        None \<Rightarrow> (Inl (Wrap (Sentinel PionxErrNegotiation)), p)
      | Some d \<Rightarrow>
          if pe_detached p then (Inl (Wrap (Sentinel PionxErrNegotiation)), p)
          else if \<not> dc_isOpen P d (pe_pc p) then (Inl (Wrap (Sentinel PionxErrNegotiation)), p)
          else case dc_Detach P d (pe_pc p) of
            (Some e, q) \<Rightarrow> (Inl (negErr e), p\<lparr>pe_pc := q\<rparr>)
          | (None, q) \<Rightarrow> (Inr d, p\<lparr>pe_pc := q, pe_detached := True\<rparr>))"

definition MaxMessageSize :: "('p, 'd) pion \<Rightarrow> ('p, 'd) Peer \<Rightarrow> u32" where
  "MaxMessageSize P p = (case pi_MaxMessageSize P (pe_pc p) of None \<Rightarrow> 0 | Some m \<Rightarrow> m)"

definition SelectedCandidatePair :: "('p, 'd) pion \<Rightarrow> ('p, 'd) Peer \<Rightarrow> string \<times> string" where
  "SelectedCandidatePair P p = (case pi_SelectedPair P (pe_pc p) of None \<Rightarrow> ([], []) | Some x \<Rightarrow> x)"

lemmas peer_defs = Peer_Close_def newPeer_def NewOfferer_def NewAnswerer_def onDataChannel_def
  CreateOffer_def CreateAnswer_def SetRemoteOffer_def SetRemoteAnswer_def AddCandidate_def
  EndOfRemoteCandidates_def Detach_def

subsection \<open>Ownership of the data channel\<close>

text \<open>The calls a session makes on its peer and the callbacks of the engine, as one relation.\<close>

inductive peer_step :: "('p, 'd) pion \<Rightarrow> ('p, 'd) Peer \<Rightarrow> ('p, 'd) Peer \<Rightarrow> bool" for P where
  ps_offer: "peer_step P p (snd (CreateOffer P restart p))"
| ps_answer: "peer_step P p (snd (CreateAnswer P p))"
| ps_setOffer: "peer_step P p (snd (SetRemoteOffer P sdp p))"
| ps_setAnswer: "peer_step P p (snd (SetRemoteAnswer P sdp p))"
| ps_candidate: "peer_step P p (snd (AddCandidate P c p))"
| ps_end: "peer_step P p (snd (EndOfRemoteCandidates P p))"
| ps_detach: "peer_step P p (snd (Detach P p))"
| ps_close: "peer_step P p (snd (Peer_Close P p))"
| ps_channel: "peer_step P p (snd (onDataChannel P d p))"
| ps_engine: "peer_step P p (p\<lparr>pe_pc := q\<rparr>)"

text \<open>The channel is chosen once, detached at most once and only when chosen, and never given up.\<close>

definition peer_mono :: "('p, 'd) Peer \<Rightarrow> ('p, 'd) Peer \<Rightarrow> bool" where
  "peer_mono p p' \<longleftrightarrow>
     (\<forall>d. pe_dc p = Some d \<longrightarrow> pe_dc p' = Some d) \<and> (pe_detached p \<longrightarrow> pe_detached p') \<and>
     (pe_closed p \<longrightarrow> pe_closed p') \<and> (pe_detached p' \<longrightarrow> pe_detached p \<or> pe_dc p' \<noteq> None)"

lemma peer_step_mono: "peer_step P p p' \<Longrightarrow> peer_mono p p'"
  by (induction rule: peer_step.induct)
     (auto simp: peer_mono_def peer_defs Let_def split: prod.splits sum.splits option.splits if_splits)

lemma peer_mono_trans: "peer_mono p q \<Longrightarrow> peer_mono q r \<Longrightarrow> peer_mono p r"
  by (auto simp: peer_mono_def)

lemma peer_steps_mono: "(peer_step P)\<^sup>*\<^sup>* p q \<Longrightarrow> peer_mono p q"
proof (induction rule: rtranclp_induct)
  case base
  then show ?case by (auto simp: peer_mono_def)
next
  case (step y z)
  then show ?case using peer_step_mono peer_mono_trans by blast
qed

lemma Detach_ok:
  "Detach P p = (Inr d, p') \<Longrightarrow> pe_dc p = Some d \<and> \<not> pe_detached p \<and> \<not> pe_closed p \<and> pe_detached p' \<and>
     dc_isOpen P d (pe_pc p)"
  by (auto simp: Detach_def split: if_splits option.splits prod.splits)

text \<open>C17: A session gets at most one data channel, and only one that keeps the contract. Whatever calls
  and engine callbacks come between, a channel that was handed out by \<open>Detach\<close> is never handed
  out again, nor is any other; and a channel offered by the remote side becomes the
  session's channel only if it has the agreed label and subprotocol, is ordered and reliable, and is
  the first: any other is closed and reported as a rejected channel.\<close>

theorem single_channel:
  "(Detach P p = (Inr d, p1) \<longrightarrow> (peer_step P)\<^sup>*\<^sup>* p1 q \<longrightarrow> (\<forall>d'. fst (Detach P q) \<noteq> Inr d')) \<and>
   (case onDataChannel P c p of (ev, p') \<Rightarrow>
      (ev = None \<longleftrightarrow> pe_dc p = None \<and> dp_Label (dc_params P c) = ChannelLabel \<and>
         dp_Protocol (dc_params P c) = ChannelProtocol \<and> dp_Ordered (dc_params P c) \<and>
         dp_MaxRetransmits (dc_params P c) = None \<and> dp_MaxPacketLifeTime (dc_params P c) = None) \<and>
      (ev = None \<longrightarrow> pe_dc p' = Some c) \<and>
      (ev \<noteq> None \<longrightarrow> pe_dc p' = pe_dc p \<and> pe_pc p' = dc_Close P c (pe_pc p) \<and>
         (\<exists>e. ev = Some (EventError e) \<and> errors_Is e ErrChannelRejected)))"
proof (intro conjI impI)
  assume d: "Detach P p = (Inr d, p1)" and r: "(peer_step P)\<^sup>*\<^sup>* p1 q"
  have "pe_detached q" using Detach_ok [OF d] peer_steps_mono [OF r] by (auto simp: peer_mono_def)
  then show "\<forall>d'. fst (Detach P q) \<noteq> Inr d'" by (auto simp: Detach_def split: option.splits)
next
  show "case onDataChannel P c p of (ev, p') \<Rightarrow>
      (ev = None \<longleftrightarrow> pe_dc p = None \<and> dp_Label (dc_params P c) = ChannelLabel \<and>
         dp_Protocol (dc_params P c) = ChannelProtocol \<and> dp_Ordered (dc_params P c) \<and>
         dp_MaxRetransmits (dc_params P c) = None \<and> dp_MaxPacketLifeTime (dc_params P c) = None) \<and>
      (ev = None \<longrightarrow> pe_dc p' = Some c) \<and>
      (ev \<noteq> None \<longrightarrow> pe_dc p' = pe_dc p \<and> pe_pc p' = dc_Close P c (pe_pc p) \<and>
         (\<exists>e. ev = Some (EventError e) \<and> errors_Is e ErrChannelRejected))"
    by (auto simp: onDataChannel_def validateChannel_def rejected_def split: option.splits if_splits)
qed

text \<open>An engine whose calls all succeed, for closed examples: the state counts remote descriptions and
  keeps the candidates it was given.\<close>

definition ex_pion :: "(nat \<times> Candidate list, bool) pion" where
  "ex_pion = \<lparr> pi_NewPeerConnection = (\<lambda>_. Inr (0, [])),
     pi_CreateDataChannel = (\<lambda>l r pr p. (Inr True, p)), pi_CreateOffer = (\<lambda>r p. (Inr ''o'', p)),
     pi_CreateAnswer = (\<lambda>p. (Inr ''a'', p)), pi_SetLocalDescription = (\<lambda>t s p. (None, p)),
     pi_SetRemoteDescription = (\<lambda>t s (n, cs). (None, (n + 1, cs))),
     pi_RemoteDescription = (\<lambda>(n, cs). if n = 0 then None else Some ''r''),
     pi_AddICECandidate = (\<lambda>c (n, cs). (None, (n, cs @ [c]))),
     pi_MaxMessageSize = (\<lambda>p. Some 262144), pi_SelectedPair = (\<lambda>p. Some (''host'', ''host'')),
     pi_Close = (\<lambda>p. (None, p)),
     dc_params = (\<lambda>good. \<lparr> dp_Label = ChannelLabel, dp_Protocol = ChannelProtocol, dp_Ordered = good,
        dp_MaxRetransmits = None, dp_MaxPacketLifeTime = None \<rparr>),
     dc_isOpen = (\<lambda>d p. True), dc_Detach = (\<lambda>d p. (None, p)), dc_Close = (\<lambda>d p. p) \<rparr>"

definition ex_peer :: "(nat \<times> Candidate list, bool) Peer" where
  "ex_peer = \<lparr> pe_pc = (0, []), pe_dc = Some True, pe_detached = False, pe_closed = False \<rparr>"

theorem single_channel_witness:
  "fst (Detach ex_pion ex_peer) = Inr True \<and> (\<forall>d'. fst (Detach ex_pion (snd (Detach ex_pion ex_peer))) \<noteq> Inr d') \<and>
   fst (onDataChannel ex_pion False (ex_peer\<lparr>pe_dc := None\<rparr>)) \<noteq> None"
proof -
  have d: "Detach ex_pion ex_peer = (Inr True, ex_peer\<lparr>pe_detached := True\<rparr>)"
    by (simp add: Detach_def ex_pion_def ex_peer_def)
  note s = single_channel [of ex_pion ex_peer True "ex_peer\<lparr>pe_detached := True\<rparr>" "ex_peer\<lparr>pe_detached := True\<rparr>" False]
  have "fst (onDataChannel ex_pion False (ex_peer\<lparr>pe_dc := None\<rparr>)) \<noteq> None"
    using single_channel [of ex_pion "ex_peer\<lparr>pe_dc := None\<rparr>" True ex_peer ex_peer False]
    by (auto simp: ex_pion_def split: prod.splits)
  then show ?thesis using s d by simp
qed

end
