(* ===== verification/Metrics.thy ===== *)
theory Metrics
  imports Conn
begin

text \<open>
  Measurements (\<^verbatim>\<open>metrics.go\<close>): the metric names, the label constructors and the calls of the
  \<open>Metrics\<close> interface as values, so that a handler's measurements are part of what it emits. The
  receiver of the calls is configured by the application.
\<close>

record Label =
  lb_Key :: string
  lb_Value :: string

datatype measurement =
    Count string int "Label list"
  | Gauge string int "Label list"
  | Duration string int "Label list"

definition metricDialAttempts :: string where "metricDialAttempts = ''pipe.dial.attempts''"
definition metricDialResults :: string where "metricDialResults = ''pipe.dial.results''"
definition metricAcceptAttempts :: string where "metricAcceptAttempts = ''pipe.accept.attempts''"
definition metricAcceptResults :: string where "metricAcceptResults = ''pipe.accept.results''"
definition metricSessionsActive :: string where "metricSessionsActive = ''pipe.sessions.active''"
definition metricSessionsPending :: string where "metricSessionsPending = ''pipe.sessions.pending''"
definition metricSignalSent :: string where "metricSignalSent = ''pipe.signal.sent''"
definition metricSignalReceived :: string where "metricSignalReceived = ''pipe.signal.received''"
definition metricConnectDuration :: string where "metricConnectDuration = ''pipe.connect.duration''"
definition metricRestartAttempts :: string where "metricRestartAttempts = ''pipe.restart.attempts''"
definition metricRestartResults :: string where "metricRestartResults = ''pipe.restart.results''"
definition metricRestartDuration :: string where "metricRestartDuration = ''pipe.restart.duration''"
definition metricStreamBytesRead :: string where "metricStreamBytesRead = ''pipe.stream.bytes.read''"
definition metricStreamBytesWrite :: string where "metricStreamBytesWrite = ''pipe.stream.bytes.written''"
definition metricKeepAliveRTT :: string where "metricKeepAliveRTT = ''pipe.keepalive.rtt''"
definition metricKeepAliveFailures :: string where "metricKeepAliveFailures = ''pipe.keepalive.failures''"
definition metricProtocolFailures :: string where "metricProtocolFailures = ''pipe.protocol.failures''"

definition labelResult :: "string \<Rightarrow> Label" where "labelResult v = \<lparr> lb_Key = ''result'', lb_Value = v \<rparr>"
definition labelKind :: "string \<Rightarrow> Label" where "labelKind k = \<lparr> lb_Key = ''kind'', lb_Value = k \<rparr>"
definition labelRole :: "role \<Rightarrow> Label" where "labelRole r = \<lparr> lb_Key = ''role'', lb_Value = role_String r \<rparr>"
definition labelScope :: "string \<Rightarrow> Label" where "labelScope v = \<lparr> lb_Key = ''scope'', lb_Value = v \<rparr>"
definition labelReason :: "string \<Rightarrow> Label" where "labelReason v = \<lparr> lb_Key = ''reason'', lb_Value = v \<rparr>"

end
