(* ===== verification/Queue.thy ===== *)
theory Queue
  imports Prelude
begin

text \<open>
  The contract of the bounded queues the program hands work through (the session mailbox, the
  accept queue of a listener, the inbox of an in-memory peer, the outgoing queue of an SSE
  peer): a push appends at the back or is refused, a take removes a front part, the queue never
  exceeds its capacity. Every run of pushes and takes is then first in, first out and loses
  nothing it accepted.
\<close>

datatype 'a qop = Push 'a | Take

locale bounded_fifo =
  fixes items :: "'q \<Rightarrow> 'a list"
    and push :: "'a \<Rightarrow> 'q \<Rightarrow> bool \<times> 'q"
    and take_front :: "'q \<Rightarrow> 'a list \<times> 'q"
    and cap :: "'q \<Rightarrow> nat"
  assumes push_accepted: "push x q = (True, q') \<Longrightarrow> items q' = items q @ [x] \<and> length (items q) < cap q"
    and push_refused: "push x q = (False, q') \<Longrightarrow> items q' = items q"
    and push_cap: "push x q = (b, q') \<Longrightarrow> cap q' = cap q"
    and take_splits: "take_front q = (xs, q') \<Longrightarrow> items q = xs @ items q' \<and> cap q' = cap q"
begin

text \<open>A run of operations, with the accepted items and the taken ones.\<close>

fun run :: "'a qop list \<Rightarrow> 'q \<Rightarrow> 'a list \<times> 'a list \<times> 'q" where
  "run [] q = ([], [], q)"
| "run (Push x # ops) q =
     (case push x q of (b, q') \<Rightarrow>
       case run ops q' of (acc, out, q'') \<Rightarrow> ((if b then x # acc else acc), out, q''))"
| "run (Take # ops) q =
     (case take_front q of (xs, q') \<Rightarrow>
       case run ops q' of (acc, out, q'') \<Rightarrow> (acc, xs @ out, q''))"

lemma run_fifo:
  "run ops q = (acc, out, q') \<Longrightarrow> items q @ acc = out @ items q' \<and>
     (length (items q) \<le> cap q \<longrightarrow> length (items q') \<le> cap q') \<and> cap q' = cap q"
proof (induction ops q arbitrary: acc out q' rule: run.induct)
  case (2 x ops q)
  obtain b q1 where p: "push x q = (b, q1)" by fastforce
  obtain acc1 out1 q2 where r: "run ops q1 = (acc1, out1, q2)" by (cases "run ops q1") auto
  note ih = 2(1) [OF p [symmetric] r]
  have e: "acc = (if b then x # acc1 else acc1)" "out = out1" "q' = q2" using 2(2) p r by auto
  show ?case
  proof (cases b)
    case True
    then show ?thesis using ih e push_accepted [of x q q1] push_cap [OF p] p by auto
  next
    case False
    then show ?thesis using ih e push_refused [of x q q1] push_cap [OF p] p by auto
  qed
next
  case (3 ops q)
  obtain xs q1 where t: "take_front q = (xs, q1)" by fastforce
  obtain acc1 out1 q2 where r: "run ops q1 = (acc1, out1, q2)" by (cases "run ops q1") auto
  note ih = 3(1) [OF t [symmetric] r]
  show ?case using ih 3(2) t r take_splits [OF t] by auto
qed simp

lemma run_bounded:
  "run ops q = (acc, out, q') \<Longrightarrow> length (items q) \<le> cap q \<Longrightarrow> length (items q') \<le> cap q"
  using run_fifo by fastforce

end

end
