(* ===== verification/Mailbox.thy ===== *)
theory Mailbox
  imports Queue
begin

text \<open>
  The event queue of a session (\<^verbatim>\<open>mailbox.go\<close>), polymorphic in the event type. The
  one-element \<open>notify\<close> channel is a flag: set while a token is buffered. Producers and the single
  consumer, the session loop, are interleaved through a step relation; the consumer takes the
  token and then drains.
\<close>

definition maxMailbox :: nat where "maxMailbox = 512"

record 'ev mailbox =
  mb_items :: "'ev list"
  mb_overflow :: bool
  mb_closed :: bool
  mb_notify :: bool

definition newMailbox :: "'ev mailbox" where
  "newMailbox = \<lparr> mb_items = [], mb_overflow = False, mb_closed = False, mb_notify = False \<rparr>"

definition mbSignal :: "'ev mailbox \<Rightarrow> 'ev mailbox" where
  "mbSignal m = m\<lparr>mb_notify := True\<rparr>"

definition post :: "'ev \<Rightarrow> 'ev mailbox \<Rightarrow> bool \<times> 'ev mailbox" where
  "post ev m =
     (if mb_closed m then (False, m)
      else if length (mb_items m) \<ge> maxMailbox then (False, mbSignal (m\<lparr>mb_overflow := True\<rparr>))
      else (True, mbSignal (m\<lparr>mb_items := mb_items m @ [ev]\<rparr>)))"

text \<open>Receiving from \<open>wait()\<close>: possible only while a token is buffered.\<close>

definition mbWait :: "'ev mailbox \<Rightarrow> 'ev mailbox option" where
  "mbWait m = (if mb_notify m then Some (m\<lparr>mb_notify := False\<rparr>) else None)"

definition drain :: "'ev mailbox \<Rightarrow> ('ev list \<times> bool) \<times> 'ev mailbox" where
  "drain m = ((mb_items m, mb_overflow m), m\<lparr>mb_items := [], mb_overflow := False\<rparr>)"

definition mbClose :: "'ev mailbox \<Rightarrow> 'ev mailbox" where
  "mbClose m = m\<lparr>mb_closed := True, mb_items := []\<rparr>"

subsection \<open>The queue contract\<close>

definition drainItems :: "'ev mailbox \<Rightarrow> 'ev list \<times> 'ev mailbox" where
  "drainItems m = (fst (fst (drain m)), snd (drain m))"

interpretation mb: bounded_fifo mb_items post drainItems "\<lambda>_. maxMailbox"
  by unfold_locales
     (auto simp: post_def drainItems_def drain_def mbSignal_def split: if_splits)

subsection \<open>Producers and the consumer\<close>

text \<open>
  \<open>draining\<close>: the consumer has taken the token and not drained yet. \<open>accepted\<close> and \<open>handled\<close>
  are history: what \<open>post\<close> accepted and what \<open>drain\<close> returned; \<open>refused\<close> counts the posts that
  overflowed since the last drain.
\<close>

record 'ev mbsys =
  ms_box :: "'ev mailbox"
  ms_draining :: bool
  ms_accepted :: "'ev list"
  ms_handled :: "'ev list"
  ms_refused :: nat
  ms_reported :: bool

inductive mb_step :: "'ev mbsys \<Rightarrow> 'ev mbsys \<Rightarrow> bool" where
  mb_post: "post ev (ms_box c) = (ok, b) \<Longrightarrow>
    mb_step c (c\<lparr>ms_box := b, ms_accepted := (if ok then ms_accepted c @ [ev] else ms_accepted c),
      ms_refused := (if ok \<or> mb_closed b then ms_refused c else ms_refused c + 1)\<rparr>)"
| mb_wait: "\<not> ms_draining c \<Longrightarrow> mbWait (ms_box c) = Some b \<Longrightarrow>
    mb_step c (c\<lparr>ms_box := b, ms_draining := True\<rparr>)"
| mb_drain: "ms_draining c \<Longrightarrow> drain (ms_box c) = ((items, over), b) \<Longrightarrow>
    mb_step c (c\<lparr>ms_box := b, ms_draining := False, ms_handled := ms_handled c @ items,
      ms_refused := 0, ms_reported := over\<rparr>)"

definition mbInit :: "'ev mbsys" where
  "mbInit = \<lparr> ms_box = newMailbox, ms_draining = False, ms_accepted = [], ms_handled = [],
     ms_refused = 0, ms_reported = False \<rparr>"

inductive mb_reach :: "'ev mbsys \<Rightarrow> bool" where
  mb_init: "mb_reach mbInit"
| mb_next: "mb_reach c \<Longrightarrow> mb_step c c' \<Longrightarrow> mb_reach c'"

inductive_cases mb_step_cases [elim!]: "mb_step c c'"

text \<open>Accepted events are handled in order or still queued; a queued event or an overflow has a
  token or a consumer on its way; an overflow is what was refused since the last drain.\<close>

definition mb_inv :: "'ev mbsys \<Rightarrow> bool" where
  "mb_inv c \<longleftrightarrow>
     ms_accepted c = ms_handled c @ mb_items (ms_box c) \<and>
     length (mb_items (ms_box c)) \<le> maxMailbox \<and>
     (mb_overflow (ms_box c) \<longleftrightarrow> 0 < ms_refused c) \<and>
     (mb_items (ms_box c) \<noteq> [] \<or> mb_overflow (ms_box c) \<longrightarrow> mb_notify (ms_box c) \<or> ms_draining c) \<and>
     \<not> mb_closed (ms_box c)"

lemma mb_step_inv: "mb_step c c' \<Longrightarrow> mb_inv c \<Longrightarrow> mb_inv c'"
  by (auto simp: mb_inv_def post_def mbWait_def drain_def mbSignal_def split: if_splits)

lemma mb_reach_inv: "mb_reach c \<Longrightarrow> mb_inv c"
proof (induction rule: mb_reach.induct)
  case mb_init
  then show ?case by (simp add: mb_inv_def mbInit_def newMailbox_def)
qed (rule mb_step_inv)



end
