(* ===== verification/Config.thy ===== *)
theory Config
  imports Signal Complex_Main
begin

text \<open>
  Configuration of an endpoint (\<^verbatim>\<open>config.go\<close>): the data types, \<open>clone\<close> with its defaults and
  checks, ICE server validation. Durations are integers in nanoseconds. The two floating-point
  fields are only compared, so a \<open>float64\<close> is a rational, an infinity or not-a-number, with the
  comparisons of Go. Of the function-valued and interface-valued fields only what \<open>clone\<close> looks at
  is kept: whether the signaler, logger, metrics and clock are set; the options handed to Pion and
  \<open>AllowPeer\<close> are copied unchanged and are arguments of the operations that use them.
\<close>

subsection \<open>Data\<close>

definition DefaultDialTimeout :: int where "DefaultDialTimeout = 30 * 10 ^ 9"
definition DefaultICETimeout :: int where "DefaultICETimeout = 20 * 10 ^ 9"
definition DefaultAcceptBacklog :: int where "DefaultAcceptBacklog = 64"
definition DefaultFramePayload :: int where "DefaultFramePayload = 16384"
definition DefaultReadBuffer :: int where "DefaultReadBuffer = 1048576"
definition MaxFramePayload :: int where "MaxFramePayload = 262144"
definition dedupeCacheSize :: int where "dedupeCacheSize = 4096"

lemmas default_defs = DefaultDialTimeout_def DefaultICETimeout_def DefaultAcceptBacklog_def
  DefaultFramePayload_def DefaultReadBuffer_def MaxFramePayload_def

datatype f64 = NaN | NegInf | PosInf | Fin rat

fun f64_lt :: "f64 \<Rightarrow> f64 \<Rightarrow> bool" where
  "f64_lt (Fin a) (Fin b) = (a < b)"
| "f64_lt NegInf (Fin b) = True"
| "f64_lt NegInf PosInf = True"
| "f64_lt (Fin a) PosInf = True"
| "f64_lt _ _ = False"

type_synonym ICECredentialType = int

definition ICECredentialPassword :: ICECredentialType where "ICECredentialPassword = 0"
definition ICECredentialOAuth :: ICECredentialType where "ICECredentialOAuth = 1"

definition ICECredentialType_String :: "ICECredentialType \<Rightarrow> string" where
  "ICECredentialType_String t =
     (if t = ICECredentialPassword then ''password''
      else if t = ICECredentialOAuth then ''oauth'' else ''unknown'')"

record ICEServer =
  ice_URLs :: "string list"
  ice_Username :: string
  ice_Credential :: string
  ice_CredentialType :: ICECredentialType

type_synonym ICETransportPolicy = int

definition ICETransportPolicyAll :: ICETransportPolicy where "ICETransportPolicyAll = 0"
definition ICETransportPolicyRelay :: ICETransportPolicy where "ICETransportPolicyRelay = 1"

definition ICETransportPolicy_String :: "ICETransportPolicy \<Rightarrow> string" where
  "ICETransportPolicy_String p =
     (if p = ICETransportPolicyAll then ''all''
      else if p = ICETransportPolicyRelay then ''relay'' else ''unknown'')"

record KeepAliveConfig =
  ka_Interval :: int
  ka_Timeout :: int

record Backoff =
  bo_Initial :: int
  bo_Maximum :: int
  bo_Factor :: f64
  bo_Jitter :: f64

record ReconnectPolicy =
  rc_Enabled :: bool
  rc_MaxAttempts :: int
  rc_AttemptTimeout :: int
  rc_Backoff :: Backoff

record Config =
  cfg_ID :: PeerID
  cfg_hasSignaler :: bool
  cfg_ICEServers :: "ICEServer list"
  cfg_ICETransportPolicy :: ICETransportPolicy
  cfg_DialTimeout :: int
  cfg_ICETimeout :: int
  cfg_KeepAlive :: KeepAliveConfig
  cfg_Reconnect :: ReconnectPolicy
  cfg_AcceptBacklog :: int
  cfg_FramePayload :: int
  cfg_ReadBuffer :: int
  cfg_hasLogger :: bool
  cfg_hasMetrics :: bool
  cfg_hasClock :: bool

subsection \<open>ICE servers\<close>

text \<open>\<open>strings.Cut(s, ":")\<close> and \<open>strings.ToLower\<close> on the letters a scheme may consist of.\<close>

fun cut_colon :: "string \<Rightarrow> (string \<times> string) option" where
  "cut_colon [] = None"
| "cut_colon (c # s) =
     (if c = CHR '':'' then Some ([], s) else map_option (\<lambda>(a, b). (c # a, b)) (cut_colon s))"

definition lower_char :: "char \<Rightarrow> char" where
  "lower_char c = (if 65 \<le> code_of c \<and> code_of c \<le> 90 then char_of (code_of c + 32) else c)"

definition to_lower :: "string \<Rightarrow> string" where
  "to_lower s = map lower_char s"

definition is_turn :: "string \<Rightarrow> bool" where
  "is_turn scheme \<longleftrightarrow> to_lower scheme = ''turn'' \<or> to_lower scheme = ''turns''"

text \<open>The URL loop of \<open>validateICEServer\<close>: the resulting \<open>needsCredential\<close>, or the error.\<close>

fun checkURLs :: "string list \<Rightarrow> bool \<Rightarrow> gerror + bool" where
  "checkURLs [] needs = Inr needs"
| "checkURLs (raw # raws) needs =
     (case cut_colon raw of
        None \<Rightarrow> Inl (errorf ErrConfig None)
      | Some (scheme, rest) \<Rightarrow>
          if rest = [] then Inl (errorf ErrConfig None)
          else if to_lower scheme = ''stun'' \<or> to_lower scheme = ''stuns'' then checkURLs raws needs
          else if is_turn scheme then checkURLs raws True
          else Inl (errorf ErrConfig None))"

definition validateICEServer :: "ICEServer \<Rightarrow> gerror option" where
  "validateICEServer s =
     (if ice_URLs s = [] then Some (errorf ErrConfig None)
      else case checkURLs (ice_URLs s) False of
        Inl e \<Rightarrow> Some e
      | Inr needsCredential \<Rightarrow>
          if ice_CredentialType s = ICECredentialOAuth then Some (errorf ErrConfig None)
          else if ice_CredentialType s \<noteq> ICECredentialPassword then Some (errorf ErrConfig None)
          else if needsCredential \<and> (ice_Username s = [] \<or> ice_Credential s = [])
          then Some (errorf ErrConfig None)
          else if \<not> needsCredential \<and> (ice_Username s \<noteq> [] \<or> ice_Credential s \<noteq> [])
          then Some (errorf ErrConfig None)
          else None)"

definition url_is_turn :: "string \<Rightarrow> bool" where
  "url_is_turn raw = is_turn (case cut_colon raw of Some (a, _) \<Rightarrow> a | None \<Rightarrow> raw)"

definition hasTURN :: "ICEServer list \<Rightarrow> bool" where
  "hasTURN servers = list_ex (\<lambda>s. list_ex url_is_turn (ice_URLs s)) servers"

subsection \<open>Defaults and checks\<close>

definition setTimeout :: "int \<Rightarrow> int \<Rightarrow> gerror + int" where
  "setTimeout field def =
     (if field = 0 then Inr def else if field < 0 then Inl (errorf ErrConfig None) else Inr field)"

definition validateKeepAlive :: "KeepAliveConfig \<Rightarrow> gerror + KeepAliveConfig" where
  "validateKeepAlive ka =
     (if ka_Interval ka < 0 \<or> ka_Timeout ka < 0 then Inl (errorf ErrConfig None)
      else if ka_Interval ka = 0 then Inr (ka\<lparr>ka_Timeout := 0\<rparr>)
      else
        let ka = (if ka_Timeout ka = 0 then ka\<lparr>ka_Timeout := ka_Interval ka\<rparr> else ka)
        in if ka_Timeout ka > ka_Interval ka then Inl (errorf ErrConfig None) else Inr ka)"

definition zeroReconnect :: ReconnectPolicy where
  "zeroReconnect = \<lparr> rc_Enabled = False, rc_MaxAttempts = 0, rc_AttemptTimeout = 0,
     rc_Backoff = \<lparr> bo_Initial = 0, bo_Maximum = 0, bo_Factor = Fin 0, bo_Jitter = Fin 0 \<rparr> \<rparr>"

definition defaultReconnectPolicy :: ReconnectPolicy where
  "defaultReconnectPolicy = \<lparr> rc_Enabled = True, rc_MaxAttempts = 3, rc_AttemptTimeout = 10 * 10 ^ 9,
     rc_Backoff = \<lparr> bo_Initial = 500 * 10 ^ 6, bo_Maximum = 5 * 10 ^ 9, bo_Factor = Fin 2,
       bo_Jitter = Fin (1 / 5) \<rparr> \<rparr>"

definition validateBackoff :: "Backoff \<Rightarrow> gerror + Backoff" where
  "validateBackoff b =
     (if bo_Initial b < 0 \<or> bo_Maximum b < 0 then Inl (errorf ErrConfig None)
      else
        let b = (if bo_Initial b = 0 then b\<lparr>bo_Initial := 500 * 10 ^ 6\<rparr> else b);
            b = (if bo_Maximum b = 0 then b\<lparr>bo_Maximum := 5 * 10 ^ 9\<rparr> else b)
        in if bo_Maximum b < bo_Initial b then Inl (errorf ErrConfig None)
           else
             let b = (if bo_Factor b = Fin 0 then b\<lparr>bo_Factor := Fin 2\<rparr> else b)
             in if f64_lt (bo_Factor b) (Fin 1) then Inl (errorf ErrConfig None)
                else if f64_lt (bo_Jitter b) (Fin 0) \<or> f64_lt (Fin 1) (bo_Jitter b)
                then Inl (errorf ErrConfig None)
                else Inr b)"

definition validateReconnect :: "ReconnectPolicy \<Rightarrow> gerror + ReconnectPolicy" where
  "validateReconnect rp =
     (if rp = zeroReconnect then Inr defaultReconnectPolicy
      else if \<not> rc_Enabled rp then Inr rp
      else if rc_MaxAttempts rp \<le> 0 then Inl (errorf ErrConfig None)
      else if rc_AttemptTimeout rp \<le> 0 then Inl (errorf ErrConfig None)
      else case validateBackoff (rc_Backoff rp) of
        Inl e \<Rightarrow> Inl e
      | Inr b \<Rightarrow> Inr (rp\<lparr>rc_Backoff := b\<rparr>))"

fun checkServers :: "ICEServer list \<Rightarrow> gerror option" where
  "checkServers [] = None"
| "checkServers (s # ss) =
     (case validateICEServer s of
        Some e \<Rightarrow> Some (errorf ErrConfig (Some e))
      | None \<Rightarrow> checkServers ss)"

definition cloneLimits :: "Config \<Rightarrow> gerror + Config" where
  "cloneLimits out =
     (let out = (if cfg_AcceptBacklog out = 0 then out\<lparr>cfg_AcceptBacklog := DefaultAcceptBacklog\<rparr> else out)
      in if cfg_AcceptBacklog out < 0 then Inl (errorf ErrConfig None)
      else
        let out = (if cfg_FramePayload out = 0 then out\<lparr>cfg_FramePayload := DefaultFramePayload\<rparr> else out)
        in if cfg_FramePayload out < 0 \<or> cfg_FramePayload out > MaxFramePayload
        then Inl (errorf ErrConfig None)
        else
          let out = (if cfg_ReadBuffer out = 0 then out\<lparr>cfg_ReadBuffer := DefaultReadBuffer\<rparr> else out)
          in if cfg_ReadBuffer out < cfg_FramePayload out then Inl (errorf ErrConfig None)
             else Inr out)"

definition cloneTail :: "Config \<Rightarrow> gerror + Config" where
  "cloneTail out =
     (case validateKeepAlive (cfg_KeepAlive out) of
        Inl e \<Rightarrow> Inl e
      | Inr ka \<Rightarrow>
          (case validateReconnect (cfg_Reconnect out) of
             Inl e \<Rightarrow> Inl e
           | Inr rc \<Rightarrow> Inr (out\<lparr>cfg_KeepAlive := ka, cfg_Reconnect := rc, cfg_hasLogger := True,
                                cfg_hasMetrics := True, cfg_hasClock := True\<rparr>)))"

definition clone :: "Config \<Rightarrow> gerror + Config" where
  "clone cfg =
     (case validPeerID (cfg_ID cfg) of
        Some e \<Rightarrow> Inl (errorf ErrConfig (Some e))
      | None \<Rightarrow>
      if \<not> cfg_hasSignaler cfg then Inl (errorf ErrConfig None)
      else case checkServers (cfg_ICEServers cfg) of
        Some e \<Rightarrow> Inl e
      | None \<Rightarrow>
      if cfg_ICETransportPolicy cfg \<noteq> ICETransportPolicyAll \<and>
         cfg_ICETransportPolicy cfg \<noteq> ICETransportPolicyRelay then Inl (errorf ErrConfig None)
      else if cfg_ICETransportPolicy cfg = ICETransportPolicyRelay \<and> \<not> hasTURN (cfg_ICEServers cfg)
      then Inl (errorf ErrConfig None)
      else case setTimeout (cfg_DialTimeout cfg) DefaultDialTimeout of
        Inl e \<Rightarrow> Inl e
      | Inr d \<Rightarrow>
      (case setTimeout (cfg_ICETimeout cfg) DefaultICETimeout of
        Inl e \<Rightarrow> Inl e
      | Inr i \<Rightarrow>
      (case cloneLimits (cfg\<lparr>cfg_DialTimeout := d, cfg_ICETimeout := i\<rparr>) of
        Inl e \<Rightarrow> Inl e
      | Inr out \<Rightarrow> cloneTail out)))"

subsection \<open>What an accepted configuration satisfies\<close>

definition backoff_ok :: "Backoff \<Rightarrow> bool" where
  "backoff_ok b \<longleftrightarrow> 0 < bo_Initial b \<and> bo_Initial b \<le> bo_Maximum b \<and> \<not> f64_lt (bo_Factor b) (Fin 1) \<and>
     \<not> f64_lt (bo_Jitter b) (Fin 0) \<and> \<not> f64_lt (Fin 1) (bo_Jitter b)"

definition reconnect_ok :: "ReconnectPolicy \<Rightarrow> bool" where
  "reconnect_ok rp \<longleftrightarrow> rp \<noteq> zeroReconnect \<and>
     (rc_Enabled rp \<longrightarrow> 0 < rc_MaxAttempts rp \<and> 0 < rc_AttemptTimeout rp \<and> backoff_ok (rc_Backoff rp))"

definition config_ok :: "Config \<Rightarrow> bool" where
  "config_ok c \<longleftrightarrow>
     validPeerID (cfg_ID c) = None \<and> cfg_hasSignaler c \<and>
     (\<forall>s \<in> set (cfg_ICEServers c). validateICEServer s = None) \<and>
     (cfg_ICETransportPolicy c = ICETransportPolicyAll \<or>
      cfg_ICETransportPolicy c = ICETransportPolicyRelay \<and> hasTURN (cfg_ICEServers c)) \<and>
     0 < cfg_DialTimeout c \<and> 0 < cfg_ICETimeout c \<and> 0 < cfg_AcceptBacklog c \<and>
     0 < cfg_FramePayload c \<and> cfg_FramePayload c \<le> MaxFramePayload \<and>
     cfg_FramePayload c \<le> cfg_ReadBuffer c \<and>
     0 \<le> ka_Timeout (cfg_KeepAlive c) \<and> ka_Timeout (cfg_KeepAlive c) \<le> ka_Interval (cfg_KeepAlive c) \<and>
     (ka_Interval (cfg_KeepAlive c) > 0 \<longrightarrow> ka_Timeout (cfg_KeepAlive c) > 0) \<and>
     reconnect_ok (cfg_Reconnect c) \<and> cfg_hasLogger c \<and> cfg_hasMetrics c \<and> cfg_hasClock c"

lemma f64_zero_one: "f64_lt (Fin 0) (Fin 1)"
  by simp

lemma validateBackoff_ok: "validateBackoff b = Inr b' \<Longrightarrow> backoff_ok b'"
  by (auto simp: validateBackoff_def Let_def backoff_ok_def split: if_splits)

lemma validateBackoff_id: "backoff_ok b \<Longrightarrow> validateBackoff b = Inr b"
  using f64_zero_one by (auto simp: validateBackoff_def Let_def backoff_ok_def)

lemma enabled_not_zero: "rc_Enabled rp \<Longrightarrow> rp \<noteq> zeroReconnect"
  by (auto simp: zeroReconnect_def)

lemma validateReconnect_ok:
  assumes "validateReconnect rp = Inr rp'"
  shows "reconnect_ok rp'"
proof -
  have d: "reconnect_ok defaultReconnectPolicy"
    using enabled_not_zero [of defaultReconnectPolicy]
    by (simp add: reconnect_ok_def defaultReconnectPolicy_def backoff_ok_def)
  have "reconnect_ok (rp\<lparr>rc_Backoff := b\<rparr>)"
    if "rc_Enabled rp" "\<not> rc_MaxAttempts rp \<le> 0" "\<not> rc_AttemptTimeout rp \<le> 0" "backoff_ok b" for b
    using that enabled_not_zero [of "rp\<lparr>rc_Backoff := b\<rparr>"] by (simp add: reconnect_ok_def)
  then show ?thesis using assms d
    by (auto simp: validateReconnect_def split: if_splits sum.splits dest: validateBackoff_ok)
       (auto simp: reconnect_ok_def)
qed

lemma validateReconnect_id: "reconnect_ok rp \<Longrightarrow> validateReconnect rp = Inr rp"
  by (auto simp: validateReconnect_def reconnect_ok_def validateBackoff_id)

lemma checkServers_None: "checkServers ss = None \<longleftrightarrow> (\<forall>s \<in> set ss. validateICEServer s = None)"
  by (induction ss) (auto split: option.splits)

lemma cloneLimits_ok:
  assumes "cloneLimits c = Inr out"
  shows "0 < cfg_AcceptBacklog out \<and> 0 < cfg_FramePayload out \<and> cfg_FramePayload out \<le> MaxFramePayload \<and>
    cfg_FramePayload out \<le> cfg_ReadBuffer out \<and>
    out = c\<lparr>cfg_AcceptBacklog := cfg_AcceptBacklog out, cfg_FramePayload := cfg_FramePayload out,
      cfg_ReadBuffer := cfg_ReadBuffer out\<rparr>"
  using assms by (auto simp: cloneLimits_def Let_def default_defs split: if_splits)

lemma validateKeepAlive_ok:
  "validateKeepAlive ka = Inr ka' \<Longrightarrow> 0 \<le> ka_Timeout ka' \<and> ka_Timeout ka' \<le> ka_Interval ka' \<and>
     (ka_Interval ka' > 0 \<longrightarrow> ka_Timeout ka' > 0)"
  by (auto simp: validateKeepAlive_def Let_def split: if_splits)

lemma setTimeout_ok: "setTimeout f d = Inr t \<Longrightarrow> 0 < d \<Longrightarrow> 0 < t"
  by (auto simp: setTimeout_def split: if_splits)

lemma clone_ok:
  assumes "clone cfg = Inr out"
  shows "config_ok out"
proof -
  obtain d i l where s: "validPeerID (cfg_ID cfg) = None" "cfg_hasSignaler cfg"
    "checkServers (cfg_ICEServers cfg) = None"
    "cfg_ICETransportPolicy cfg = ICETransportPolicyAll \<or> cfg_ICETransportPolicy cfg = ICETransportPolicyRelay"
    "cfg_ICETransportPolicy cfg = ICETransportPolicyRelay \<longrightarrow> hasTURN (cfg_ICEServers cfg)"
    "setTimeout (cfg_DialTimeout cfg) DefaultDialTimeout = Inr d"
    "setTimeout (cfg_ICETimeout cfg) DefaultICETimeout = Inr i"
    "cloneLimits (cfg\<lparr>cfg_DialTimeout := d, cfg_ICETimeout := i\<rparr>) = Inr l" "cloneTail l = Inr out"
    using assms by (auto simp: clone_def split: option.splits sum.splits if_splits)
  obtain b f r where l: "l = cfg\<lparr>cfg_DialTimeout := d, cfg_ICETimeout := i, cfg_AcceptBacklog := b,
      cfg_FramePayload := f, cfg_ReadBuffer := r\<rparr>" "0 < b" "0 < f" "f \<le> MaxFramePayload" "f \<le> r"
    using cloneLimits_ok [OF s(8)] by auto
  obtain ka rc where t: "validateKeepAlive (cfg_KeepAlive l) = Inr ka" "validateReconnect (cfg_Reconnect l) = Inr rc"
    "out = l\<lparr>cfg_KeepAlive := ka, cfg_Reconnect := rc, cfg_hasLogger := True, cfg_hasMetrics := True,
      cfg_hasClock := True\<rparr>"
    using s(9) by (auto simp: cloneTail_def split: sum.splits)
  show ?thesis
    using s l validateKeepAlive_ok [OF t(1)] validateReconnect_ok [OF t(2)]
      setTimeout_ok [OF s(6)] setTimeout_ok [OF s(7)]
    by (auto simp: config_ok_def t(3) checkServers_None default_defs)
qed

lemma clone_id:
  assumes "config_ok c"
  shows "clone c = Inr c"
proof -
  have "cloneLimits c = Inr c" using assms by (simp add: cloneLimits_def config_ok_def)
  moreover have "validateKeepAlive (cfg_KeepAlive c) = Inr (cfg_KeepAlive c)"
    using assms by (auto simp: validateKeepAlive_def config_ok_def)
  moreover have "validateReconnect (cfg_Reconnect c) = Inr (cfg_Reconnect c)"
    using assms by (simp add: config_ok_def validateReconnect_id)
  ultimately have "cloneLimits c = Inr c" "cloneTail c = Inr c"
    using assms by (simp_all add: cloneTail_def config_ok_def)
  moreover have "checkServers (cfg_ICEServers c) = None" using assms by (simp add: config_ok_def checkServers_None)
  moreover have "setTimeout (cfg_DialTimeout c) d = Inr (cfg_DialTimeout c)"
    "setTimeout (cfg_ICETimeout c) d = Inr (cfg_ICETimeout c)" for d
    using assms by (simp_all add: config_ok_def setTimeout_def)
  ultimately show ?thesis using assms
    by (auto simp: clone_def config_ok_def ICETransportPolicyAll_def ICETransportPolicyRelay_def)
qed

lemma config_errors:
  "validateICEServer s = Some e \<Longrightarrow> errors_Is e ErrConfig" "setTimeout f d = Inl e \<Longrightarrow> errors_Is e ErrConfig"
  "validateKeepAlive ka = Inl e \<Longrightarrow> errors_Is e ErrConfig" "validateBackoff b = Inl e \<Longrightarrow> errors_Is e ErrConfig"
  "cloneLimits c = Inl e \<Longrightarrow> errors_Is e ErrConfig"
proof -
  have "checkURLs us n = Inl e \<Longrightarrow> errors_Is e ErrConfig" for us n
    by (induction us n rule: checkURLs.induct) (auto split: option.splits if_splits)
  then show "validateICEServer s = Some e \<Longrightarrow> errors_Is e ErrConfig"
    by (auto simp: validateICEServer_def split: if_splits sum.splits)
qed (auto simp: setTimeout_def validateKeepAlive_def validateBackoff_def cloneLimits_def Let_def split: if_splits)

lemma checkServers_error: "checkServers ss = Some e \<Longrightarrow> errors_Is e ErrConfig"
  by (induction ss) (auto split: option.splits)


subsection \<open>Not-a-number passes the range checks\<close>

text \<open>\<open>Factor\<close> and \<open>Jitter\<close> are rejected when they compare below 1 or outside the unit interval; a
  not-a-number compares as neither.\<close>

lemma nan_backoff_accepted:
  "validateBackoff \<lparr> bo_Initial = 1, bo_Maximum = 1, bo_Factor = NaN, bo_Jitter = NaN \<rparr> =
     Inr \<lparr> bo_Initial = 1, bo_Maximum = 1, bo_Factor = NaN, bo_Jitter = NaN \<rparr>"
  by (simp add: validateBackoff_def Let_def)

end
