(* ===== verification/Session.thy ===== *)
theory Session
  imports Pionx Metrics Mailbox Config
begin

text \<open>
  The session state machine (\<^verbatim>\<open>session.go\<close>): one negotiation and, once established, one
  connection. Every method of \<open>session\<close> is a function on the session record; a method that returns
  a close intent returns it as an option beside the new state.

  \<^item> The context \<open>X\<close> holds what a session reads of its endpoint: the configuration, the WebRTC
    engine and the factory built from it. The environment \<open>E\<close> holds what one call meets: the current
    time, the random bytes of a message identifier, what \<open>Endpoint.send\<close> and \<open>Endpoint.enqueueInbound\<close>
    return, the backoff drawn by \<open>backoffFor\<close> (theory \<open>Backoff\<close>) and the
    answer of the channel to a close frame.
  \<^item> What a method does to the outside is recorded, in order, in \<open>ss_out\<close>: measurements, signals,
    the dial result, handing the connection to the listener, returning the backlog slot, leaving the
    session table and closing the peer connection. No operation reads the record.
  \<^item> A timer is the time it fires at; a stopped timer is none. The zero \<open>time.Time\<close> is none.
  \<^item> The event loop is a program counter \<open>ss_at\<close> over the rest of the drained batch; \<open>ss_probes\<close>
    counts the keepalive goroutines that have not reported yet. The relation \<open>sess_step\<close> interleaves the
    loop with the producers of events, the users of the stream and the engine.
  \<^item> Calling a method of a nil peer connection would panic; \<open>start\<close> sets it before the loop runs, and
    the functions leave the state unchanged in that case.
  \<^item> Log lines are not modelled.
\<close>

subsection \<open>Data\<close>

definition closeSignalTimeout :: int where "closeSignalTimeout = 2 * 10 ^ 9"
definition closeReleaseTimeout :: int where "closeReleaseTimeout = 3 * 10 ^ 9"
definition closeAckGrace :: int where "closeAckGrace = 400 * 10 ^ 6"
definition closeLingerTimeout :: int where "closeLingerTimeout = 5 * 10 ^ 9"

record keepaliveResult =
  kr_rtt :: int
  kr_err :: "gerror option"

record closeIntent =
  ci_code :: string
  ci_reason :: string
  ci_err :: "gerror option"
  ci_notify :: bool
  ci_graceful :: bool

datatype sessionEvent =
    EvSignal Signal
  | EvPion pionEvent
  | EvKeepalive keepaliveResult
  | EvClose closeIntent

text \<open>A dial result carries the connection of the session or an error.\<close>

datatype dialResult = DialConn | DialErr gerror

datatype sessionOutput =
    OMetric measurement
  | OSend Signal
  | OResult dialResult
  | OEnqueue
  | OReleaseSlot
  | ORemoveSession
  | OClosePeer

datatype sessionPc =
    SStart "Signal option"
  | SLoop "sessionEvent list"
  | STeardown closeIntent
  | SRelease closeIntent
  | SDone

record ('p, 'd) session =
  ss_id :: string
  ss_peer :: PeerID
  ss_role :: role
  ss_box :: "sessionEvent mailbox"
  ss_result :: "dialResult option"
  ss_finished :: bool
  ss_releaseSlot :: bool
  ss_peerConn :: "('p, 'd) Peer option"
  ss_stream :: "stream option"
  ss_conn :: "conn option"
  ss_state :: ConnectionState
  ss_pendingCands :: "Candidate list"
  ss_remoteComplete :: bool
  ss_generation :: u32
  ss_restarts :: int
  ss_restartAttempt :: int
  ss_restartStarted :: time
  ss_startedAt :: int
  ss_delivered :: bool
  ss_pinging :: bool
  ss_peerClosed :: bool
  ss_negotiateTimer :: time
  ss_recoveryTimer :: time
  ss_keepaliveTimer :: time
  ss_lingerTimer :: time
  ss_at :: sessionPc
  ss_probes :: nat
  ss_out :: "sessionOutput list"

record ('p, 'd) sctx =
  cx_cfg :: Config
  cx_pion :: "('p, 'd) pion"
  cx_factory :: pionConfiguration

record env =
  en_now :: int
  en_rand :: bytes
  en_send :: "Signal \<Rightarrow> gerror option"
  en_enqueue :: "gerror option"
  en_backoff :: int
  en_ch :: chres

type_synonym ('p, 'd) handled = "closeIntent option \<times> ('p, 'd) session"

definition newSession :: "string \<Rightarrow> PeerID \<Rightarrow> role \<Rightarrow> Signal option \<Rightarrow> ('p, 'd) session" where
  "newSession sid peer r offer =
     \<lparr> ss_id = sid, ss_peer = peer, ss_role = r, ss_box = newMailbox, ss_result = None,
       ss_finished = False, ss_releaseSlot = False, ss_peerConn = None, ss_stream = None, ss_conn = None,
       ss_state = StateNew, ss_pendingCands = [], ss_remoteComplete = False, ss_generation = 0,
       ss_restarts = 0, ss_restartAttempt = 0, ss_restartStarted = None, ss_startedAt = 0,
       ss_delivered = False, ss_pinging = False, ss_peerClosed = False, ss_negotiateTimer = None,
       ss_recoveryTimer = None, ss_keepaliveTimer = None, ss_lingerTimer = None,
       ss_at = SStart offer, ss_probes = 0, ss_out = [] \<rparr>"

definition emit :: "sessionOutput \<Rightarrow> ('p, 'd) session \<Rightarrow> ('p, 'd) session" where
  "emit x s = s\<lparr>ss_out := ss_out s @ [x]\<rparr>"

definition sCount :: "string \<Rightarrow> Label list \<Rightarrow> ('p, 'd) session \<Rightarrow> ('p, 'd) session" where
  "sCount name ls s = emit (OMetric (Count name 1 ls)) s"

definition postEvent :: "sessionEvent \<Rightarrow> ('p, 'd) session \<Rightarrow> ('p, 'd) session" where
  "postEvent ev s = s\<lparr>ss_box := snd (post ev (ss_box s))\<rparr>"

definition sink :: "pionEvent \<Rightarrow> ('p, 'd) session \<Rightarrow> ('p, 'd) session" where
  "sink ev s = postEvent (EvPion ev) s"

definition postSignal :: "Signal \<Rightarrow> ('p, 'd) session \<Rightarrow> ('p, 'd) session" where
  "postSignal sig s = postEvent (EvSignal sig) s"

definition closeWith :: "closeIntent \<Rightarrow> ('p, 'd) session \<Rightarrow> ('p, 'd) session" where
  "closeWith i s = postEvent (EvClose i) s"

definition requestClose :: "('p, 'd) session \<Rightarrow> ('p, 'd) session" where
  "requestClose s = closeWith \<lparr> ci_code = CloseNormal, ci_reason = [],
     ci_err = Some (Sentinel ErrClosed), ci_notify = True, ci_graceful = False \<rparr> s"

subsection \<open>Intents\<close>

definition intentFor :: "gerror \<Rightarrow> closeIntent" where
  "intentFor err =
     \<lparr> ci_code = (if errors_Is err ErrProtocol then CloseProtocolError
                  else if errors_Is err ErrTimeout then CloseTimeout else CloseInternal),
       ci_reason = [], ci_err = Some err, ci_notify = True, ci_graceful = False \<rparr>"

definition streamCloseCode :: "string \<Rightarrow> u16" where
  "streamCloseCode c =
     (if c = CloseProtocolError then FrameCloseProtocolError
      else if c = CloseGoingAway then FrameCloseGoingAway
      else if c = CloseInternal \<or> c = CloseTimeout then FrameCloseInternal
      else FrameCloseNormal)"

definition mkIntent :: "string \<Rightarrow> string \<Rightarrow> bool \<Rightarrow> bool \<Rightarrow> gerror \<Rightarrow> closeIntent" where
  "mkIntent code reason notify graceful err =
     \<lparr> ci_code = code, ci_reason = reason, ci_err = Some err, ci_notify = notify, ci_graceful = graceful \<rparr>"

subsection \<open>Sending\<close>

definition sendSignal ::
    "('p, 'd) sctx \<Rightarrow> env \<Rightarrow> string \<Rightarrow> payload option \<Rightarrow> ('p, 'd) session \<Rightarrow> gerror option \<times> ('p, 'd) session" where
  "sendSignal X E kind body s =
     (case newSignal (en_rand E) kind (cfg_ID (cx_cfg X)) (ss_peer s) (ss_id s) body of
        Inl e \<Rightarrow> (Some e, s)
      | Inr sig \<Rightarrow> (en_send E sig, emit (OSend sig) s))"

definition sendCloseSignal :: "('p, 'd) sctx \<Rightarrow> env \<Rightarrow> closeIntent \<Rightarrow> ('p, 'd) session \<Rightarrow> ('p, 'd) session" where
  "sendCloseSignal X E i s =
     (case newSignal (en_rand E) KindClose (cfg_ID (cx_cfg X)) (ss_peer s) (ss_id s)
        (Some (PClose \<lparr> cl_Code = ci_code i, cl_Reason = ci_reason i \<rparr>)) of
        Inl e \<Rightarrow> s
      | Inr sig \<Rightarrow> emit (OSend sig) s)"

definition dropSignal :: "('p, 'd) session \<Rightarrow> ('p, 'd) session" where
  "dropSignal s = sCount metricProtocolFailures [labelScope ''routing''] s"

subsection \<open>Candidates\<close>

definition hasRemote :: "('p, 'd) sctx \<Rightarrow> ('p, 'd) session \<Rightarrow> bool" where
  "hasRemote X s = (case ss_peerConn s of None \<Rightarrow> False | Some p \<Rightarrow> HasRemoteDescription (cx_pion X) p)"

definition applyCandidate :: "('p, 'd) sctx \<Rightarrow> Candidate \<Rightarrow> ('p, 'd) session \<Rightarrow> ('p, 'd) session" where
  "applyCandidate X c s =
     (case ss_peerConn s of
        None \<Rightarrow> s
      | Some p \<Rightarrow>
          (case AddCandidate (cx_pion X) c p of
             (None, p') \<Rightarrow> s\<lparr>ss_peerConn := Some p'\<rparr>
           | (Some e, p') \<Rightarrow>
               sCount metricProtocolFailures [labelScope ''candidate''] (s\<lparr>ss_peerConn := Some p'\<rparr>)))"

definition applyEnd :: "('p, 'd) sctx \<Rightarrow> ('p, 'd) session \<Rightarrow> ('p, 'd) session" where
  "applyEnd X s =
     (case ss_peerConn s of
        None \<Rightarrow> s
      | Some p \<Rightarrow> s\<lparr>ss_peerConn := Some (snd (EndOfRemoteCandidates (cx_pion X) p))\<rparr>)"

fun applyAll :: "('p, 'd) sctx \<Rightarrow> Candidate list \<Rightarrow> ('p, 'd) session \<Rightarrow> ('p, 'd) session" where
  "applyAll X [] s = s"
| "applyAll X (c # cs) s = applyAll X cs (applyCandidate X c s)"

definition flushCandidates :: "('p, 'd) sctx \<Rightarrow> ('p, 'd) session \<Rightarrow> ('p, 'd) session" where
  "flushCandidates X s =
     (if \<not> hasRemote X s then s
      else
        let s = (applyAll X (ss_pendingCands s) s)\<lparr>ss_pendingCands := []\<rparr>
        in if ss_remoteComplete s then applyEnd X (s\<lparr>ss_remoteComplete := False\<rparr>) else s)"

definition refreshCandidateStats :: "('p, 'd) sctx \<Rightarrow> ('p, 'd) session \<Rightarrow> ('p, 'd) session" where
  "refreshCandidateStats X s =
     (case (ss_conn s, ss_peerConn s) of
        (Some c, Some p) \<Rightarrow>
          (case SelectedCandidatePair (cx_pion X) p of (local, remote) \<Rightarrow>
             if local = [] \<and> remote = [] then s
             else s\<lparr>ss_conn := Some (updateStats
                (\<lambda>st. st\<lparr>st_LocalCandidate := local, st_RemoteCandidate := remote\<rparr>) c)\<rparr>)
      | _ \<Rightarrow> s)"

subsection \<open>Start\<close>

definition startOfferer :: "('p, 'd) sctx \<Rightarrow> env \<Rightarrow> ('p, 'd) session \<Rightarrow> gerror option \<times> ('p, 'd) session" where
  "startOfferer X E s =
     (case NewOfferer (cx_pion X) (cx_factory X) of
        Inl e \<Rightarrow> (wrapErr ErrNegotiation (Some e), s)
      | Inr p \<Rightarrow>
          (case CreateOffer (cx_pion X) False p of
             (Inl e, p') \<Rightarrow> (wrapErr ErrNegotiation (Some e), s\<lparr>ss_peerConn := Some p'\<rparr>)
           | (Inr sdp, p') \<Rightarrow>
               sendSignal X E KindOffer (Some (PSdp \<lparr> sp_SDP = sdp \<rparr>))
                 (s\<lparr>ss_peerConn := Some p', ss_state := StateSignaling\<rparr>)))"

text \<open>Applying a remote offer and answering it: the first negotiation and an ICE restart.\<close>

definition answerOffer ::
    "('p, 'd) sctx \<Rightarrow> string \<Rightarrow> ('p, 'd) session \<Rightarrow> (gerror + string) \<times> ('p, 'd) session" where
  "answerOffer X sdp s =
     (case ss_peerConn s of
        None \<Rightarrow> (Inl (Plain ''nil peer connection''), s)
      | Some p \<Rightarrow>
          (case SetRemoteOffer (cx_pion X) sdp p of
             (Some e, p') \<Rightarrow> (Inl (Categorized ErrNegotiation (Some e)), s\<lparr>ss_peerConn := Some p'\<rparr>)
           | (None, p') \<Rightarrow>
               (case CreateAnswer (cx_pion X) p' of
                  (Inl e, p'') \<Rightarrow> (Inl (Categorized ErrNegotiation (Some e)), s\<lparr>ss_peerConn := Some p''\<rparr>)
                | (Inr ans, p'') \<Rightarrow> (Inr ans, s\<lparr>ss_peerConn := Some p''\<rparr>))))"

definition startAnswerer ::
    "('p, 'd) sctx \<Rightarrow> env \<Rightarrow> Signal \<Rightarrow> ('p, 'd) session \<Rightarrow> gerror option \<times> ('p, 'd) session" where
  "startAnswerer X E offer s =
     (case NewAnswerer (cx_pion X) (cx_factory X) of
        Inl e \<Rightarrow> (wrapErr ErrNegotiation (Some e), s)
      | Inr p \<Rightarrow>
          let s = s\<lparr>ss_peerConn := Some p\<rparr> in
          (case decodePayload decode_sdp (sig_Payload offer) of
             Inl e \<Rightarrow> (Some e, s)
           | Inr body \<Rightarrow>
               (case answerOffer X (sp_SDP body) s of
                  (Inl e, s) \<Rightarrow> (Some e, s)
                | (Inr sdp, s) \<Rightarrow>
                    (case sendSignal X E KindAnswer (Some (PSdp \<lparr> sp_SDP = sdp \<rparr>))
                        (s\<lparr>ss_state := StateConnecting\<rparr>) of
                       (Some e, s) \<Rightarrow> (Some e, s)
                     | (None, s) \<Rightarrow> (None, flushCandidates X s)))))"

text \<open>An answering session is always started with its offer; without one the code would panic.\<close>

definition start ::
    "('p, 'd) sctx \<Rightarrow> env \<Rightarrow> Signal option \<Rightarrow> ('p, 'd) session \<Rightarrow> gerror option \<times> ('p, 'd) session" where
  "start X E offer s =
     (if ss_role s = roleOfferer then startOfferer X E s
      else case offer of
        None \<Rightarrow> (Some (Plain ''nil offer''), s)
      | Some o' \<Rightarrow> startAnswerer X E o' s)"

subsection \<open>Timers, recovery and keepalive\<close>

definition armRecovery :: "env \<Rightarrow> int \<Rightarrow> ('p, 'd) session \<Rightarrow> ('p, 'd) session" where
  "armRecovery E d s =
     (let d = (if d \<le> 0 then 10 ^ 9 else d) in s\<lparr>ss_recoveryTimer := Some (en_now E + d)\<rparr>)"

definition armKeepAlive :: "('p, 'd) sctx \<Rightarrow> env \<Rightarrow> ('p, 'd) session \<Rightarrow> ('p, 'd) session" where
  "armKeepAlive X E s =
     (if ka_Interval (cfg_KeepAlive (cx_cfg X)) \<le> 0 \<or> ss_stream s = None \<or> ss_pinging s then s
      else s\<lparr>ss_keepaliveTimer := Some (en_now E + ka_Interval (cfg_KeepAlive (cx_cfg X)))\<rparr>)"

text \<open>The probe goroutine runs on its own; it is counted until it reports.\<close>

definition startProbe :: "('p, 'd) session \<Rightarrow> ('p, 'd) session" where
  "startProbe s =
     (if ss_state s \<noteq> StateConnected \<or> ss_stream s = None \<or> ss_pinging s then s
      else s\<lparr>ss_pinging := True, ss_probes := ss_probes s + 1\<rparr>)"

definition mapConn :: "(conn \<Rightarrow> conn) \<Rightarrow> ('p, 'd) session \<Rightarrow> ('p, 'd) session" where
  "mapConn f s = s\<lparr>ss_conn := map_option f (ss_conn s)\<rparr>"

definition attemptRestart :: "('p, 'd) sctx \<Rightarrow> env \<Rightarrow> ('p, 'd) session \<Rightarrow> ('p, 'd) handled" where
  "attemptRestart X E s =
     (let policy = cfg_Reconnect (cx_cfg X) in
      if \<not> rc_Enabled policy \<or> ss_role s \<noteq> roleOfferer \<or> ss_restartAttempt s \<ge> rc_MaxAttempts policy
      then (Some (mkIntent CloseNormal ''connectivity lost'' True False (errorf ErrDisconnected None)), s)
      else
        let s = s\<lparr>ss_restartAttempt := ss_restartAttempt s + 1, ss_generation := ss_generation s + 1,
                  ss_restartStarted := Some (en_now E)\<rparr>;
            s = sCount metricRestartAttempts [] s
        in case ss_peerConn s of
             None \<Rightarrow> (None, s)
           | Some p \<Rightarrow>
               (case CreateOffer (cx_pion X) True p of
                  (Inl e, p') \<Rightarrow>
                    (Some (intentFor (Categorized ErrICE (Some e))),
                     sCount metricRestartResults [labelResult ''error''] (s\<lparr>ss_peerConn := Some p'\<rparr>))
                | (Inr sdp, p') \<Rightarrow>
                    (case sendSignal X E KindRestart
                        (Some (PRestart \<lparr> rp_Generation = ss_generation s, rp_SDP = sdp \<rparr>))
                        (s\<lparr>ss_peerConn := Some p'\<rparr>) of
                       (Some e, s) \<Rightarrow>
                         (Some (intentFor e), sCount metricRestartResults [labelResult ''error''] s)
                     | (None, s) \<Rightarrow> (None, armRecovery E (rc_AttemptTimeout policy + en_backoff E) s))))"

definition onConnectivityLost :: "('p, 'd) sctx \<Rightarrow> env \<Rightarrow> ('p, 'd) session \<Rightarrow> ('p, 'd) session" where
  "onConnectivityLost X E s =
     (if ss_state s \<noteq> StateConnected then s
      else
        let s = mapConn (setState StateRecovering) (s\<lparr>ss_state := StateRecovering\<rparr>);
            budget = (if rc_Enabled (cfg_Reconnect (cx_cfg X)) then rc_AttemptTimeout (cfg_Reconnect (cx_cfg X))
                      else cfg_ICETimeout (cx_cfg X))
        in armRecovery E budget s)"

definition onConnectivityFailed :: "('p, 'd) sctx \<Rightarrow> env \<Rightarrow> ('p, 'd) session \<Rightarrow> ('p, 'd) handled" where
  "onConnectivityFailed X E s =
     (if ss_state s = StateConnected \<or> ss_state s = StateRecovering
      then attemptRestart X E (if ss_state s = StateConnected then onConnectivityLost X E s else s)
      else (Some (intentFor (errorf ErrICE None)), s))"

definition onConnectivityUp :: "('p, 'd) sctx \<Rightarrow> env \<Rightarrow> ('p, 'd) session \<Rightarrow> ('p, 'd) session" where
  "onConnectivityUp X E s =
     (let s = (refreshCandidateStats X s)\<lparr>ss_recoveryTimer := None\<rparr> in
      if ss_state s \<noteq> StateRecovering then s
      else
        let s = mapConn (setState StateConnected) (s\<lparr>ss_state := StateConnected\<rparr>);
            s = (case ss_restartStarted s of
                   None \<Rightarrow> s
                 | Some t \<Rightarrow>
                     let s = s\<lparr>ss_restarts := ss_restarts s + 1\<rparr>;
                         s = emit (OMetric (Duration metricRestartDuration (en_now E - t) [])) s;
                         s = sCount metricRestartResults [labelResult ''success''] s;
                         s = s\<lparr>ss_restartStarted := None\<rparr>
                     in mapConn (updateStats (\<lambda>st. st\<lparr>st_ICERestarts := ss_restarts s\<rparr>)) s)
        in armKeepAlive X E (s\<lparr>ss_restartAttempt := 0\<rparr>))"

definition onRecoveryDeadline :: "('p, 'd) sctx \<Rightarrow> env \<Rightarrow> ('p, 'd) session \<Rightarrow> ('p, 'd) handled" where
  "onRecoveryDeadline X E s =
     (if ss_state s \<noteq> StateRecovering then (None, s) else attemptRestart X E s)"

definition onKeepAlive :: "('p, 'd) sctx \<Rightarrow> env \<Rightarrow> keepaliveResult \<Rightarrow> ('p, 'd) session \<Rightarrow> ('p, 'd) handled" where
  "onKeepAlive X E res s =
     (let s = s\<lparr>ss_pinging := False\<rparr> in
      case kr_err res of
        Some e \<Rightarrow>
          let s = sCount metricKeepAliveFailures [labelReason ''no-pong''] s in
          if ss_state s = StateConnected then attemptRestart X E (onConnectivityLost X E s) else (None, s)
      | None \<Rightarrow>
          let s = emit (OMetric (Duration metricKeepAliveRTT (kr_rtt res) [])) s;
              s = mapConn (updateStats (\<lambda>st. st\<lparr>st_KeepAliveRTT := kr_rtt res\<rparr>)) s
          in (None, armKeepAlive X E s))"

subsection \<open>The open channel\<close>

definition deliver :: "env \<Rightarrow> ('p, 'd) session \<Rightarrow> ('p, 'd) handled" where
  "deliver E s =
     (let s = s\<lparr>ss_delivered := True\<rparr> in
      if ss_role s = roleOfferer then
        (case ss_result s of
           None \<Rightarrow> (None, emit (OResult DialConn) (s\<lparr>ss_result := Some DialConn\<rparr>))
         | Some _ \<Rightarrow> (Some (mkIntent CloseNormal [] True False (Sentinel ErrClosed)), s))
      else case en_enqueue E of
        Some e \<Rightarrow> (Some (mkIntent CloseNormal ''listener is unavailable'' True False e), s)
      | None \<Rightarrow> (None, emit OEnqueue (s\<lparr>ss_releaseSlot := False\<rparr>)))"

definition onChannelOpen :: "('p, 'd) sctx \<Rightarrow> env \<Rightarrow> ('p, 'd) session \<Rightarrow> ('p, 'd) handled" where
  "onChannelOpen X E s =
     (case (ss_stream s, ss_peerConn s) of
        (None, Some p) \<Rightarrow>
          let mx = unat (MaxMessageSize (cx_pion X) p);
              need = HeaderSize + nat (cfg_FramePayload (cx_cfg X)) in
          if mx \<noteq> 0 \<and> need > mx then (Some (intentFor (errorf ErrNegotiation None)), s)
          else
            (case Detach (cx_pion X) p of
               (Inl e, p') \<Rightarrow>
                 (Some (intentFor (Categorized ErrNegotiation (Some e))), s\<lparr>ss_peerConn := Some p'\<rparr>)
             | (Inr d, p') \<Rightarrow>
                 let st = NewStream (cfg_FramePayload (cx_cfg X)) (cfg_ReadBuffer (cx_cfg X));
                     elapsed = en_now E - ss_startedAt s;
                     s = s\<lparr>ss_peerConn := Some p', ss_stream := Some st, ss_state := StateConnected,
                           ss_negotiateTimer := None,
                           ss_conn := Some (newConn (cfg_ID (cx_cfg X)) (ss_peer s) (ss_id s) (ss_role s)
                              (en_now E) elapsed)\<rparr>;
                     s = refreshCandidateStats X s;
                     s = emit (OMetric (Duration metricConnectDuration elapsed [labelRole (ss_role s)])) s
                 in deliver E (armKeepAlive X E s))
      | _ \<Rightarrow> (None, s))"

subsection \<open>Signals\<close>

definition toCandidate :: "candidatePayload \<Rightarrow> Candidate" where
  "toCandidate b = \<lparr> ca_Candidate = cp_Candidate b, ca_SDPMid = cp_SDPMid b,
     ca_SDPMLineIndex = cp_SDPMLineIndex b, ca_UsernameFragment = cp_UsernameFragment b \<rparr>"

definition fromCandidate :: "Candidate \<Rightarrow> candidatePayload" where
  "fromCandidate c = \<lparr> cp_Candidate = ca_Candidate c, cp_SDPMid = ca_SDPMid c,
     cp_SDPMLineIndex = ca_SDPMLineIndex c, cp_UsernameFragment = ca_UsernameFragment c \<rparr>"

definition applyAnswer :: "('p, 'd) sctx \<Rightarrow> string \<Rightarrow> ('p, 'd) session \<Rightarrow> ('p, 'd) handled" where
  "applyAnswer X sdp s =
     (case ss_peerConn s of
        None \<Rightarrow> (None, s)
      | Some p \<Rightarrow>
          (case SetRemoteAnswer (cx_pion X) sdp p of
             (Some e, p') \<Rightarrow>
               (Some (intentFor (Categorized ErrNegotiation (Some e))), s\<lparr>ss_peerConn := Some p'\<rparr>)
           | (None, p') \<Rightarrow>
               let s = s\<lparr>ss_peerConn := Some p', ss_restartAttempt := 0,
                         ss_state := (if ss_state s = StateSignaling then StateConnecting else ss_state s)\<rparr>
               in (None, flushCandidates X s)))"

definition onCandidate :: "('p, 'd) sctx \<Rightarrow> Candidate \<Rightarrow> ('p, 'd) session \<Rightarrow> ('p, 'd) handled" where
  "onCandidate X cand s =
     (if \<not> hasRemote X s then
        (if length (ss_pendingCands s) \<ge> maxPendingCandidates
         then (Some (intentFor (errorf ErrProtocol None)), s)
         else (None, s\<lparr>ss_pendingCands := ss_pendingCands s @ [cand]\<rparr>))
      else (None, applyCandidate X cand s))"

definition onICEComplete :: "('p, 'd) sctx \<Rightarrow> ('p, 'd) session \<Rightarrow> ('p, 'd) session" where
  "onICEComplete X s =
     (if \<not> hasRemote X s then s\<lparr>ss_remoteComplete := True\<rparr> else applyEnd X s)"

definition onRestart :: "('p, 'd) sctx \<Rightarrow> env \<Rightarrow> u32 \<Rightarrow> string \<Rightarrow> ('p, 'd) session \<Rightarrow> ('p, 'd) handled" where
  "onRestart X E gen sdp s =
     (if gen \<le> ss_generation s then (None, dropSignal s)
      else
        (case answerOffer X sdp (s\<lparr>ss_generation := gen\<rparr>) of
           (Inl e, s) \<Rightarrow> (Some (intentFor e), s)
         | (Inr ans, s) \<Rightarrow>
             (case sendSignal X E KindAnswer (Some (PSdp \<lparr> sp_SDP = ans \<rparr>)) s of
                (Some e, s) \<Rightarrow> (Some (intentFor e), s)
              | (None, s) \<Rightarrow> (None, s))))"

definition onRestartSignal :: "('p, 'd) sctx \<Rightarrow> env \<Rightarrow> Signal \<Rightarrow> ('p, 'd) session \<Rightarrow> ('p, 'd) handled" where
  "onRestartSignal X E sig s =
     (case decodePayload decode_restart (sig_Payload sig) of
        Inl e \<Rightarrow> (Some (intentFor e), s)
      | Inr body \<Rightarrow> onRestart X E (rp_Generation body) (rp_SDP body) s)"

definition onCloseSignal :: "env \<Rightarrow> ('p, 'd) session \<Rightarrow> ('p, 'd) handled" where
  "onCloseSignal E s =
     (if ss_state s \<noteq> StateConnected \<or> ss_stream s = None
      then (Some (mkIntent CloseNormal [] False False (errorf ErrPeerRejected None)), s)
      else
        let s = s\<lparr>ss_peerClosed := True\<rparr> in
        (None, if ss_lingerTimer s = None then s\<lparr>ss_lingerTimer := Some (en_now E + closeLingerTimeout)\<rparr>
               else s))"

definition onSignal :: "('p, 'd) sctx \<Rightarrow> env \<Rightarrow> Signal \<Rightarrow> ('p, 'd) session \<Rightarrow> ('p, 'd) handled" where
  "onSignal X E sig s =
     (if sig_Kind sig = KindAnswer then
        (if ss_role s \<noteq> roleOfferer then (None, dropSignal s)
         else if hasRemote X s \<and> ss_restartAttempt s = 0 then (None, dropSignal s)
         else case decodePayload decode_sdp (sig_Payload sig) of
           Inl e \<Rightarrow> (Some (intentFor e), s)
         | Inr body \<Rightarrow> applyAnswer X (sp_SDP body) s)
      else if sig_Kind sig = KindOffer then (None, dropSignal s)
      else if sig_Kind sig = KindRestart then onRestartSignal X E sig s
      else if sig_Kind sig = KindCandidate then
        (case decodePayload decode_candidate (sig_Payload sig) of
           Inl e \<Rightarrow> (Some (intentFor e), s)
         | Inr body \<Rightarrow> onCandidate X (toCandidate body) s)
      else if sig_Kind sig = KindICEComplete then (None, onICEComplete X s)
      else if sig_Kind sig = KindReject then
        (case decodePayload decode_reject (sig_Payload sig) of
           Inl e \<Rightarrow> (Some (intentFor e), s)
         | Inr body \<Rightarrow>
             (Some (mkIntent CloseNormal [] False False
                (RejectedError (rj_Code body) (rj_Reason body) (ss_peer s))), s))
      else if sig_Kind sig = KindClose then
        (case decodePayload decode_close (sig_Payload sig) of
           Inl e \<Rightarrow> (Some (intentFor e), s)
         | Inr body \<Rightarrow> onCloseSignal E s)
      else (None, s))"

subsection \<open>Engine events\<close>

definition onPionEvent :: "('p, 'd) sctx \<Rightarrow> env \<Rightarrow> pionEvent \<Rightarrow> ('p, 'd) session \<Rightarrow> ('p, 'd) handled" where
  "onPionEvent X E ev s =
     (case ev of
        EventLocalCandidate c \<Rightarrow>
          (case sendSignal X E KindCandidate (Some (PCandidate (fromCandidate c))) s of
             (Some e, s) \<Rightarrow>
               (if errors_Is e ErrSignaling \<and> ss_state s \<noteq> StateConnected then Some (intentFor e) else None, s)
           | (None, s) \<Rightarrow> (None, s))
      | EventGatheringComplete \<Rightarrow> (None, snd (sendSignal X E KindICEComplete None s))
      | EventConnected \<Rightarrow> (None, onConnectivityUp X E s)
      | EventDisconnected \<Rightarrow> (None, onConnectivityLost X E s)
      | EventFailed \<Rightarrow> onConnectivityFailed X E s
      | EventPeerClosed \<Rightarrow>
          (if ss_state s = StateConnected
           then (Some (mkIntent CloseNormal [] True False (Sentinel ErrDisconnected)), s)
           else (Some (intentFor (errorf ErrNegotiation None)), s))
      | EventChannelOpen \<Rightarrow> onChannelOpen X E s
      | EventChannelClosed \<Rightarrow>
          (if ss_stream s \<noteq> None then (None, s) else (Some (intentFor (errorf ErrNegotiation None)), s))
      | EventError e \<Rightarrow>
          (if errors_Is e ErrChannelRejected
           then (Some (mkIntent CloseProtocolError ''data channel does not match the protocol contract''
                   True False (Categorized ErrProtocol (Some e))), s)
           else if ss_state s = StateConnected then (None, s)
           else (Some (intentFor (Categorized ErrNegotiation (Some e))), s)))"

fun handle :: "('p, 'd) sctx \<Rightarrow> env \<Rightarrow> sessionEvent \<Rightarrow> ('p, 'd) session \<Rightarrow> ('p, 'd) handled" where
  "handle X E (EvClose i) s = (Some i, s)"
| "handle X E (EvSignal sig) s = onSignal X E sig s"
| "handle X E (EvPion ev) s = onPionEvent X E ev s"
| "handle X E (EvKeepalive res) s = onKeepAlive X E res s"

definition onStreamDone :: "stream \<Rightarrow> closeIntent" where
  "onStreamDone st =
     (case s_readErr st of
        None \<Rightarrow> mkIntent CloseNormal [] True False (Sentinel ErrClosed)
      | Some e \<Rightarrow>
          if errors_Is e ErrClosed then mkIntent CloseNormal [] True False (Sentinel ErrClosed)
          else if errors_Is e FrameErrProtocol
          then mkIntent CloseProtocolError ''invalid stream frame'' True False (Categorized ErrProtocol (Some e))
          else mkIntent CloseNormal [] False True (Sentinel ErrClosed))"

subsection \<open>Teardown\<close>

text \<open>\<open>teardown\<close> up to the wait for the stream.\<close>

definition shutStream :: "closeIntent \<Rightarrow> env \<Rightarrow> ('p, 'd) session \<Rightarrow> ('p, 'd) session" where
  "shutStream i E s =
     (case ss_stream s of
        None \<Rightarrow> s
      | Some st \<Rightarrow>
          let s = emit (OMetric (Count metricStreamBytesRead (uint (BytesRead (Stream_Stats st))) [])) s;
              s = emit (OMetric (Count metricStreamBytesWrite (uint (BytesWritten (Stream_Stats st))) [])) s;
              code = streamCloseCode (ci_code i)
          in s\<lparr>ss_stream := Some
               (if ci_graceful i \<and> ss_peerClosed s then ShutdownEOF st code (ci_reason i) (en_now E) (en_ch E)
                else if ci_graceful i then Shutdown st code (ci_reason i) (en_now E) (en_ch E)
                else CloseWith st code (ci_reason i) (en_now E) (en_ch E))\<rparr>)"

definition teardownBegin :: "('p, 'd) sctx \<Rightarrow> env \<Rightarrow> closeIntent \<Rightarrow> ('p, 'd) session \<Rightarrow> ('p, 'd) session" where
  "teardownBegin X E i s =
     (let s = s\<lparr>ss_state := StateClosed, ss_box := mbClose (ss_box s), ss_negotiateTimer := None,
                ss_recoveryTimer := None, ss_keepaliveTimer := None, ss_lingerTimer := None\<rparr>;
          s = (if ci_notify i then sendCloseSignal X E i s else s)
      in shutStream i E s)"

text \<open>Whether \<open>awaitRelease\<close> waits at all: not when connectivity is known to be gone.\<close>

definition awaitsRelease :: "closeIntent \<Rightarrow> bool" where
  "awaitsRelease i \<longleftrightarrow>
     \<not> (case ci_err i of None \<Rightarrow> False | Some e \<Rightarrow> errors_Is e ErrDisconnected \<or> errors_Is e ErrICE)"

text \<open>\<open>teardown\<close> after the wait.\<close>

definition teardownEnd :: "('p, 'd) sctx \<Rightarrow> closeIntent \<Rightarrow> ('p, 'd) session \<Rightarrow> ('p, 'd) session" where
  "teardownEnd X i s =
     (let s = (case ss_peerConn s of
                 None \<Rightarrow> s
               | Some p \<Rightarrow> emit OClosePeer (s\<lparr>ss_peerConn := Some (snd (Peer_Close (cx_pion X) p))\<rparr>));
          s = mapConn (setState StateClosed) s;
          s = emit ORemoveSession s;
          s = (if ss_releaseSlot s then emit OReleaseSlot (s\<lparr>ss_releaseSlot := False\<rparr>) else s);
          s = (if \<not> ss_delivered s \<and> ss_role s = roleOfferer \<and> ss_result s = None then
                 (let r = DialErr (case ci_err i of None \<Rightarrow> Sentinel ErrClosed | Some e \<Rightarrow> e)
                  in emit (OResult r) (s\<lparr>ss_result := Some r\<rparr>))
               else s)
      in s\<lparr>ss_finished := True\<rparr>)"

subsection \<open>The loop\<close>

definition runStart :: "('p, 'd) sctx \<Rightarrow> env \<Rightarrow> Signal option \<Rightarrow> ('p, 'd) session \<Rightarrow> ('p, 'd) session" where
  "runStart X E offer s =
     (case start X E offer (s\<lparr>ss_startedAt := en_now E\<rparr>) of
        (Some e, s) \<Rightarrow> s\<lparr>ss_at := STeardown (intentFor e)\<rparr>
      | (None, s) \<Rightarrow>
          s\<lparr>ss_negotiateTimer := Some (en_now E + cfg_DialTimeout (cx_cfg X)), ss_at := SLoop []\<rparr>)"

text \<open>What the loop does with the answer of a handler; \<open>evs\<close> is the rest of the batch.\<close>

definition continue :: "sessionEvent list \<Rightarrow> ('p, 'd) handled \<Rightarrow> ('p, 'd) session" where
  "continue evs r = (snd r)\<lparr>ss_at := (case fst r of Some i \<Rightarrow> STeardown i | None \<Rightarrow> SLoop evs)\<rparr>"

definition onDrain :: "('p, 'd) session \<Rightarrow> ('p, 'd) session" where
  "onDrain s =
     (case drain (ss_box s) of ((events, overflow), b) \<Rightarrow>
        s\<lparr>ss_box := b, ss_at := (if overflow then STeardown (intentFor (errorf ErrProtocol None))
                                 else SLoop events)\<rparr>)"

definition onNegotiateTimer :: "('p, 'd) session \<Rightarrow> ('p, 'd) handled" where
  "onNegotiateTimer s =
     (let s = s\<lparr>ss_negotiateTimer := None\<rparr> in
      if ss_state s = StateConnected \<or> ss_state s = StateRecovering then (None, s)
      else (Some (mkIntent CloseTimeout ''negotiation timed out'' True False (errorf ErrTimeout None)), s))"

definition lingerIntent :: closeIntent where
  "lingerIntent = mkIntent CloseNormal [] False True (Sentinel ErrClosed)"

definition goingAway :: closeIntent where
  "goingAway = mkIntent CloseGoingAway ''endpoint is shutting down'' False False (Sentinel ErrClosed)"

end
