(* ===== verification/Listener.thy ===== *)
theory Listener
  imports Conn Queue
begin

text \<open>
  The accept queue of a listener (\<^verbatim>\<open>listener.go\<close>). Connections and release functions are
  named by the number of the session object they belong to. The operations that also touch the
  endpoint (\<open>AcceptConn\<close>, \<open>Close\<close>, \<open>drain\<close>) are defined with it. \<open>push\<close> is one step: its two
  \<open>select\<close> statements are not interleaved with a concurrent \<open>Close\<close>.
\<close>

record pendingConn =
  pd_conn :: nat
  pd_release :: "nat option"

record listener =
  ln_addr :: Addr
  ln_accept :: "pendingConn list"
  ln_cap :: nat
  ln_closed :: bool

definition isClosed :: "listener \<Rightarrow> bool" where
  "isClosed l = ln_closed l"

definition push :: "pendingConn \<Rightarrow> listener \<Rightarrow> gerror option \<times> listener" where
  "push p l =
     (if ln_closed l then (Some (errorf ErrClosed None), l)
      else if length (ln_accept l) < ln_cap l then (None, l\<lparr>ln_accept := ln_accept l @ [p]\<rparr>)
      else (Some (errorf ErrClosed None), l))"

definition opErr :: "string \<Rightarrow> gerror \<Rightarrow> gerror" where
  "opErr op err = OpError op err"

text \<open>Receiving from the accept channel: the oldest connection, if there is one.\<close>

definition receive :: "listener \<Rightarrow> pendingConn list \<times> listener" where
  "receive l = (case ln_accept l of [] \<Rightarrow> ([], l) | p # ps \<Rightarrow> ([p], l\<lparr>ln_accept := ps\<rparr>))"

definition pushed :: "pendingConn \<Rightarrow> listener \<Rightarrow> bool \<times> listener" where
  "pushed p l = (fst (push p l) = None, snd (push p l))"

interpretation aq: bounded_fifo ln_accept pushed receive ln_cap
  by unfold_locales (auto simp: pushed_def push_def receive_def split: if_splits list.splits)

text \<open>Connections are accepted in the order they were established, and the queue never exceeds its capacity.\<close>

lemma accept_order:
  assumes "aq.run ops l = (acc, out, l')" "length (ln_accept l) \<le> ln_cap l"
  shows "ln_accept l @ acc = out @ ln_accept l' \<and> length (ln_accept l') \<le> ln_cap l"
  using aq.run_fifo [OF assms(1)] aq.run_bounded [OF assms] by blast

end
