(* ===== verification/Dedupe.thy ===== *)
theory Dedupe
  imports Prelude "HOL-Library.AList"
begin

text \<open>
  The duplicate-suppression cache (\<^verbatim>\<open>dedupe.go\<close>). The map from signal IDs to sequence
  numbers is an association list with distinct keys; the sequence counter is a 64-bit word. The
  mutex makes each operation one step.
\<close>

record dedupeCache =
  dc_max :: int
  dc_seen :: "(string \<times> u64) list"
  dc_next :: u64

definition newDedupeCache :: "int \<Rightarrow> dedupeCache" where
  "newDedupeCache m =
     (let mx = (if m < 2 then 2 else m) in \<lparr> dc_max = mx, dc_seen = [], dc_next = 0 \<rparr>)"

definition evictOldestHalfLocked :: "dedupeCache \<Rightarrow> dedupeCache" where
  "evictOldestHalfLocked d =
     (let cutoff = dc_next d - word_of_int (dc_max d div 2)
      in d\<lparr>dc_seen := filter (\<lambda>(i, seq). \<not> seq < cutoff) (dc_seen d)\<rparr>)"

definition seenBefore :: "dedupeCache \<Rightarrow> string \<Rightarrow> bool \<times> dedupeCache" where
  "seenBefore d i =
     (if map_of (dc_seen d) i \<noteq> None then (True, d)
      else
        let d = (if int (length (dc_seen d)) \<ge> dc_max d then evictOldestHalfLocked d else d)
        in (False, d\<lparr>dc_seen := AList.update i (dc_next d) (dc_seen d), dc_next := dc_next d + 1\<rparr>))"

definition dedupeLen :: "dedupeCache \<Rightarrow> nat" where
  "dedupeLen d = length (dc_seen d)"

text \<open>Presenting a sequence of signal IDs.\<close>

definition feed :: "dedupeCache \<Rightarrow> string list \<Rightarrow> dedupeCache" where
  "feed = foldl (\<lambda>d i. snd (seenBefore d i))"

subsection \<open>Invariant\<close>

text \<open>The stored sequence numbers are distinct and below the counter.\<close>

definition dedupe_ok :: "dedupeCache \<Rightarrow> bool" where
  "dedupe_ok d \<longleftrightarrow> 2 \<le> dc_max d \<and> distinct (map fst (dc_seen d)) \<and> distinct (map snd (dc_seen d)) \<and>
     (\<forall>q \<in> snd ` set (dc_seen d). q < dc_next d) \<and> int (length (dc_seen d)) \<le> dc_max d \<and>
     int (length (dc_seen d)) \<le> uint (dc_next d)"

lemma feed_snoc [simp]: "feed d (xs @ [x]) = snd (seenBefore (feed d xs) x)"
  by (simp add: feed_def)

lemma feed_Nil [simp]: "feed d [] = d"
  by (simp add: feed_def)

lemma feed_append: "feed d (xs @ ys) = feed (feed d xs) ys"
  by (simp add: feed_def)

lemma new_dedupe_ok: "dedupe_ok (newDedupeCache m)"
  by (simp add: newDedupeCache_def dedupe_ok_def Let_def)

lemma cutoff_uint:
  assumes "dedupe_ok d" "dc_max d \<le> int (length (dc_seen d))"
  shows "uint (dc_next d - word_of_int (dc_max d div 2)) = uint (dc_next d) - dc_max d div 2"
proof -
  have "2 \<le> dc_max d" "dc_max d \<le> uint (dc_next d)" using assms by (auto simp: dedupe_ok_def)
  then have m: "0 \<le> dc_max d div 2" "dc_max d div 2 \<le> uint (dc_next d)" by linarith+
  have "dc_max d div 2 < 2 ^ 64" using m(2) uint_bounded [of "dc_next d"] by simp
  then have u: "uint (word_of_int (dc_max d div 2) :: u64) = dc_max d div 2"
    using m(1) by (simp add: uint_word_of_int)
  have "word_of_int (dc_max d div 2) \<le> dc_next d" using m(2) by (simp add: word_le_def u)
  then show ?thesis by (simp add: uint_minus_simple_alt u)
qed


lemma evict_seen:
  assumes "dedupe_ok d" "dc_max d \<le> int (length (dc_seen d))"
  shows "dc_seen (evictOldestHalfLocked d) =
      filter (\<lambda>x. uint (dc_next d) - dc_max d div 2 \<le> uint (snd x)) (dc_seen d)"
    "int (length (dc_seen (evictOldestHalfLocked d))) \<le> dc_max d div 2"
proof -
  let ?c = "uint (dc_next d) - dc_max d div 2"
  show e: "dc_seen (evictOldestHalfLocked d) = filter (\<lambda>x. ?c \<le> uint (snd x)) (dc_seen d)"
    unfolding evictOldestHalfLocked_def Let_def
    by (simp add: word_less_def cutoff_uint [OF assms] case_prod_unfold not_less)
  let ?L = "map (uint \<circ> snd) (filter (\<lambda>x. ?c \<le> uint (snd x)) (dc_seen d))"
  have "distinct (map snd (filter (\<lambda>x. ?c \<le> uint (snd x)) (dc_seen d)))"
    using assms(1) by (simp add: dedupe_ok_def distinct_map_filter)
  then have dis: "distinct ?L" by (auto simp: distinct_map inj_on_def word_uint_eq_iff simp flip: map_map)
  have "set ?L \<subseteq> {?c ..< uint (dc_next d)}"
    using assms(1) by (auto simp: dedupe_ok_def word_less_def)
  then have "card (set ?L) \<le> nat (dc_max d div 2)" using card_mono [of "{?c ..< uint (dc_next d)}"] by fastforce
  moreover have "card (set ?L) = length ?L" using dis by (rule distinct_card)
  moreover have "0 \<le> dc_max d" using assms(1) by (simp add: dedupe_ok_def)
  ultimately have "length ?L \<le> nat (dc_max d div 2)" by linarith
  then show "int (length (dc_seen (evictOldestHalfLocked d))) \<le> dc_max d div 2"
    unfolding e using \<open>0 \<le> dc_max d\<close> by (simp add: le_nat_iff)
qed

text \<open>Recording a fresh ID keeps everything but, when the cache is full, the older half.\<close>

lemma seenBefore_fresh:
  assumes "dedupe_ok d" "map_of (dc_seen d) i = None" "uint (dc_next d) + 1 < 2 ^ 64"
  obtains L where "seenBefore d i = (False, d\<lparr>dc_seen := L @ [(i, dc_next d)], dc_next := dc_next d + 1\<rparr>)"
    "L = dc_seen d \<and> int (length L) < dc_max d \<or>
     L = filter (\<lambda>x. uint (dc_next d) - dc_max d div 2 \<le> uint (snd x)) (dc_seen d) \<and>
       int (length L) \<le> dc_max d div 2"
proof -
  have n: "AList.update i q L = L @ [(i, q)]" if "i \<notin> fst ` set L" for L and q :: u64
    using that by (induction L) auto
  have fresh: "i \<notin> fst ` set (dc_seen d)" using assms(2) by (simp add: map_of_eq_None_iff)
  show thesis
  proof (cases "dc_max d \<le> int (length (dc_seen d))")
    case True
    note e = evict_seen [OF assms(1) True]
    have "i \<notin> fst ` set (dc_seen (evictOldestHalfLocked d))" using fresh unfolding e(1) by auto
    then have "seenBefore d i = (False, d\<lparr>dc_seen := dc_seen (evictOldestHalfLocked d) @ [(i, dc_next d)],
        dc_next := dc_next d + 1\<rparr>)"
      using assms(2) True by (simp add: seenBefore_def Let_def n evictOldestHalfLocked_def)
    then show thesis using that e by blast
  next
    case False
    then have "seenBefore d i = (False, d\<lparr>dc_seen := dc_seen d @ [(i, dc_next d)],
        dc_next := dc_next d + 1\<rparr>)"
      using assms(2) by (simp add: seenBefore_def Let_def n [OF fresh])
    then show thesis using that False by force
  qed
qed

lemma uint_plus_one: "uint w + 1 < 2 ^ 64 \<Longrightarrow> uint (w + 1 :: u64) = uint w + 1"
  by (subst uint_plus_simple) (simp_all add: word_le_def uint_word_ariths)


lemma seenBefore_ok:
  assumes "dedupe_ok d" "uint (dc_next d) + 1 < 2 ^ 64"
  shows "dedupe_ok (snd (seenBefore d i))" "dc_max (snd (seenBefore d i)) = dc_max d"
    "uint (dc_next (snd (seenBefore d i))) \<le> uint (dc_next d) + 1"
    "fst (seenBefore (snd (seenBefore d i)) i)"
proof -
  have "dedupe_ok (snd (seenBefore d i)) \<and> dc_max (snd (seenBefore d i)) = dc_max d \<and>
    uint (dc_next (snd (seenBefore d i))) \<le> uint (dc_next d) + 1 \<and> fst (seenBefore (snd (seenBefore d i)) i)"
  proof (cases "map_of (dc_seen d) i")
    case (Some q)
    then show ?thesis using assms(1) by (simp add: seenBefore_def)
  next
    case None
    show ?thesis
    proof (rule seenBefore_fresh [OF assms(1) None assms(2)])
      fix L
      assume e: "seenBefore d i = (False, d\<lparr>dc_seen := L @ [(i, dc_next d)], dc_next := dc_next d + 1\<rparr>)"
        and L: "L = dc_seen d \<and> int (length L) < dc_max d \<or>
          L = filter (\<lambda>x. uint (dc_next d) - dc_max d div 2 \<le> uint (snd x)) (dc_seen d) \<and>
          int (length L) \<le> dc_max d div 2"
      have s: "set L \<subseteq> set (dc_seen d)" "distinct (map fst L)" "distinct (map snd L)"
        "length L \<le> length (dc_seen d)"
        using L assms(1) by (auto simp: dedupe_ok_def distinct_map_filter)
      have n: "uint (dc_next d + 1) = uint (dc_next d) + 1" by (rule uint_plus_one [OF assms(2)])
      have i: "i \<notin> fst ` set L" using None s(1) by (auto simp: map_of_eq_None_iff)
      have q: "\<forall>x \<in> snd ` set L. x < dc_next d" using s(1) assms(1) by (auto simp: dedupe_ok_def)
      have len: "int (length L) + 1 \<le> dc_max d" using L assms(1) by (auto simp: dedupe_ok_def)
      have "dedupe_ok (d\<lparr>dc_seen := L @ [(i, dc_next d)], dc_next := dc_next d + 1\<rparr>)"
        using s i q len n assms(1)
        by (auto simp: dedupe_ok_def word_less_def)
      then show ?thesis using e n by (simp add: seenBefore_def)
    qed
  qed
  then show "dedupe_ok (snd (seenBefore d i))" "dc_max (snd (seenBefore d i)) = dc_max d"
    "uint (dc_next (snd (seenBefore d i))) \<le> uint (dc_next d) + 1"
    "fst (seenBefore (snd (seenBefore d i)) i)" by simp_all
qed

lemma feed_ok:
  assumes "dedupe_ok d" "uint (dc_next d) + int (length xs) < 2 ^ 64"
  shows "dedupe_ok (feed d xs) \<and> dc_max (feed d xs) = dc_max d \<and>
    uint (dc_next (feed d xs)) \<le> uint (dc_next d) + int (length xs)"
  using assms(2)
proof (induction xs rule: rev_induct)
  case (snoc x xs)
  then have ih: "dedupe_ok (feed d xs)" "dc_max (feed d xs) = dc_max d"
    "uint (dc_next (feed d xs)) \<le> uint (dc_next d) + int (length xs)" by auto
  then show ?case using seenBefore_ok [OF ih(1), of x] snoc.prems by auto
qed (use assms(1) in simp)

text \<open>Only presented IDs are reported as seen.\<close>

lemma seenBefore_keys:
  "fst ` set (dc_seen (snd (seenBefore d i))) \<subseteq> insert i (fst ` set (dc_seen d))"
proof -
  have u: "fst ` set (AList.update i q L) = insert i (fst ` set L)" for q :: u64 and L
    by (induction L) auto
  show ?thesis by (auto simp: seenBefore_def Let_def evictOldestHalfLocked_def u)
qed

subsection \<open>What the cache guarantees\<close>

lemma seenBefore_keeps:
  assumes "dedupe_ok d" "uint (dc_next d) + 1 < 2 ^ 64" "(i, q) \<in> set (dc_seen d)"
    "uint (dc_next d) \<le> uint q + dc_max d div 2"
  shows "(i, q) \<in> set (dc_seen (snd (seenBefore d j)))"
proof (cases "map_of (dc_seen d) j")
  case None
  show ?thesis by (rule seenBefore_fresh [OF assms(1) None assms(2)]) (use assms(3,4) in auto)
qed (use assms(3) in \<open>simp add: seenBefore_def\<close>)

lemma feed_keeps:
  assumes "dedupe_ok d" "uint (dc_next d) + int (length zs) < 2 ^ 64" "(i, q) \<in> set (dc_seen d)"
    "uint (dc_next d) + int (length zs) \<le> uint q + 1 + dc_max d div 2"
  shows "(i, q) \<in> set (dc_seen (feed d zs))"
  using assms(2,4)
proof (induction zs rule: rev_induct)
  case (snoc z zs)
  have "dedupe_ok (feed d zs) \<and> dc_max (feed d zs) = dc_max d \<and>
      uint (dc_next (feed d zs)) \<le> uint (dc_next d) + int (length zs)"
    by (rule feed_ok [OF assms(1)]) (use snoc.prems in simp)
  moreover have "(i, q) \<in> set (dc_seen (feed d zs))" using snoc by simp
  ultimately show ?case using snoc.prems by (simp add: seenBefore_keeps)
qed (use assms(3) in simp)

lemma seenBefore_mem: "fst (seenBefore d i) \<longleftrightarrow> i \<in> fst ` set (dc_seen d)"
proof -
  have "fst (seenBefore d i) \<longleftrightarrow> map_of (dc_seen d) i \<noteq> None" by (simp add: seenBefore_def Let_def)
  then show ?thesis by (simp add: map_of_eq_None_iff)
qed

lemma feed_keys: "fst ` set (dc_seen (feed d xs)) \<subseteq> fst ` set (dc_seen d) \<union> set xs"
proof (induction xs rule: rev_induct)
  case (snoc x xs)
  have "fst ` set (dc_seen (feed d (xs @ [x]))) \<subseteq> insert x (fst ` set (dc_seen (feed d xs)))"
    unfolding feed_snoc by (rule seenBefore_keys)
  also have "\<dots> \<subseteq> insert x (fst ` set (dc_seen d) \<union> set xs)" using snoc by (rule insert_mono)
  finally show ?case by simp
qed simp

text \<open>C13: The cache suppresses duplicates within its window and stays bounded. It never holds more than
  its maximum; it reports an ID as seen only if that ID was presented before; and an ID it recorded
  as new is recognised while at most half the maximum of further IDs have been presented.\<close>

theorem dedupe_window:
  assumes "int (length ys) + int (length zs) + 2 < 2 ^ 64"
    and "\<not> fst (seenBefore (feed (newDedupeCache m) ys) i)"
    and "int (length zs) \<le> max 2 m div 2"
  shows "fst (seenBefore (feed (newDedupeCache m) (ys @ i # zs)) i) \<and>
    int (dedupeLen (feed (newDedupeCache m) (ys @ i # zs))) \<le> max 2 m \<and>
    (\<forall>j. fst (seenBefore (feed (newDedupeCache m) (ys @ i # zs)) j) \<longrightarrow> j \<in> set (ys @ i # zs))"
proof -
  let ?new = "newDedupeCache m" and ?d = "feed (newDedupeCache m) ys"
  have new: "dc_next ?new = 0" "dc_max ?new = max 2 m" "dc_seen ?new = []"
    by (auto simp: newDedupeCache_def Let_def)
  have d: "dedupe_ok ?d" "dc_max ?d = max 2 m" "uint (dc_next ?d) \<le> int (length ys)"
    using feed_ok [OF new_dedupe_ok, of m ys] assms(1) new by auto
  let ?e = "snd (seenBefore ?d i)"
  have b: "uint (dc_next ?d) + 1 < 2 ^ 64" using d(3) assms(1) by simp
  note e = seenBefore_ok [OF d(1) b, of i]
  have none: "map_of (dc_seen ?d) i = None" using assms(2) by (auto simp: seenBefore_def split: if_splits)
  have q: "(i, dc_next ?d) \<in> set (dc_seen ?e)"
    by (rule seenBefore_fresh [OF d(1) none b]) simp
  have f: "feed ?new (ys @ i # zs) = feed ?e zs"
    using feed_append [of ?new "ys @ [i]" zs] by simp
  have lim: "uint (dc_next ?e) + int (length zs) < 2 ^ 64" using e(3) d(3) assms(1) by simp
  have "(i, dc_next ?d) \<in> set (dc_seen (feed ?e zs))"
    by (rule feed_keeps [OF e(1) lim q]) (use e(2,3) d(2) assms(3) in simp)
  then have "i \<in> fst ` set (dc_seen (feed ?e zs))" by force
  then have seen: "fst (seenBefore (feed ?e zs) i)"
    using seenBefore_mem by blast
  have len: "int (dedupeLen (feed ?e zs)) \<le> max 2 m"
    using feed_ok [OF e(1) lim] e(2) d(2) by (simp add: dedupe_ok_def dedupeLen_def)
  have "j \<in> set (ys @ i # zs)" if "fst (seenBefore (feed ?new (ys @ i # zs)) j)" for j
  proof -
    have "j \<in> fst ` set (dc_seen (feed ?new (ys @ i # zs)))"
      using that seenBefore_mem by blast
    then show ?thesis using feed_keys [of ?new "ys @ i # zs"] new by auto
  qed
  then show ?thesis using seen len unfolding f by blast
qed

theorem dedupe_window_witness:
  "fst (seenBefore (feed (newDedupeCache 4) ([''a'', ''b''] @ ''c'' # [''d'', ''e''])) ''c'')"
proof -
  have "\<not> fst (seenBefore (feed (newDedupeCache 4) [''a'', ''b'']) ''c'')"
    by (simp add: feed_def seenBefore_def newDedupeCache_def Let_def)
  then show ?thesis using dedupe_window [of "[''a'', ''b'']" "[''d'', ''e'']" 4 "''c''"] by simp
qed

end
