(* ===== verification/Endpoint.thy ===== *)
theory Endpoint
  imports Session Listener Dedupe
begin

text \<open>
  The endpoint (\<^verbatim>\<open>endpoint.go\<close>, \<^verbatim>\<open>dial.go\<close>) and the operations of its listener
  (\<^verbatim>\<open>listener.go\<close>).

  \<^item> Sessions are objects: \<open>ep_objs\<close> is the store, \<open>ep_next\<close> the next free object number, and the
    table \<open>ep_sessions\<close> holds numbers, so the pointer comparison of \<open>removeSession\<close> is a
    comparison of numbers. The function \<open>releaseSlot\<close> of a session is named by its number, and
    \<open>ep_fired\<close> tells whether its \<open>sync.Once\<close> has run;
    \<open>ep_runs\<close> tells whether its goroutine was started.
  \<^item> \<open>ep_slots\<close> counts the tokens in \<open>inboundSlots\<close>. The listener object, once created, is
    \<open>ep_ln\<close>; \<open>ep_attached\<close> says whether the endpoint still points to it.
  \<^item> The environment \<open>V\<close> of a call holds the \<open>AllowPeer\<close> callback, the random bytes of message
    identifiers, the context error met while waiting for the send semaphore and what
    \<open>SignalConn.Send\<close> returned. The transport, the clock and the engine are outside.
  \<^item> \<open>ep_out\<close> and \<open>ep_sent\<close> record the measurements and the signals handed to the transport. No
    operation reads them.
  \<^item> A mutex region is one step. What a session does to its endpoint (\<open>ss_out\<close>) takes effect in the
    step of the session that does it.
\<close>

subsection \<open>State\<close>

definition signalSendTimeout :: int where "signalSendTimeout = 10 * 10 ^ 9"
definition sessionShutdownGrace :: int where "sessionShutdownGrace = 5 * 10 ^ 9"

record ('p, 'd) endpoint =
  ep_id :: PeerID
  ep_slots :: nat
  ep_cap :: nat
  ep_dedupe :: dedupeCache
  ep_sessions :: "(string \<times> nat) list"
  ep_objs :: "nat \<Rightarrow> ('p, 'd) session"
  ep_next :: nat
  ep_runs :: "nat \<Rightarrow> bool"
  ep_fired :: "nat \<Rightarrow> bool"
  ep_ln :: "listener option"
  ep_attached :: bool
  ep_listened :: bool
  ep_signalErr :: "gerror option"
  ep_closed :: bool
  ep_done :: bool
  ep_out :: "measurement list"
  ep_sent :: "Signal list"

record eenv =
  ee_allow :: "(PeerID \<Rightarrow> bool) option"
  ee_rand :: bytes
  ee_acquire :: "gerror option"
  ee_send :: "gerror option"

definition toPionICEServers :: "ICEServer list \<Rightarrow> pionICEServer list" where
  "toPionICEServers servers =
     map (\<lambda>s. \<lparr> pis_URLs = ice_URLs s, pis_Username = ice_Username s, pis_Credential = ice_Credential s \<rparr>) servers"

text \<open>\<open>New\<close>: \<open>openErr\<close> is the error of \<open>Signaler.Open\<close>. The factory is part of the context of the
  sessions.\<close>

definition New ::
    "('p, 'd) pion \<Rightarrow> Config \<Rightarrow> gerror option \<Rightarrow> gerror + (('p, 'd) sctx \<times> ('p, 'd) endpoint)" where
  "New P cfg openErr =
     (case clone cfg of
        Inl e \<Rightarrow> Inl e
      | Inr c \<Rightarrow>
          let factory = NewFactory (toPionICEServers (cfg_ICEServers c))
                (cfg_ICETransportPolicy c = ICETransportPolicyRelay) in
          (case openErr of
             Some e \<Rightarrow> Inl (Categorized ErrSignaling (Some e))
           | None \<Rightarrow> Inr (\<lparr> cx_cfg = c, cx_pion = P, cx_factory = factory \<rparr>,
               \<lparr> ep_id = cfg_ID c, ep_slots = 0, ep_cap = nat (cfg_AcceptBacklog c),
                 ep_dedupe = newDedupeCache dedupeCacheSize, ep_sessions = [],
                 ep_objs = (\<lambda>_. newSession [] [] roleOfferer None), ep_next = 0, ep_runs = (\<lambda>_. False), ep_fired = (\<lambda>_. False),
                 ep_ln = None, ep_attached = False, ep_listened = False, ep_signalErr = None,
                 ep_closed = False, ep_done = False, ep_out = [], ep_sent = [] \<rparr>)))"

definition eEmit :: "measurement \<Rightarrow> ('p, 'd) endpoint \<Rightarrow> ('p, 'd) endpoint" where
  "eEmit x ep = ep\<lparr>ep_out := ep_out ep @ [x]\<rparr>"

definition eCount :: "string \<Rightarrow> Label list \<Rightarrow> ('p, 'd) endpoint \<Rightarrow> ('p, 'd) endpoint" where
  "eCount name ls ep = eEmit (Count name 1 ls) ep"

definition setObj :: "nat \<Rightarrow> ('p, 'd) session \<Rightarrow> ('p, 'd) endpoint \<Rightarrow> ('p, 'd) endpoint" where
  "setObj r s ep = ep\<lparr>ep_objs := (ep_objs ep)(r := s)\<rparr>"

text \<open>\<open>go s.run\<close>: the session with number \<open>r\<close> has a goroutine from now on.\<close>

definition spawn :: "nat \<Rightarrow> ('p, 'd) session \<Rightarrow> ('p, 'd) endpoint \<Rightarrow> ('p, 'd) endpoint" where
  "spawn r s ep = setObj r s (ep\<lparr>ep_runs := (ep_runs ep)(r := True)\<rparr>)"

subsection \<open>Sending\<close>

definition send :: "eenv \<Rightarrow> Signal \<Rightarrow> ('p, 'd) endpoint \<Rightarrow> gerror option \<times> ('p, 'd) endpoint" where
  "send V sig ep =
     (case ee_acquire V of
        Some e \<Rightarrow> (Some (errorf ErrSignaling (Some e)),
          eCount metricSignalSent [labelKind (sig_Kind sig), labelResult ''timeout''] ep)
      | None \<Rightarrow>
          let ep = ep\<lparr>ep_sent := ep_sent ep @ [sig]\<rparr> in
          (case ee_send V of
             Some e \<Rightarrow> (wrapErr ErrSignaling (Some e),
               eCount metricSignalSent [labelKind (sig_Kind sig), labelResult ''error''] ep)
           | None \<Rightarrow> (None, eCount metricSignalSent [labelKind (sig_Kind sig), labelResult ''success''] ep)))"

definition reject :: "eenv \<Rightarrow> Signal \<Rightarrow> string \<Rightarrow> string \<Rightarrow> ('p, 'd) endpoint \<Rightarrow> ('p, 'd) endpoint" where
  "reject V sig code reason ep =
     (case newSignal (ee_rand V) KindReject (ep_id ep) (sig_From sig) (sig_SessionID sig)
        (Some (PReject \<lparr> rj_Code = code, rj_Reason = reason \<rparr>)) of
        Inl e \<Rightarrow> ep
      | Inr out \<Rightarrow> snd (send V out ep))"

subsection \<open>The session table and the backlog\<close>

definition addSession :: "nat \<Rightarrow> ('p, 'd) session \<Rightarrow> ('p, 'd) endpoint \<Rightarrow> gerror option \<times> ('p, 'd) endpoint" where
  "addSession r s ep =
     (if ep_closed ep then (Some (errorf ErrClosed None), ep)
      else case ep_signalErr ep of
        Some e \<Rightarrow> (Some e, ep)
      | None \<Rightarrow>
          if map_of (ep_sessions ep) (ss_id s) \<noteq> None then (Some (errorf ErrProtocol None), ep)
          else
            let ep = ep\<lparr>ep_sessions := (ss_id s, r) # ep_sessions ep\<rparr>
            in (None, eEmit (Gauge metricSessionsActive (int (length (ep_sessions ep))) []) ep))"

definition removeSession :: "nat \<Rightarrow> ('p, 'd) endpoint \<Rightarrow> ('p, 'd) endpoint" where
  "removeSession r ep =
     (let i = ss_id (ep_objs ep r) in
      if map_of (ep_sessions ep) i = Some r then
        let ep = ep\<lparr>ep_sessions := filter (\<lambda>x. fst x \<noteq> i) (ep_sessions ep)\<rparr>
        in eEmit (Gauge metricSessionsActive (int (length (ep_sessions ep))) []) ep
      else ep)"

definition releaseSlot :: "nat \<Rightarrow> ('p, 'd) endpoint \<Rightarrow> ('p, 'd) endpoint" where
  "releaseSlot r ep =
     (if ep_fired ep r then ep
      else
        let ep = ep\<lparr>ep_fired := (ep_fired ep)(r := True), ep_slots := ep_slots ep - 1\<rparr>
        in eEmit (Gauge metricSessionsPending (int (ep_slots ep)) []) ep)"

definition setSignalErr :: "gerror \<Rightarrow> ('p, 'd) endpoint \<Rightarrow> ('p, 'd) endpoint" where
  "setSignalErr e ep = (if ep_signalErr ep = None then ep\<lparr>ep_signalErr := Some e\<rparr> else ep)"

definition clearListener :: "('p, 'd) endpoint \<Rightarrow> ('p, 'd) endpoint" where
  "clearListener ep = ep\<lparr>ep_attached := False\<rparr>"

definition enqueueInbound :: "nat \<Rightarrow> ('p, 'd) endpoint \<Rightarrow> gerror option \<times> ('p, 'd) endpoint" where
  "enqueueInbound r ep =
     (case (ep_attached ep, ep_ln ep) of
        (True, Some l) \<Rightarrow>
          (case push \<lparr> pd_conn = r, pd_release = Some r \<rparr> l of (e, l') \<Rightarrow> (e, ep\<lparr>ep_ln := Some l'\<rparr>))
      | _ \<Rightarrow> (Some (errorf ErrClosed None), ep))"

subsection \<open>Inbound signals\<close>

definition listening :: "('p, 'd) endpoint \<Rightarrow> bool" where
  "listening ep = (case (ep_attached ep, ep_ln ep) of (True, Some l) \<Rightarrow> \<not> isClosed l | _ \<Rightarrow> False)"

definition admit :: "eenv \<Rightarrow> Signal \<Rightarrow> ('p, 'd) endpoint \<Rightarrow> ('p, 'd) endpoint" where
  "admit V sig ep =
     (let r = ep_next ep;
          s = (newSession (sig_SessionID sig) (sig_From sig) roleAnswerer (Some sig))\<lparr>ss_releaseSlot := True\<rparr>;
          ep = ep\<lparr>ep_slots := ep_slots ep + 1, ep_next := r + 1\<rparr>
      in case addSession r s ep of
           (Some e, ep) \<Rightarrow>
             let ep = setObj r s (releaseSlot r ep);
                 ep = eCount metricAcceptResults [labelResult ''error''] ep
             in reject V sig RejectInternal ''endpoint is not accepting sessions'' ep
         | (None, ep) \<Rightarrow>
             spawn r s (eEmit (Gauge metricSessionsPending (int (ep_slots ep)) []) ep))"

definition acceptOffer :: "eenv \<Rightarrow> Signal \<Rightarrow> ('p, 'd) endpoint \<Rightarrow> ('p, 'd) endpoint" where
  "acceptOffer V sig ep =
     (let ep = eCount metricAcceptAttempts [] ep in
      if \<not> listening ep then
        reject V sig RejectNotListening ''peer is not accepting connections''
          (eCount metricAcceptResults [labelResult ''not-listening''] ep)
      else if (case ee_allow V of None \<Rightarrow> False | Some allow \<Rightarrow> \<not> allow (sig_From sig)) then
        reject V sig RejectUnauthorized ''peer is not allowed to connect''
          (eCount metricAcceptResults [labelResult ''unauthorized''] ep)
      else if ep_slots ep \<ge> ep_cap ep then
        reject V sig RejectBusy ''accept backlog is full''
          (eCount metricAcceptResults [labelResult ''busy''] ep)
      else admit V sig ep)"

definition received :: "Signal \<Rightarrow> string \<Rightarrow> ('p, 'd) endpoint \<Rightarrow> ('p, 'd) endpoint" where
  "received sig result ep = eCount metricSignalReceived [labelKind (sig_Kind sig), labelResult result] ep"

definition route :: "eenv \<Rightarrow> Signal \<Rightarrow> ('p, 'd) endpoint \<Rightarrow> ('p, 'd) endpoint" where
  "route V sig ep =
     (if Validate sig \<noteq> None then
        eCount metricProtocolFailures [labelScope ''signal''] (received sig ''invalid'' ep)
      else if sig_To sig \<noteq> ep_id ep then
        eCount metricProtocolFailures [labelScope ''signal''] (received sig ''misrouted'' ep)
      else case seenBefore (ep_dedupe ep) (sig_ID sig) of
        (True, d) \<Rightarrow> received sig ''duplicate'' (ep\<lparr>ep_dedupe := d\<rparr>)
      | (False, d) \<Rightarrow>
          let ep = received sig ''accepted'' (ep\<lparr>ep_dedupe := d\<rparr>) in
          if ep_closed ep then ep
          else case map_of (ep_sessions ep) (sig_SessionID sig) of
            Some r \<Rightarrow>
              if ss_peer (ep_objs ep r) \<noteq> sig_From sig
              then eCount metricProtocolFailures [labelScope ''routing''] ep
              else setObj r (postSignal sig (ep_objs ep r)) ep
          | None \<Rightarrow>
              if sig_Kind sig = KindOffer then acceptOffer V sig ep
              else eCount metricProtocolFailures [labelScope ''routing''] ep)"

text \<open>One turn of \<open>receiveLoop\<close>; \<open>False\<close> when the loop ends.\<close>

definition receiveTurn :: "eenv \<Rightarrow> gerror + Signal \<Rightarrow> ('p, 'd) endpoint \<Rightarrow> bool \<times> ('p, 'd) endpoint" where
  "receiveTurn V r ep =
     (case r of
        Inl e \<Rightarrow> (False, if ep_done ep then ep else setSignalErr (Categorized ErrSignaling (Some e)) ep)
      | Inr sig \<Rightarrow> (True, route V sig ep))"

subsection \<open>Dialing\<close>

text \<open>\<open>dial\<close> up to its wait: the error, or the number of the new session. \<open>buf\<close> is what the random source
  gave for the session identifier.\<close>

definition dialStart ::
    "bytes \<Rightarrow> PeerID \<Rightarrow> gerror option \<Rightarrow> ('p, 'd) endpoint \<Rightarrow> (gerror + nat) \<times> ('p, 'd) endpoint" where
  "dialStart buf peer ctxErr ep =
     (case validPeerID peer of
        Some e \<Rightarrow> (Inl (errorf ErrConfig (Some e)), ep)
      | None \<Rightarrow>
          if peer = ep_id ep then (Inl (errorf ErrConfig None), ep)
          else case ctxErr of
            Some e \<Rightarrow> (Inl e, ep)
          | None \<Rightarrow>
              let r = ep_next ep; s = newSession (NewID buf) peer roleOfferer None in
              (case addSession r s (ep\<lparr>ep_next := r + 1\<rparr>) of
                 (Some e, ep) \<Rightarrow> (Inl e, setObj r s ep)
               | (None, ep) \<Rightarrow> (Inr r, spawn r s ep)))"

text \<open>The first two ways the wait of \<open>dial\<close> ends: with a result or with the endpoint; the third, a cancelled
  context, posts a close and comes back once the session has finished.\<close>

definition dialResultOf :: "dialResult \<Rightarrow> gerror + unit" where
  "dialResultOf res = (case res of DialConn \<Rightarrow> Inr () | DialErr e \<Rightarrow> Inl e)"

definition dialWait :: "nat \<Rightarrow> ('p, 'd) endpoint \<Rightarrow> ((gerror + unit) \<times> ('p, 'd) endpoint) list" where
  "dialWait r ep =
     (case ss_result (ep_objs ep r) of
        Some res \<Rightarrow> [(dialResultOf res, setObj r ((ep_objs ep r)\<lparr>ss_result := None\<rparr>) ep)]
      | None \<Rightarrow> [])
     @ (if ep_done ep then [(Inl (errorf ErrClosed None), ep)] else [])"

definition dialCancel :: "gerror \<Rightarrow> nat \<Rightarrow> ('p, 'd) endpoint \<Rightarrow> ('p, 'd) endpoint" where
  "dialCancel ctxErr r ep =
     setObj r (closeWith (mkIntent CloseNormal ''caller cancelled the dial'' True False ctxErr) (ep_objs ep r)) ep"

text \<open>Closing the connection of a session object from outside (\<open>Conn.Close\<close>).\<close>

definition closeConn :: "int \<Rightarrow> chres \<Rightarrow> ('p, 'd) session \<Rightarrow> ('p, 'd) session" where
  "closeConn now cr s =
     (case (ss_conn s, ss_stream s) of
        (Some c, Some st) \<Rightarrow>
          (case closeBegin c st now cr of (first, c', st') \<Rightarrow>
             (requestClose (s\<lparr>ss_conn := Some c', ss_stream := Some st'\<rparr>))
               \<lparr>ss_conn := Some (snd (closeEnd first None c'))\<rparr>)
      | _ \<Rightarrow> s)"

definition dialAbandon ::
    "int \<Rightarrow> chres \<Rightarrow> gerror \<Rightarrow> nat \<Rightarrow> ('p, 'd) endpoint \<Rightarrow> ((gerror + unit) \<times> ('p, 'd) endpoint) option" where
  "dialAbandon now cr ctxErr r ep =
     (let s = ep_objs ep r in
      if \<not> ss_finished s then None
      else
        let s' = (case ss_result s of
                    Some DialConn \<Rightarrow> closeConn now cr (s\<lparr>ss_result := None\<rparr>)
                  | Some (DialErr e) \<Rightarrow> s\<lparr>ss_result := None\<rparr>
                  | None \<Rightarrow> s);
            err = (if errors_Is ctxErr ContextDeadlineExceeded then errorf ErrTimeout (Some ctxErr)
                   else errorf ErrClosed (Some ctxErr))
        in Some (Inl err, setObj r s' ep))"

text \<open>\<open>Dial\<close>: the attempt it counts, \<open>dial\<close>, and the result it counts.\<close>

definition dialLabel :: "gerror + unit \<Rightarrow> string" where
  "dialLabel r =
     (case r of
        Inr _ \<Rightarrow> ''success''
      | Inl e \<Rightarrow> if errors_Is e ErrTimeout then ''timeout''
                 else if errors_Is e ErrPeerRejected then ''rejected'' else ''error'')"

definition Dial ::
    "bytes \<Rightarrow> PeerID \<Rightarrow> gerror option \<Rightarrow> ('p, 'd) endpoint \<Rightarrow> (gerror + nat) \<times> ('p, 'd) endpoint" where
  "Dial buf peer ctxErr ep = dialStart buf peer ctxErr (eCount metricDialAttempts [] ep)"

definition dialDone :: "gerror + unit \<Rightarrow> ('p, 'd) endpoint \<Rightarrow> ('p, 'd) endpoint" where
  "dialDone r ep = eCount metricDialResults [labelResult (dialLabel r)] ep"

subsection \<open>Listening and accepting\<close>

definition Listen :: "('p, 'd) endpoint \<Rightarrow> (gerror + listener) \<times> ('p, 'd) endpoint" where
  "Listen ep =
     (if ep_closed ep then (Inl (errorf ErrClosed None), ep)
      else if ep_listened ep then (Inl (Sentinel ErrAlreadyListening), ep)
      else
        let l = \<lparr> ln_addr = \<lparr> ad_Peer = ep_id ep, ad_Session = [] \<rparr>, ln_accept = [], ln_cap = ep_cap ep,
                  ln_closed = False \<rparr>
        in (Inr l, ep\<lparr>ep_ln := Some l, ep_attached := True, ep_listened := True\<rparr>))"

definition release :: "nat option \<Rightarrow> ('p, 'd) endpoint \<Rightarrow> ('p, 'd) endpoint" where
  "release f ep = (case f of None \<Rightarrow> ep | Some r \<Rightarrow> releaseSlot r ep)"

fun drainPending :: "int \<Rightarrow> chres \<Rightarrow> pendingConn list \<Rightarrow> ('p, 'd) endpoint \<Rightarrow> ('p, 'd) endpoint" where
  "drainPending now cr [] ep = ep"
| "drainPending now cr (p # ps) ep =
     (let ep = release (pd_release p) ep;
          ep = setObj (pd_conn p) (closeConn now cr (ep_objs ep (pd_conn p))) ep
      in drainPending now cr ps ep)"

definition drainQueue :: "int \<Rightarrow> chres \<Rightarrow> ('p, 'd) endpoint \<Rightarrow> ('p, 'd) endpoint" where
  "drainQueue now cr ep =
     (case ep_ln ep of
        None \<Rightarrow> ep
      | Some l \<Rightarrow> drainPending now cr (ln_accept l) (ep\<lparr>ep_ln := Some (l\<lparr>ln_accept := []\<rparr>)\<rparr>))"

text \<open>\<open>AcceptConn\<close>: the possible outcomes; none while the call blocks.\<close>

definition AcceptConn :: "int \<Rightarrow> chres \<Rightarrow> ('p, 'd) endpoint \<Rightarrow> ((gerror + nat) \<times> ('p, 'd) endpoint) list" where
  "AcceptConn now cr ep =
     (case ep_ln ep of
        None \<Rightarrow> []
      | Some l \<Rightarrow>
          (case receive l of
             ([p], l') \<Rightarrow>
               [(Inr (pd_conn p), eCount metricAcceptResults [labelResult ''success'']
                   (release (pd_release p) (ep\<lparr>ep_ln := Some l'\<rparr>)))]
           | _ \<Rightarrow> [])
          @ (if ln_closed l \<or> ep_done ep
             then [(Inl (opErr ''accept'' (errorf ErrClosed None)), drainQueue now cr ep)] else []))"

text \<open>\<open>Listener.Close\<close>: the three actions of its \<open>closeOnce\<close>.\<close>

definition lnMark :: "('p, 'd) endpoint \<Rightarrow> ('p, 'd) endpoint" where
  "lnMark ep = ep\<lparr>ep_ln := map_option (\<lambda>l. l\<lparr>ln_closed := True\<rparr>) (ep_ln ep)\<rparr>"

definition Listener_Close :: "int \<Rightarrow> chres \<Rightarrow> ('p, 'd) endpoint \<Rightarrow> ('p, 'd) endpoint" where
  "Listener_Close now cr ep =
     (case ep_ln ep of
        None \<Rightarrow> ep
      | Some l \<Rightarrow> if ln_closed l then ep else drainQueue now cr (clearListener (lnMark ep)))"

subsection \<open>Closing\<close>

definition shuttingDown :: closeIntent where
  "shuttingDown = mkIntent CloseGoingAway ''endpoint is shutting down'' True False (Sentinel ErrClosed)"

fun closeAll :: "nat list \<Rightarrow> ('p, 'd) endpoint \<Rightarrow> ('p, 'd) endpoint" where
  "closeAll [] ep = ep"
| "closeAll (r # rs) ep = closeAll rs (setObj r (closeWith shuttingDown (ep_objs ep r)) ep)"

text \<open>\<open>Close\<close> up to the wait for the sessions, and after it.\<close>

definition closeStart :: "int \<Rightarrow> chres \<Rightarrow> ('p, 'd) endpoint \<Rightarrow> ('p, 'd) endpoint" where
  "closeStart now cr ep =
     (if ep_closed ep then ep
      else
        let sessions = map snd (ep_sessions ep);
            ep = ep\<lparr>ep_closed := True\<rparr>;
            ep = (if ep_attached ep then Listener_Close now cr ep else ep)
        in closeAll sessions ep)"

definition closeFinish :: "('p, 'd) endpoint \<Rightarrow> ('p, 'd) endpoint" where
  "closeFinish ep = ep\<lparr>ep_done := True\<rparr>"

subsection \<open>What a session does to its endpoint\<close>

fun settle :: "nat \<Rightarrow> sessionOutput list \<Rightarrow> ('p, 'd) endpoint \<Rightarrow> ('p, 'd) endpoint" where
  "settle r [] ep = ep"
| "settle r (OEnqueue # xs) ep = settle r xs (snd (enqueueInbound r ep))"
| "settle r (OReleaseSlot # xs) ep = settle r xs (releaseSlot r ep)"
| "settle r (ORemoveSession # xs) ep = settle r xs (removeSession r ep)"
| "settle r (OMetric x # xs) ep = settle r xs (eEmit x ep)"
| "settle r (OSend sig # xs) ep = settle r xs (ep\<lparr>ep_sent := ep_sent ep @ [sig]\<rparr>)"
| "settle r (OResult x # xs) ep = settle r xs ep"
| "settle r (OClosePeer # xs) ep = settle r xs ep"

end
