(* ===== verification/Session_Inv.thy ===== *)
theory Session_Inv
  imports Session
begin

text \<open>
  The interleavings of a session and its invariants. \<open>sess_step\<close> is one step of the session goroutine
  or of anything around it; \<open>core_ok\<close> holds until teardown, \<open>loop_ok\<close> while the event loop runs and
  \<open>done_ok\<close> afterwards. Each handler has one lemma: from \<open>loop_ok\<close> it leads to \<open>core_ok\<close>, and
  back to \<open>loop_ok\<close> when it does not end the session.
\<close>

subsection \<open>Interleaving\<close>

inductive sess_step :: "('p, 'd) sctx \<Rightarrow> ('p, 'd) session \<Rightarrow> ('p, 'd) session \<Rightarrow> bool" for X where
  ss_start: "ss_at s = SStart offer \<Longrightarrow> sess_step X s (runStart X E offer s)"
| ss_drain: "ss_at s = SLoop [] \<Longrightarrow> mbWait (ss_box s) = Some b \<Longrightarrow> sess_step X s (onDrain (s\<lparr>ss_box := b\<rparr>))"
| ss_handle: "ss_at s = SLoop (ev # evs) \<Longrightarrow> sess_step X s (continue evs (handle X E ev s))"
| ss_negotiate: "ss_at s = SLoop [] \<Longrightarrow> ss_negotiateTimer s = Some t \<Longrightarrow> t \<le> en_now (E :: env) \<Longrightarrow>
    sess_step X s (continue [] (onNegotiateTimer s))"
| ss_recovery: "ss_at s = SLoop [] \<Longrightarrow> ss_recoveryTimer s = Some t \<Longrightarrow> t \<le> en_now (E :: env) \<Longrightarrow>
    sess_step X s (continue [] (onRecoveryDeadline X E (s\<lparr>ss_recoveryTimer := None\<rparr>)))"
| ss_keepalive: "ss_at s = SLoop [] \<Longrightarrow> ss_keepaliveTimer s = Some t \<Longrightarrow> t \<le> en_now (E :: env) \<Longrightarrow>
    sess_step X s (startProbe (s\<lparr>ss_keepaliveTimer := None\<rparr>))"
| ss_linger: "ss_at s = SLoop [] \<Longrightarrow> ss_lingerTimer s = Some t \<Longrightarrow> t \<le> en_now (E :: env) \<Longrightarrow>
    sess_step X s (continue [] (Some lingerIntent, s\<lparr>ss_lingerTimer := None\<rparr>))"
| ss_streamDone: "ss_at s = SLoop [] \<Longrightarrow> ss_stream s = Some st \<Longrightarrow> s_done st \<Longrightarrow>
    sess_step X s (continue [] (Some (onStreamDone st), s))"
| ss_endpointDone: "ss_at s = SLoop [] \<Longrightarrow> sess_step X s (continue [] (Some goingAway, s))"
| ss_teardown: "ss_at s = STeardown i \<Longrightarrow> sess_step X s ((teardownBegin X E i s)\<lparr>ss_at := SRelease i\<rparr>)"
| ss_release: "ss_at s = SRelease i \<Longrightarrow>
    (\<forall>st. ss_stream s = Some st \<longrightarrow> awaitsRelease i \<longrightarrow> s_released st \<or> timedOut) \<Longrightarrow>
    sess_step X s ((teardownEnd X i s)\<lparr>ss_at := SDone\<rparr>)"
| ss_post: "(\<And>r. ev \<noteq> EvKeepalive r) \<Longrightarrow> sess_step X s (postEvent ev s)"
| ss_probe: "0 < ss_probes s \<Longrightarrow>
    sess_step X s (postEvent (EvKeepalive r) (s\<lparr>ss_probes := ss_probes s - 1\<rparr>))"
| ss_userStream: "ss_stream s = Some st \<Longrightarrow> stream_step st st' \<Longrightarrow> sess_step X s (s\<lparr>ss_stream := Some st'\<rparr>)"
| ss_connClose: "ss_conn s = Some c \<Longrightarrow> ss_stream s = Some st \<Longrightarrow> closeBegin c st now cr = (first, c', st') \<Longrightarrow>
    sess_step X s (requestClose (s\<lparr>ss_conn := Some c', ss_stream := Some st'\<rparr>))"
| ss_connClosed: "ss_conn s = Some c \<Longrightarrow> c_closed c \<Longrightarrow>
    sess_step X s (s\<lparr>ss_conn := Some (snd (closeEnd first None c))\<rparr>)"
| ss_dial: "ss_result s = Some r \<Longrightarrow> sess_step X s (s\<lparr>ss_result := None\<rparr>)"
| ss_engine: "ss_peerConn s = Some p \<Longrightarrow> sess_step X s (s\<lparr>ss_peerConn := Some (p\<lparr>pe_pc := q\<rparr>)\<rparr>)"
| ss_channel: "ss_peerConn s = Some p \<Longrightarrow> onDataChannel (cx_pion X) d p = (ev, p') \<Longrightarrow>
    sess_step X s (case ev of None \<Rightarrow> s\<lparr>ss_peerConn := Some p'\<rparr>
      | Some e \<Rightarrow> sink e (s\<lparr>ss_peerConn := Some p'\<rparr>))"

text \<open>A session is created by \<open>dial\<close>, or by \<open>acceptOffer\<close> with a backlog slot.\<close>

inductive sess_reach :: "('p, 'd) sctx \<Rightarrow> ('p, 'd) session \<Rightarrow> bool" for X where
  sr_dial: "sess_reach X (newSession sid peer roleOfferer None)"
| sr_accept: "sess_reach X ((newSession sid peer roleAnswerer (Some offer))\<lparr>ss_releaseSlot := True\<rparr>)"
| sr_step: "sess_reach X s \<Longrightarrow> sess_step X s s' \<Longrightarrow> sess_reach X s'"

subsection \<open>Invariants\<close>

text \<open>The outputs other than measurements and signals: results handed over and resources released.\<close>

fun significant :: "sessionOutput \<Rightarrow> bool" where
  "significant (OMetric _) = False"
| "significant (OSend _) = False"
| "significant _ = True"

definition signif :: "sessionOutput list \<Rightarrow> sessionOutput list" where
  "signif xs = filter significant xs"

lemma signif_simps [simp]:
  "signif [] = []" "signif (xs @ ys) = signif xs @ signif ys"
  "signif (x # xs) = (if significant x then x # signif xs else signif xs)"
  by (simp_all add: signif_def)

definition delivery :: "('p, 'd) session \<Rightarrow> sessionOutput list" where
  "delivery s = (if \<not> ss_delivered s then []
     else if ss_role s = roleOfferer then [OResult DialConn]
     else if ss_releaseSlot s then [] else [OEnqueue])"

text \<open>The stream is only changed by its own operations.\<close>

definition streams_ok :: "('p, 'd) session \<Rightarrow> bool" where
  "streams_ok s \<longleftrightarrow> (\<forall>st. ss_stream s = Some st \<longrightarrow> stream_reach st)"

definition core_ok :: "('p, 'd) sctx \<Rightarrow> ('p, 'd) session \<Rightarrow> bool" where
  "core_ok X s \<longleftrightarrow>
     (ss_conn s = None \<longleftrightarrow> ss_stream s = None) \<and> (ss_delivered s \<longleftrightarrow> ss_stream s \<noteq> None) \<and>
     (ss_delivered s \<and> ss_role s = roleOfferer \<or> ss_result s = None) \<and>
     \<not> ss_finished s \<and>
     length (ss_pendingCands s) \<le> maxPendingCandidates \<and>
     0 \<le> ss_restartAttempt s \<and> ss_restartAttempt s \<le> max 0 (rc_MaxAttempts (cfg_Reconnect (cx_cfg X))) \<and>
     (ss_role s = roleOfferer \<longrightarrow> \<not> ss_releaseSlot s) \<and>
     (ss_role s = roleAnswerer \<and> \<not> ss_delivered s \<longrightarrow> ss_releaseSlot s) \<and>
     signif (ss_out s) = delivery s \<and> streams_ok s"

definition timers_ok :: "('p, 'd) sctx \<Rightarrow> ('p, 'd) session \<Rightarrow> bool" where
  "timers_ok X s \<longleftrightarrow>
     (ss_stream s = None \<longrightarrow> ss_negotiateTimer s = Some (ss_startedAt s + cfg_DialTimeout (cx_cfg X))) \<and>
     (ss_state s = StateRecovering \<longleftrightarrow> ss_recoveryTimer s \<noteq> None) \<and>
     (ss_state s = StateConnected \<and> 0 < ka_Interval (cfg_KeepAlive (cx_cfg X)) \<longrightarrow>
        ss_keepaliveTimer s \<noteq> None \<or> ss_pinging s) \<and>
     (ss_peerClosed s \<longrightarrow> ss_lingerTimer s \<noteq> None)"

definition loop_ok :: "('p, 'd) sctx \<Rightarrow> ('p, 'd) session \<Rightarrow> bool" where
  "loop_ok X s \<longleftrightarrow> core_ok X s \<and> timers_ok X s \<and> ss_peerConn s \<noteq> None \<and> \<not> mb_closed (ss_box s) \<and>
     (ss_stream s = None \<longrightarrow> ss_state s = StateSignaling \<or> ss_state s = StateConnecting) \<and>
     (ss_stream s \<noteq> None \<longrightarrow> ss_state s = StateConnected \<or> ss_state s = StateRecovering) \<and>
     (ss_role s = roleAnswerer \<and> ss_delivered s \<longrightarrow> \<not> ss_releaseSlot s)"

lemma streams_ok_cong: "ss_stream s = ss_stream s' \<Longrightarrow> streams_ok s = streams_ok s'"
  by (simp add: streams_ok_def)

lemmas sess_inv_defs = core_ok_def timers_ok_def loop_ok_def delivery_def streams_ok_def

text \<open>Updates that do not concern an invariant.\<close>

lemma core_ok_update [simp]:
  "core_ok X (s\<lparr>ss_peerConn := v_peerConn\<rparr>) = core_ok X s"
  "core_ok X (s\<lparr>ss_state := v_state\<rparr>) = core_ok X s"
  "core_ok X (s\<lparr>ss_remoteComplete := v_remoteComplete\<rparr>) = core_ok X s"
  "core_ok X (s\<lparr>ss_generation := v_generation\<rparr>) = core_ok X s"
  "core_ok X (s\<lparr>ss_restarts := v_restarts\<rparr>) = core_ok X s"
  "core_ok X (s\<lparr>ss_restartStarted := v_restartStarted\<rparr>) = core_ok X s"
  "core_ok X (s\<lparr>ss_startedAt := v_startedAt\<rparr>) = core_ok X s"
  "core_ok X (s\<lparr>ss_pinging := v_pinging\<rparr>) = core_ok X s"
  "core_ok X (s\<lparr>ss_peerClosed := v_peerClosed\<rparr>) = core_ok X s"
  "core_ok X (s\<lparr>ss_negotiateTimer := v_negotiateTimer\<rparr>) = core_ok X s"
  "core_ok X (s\<lparr>ss_recoveryTimer := v_recoveryTimer\<rparr>) = core_ok X s"
  "core_ok X (s\<lparr>ss_keepaliveTimer := v_keepaliveTimer\<rparr>) = core_ok X s"
  "core_ok X (s\<lparr>ss_lingerTimer := v_lingerTimer\<rparr>) = core_ok X s"
  "core_ok X (s\<lparr>ss_at := v_at\<rparr>) = core_ok X s"
  "core_ok X (s\<lparr>ss_probes := v_probes\<rparr>) = core_ok X s"
  "core_ok X (s\<lparr>ss_box := v_box\<rparr>) = core_ok X s"
  by (simp_all add: sess_inv_defs)

lemma timers_ok_update [simp]:
  "timers_ok X (s\<lparr>ss_peerConn := v_peerConn\<rparr>) = timers_ok X s"
  "timers_ok X (s\<lparr>ss_result := v_result\<rparr>) = timers_ok X s"
  "timers_ok X (s\<lparr>ss_finished := v_finished\<rparr>) = timers_ok X s"
  "timers_ok X (s\<lparr>ss_releaseSlot := v_releaseSlot\<rparr>) = timers_ok X s"
  "timers_ok X (s\<lparr>ss_conn := v_conn\<rparr>) = timers_ok X s"
  "timers_ok X (s\<lparr>ss_pendingCands := v_pendingCands\<rparr>) = timers_ok X s"
  "timers_ok X (s\<lparr>ss_remoteComplete := v_remoteComplete\<rparr>) = timers_ok X s"
  "timers_ok X (s\<lparr>ss_generation := v_generation\<rparr>) = timers_ok X s"
  "timers_ok X (s\<lparr>ss_restarts := v_restarts\<rparr>) = timers_ok X s"
  "timers_ok X (s\<lparr>ss_restartAttempt := v_restartAttempt\<rparr>) = timers_ok X s"
  "timers_ok X (s\<lparr>ss_restartStarted := v_restartStarted\<rparr>) = timers_ok X s"
  "timers_ok X (s\<lparr>ss_delivered := v_delivered\<rparr>) = timers_ok X s"
  "timers_ok X (s\<lparr>ss_at := v_at\<rparr>) = timers_ok X s"
  "timers_ok X (s\<lparr>ss_probes := v_probes\<rparr>) = timers_ok X s"
  "timers_ok X (s\<lparr>ss_box := v_box\<rparr>) = timers_ok X s"
  "timers_ok X (s\<lparr>ss_out := v_out\<rparr>) = timers_ok X s"
  by (simp_all add: sess_inv_defs)

lemma loop_ok_update [simp]:
  "loop_ok X (s\<lparr>ss_remoteComplete := v_remoteComplete\<rparr>) = loop_ok X s"
  "loop_ok X (s\<lparr>ss_generation := v_generation\<rparr>) = loop_ok X s"
  "loop_ok X (s\<lparr>ss_restarts := v_restarts\<rparr>) = loop_ok X s"
  "loop_ok X (s\<lparr>ss_restartStarted := v_restartStarted\<rparr>) = loop_ok X s"
  "loop_ok X (s\<lparr>ss_at := v_at\<rparr>) = loop_ok X s"
  "loop_ok X (s\<lparr>ss_probes := v_probes\<rparr>) = loop_ok X s"
  by (simp_all add: sess_inv_defs)

text \<open>What a handler must do: keep \<open>core_ok\<close>, and \<open>loop_ok\<close> when the loop goes on.\<close>

definition sound :: "('p, 'd) sctx \<Rightarrow> ('p, 'd) handled \<Rightarrow> bool" where
  "sound X r \<longleftrightarrow> core_ok X (snd r) \<and> (fst r = None \<longrightarrow> loop_ok X (snd r))"

lemma sound_loop: "loop_ok X s \<Longrightarrow> sound X (r, s)"
  by (simp add: sound_def loop_ok_def)

subsection \<open>Helpers as record updates\<close>

definition sent :: "('p, 'd) sctx \<Rightarrow> env \<Rightarrow> string \<Rightarrow> payload option \<Rightarrow> PeerID \<Rightarrow> string \<Rightarrow> sessionOutput list" where
  "sent X E kind body peer sid =
     (case newSignal (en_rand E) kind (cfg_ID (cx_cfg X)) peer sid body of Inl _ \<Rightarrow> [] | Inr sig \<Rightarrow> [OSend sig])"

definition sendErr :: "('p, 'd) sctx \<Rightarrow> env \<Rightarrow> string \<Rightarrow> payload option \<Rightarrow> PeerID \<Rightarrow> string \<Rightarrow> gerror option" where
  "sendErr X E kind body peer sid =
     (case newSignal (en_rand E) kind (cfg_ID (cx_cfg X)) peer sid body of Inl e \<Rightarrow> Some e | Inr sig \<Rightarrow> en_send E sig)"

lemma sendSignal_eq:
  "sendSignal X E kind body s =
     (sendErr X E kind body (ss_peer s) (ss_id s),
      s\<lparr>ss_out := ss_out s @ sent X E kind body (ss_peer s) (ss_id s)\<rparr>)"
  by (simp add: sendSignal_def sent_def sendErr_def emit_def split: sum.splits)

lemma signif_sent [simp]: "signif (sent X E k b p i) = []"
  by (simp add: sent_def split: sum.splits)

lemma sendCloseSignal_eq:
  "\<exists>xs. sendCloseSignal X E i s = s\<lparr>ss_out := ss_out s @ xs\<rparr> \<and> signif xs = []"
proof (cases "newSignal (en_rand E) KindClose (cfg_ID (cx_cfg X)) (ss_peer s) (ss_id s)
    (Some (PClose \<lparr> cl_Code = ci_code i, cl_Reason = ci_reason i \<rparr>))")
  case (Inl a)
  then show ?thesis by (intro exI [of _ "[]"]) (simp add: sendCloseSignal_def)
next
  case (Inr b)
  then show ?thesis by (intro exI [of _ "[OSend b]"]) (simp add: sendCloseSignal_def emit_def)
qed

text \<open>Operations that only touch the peer connection and add quiet outputs.\<close>

definition quietly :: "('p, 'd) session \<Rightarrow> ('p, 'd) session \<Rightarrow> bool" where
  "quietly s s' \<longleftrightarrow> (\<exists>q xs. s' = s\<lparr>ss_peerConn := q, ss_out := ss_out s @ xs\<rparr> \<and> signif xs = [] \<and>
     (q = None \<longleftrightarrow> ss_peerConn s = None))"

lemma quietly_refl: "quietly s s"
  unfolding quietly_def by (intro exI [of _ "ss_peerConn s"] exI [of _ "[]"]) simp

lemma quietly_trans: "quietly s s' \<Longrightarrow> quietly s' s'' \<Longrightarrow> quietly s s''"
  unfolding quietly_def
proof (elim exE conjE)
  fix q xs q' xs'
  assume a: "s' = s\<lparr>ss_peerConn := q, ss_out := ss_out s @ xs\<rparr>" "signif xs = []" "(q = None) = (ss_peerConn s = None)"
    "s'' = s'\<lparr>ss_peerConn := q', ss_out := ss_out s' @ xs'\<rparr>" "signif xs' = []" "(q' = None) = (ss_peerConn s' = None)"
  show "\<exists>q xs. s'' = s\<lparr>ss_peerConn := q, ss_out := ss_out s @ xs\<rparr> \<and> signif xs = [] \<and> (q = None) = (ss_peerConn s = None)"
    by (intro exI [of _ q'] exI [of _ "xs @ xs'"]) (use a in simp)
qed

lemma quietlyI: "signif xs = [] \<Longrightarrow> (q = None \<longleftrightarrow> ss_peerConn s = None) \<Longrightarrow>
    quietly s (s\<lparr>ss_peerConn := q, ss_out := ss_out s @ xs\<rparr>)"
  unfolding quietly_def by (intro exI [of _ q] exI [of _ xs]) simp

lemma quietlyE:
  assumes "quietly s s'"
  obtains q xs where "s' = s\<lparr>ss_peerConn := q, ss_out := ss_out s @ xs\<rparr>" "signif xs = []"
    "q = None \<longleftrightarrow> ss_peerConn s = None"
  using assms unfolding quietly_def by (elim exE conjE) (rule that)

lemma quietly_peer: "(q = None \<longleftrightarrow> ss_peerConn s = None) \<Longrightarrow> quietly s (s\<lparr>ss_peerConn := q\<rparr>)"
  using quietlyI [of "[]" q s] by simp

lemma quietly_core: "quietly s s' \<Longrightarrow> core_ok X s' = core_ok X s"
  by (erule quietlyE) (simp add: core_ok_def delivery_def streams_ok_def)

lemma quietly_loop: "quietly s s' \<Longrightarrow> loop_ok X s' = loop_ok X s"
  by (erule quietlyE) (simp add: sess_inv_defs)

lemma quietly_fields:
  assumes "quietly s s'"
  shows "ss_state s' = ss_state s" "ss_role s' = ss_role s" "ss_at s' = ss_at s"
    "ss_stream s' = ss_stream s" "ss_pendingCands s' = ss_pendingCands s"
    "ss_remoteComplete s' = ss_remoteComplete s" "ss_generation s' = ss_generation s"
    "ss_peer s' = ss_peer s" "ss_id s' = ss_id s" "ss_box s' = ss_box s" "ss_result s' = ss_result s"
    "ss_finished s' = ss_finished s" "ss_releaseSlot s' = ss_releaseSlot s" "ss_conn s' = ss_conn s"
    "ss_restarts s' = ss_restarts s" "ss_restartAttempt s' = ss_restartAttempt s"
    "ss_restartStarted s' = ss_restartStarted s" "ss_startedAt s' = ss_startedAt s"
    "ss_delivered s' = ss_delivered s" "ss_pinging s' = ss_pinging s" "ss_peerClosed s' = ss_peerClosed s"
    "ss_negotiateTimer s' = ss_negotiateTimer s" "ss_recoveryTimer s' = ss_recoveryTimer s"
    "ss_keepaliveTimer s' = ss_keepaliveTimer s" "ss_lingerTimer s' = ss_lingerTimer s"
    "ss_probes s' = ss_probes s" "ss_peerConn s' = None \<longleftrightarrow> ss_peerConn s = None"
    "signif (ss_out s') = signif (ss_out s)"
  by (rule quietlyE [OF assms], simp)+

lemma quietly_emit: "\<not> significant x \<Longrightarrow> quietly s (emit x s)"
  using quietlyI [of "[x]" "ss_peerConn s" s] by (simp add: emit_def)

lemma quietly_sCount: "quietly s (sCount m ls s)"
  by (simp add: sCount_def quietly_emit)

lemma quietly_sendSignal: "quietly s (snd (sendSignal X E k b s))"
  using quietlyI [of "sent X E k b (ss_peer s) (ss_id s)" "ss_peerConn s" s] by (simp add: sendSignal_eq)

lemma quietly_dropSignal: "quietly s (dropSignal s)"
  by (simp add: dropSignal_def quietly_sCount)

lemma quietly_applyCandidate: "quietly s (applyCandidate X c s)"
proof (cases "ss_peerConn s")
  case None
  then show ?thesis by (simp add: applyCandidate_def quietly_refl)
next
  case (Some p)
  obtain e p' where a: "AddCandidate (cx_pion X) c p = (e, p')" by fastforce
  show ?thesis
  proof (cases e)
    case None
    then show ?thesis by (simp add: applyCandidate_def Some a quietly_peer)
  next
    case (Some x)
    show ?thesis
      using quietlyI [of "[OMetric (Count metricProtocolFailures 1 [labelScope ''candidate''])]" "Some p'" s]
      by (simp add: applyCandidate_def \<open>ss_peerConn s = Some p\<close> a Some sCount_def emit_def)
  qed
qed

lemma quietly_applyEnd: "quietly s (applyEnd X s)"
  by (auto simp: applyEnd_def quietly_refl quietly_peer split: option.splits)

lemma quietly_applyAll: "quietly s (applyAll X cs s)"
  by (induction cs arbitrary: s) (auto intro: quietly_refl quietly_trans [OF quietly_applyCandidate])

lemma quietly_answerOffer: "quietly s (snd (answerOffer X sdp s))"
  by (auto simp: answerOffer_def quietly_refl quietly_peer split: option.splits prod.splits sum.splits)

subsection \<open>Handlers\<close>

lemma loop_core: "loop_ok X s \<Longrightarrow> core_ok X s"
  by (simp add: loop_ok_def)

lemma pending_ok:
  "core_ok X s \<Longrightarrow> length cs \<le> maxPendingCandidates \<Longrightarrow> core_ok X (s\<lparr>ss_pendingCands := cs\<rparr>)"
  "loop_ok X s \<Longrightarrow> length cs \<le> maxPendingCandidates \<Longrightarrow> loop_ok X (s\<lparr>ss_pendingCands := cs\<rparr>)"
proof -
  show c: "core_ok X s \<Longrightarrow> length cs \<le> maxPendingCandidates \<Longrightarrow> core_ok X (s\<lparr>ss_pendingCands := cs\<rparr>)"
    by (auto simp: core_ok_def delivery_def streams_ok_def)
  show "loop_ok X s \<Longrightarrow> length cs \<le> maxPendingCandidates \<Longrightarrow> loop_ok X (s\<lparr>ss_pendingCands := cs\<rparr>)"
    using c by (simp add: loop_ok_def)
qed

lemma flush_ok: "core_ok X s \<Longrightarrow> core_ok X (flushCandidates X s)"
    "loop_ok X s \<Longrightarrow> loop_ok X (flushCandidates X s)"
proof -
  let ?a = "applyAll X (ss_pendingCands s) s"
  let ?b = "?a\<lparr>ss_pendingCands := []\<rparr>"
  have q: "quietly s ?a" by (rule quietly_applyAll)
  have c: "core_ok X s \<Longrightarrow> core_ok X (?b\<lparr>ss_remoteComplete := rc\<rparr>)" for rc
    using quietly_core [OF q, of X] pending_ok(1) [of X ?a "[]"] by simp
  have l: "loop_ok X s \<Longrightarrow> loop_ok X (?b\<lparr>ss_remoteComplete := rc\<rparr>)" for rc
    using quietly_loop [OF q, of X] pending_ok(2) [of X ?a "[]"] by simp
  note e = quietly_applyEnd [of "?b\<lparr>ss_remoteComplete := False\<rparr>" X]
  show "core_ok X s \<Longrightarrow> core_ok X (flushCandidates X s)"
    using c [of "ss_remoteComplete ?b"] c [of False] quietly_core [OF e, of X]
    by (simp add: flushCandidates_def Let_def)
  show "loop_ok X s \<Longrightarrow> loop_ok X (flushCandidates X s)"
    using l [of "ss_remoteComplete ?b"] l [of False] quietly_loop [OF e, of X]
    by (simp add: flushCandidates_def Let_def)
qed

lemma flush_fields [simp]:
  "ss_state (flushCandidates X s) = ss_state s" "ss_role (flushCandidates X s) = ss_role s"
  "ss_at (flushCandidates X s) = ss_at s" "ss_stream (flushCandidates X s) = ss_stream s"
  "ss_generation (flushCandidates X s) = ss_generation s" "ss_peer (flushCandidates X s) = ss_peer s"
  "ss_id (flushCandidates X s) = ss_id s" "ss_box (flushCandidates X s) = ss_box s"
  "ss_result (flushCandidates X s) = ss_result s" "ss_finished (flushCandidates X s) = ss_finished s"
  "ss_releaseSlot (flushCandidates X s) = ss_releaseSlot s" "ss_conn (flushCandidates X s) = ss_conn s"
  "ss_restarts (flushCandidates X s) = ss_restarts s"
  "ss_restartAttempt (flushCandidates X s) = ss_restartAttempt s"
  "ss_restartStarted (flushCandidates X s) = ss_restartStarted s"
  "ss_startedAt (flushCandidates X s) = ss_startedAt s"
  "ss_delivered (flushCandidates X s) = ss_delivered s" "ss_pinging (flushCandidates X s) = ss_pinging s"
  "ss_peerClosed (flushCandidates X s) = ss_peerClosed s"
  "ss_negotiateTimer (flushCandidates X s) = ss_negotiateTimer s"
  "ss_recoveryTimer (flushCandidates X s) = ss_recoveryTimer s"
  "ss_keepaliveTimer (flushCandidates X s) = ss_keepaliveTimer s"
  "ss_lingerTimer (flushCandidates X s) = ss_lingerTimer s" "ss_probes (flushCandidates X s) = ss_probes s"
  "ss_peerConn (flushCandidates X s) = None \<longleftrightarrow> ss_peerConn s = None"
  "signif (ss_out (flushCandidates X s)) = signif (ss_out s)"
  using quietly_fields [OF quietly_applyAll [of s X "ss_pendingCands s"]]
    quietly_fields [OF quietly_applyEnd [of "(applyAll X (ss_pendingCands s) s)\<lparr>ss_pendingCands := [], ss_remoteComplete := False\<rparr>" X]]
  by (simp_all add: flushCandidates_def Let_def)

lemma armRecovery_ok:
  "loop_ok X (s\<lparr>ss_recoveryTimer := Some t\<rparr>) \<Longrightarrow> loop_ok X (armRecovery E d s)"
  by (auto simp: armRecovery_def Let_def loop_ok_def timers_ok_def)

lemma armKeepAlive_ok: "loop_ok X (s\<lparr>ss_pinging := True\<rparr>) \<Longrightarrow> loop_ok X (armKeepAlive X E s)"
  by (auto simp: armKeepAlive_def loop_ok_def timers_ok_def)

lemma core_conn: "core_ok X s \<Longrightarrow> ss_conn s = Some c \<Longrightarrow> core_ok X (s\<lparr>ss_conn := Some c'\<rparr>)"
  by (auto simp: core_ok_def delivery_def streams_ok_def)

lemma refresh_ok: "loop_ok X s \<Longrightarrow> loop_ok X (refreshCandidateStats X s)"
  by (auto simp: refreshCandidateStats_def loop_ok_def core_conn split: option.splits prod.splits)

lemma attempt_ok:
  "core_ok X s \<Longrightarrow> 0 \<le> n \<Longrightarrow> n \<le> max 0 (rc_MaxAttempts (cfg_Reconnect (cx_cfg X))) \<Longrightarrow>
     core_ok X (s\<lparr>ss_restartAttempt := n\<rparr>)"
  by (auto simp: core_ok_def delivery_def streams_ok_def)

lemma core_attempt: "core_ok X s \<Longrightarrow> 0 \<le> ss_restartAttempt s"
  by (simp add: core_ok_def)

text \<open>A restart: from a recovering session whose timer was armed.\<close>

lemma attemptRestart_sound:
  assumes l: "loop_ok X (s\<lparr>ss_recoveryTimer := Some t\<rparr>)" and st: "ss_state s = StateRecovering"
  shows "sound X (attemptRestart X E s)"
proof (cases "\<not> rc_Enabled (cfg_Reconnect (cx_cfg X)) \<or> ss_role s \<noteq> roleOfferer \<or>
    ss_restartAttempt s \<ge> rc_MaxAttempts (cfg_Reconnect (cx_cfg X))")
  case True
  then show ?thesis using l by (simp add: attemptRestart_def Let_def sound_def loop_ok_def)
next
  case False
  obtain p where p: "ss_peerConn s = Some p" using l by (auto simp: loop_ok_def)
  have c: "core_ok X s" using l by (simp add: loop_ok_def)
  let ?s1 = "sCount metricRestartAttempts [] (s\<lparr>ss_restartAttempt := ss_restartAttempt s + 1,
    ss_generation := ss_generation s + 1, ss_restartStarted := Some (en_now E)\<rparr>)"
  have c0: "core_ok X (s\<lparr>ss_restartAttempt := ss_restartAttempt s + 1\<rparr>)"
    using attempt_ok [OF c, of "ss_restartAttempt s + 1"] core_attempt [OF c] False by simp
  then have c1: "core_ok X ?s1"
    using quietly_core [OF quietly_sCount, of X] by simp
  have l1: "loop_ok X (?s1\<lparr>ss_recoveryTimer := Some t, ss_peerConn := Some q\<rparr>)" for q
    using l c1 by (auto simp: loop_ok_def timers_ok_def sCount_def emit_def)
  have c2: "core_ok X (snd (sendSignal X E KindRestart b (?s1\<lparr>ss_peerConn := Some q\<rparr>)))" for b q
    using quietly_core [OF quietly_sendSignal, of X] c1 by simp
  have c3: "core_ok X (sCount m ls (snd (sendSignal X E KindRestart b (?s1\<lparr>ss_peerConn := Some q\<rparr>))))"
    "core_ok X (sCount m ls (?s1\<lparr>ss_peerConn := Some q\<rparr>))" for b m ls q
    using quietly_core [OF quietly_sCount, of X] c2 c1 by simp_all
  have l2: "loop_ok X ((snd (sendSignal X E KindRestart b (?s1\<lparr>ss_peerConn := Some q\<rparr>)))\<lparr>ss_recoveryTimer := Some t\<rparr>)"
    for b q
    using l1 [of q] c2 [of b q] by (auto simp: loop_ok_def timers_ok_def sendSignal_eq)
  show ?thesis
  proof (cases "CreateOffer (cx_pion X) True p")
    case (Pair r p')
    show ?thesis
    proof (cases r)
      case (Inl e)
      then show ?thesis using False p Pair c3(2) [of metricRestartResults "[labelResult ''error'']" p']
        by (simp add: attemptRestart_def Let_def sound_def sCount_def emit_def)
    next
      case (Inr sdp)
      let ?b = "Some (PRestart \<lparr> rp_Generation = ss_generation ?s1, rp_SDP = sdp \<rparr>)"
      obtain re s2 where ss: "sendSignal X E KindRestart ?b (?s1\<lparr>ss_peerConn := Some p'\<rparr>) = (re, s2)" by fastforce
      have a: "attemptRestart X E s = (case re of
          Some e \<Rightarrow> (Some (intentFor e), sCount metricRestartResults [labelResult ''error''] s2)
        | None \<Rightarrow> (None, armRecovery E (rc_AttemptTimeout (cfg_Reconnect (cx_cfg X)) + en_backoff E) s2))"
        using False p Pair Inr ss by (simp add: attemptRestart_def Let_def sCount_def emit_def)
      have "loop_ok X (armRecovery E d s2)" for d
        using armRecovery_ok l2 [of ?b p'] ss by simp
      then show ?thesis using c3(1) [of metricRestartResults "[labelResult ''error'']" ?b p'] ss
        by (simp add: a sound_def loop_core split: option.splits)
    qed
  qed
qed

lemma mapConn_fields [simp]:
  "ss_id (mapConn f s) = ss_id s" "ss_peer (mapConn f s) = ss_peer s" "ss_role (mapConn f s) = ss_role s"
  "ss_box (mapConn f s) = ss_box s" "ss_result (mapConn f s) = ss_result s"
  "ss_finished (mapConn f s) = ss_finished s" "ss_releaseSlot (mapConn f s) = ss_releaseSlot s"
  "ss_peerConn (mapConn f s) = ss_peerConn s" "ss_stream (mapConn f s) = ss_stream s"
  "ss_state (mapConn f s) = ss_state s" "ss_pendingCands (mapConn f s) = ss_pendingCands s"
  "ss_remoteComplete (mapConn f s) = ss_remoteComplete s" "ss_generation (mapConn f s) = ss_generation s"
  "ss_restarts (mapConn f s) = ss_restarts s" "ss_restartAttempt (mapConn f s) = ss_restartAttempt s"
  "ss_restartStarted (mapConn f s) = ss_restartStarted s" "ss_startedAt (mapConn f s) = ss_startedAt s"
  "ss_delivered (mapConn f s) = ss_delivered s" "ss_pinging (mapConn f s) = ss_pinging s"
  "ss_peerClosed (mapConn f s) = ss_peerClosed s" "ss_negotiateTimer (mapConn f s) = ss_negotiateTimer s"
  "ss_recoveryTimer (mapConn f s) = ss_recoveryTimer s" "ss_keepaliveTimer (mapConn f s) = ss_keepaliveTimer s"
  "ss_lingerTimer (mapConn f s) = ss_lingerTimer s" "ss_at (mapConn f s) = ss_at s"
  "ss_probes (mapConn f s) = ss_probes s" "ss_out (mapConn f s) = ss_out s"
  by (simp_all add: mapConn_def)

lemma emit_fields [simp]:
  "ss_id (emit x s) = ss_id s" "ss_peer (emit x s) = ss_peer s" "ss_role (emit x s) = ss_role s"
  "ss_box (emit x s) = ss_box s" "ss_result (emit x s) = ss_result s" "ss_finished (emit x s) = ss_finished s"
  "ss_releaseSlot (emit x s) = ss_releaseSlot s" "ss_peerConn (emit x s) = ss_peerConn s"
  "ss_stream (emit x s) = ss_stream s" "ss_conn (emit x s) = ss_conn s" "ss_state (emit x s) = ss_state s"
  "ss_pendingCands (emit x s) = ss_pendingCands s" "ss_remoteComplete (emit x s) = ss_remoteComplete s"
  "ss_generation (emit x s) = ss_generation s" "ss_restarts (emit x s) = ss_restarts s"
  "ss_restartAttempt (emit x s) = ss_restartAttempt s" "ss_restartStarted (emit x s) = ss_restartStarted s"
  "ss_startedAt (emit x s) = ss_startedAt s" "ss_delivered (emit x s) = ss_delivered s"
  "ss_pinging (emit x s) = ss_pinging s" "ss_peerClosed (emit x s) = ss_peerClosed s"
  "ss_negotiateTimer (emit x s) = ss_negotiateTimer s" "ss_recoveryTimer (emit x s) = ss_recoveryTimer s"
  "ss_keepaliveTimer (emit x s) = ss_keepaliveTimer s" "ss_lingerTimer (emit x s) = ss_lingerTimer s"
  "ss_at (emit x s) = ss_at s" "ss_probes (emit x s) = ss_probes s"
  by (simp_all add: emit_def)

lemma mapConn_ok [simp]: "core_ok X (mapConn f s) = core_ok X s" "timers_ok X (mapConn f s) = timers_ok X s"
  "loop_ok X (mapConn f s) = loop_ok X s"
proof -
  show c: "core_ok X (mapConn f s) = core_ok X s" by (simp add: mapConn_def core_ok_def delivery_def streams_ok_def)
  show t: "timers_ok X (mapConn f s) = timers_ok X s" by (simp add: timers_ok_def)
  show "loop_ok X (mapConn f s) = loop_ok X s" using c t by (simp add: loop_ok_def)
qed

lemma emit_ok [simp]:
  "\<not> significant x \<Longrightarrow> core_ok X (emit x s) = core_ok X s" "timers_ok X (emit x s) = timers_ok X s"
  "\<not> significant x \<Longrightarrow> loop_ok X (emit x s) = loop_ok X s"
  by (simp_all add: quietly_core [OF quietly_emit] quietly_loop [OF quietly_emit] timers_ok_def)

lemma lost_ok: "loop_ok X s \<Longrightarrow> loop_ok X (onConnectivityLost X E s)"
  by (auto simp: onConnectivityLost_def Let_def loop_ok_def timers_ok_def armRecovery_def)

lemma lost_state: "ss_state s = StateConnected \<Longrightarrow> ss_state (onConnectivityLost X E s) = StateRecovering"
  by (simp add: onConnectivityLost_def Let_def armRecovery_def)

lemma recovering_timer:
  "loop_ok X s \<Longrightarrow> ss_state s = StateRecovering \<Longrightarrow> \<exists>t. loop_ok X (s\<lparr>ss_recoveryTimer := Some t\<rparr>)"
  by (auto simp: loop_ok_def timers_ok_def)

lemma recovering_restart:
  "loop_ok X s \<Longrightarrow> ss_state s = StateRecovering \<Longrightarrow> sound X (attemptRestart X E s)"
  using recovering_timer attemptRestart_sound by blast

lemma onConnectivityFailed_sound: "loop_ok X s \<Longrightarrow> sound X (onConnectivityFailed X E s)"
  by (simp add: onConnectivityFailed_def sound_loop recovering_restart lost_ok lost_state)

lemma onRecoveryDeadline_sound:
  assumes "loop_ok X s" "ss_recoveryTimer s = Some t"
  shows "sound X (onRecoveryDeadline X E (s\<lparr>ss_recoveryTimer := None\<rparr>))"
proof -
  have "ss_state s = StateRecovering" using assms by (simp add: loop_ok_def timers_ok_def)
  moreover from this have "loop_ok X (s\<lparr>ss_recoveryTimer := Some t\<rparr>)"
    using assms(1) by (auto simp: loop_ok_def timers_ok_def)
  ultimately show ?thesis
    using attemptRestart_sound [of X t "s\<lparr>ss_recoveryTimer := None\<rparr>" E] by (simp add: onRecoveryDeadline_def)
qed

lemma onKeepAlive_sound:
  assumes l: "loop_ok X s"
  shows "sound X (onKeepAlive X E res s)"
proof (cases "kr_err res")
  case None
  let ?s = "mapConn (updateStats (\<lambda>st. st\<lparr>st_KeepAliveRTT := kr_rtt res\<rparr>))
    (emit (OMetric (Duration metricKeepAliveRTT (kr_rtt res) [])) (s\<lparr>ss_pinging := False\<rparr>))"
  have "loop_ok X (armKeepAlive X E ?s)"
    by (rule armKeepAlive_ok) (use l in \<open>auto simp: loop_ok_def timers_ok_def\<close>)
  then show ?thesis by (simp add: onKeepAlive_def None Let_def sound_loop)
next
  case (Some e)
  let ?s = "sCount metricKeepAliveFailures [labelReason ''no-pong''] (s\<lparr>ss_pinging := False\<rparr>)"
  have q: "quietly (s\<lparr>ss_pinging := False\<rparr>) ?s" by (rule quietly_sCount)
  show ?thesis
  proof (cases "ss_state s = StateConnected")
    case True
    have "loop_ok X (onConnectivityLost X E ?s)"
      using l True by (auto simp: onConnectivityLost_def Let_def sCount_def loop_ok_def timers_ok_def
          armRecovery_def)
    moreover have "ss_state (onConnectivityLost X E ?s) = StateRecovering"
      using lost_state [of ?s] True quietly_fields(1) [OF q] by simp
    ultimately have "sound X (attemptRestart X E (onConnectivityLost X E ?s))" by (rule recovering_restart)
    then show ?thesis using True quietly_fields(1) [OF q] by (simp add: onKeepAlive_def Some Let_def)
  next
    case False
    have "loop_ok X ?s" using l False by (auto simp: sCount_def loop_ok_def timers_ok_def)
    then show ?thesis using False quietly_fields(1) [OF q]
      by (simp add: onKeepAlive_def Some Let_def sound_loop)
  qed
qed

lemma onConnectivityUp_ok:
  assumes l: "loop_ok X s"
  shows "loop_ok X (onConnectivityUp X E s)"
proof -
  let ?r = "refreshCandidateStats X s"
  have r: "loop_ok X ?r" by (rule refresh_ok [OF l])
  show ?thesis
  proof (cases "ss_state ?r = StateRecovering")
    case False
    then show ?thesis using r by (simp add: onConnectivityUp_def Let_def loop_ok_def timers_ok_def)
  next
    case True
    then show ?thesis using r attempt_ok [of X _ 0]
      by (auto simp: onConnectivityUp_def Let_def loop_ok_def timers_ok_def armKeepAlive_def sCount_def
          split: option.splits)
  qed
qed

lemma onCandidate_sound: "loop_ok X s \<Longrightarrow> sound X (onCandidate X c s)"
  using pending_ok(2) [of X s "ss_pendingCands s @ [c]"] quietly_loop [OF quietly_applyCandidate, of X]
  by (simp add: onCandidate_def sound_loop)

lemma onICEComplete_ok: "loop_ok X s \<Longrightarrow> loop_ok X (onICEComplete X s)"
  using quietly_loop [OF quietly_applyEnd, of X] by (simp add: onICEComplete_def)

lemma onCloseSignal_sound:
  assumes "loop_ok X s"
  shows "sound X (onCloseSignal E s)"
proof -
  have "loop_ok X (s\<lparr>ss_peerClosed := True, ss_lingerTimer := Some t\<rparr>)" for t
    using assms by (clarsimp simp: loop_ok_def timers_ok_def)
  moreover have "ss_lingerTimer s = Some t \<Longrightarrow> loop_ok X (s\<lparr>ss_peerClosed := True\<rparr>)" for t
    using assms by (clarsimp simp: loop_ok_def timers_ok_def)
  ultimately show ?thesis
    using assms by (cases "ss_lingerTimer s") (simp_all add: onCloseSignal_def Let_def sound_loop)
qed

lemma onRestart_sound:
  assumes l: "loop_ok X s"
  shows "sound X (onRestart X E gen sdp s)"
proof -
  obtain r t where a: "answerOffer X sdp (s\<lparr>ss_generation := gen\<rparr>) = (r, t)" by fastforce
  have t: "loop_ok X t" using quietly_loop [OF quietly_answerOffer, of X X sdp "s\<lparr>ss_generation := gen\<rparr>"] a l by simp
  have u: "sound X (case sendSignal X E k b t of (Some e, s) \<Rightarrow> (Some (intentFor e), s) | (None, s) \<Rightarrow> (None, s))" for k b
    using quietly_loop [OF quietly_sendSignal, of X X E k b t] t by (simp add: sound_loop sendSignal_eq split: option.splits)
  show ?thesis
  proof (cases "gen \<le> ss_generation s")
    case True
    then show ?thesis using l quietly_loop [OF quietly_dropSignal, of X s] by (simp add: onRestart_def sound_loop)
  next
    case False
    then show ?thesis using t u by (cases r) (simp_all add: onRestart_def a sound_loop)
  qed
qed

lemma applyAnswer_sound:
  assumes l: "loop_ok X s"
  shows "sound X (applyAnswer X sdp s)"
proof -
  obtain p where p: "ss_peerConn s = Some p" using l by (auto simp: loop_ok_def)
  obtain r p' where a: "SetRemoteAnswer (cx_pion X) sdp p = (r, p')" by fastforce
  let ?s = "s\<lparr>ss_peerConn := Some p', ss_restartAttempt := 0,
    ss_state := (if ss_state s = StateSignaling then StateConnecting else ss_state s)\<rparr>"
  have "core_ok X ?s" using attempt_ok [of X "s\<lparr>ss_peerConn := Some p'\<rparr>" 0] loop_core [OF l] by simp
  then have "loop_ok X ?s" using l by (cases "ss_state s"; cases "ss_stream s") (simp_all add: loop_ok_def timers_ok_def)
  then have "loop_ok X (flushCandidates X ?s)" by (rule flush_ok)
  then show ?thesis using loop_core [OF l]
    by (cases r) (simp_all add: applyAnswer_def p a Let_def sound_loop, simp add: sound_def)
qed

lemma onSignal_sound: "loop_ok X s \<Longrightarrow> sound X (onSignal X E sig s)"
  using quietly_loop [OF quietly_dropSignal, of X]
  by (simp add: onSignal_def onRestartSignal_def sound_loop applyAnswer_sound onRestart_sound onCandidate_sound
      onICEComplete_ok onCloseSignal_sound split: sum.splits)

lemma refresh_form: "ss_conn s = Some c \<Longrightarrow> \<exists>c'. refreshCandidateStats X s = s\<lparr>ss_conn := Some c'\<rparr>"
  by (cases "ss_peerConn s"; cases "SelectedCandidatePair (cx_pion X) (the (ss_peerConn s))")
     (auto simp: refreshCandidateStats_def intro: exI [of _ c])

lemma armKeepAlive_form:
  "\<exists>k. armKeepAlive X E s = s\<lparr>ss_keepaliveTimer := k\<rparr> \<and>
     (0 < ka_Interval (cfg_KeepAlive (cx_cfg X)) \<and> ss_stream s \<noteq> None \<and> \<not> ss_pinging s \<longrightarrow> k \<noteq> None)"
proof (cases "ka_Interval (cfg_KeepAlive (cx_cfg X)) \<le> 0 \<or> ss_stream s = None \<or> ss_pinging s")
  case True
  then show ?thesis by (intro exI [of _ "ss_keepaliveTimer s"]) (auto simp: armKeepAlive_def)
next
  case False
  then show ?thesis
    by (intro exI [of _ "Some (en_now E + ka_Interval (cfg_KeepAlive (cx_cfg X)))"]) (auto simp: armKeepAlive_def)
qed

text \<open>The state in which the connection is delivered.\<close>

definition opened :: "('p, 'd) sctx \<Rightarrow> ('p, 'd) session \<Rightarrow> bool" where
  "opened X s \<longleftrightarrow> ss_stream s \<noteq> None \<and> ss_conn s \<noteq> None \<and> ss_state s = StateConnected \<and> ss_peerConn s \<noteq> None \<and>
     \<not> mb_closed (ss_box s) \<and> timers_ok X s \<and> ss_result s = None \<and> \<not> ss_finished s \<and>
     length (ss_pendingCands s) \<le> maxPendingCandidates \<and>
     0 \<le> ss_restartAttempt s \<and> ss_restartAttempt s \<le> max 0 (rc_MaxAttempts (cfg_Reconnect (cx_cfg X))) \<and>
     (ss_releaseSlot s \<longleftrightarrow> ss_role s = roleAnswerer) \<and> signif (ss_out s) = [] \<and> streams_ok s"

lemma deliver_sound: "opened X s \<Longrightarrow> sound X (deliver E s)"
  by (cases "ss_role s"; cases "en_enqueue E")
     (clarsimp simp: deliver_def Let_def opened_def sound_def sess_inv_defs emit_def)+

lemma onChannelOpen_opened:
  assumes l: "loop_ok X s" and n: "ss_stream s = None" and st: "stream_reach st"
  shows "opened X (armKeepAlive X E (emit (OMetric m) (refreshCandidateStats X
    (s\<lparr>ss_peerConn := Some p, ss_stream := Some st, ss_state := StateConnected, ss_negotiateTimer := None,
       ss_conn := Some c\<rparr>))))"
proof -
  let ?s = "s\<lparr>ss_peerConn := Some p, ss_stream := Some st, ss_state := StateConnected, ss_negotiateTimer := None,
       ss_conn := Some c\<rparr>"
  obtain c' where c: "refreshCandidateStats X ?s = ?s\<lparr>ss_conn := Some c'\<rparr>" using refresh_form [of ?s c X] by auto
  obtain k where k: "armKeepAlive X E (emit (OMetric m) (?s\<lparr>ss_conn := Some c'\<rparr>)) =
      (emit (OMetric m) (?s\<lparr>ss_conn := Some c'\<rparr>))\<lparr>ss_keepaliveTimer := k\<rparr>"
    "0 < ka_Interval (cfg_KeepAlive (cx_cfg X)) \<and> \<not> ss_pinging s \<longrightarrow> k \<noteq> None"
    using armKeepAlive_form [of X E "emit (OMetric m) (?s\<lparr>ss_conn := Some c'\<rparr>)"] by auto
  have "ss_recoveryTimer s = None" using l n by (auto simp: loop_ok_def timers_ok_def)
  moreover have "timers_ok X s" "core_ok X s" "ss_peerConn s \<noteq> None" "\<not> mb_closed (ss_box s)"
    using l by (simp_all add: loop_ok_def)
  ultimately show ?thesis using n k(2) st
    unfolding c k(1) by (cases "ss_role s") (auto simp: opened_def emit_def timers_ok_def core_ok_def delivery_def streams_ok_def)
qed

lemma onChannelOpen_sound:
  assumes l: "loop_ok X s"
  shows "sound X (onChannelOpen X E s)"
proof (cases "ss_stream s")
  case (Some st)
  then show ?thesis using l by (simp add: onChannelOpen_def sound_loop)
next
  case None
  obtain p where p: "ss_peerConn s = Some p" using l by (auto simp: loop_ok_def)
  obtain r p' where d: "Detach (cx_pion X) p = (r, p')" by fastforce
  note o = onChannelOpen_opened [OF l None reach_new, THEN deliver_sound]
  show ?thesis using loop_core [OF l] None o
    by (cases r) (simp_all add: onChannelOpen_def p d Let_def, simp_all add: sound_def)
qed

lemma onPionEvent_sound: "loop_ok X s \<Longrightarrow> sound X (onPionEvent X E ev s)"
  using quietly_loop [OF quietly_sendSignal, of X]
  by (cases ev) (simp_all add: onPionEvent_def sound_loop onConnectivityUp_ok lost_ok onConnectivityFailed_sound
      onChannelOpen_sound sendSignal_eq split: option.splits)

lemma handle_sound: "loop_ok X s \<Longrightarrow> sound X (handle X E ev s)"
  by (cases ev) (simp_all add: sound_loop onSignal_sound onPionEvent_sound onKeepAlive_sound)

end
