(* ===== verification/Stream_Inv.thy ===== *)
theory Stream_Inv
  imports Stream
begin

text \<open>
  Invariants of the byte stream, preserved by every step of any goroutine: who owns which
  receive buffer (\<open>buf_inv\<close>), where the received bytes are (\<open>rx_inv\<close>), what the peer was
  sent (\<open>tx_inv\<close>) and how the life-cycle flags relate (\<open>flag_inv\<close>).
\<close>

subsection \<open>Invariants\<close>

text \<open>The application bytes carried by a sequence of frames.\<close>

definition data_of :: "bytes list \<Rightarrow> bytes" where
  "data_of ms = concat (map (\<lambda>m. if m ! 1 = TypeData then drop HeaderSize m else []) ms)"

text \<open>Every buffer somebody may still touch: the read loop's, the queued ones, the reader's,
  the free ones.\<close>

definition owned :: "stream \<Rightarrow> nat list" where
  "owned s = (if s_pc s = RLExit then [] else [s_buf s]) @ map fst (s_dataCh s)
     @ (case s_cur s of None \<Rightarrow> [] | Some c \<Rightarrow> [fst c]) @ s_free s"

definition queued :: "stream \<Rightarrow> bytes" where
  "queued s = concat (map (\<lambda>m. slice s (fst m, HeaderSize, snd m)) (s_dataCh s))"

definition inHand :: "stream \<Rightarrow> bytes" where
  "inHand s = (case s_pc s of RLSend n \<Rightarrow> slice s (s_buf s, HeaderSize, n) | _ \<Rightarrow> [])"

definition msg_len_ok :: "stream \<Rightarrow> nat \<Rightarrow> bool" where
  "msg_len_ok s n \<longleftrightarrow> HeaderSize < n \<and> n \<le> bufSize s"

definition buf_inv :: "stream \<Rightarrow> bool" where
  "buf_inv s \<longleftrightarrow>
     distinct (owned s) \<and> (\<forall>b \<in> set (owned s). b < s_next s) \<and>
     (\<forall>b. length (s_heap s b) = bufSize s) \<and>
     0 < s_maxPayload s \<and> s_maxPayload s \<le> PayloadLimit \<and> 0 < s_depth s \<and>
     length (s_dataCh s) \<le> s_depth s \<and> length (s_free s) \<le> s_depth s + 2 \<and>
     (\<forall>m \<in> set (s_dataCh s). msg_len_ok s (snd m)) \<and>
     (\<forall>b i j. s_cur s = Some (b, i, j) \<longrightarrow> HeaderSize \<le> i \<and> i < j \<and> j \<le> bufSize s) \<and>
     (\<forall>n. s_pc s = RLSend n \<longrightarrow> msg_len_ok s n)"

definition rx_inv :: "stream \<Rightarrow> bool" where
  "rx_inv s \<longleftrightarrow>
     (\<exists>lost. data_of (s_rx s) = s_out s @ curBytes s @ queued s @ inHand s @ lost \<and>
        (lost \<noteq> [] \<longrightarrow> s_pc s = RLExit)) \<and>
     s_framesRead s = of_nat (length (s_rx s)) \<and> s_bytesRead s = of_nat (length (s_out s))"

definition tx_inv :: "stream \<Rightarrow> bool" where
  "tx_inv s \<longleftrightarrow>
     data_of (s_sent s) = s_committed s \<and>
     s_framesWritten s = of_nat (length (s_sent s)) \<and>
     s_bytesWritten s = of_nat (length (s_committed s)) \<and>
     length (s_wbuf s) = bufSize s \<and>
     (\<forall>p w. s_wjob s = Some (p, w) \<longrightarrow> p \<noteq> []) \<and>
     (\<not> s_term s \<longrightarrow> s_chWall s = s_wall s)"

definition flag_inv :: "stream \<Rightarrow> bool" where
  "flag_inv s \<longleftrightarrow>
     (s_done s \<longleftrightarrow> s_pc s = RLExit) \<and> (s_dataClosed s \<longleftrightarrow> s_pc s = RLExit) \<and>
     (s_closed s \<longrightarrow> s_term s) \<and> (s_term s \<or> s_done s \<longrightarrow> s_readErr s \<noteq> None) \<and>
     (s_rel s = RelIdle \<longleftrightarrow> \<not> s_term s) \<and> (s_released s \<longleftrightarrow> s_rel s = RelDone) \<and>
     (s_rel s = RelDraining \<longrightarrow> s_done s) \<and>
     (\<forall>p. s_pc s = RLPong p \<longrightarrow> length p = PingSize)"

text \<open>The fields each part of the invariant depends on.\<close>

definition rx_view :: "stream \<Rightarrow> _" where
  "rx_view s = (s_maxPayload s, s_depth s, s_heap s, s_next s, s_dataCh s, s_cur s, s_free s,
     s_buf s, s_pc s, s_rx s, s_out s, s_framesRead s, s_bytesRead s)"

definition tx_view :: "stream \<Rightarrow> _" where
  "tx_view s = (s_maxPayload s, s_wjob s, s_wbuf s, s_sent s, s_committed s, s_framesWritten s,
     s_bytesWritten s, s_term s, s_chWall s, s_wall s)"

definition flag_view :: "stream \<Rightarrow> _" where
  "flag_view s = (s_done s, s_dataClosed s, s_pc s, s_closed s, s_term s, s_readErr s, s_rel s,
     s_released s)"

lemmas view_defs = rx_view_def tx_view_def flag_view_def

lemma buf_inv_cong: "rx_view s = rx_view t \<Longrightarrow> buf_inv s \<longleftrightarrow> buf_inv t"
  by (auto simp: rx_view_def buf_inv_def owned_def bufSize_def msg_len_ok_def)

lemma rx_inv_cong: "rx_view s = rx_view t \<Longrightarrow> rx_inv s \<longleftrightarrow> rx_inv t"
  by (auto simp: rx_view_def rx_inv_def curBytes_def queued_def inHand_def slice_def
      split: option.splits rlpc.splits)

lemma tx_inv_cong: "tx_view s = tx_view t \<Longrightarrow> tx_inv s \<longleftrightarrow> tx_inv t"
  by (auto simp: tx_view_def tx_inv_def bufSize_def)

lemma flag_inv_cong: "flag_view s = flag_view t \<Longrightarrow> flag_inv s \<longleftrightarrow> flag_inv t"
  by (auto simp: flag_view_def flag_inv_def)

subsection \<open>What the channel operations change\<close>

lemma data_of_append [simp]: "data_of (xs @ ys) = data_of xs @ data_of ys"
  by (simp add: data_of_def)

lemma data_of_wire [simp]: "data_of [wire t p] = (if t = TypeData then p else [])"
  by (simp add: data_of_def wire_def put_uint32_def HeaderSize_def)

lemma data_of_Nil [simp]: "data_of [] = []"
  by (simp add: data_of_def)

lemma control_types [simp]:
  "TypePing \<noteq> TypeData" "TypePong \<noteq> TypeData" "TypeClose \<noteq> TypeData"
  "TypePong \<noteq> TypePing" "TypeClose \<noteq> TypePing" "TypeClose \<noteq> TypePong"
  by (simp_all add: frame_consts)

lemma writeMessage_cases:
  obtains (err) e where "writeMessage s msg dl cr = (Some e, s\<lparr>s_chWall := dl\<rparr>)"
  | (ok) "writeMessage s msg dl cr = (None, s\<lparr>s_chWall := dl,
      s_framesWritten := s_framesWritten s + 1, s_sent := s_sent s @ [msg]\<rparr>)"
proof (cases cr)
  case (fields a n c)
  show thesis
  proof (cases "a = None \<and> c = None \<and> n = length msg")
    case True
    then show thesis using ok fields by (simp add: writeMessage_def Let_def)
  next
    case False
    then have "\<exists>e. writeMessage s msg dl cr = (Some e, s\<lparr>s_chWall := dl\<rparr>)"
      using fields by (cases a; cases c) (simp_all add: writeMessage_def Let_def)
    then show thesis using err by blast
  qed
qed

lemma writeControl_cases:
  assumes "(r, s') \<in> set (writeControl s t p now cr)" and "length p \<le> PayloadLimit"
  shows "s' = s \<or> s' = s\<lparr>s_chWall := s_wall s\<rparr> \<or>
    (s_wjob s = None \<and> r = None \<and> s' = s\<lparr>s_chWall := s_wall s,
      s_framesWritten := s_framesWritten s + 1, s_sent := s_sent s @ [wire t p]\<rparr>)"
proof -
  have e: "Encode (replicate (HeaderSize + length p) 0) t p = Inr (wire t p)"
    by (rule Encode_wire) (use assms(2) in simp_all)
  show ?thesis
    by (rule writeMessage_cases [of s "wire t p" "Some (now + controlWriteTimeout)" cr])
       (use assms(1) in \<open>auto simp: writeControl_def e split: if_splits\<close>)
qed

lemma length_EncodeClose: "length (EncodeClose code reason) \<le> 2 + MaxCloseReason"
  using length_sentReason [of reason] by (simp add: EncodeClose_eq sentReason_def split: if_splits)

lemma sendCloseFrame_cases:
  "\<exists>dl. sendCloseFrame s code reason now cr = s \<or>
     sendCloseFrame s code reason now cr = s\<lparr>s_chWall := dl\<rparr> \<or>
     sendCloseFrame s code reason now cr = s\<lparr>s_chWall := dl,
       s_framesWritten := s_framesWritten s + 1,
       s_sent := s_sent s @ [wire TypeClose (EncodeClose code reason)]\<rparr>"
proof -
  let ?b = "EncodeClose code reason"
  have e: "Encode (replicate (HeaderSize + length ?b) 0) TypeClose ?b = Inr (wire TypeClose ?b)"
    by (rule Encode_wire)
       (use length_EncodeClose [of code reason] in \<open>simp_all add: MaxCloseReason_def PayloadLimit_def\<close>)
  show ?thesis
    by (rule writeMessage_cases [of s "wire TypeClose ?b" "Some (now + controlWriteTimeout)" cr])
       (auto simp: sendCloseFrame_def e Let_def)
qed

lemma setReadErr_views [simp]:
  "rx_view (setReadErr s e) = rx_view s" "tx_view (setReadErr s e) = tx_view s"
  "s_readErr (setReadErr s e) = Some (case s_readErr s of None \<Rightarrow> e | Some x \<Rightarrow> x)"
  "s_term (setReadErr s e) = s_term s" "s_closed (setReadErr s e) = s_closed s"
  "s_done (setReadErr s e) = s_done s" "s_dataClosed (setReadErr s e) = s_dataClosed s"
  "s_pc (setReadErr s e) = s_pc s" "s_rel (setReadErr s e) = s_rel s"
  "s_released (setReadErr s e) = s_released s"
  by (auto simp: setReadErr_def view_defs split: option.splits)

text \<open>The chunk one loop iteration sends, and the state after it.\<close>

definition nextChunk :: "stream \<Rightarrow> bytes \<Rightarrow> bytes" where
  "nextChunk s p = take (s_maxPayload s) p"

definition afterFrame :: "stream \<Rightarrow> bytes \<Rightarrow> nat \<Rightarrow> stream" where
  "afterFrame s p w =
     (let c = nextChunk s p; msg = wire TypeData c in
      s\<lparr>s_wbuf := msg @ drop (length msg) (s_wbuf s), s_chWall := s_wall s,
        s_framesWritten := s_framesWritten s + 1, s_sent := s_sent s @ [msg],
        s_bytesWritten := s_bytesWritten s + of_nat (length c),
        s_committed := s_committed s @ c,
        s_wjob := (if drop (length c) p = [] then None else Some (drop (length c) p, w + length c))\<rparr>)"

lemma writeFrame_cases:
  assumes "s_wjob s = Some (p, w)" and "s_maxPayload s \<le> PayloadLimit"
    and "length (s_wbuf s) = bufSize s"
  obtains (err) e where "writeFrame s cr = (Some (w, Some e),
      s\<lparr>s_wbuf := wire TypeData (nextChunk s p) @
            drop (length (wire TypeData (nextChunk s p))) (s_wbuf s),
        s_chWall := s_wall s, s_wjob := None\<rparr>)"
  | (ok) "writeFrame s cr =
      ((if drop (length (nextChunk s p)) p = [] then Some (w + length (nextChunk s p), None) else None),
       afterFrame s p w)"
proof -
  let ?c = "nextChunk s p"
  have c: "(if length p > s_maxPayload s then take (s_maxPayload s) p else p) = ?c"
    by (simp add: nextChunk_def)
  have e: "Encode (s_wbuf s) TypeData ?c = Inr (wire TypeData ?c)"
    by (rule Encode_wire) (use assms in \<open>simp_all add: nextChunk_def bufSize_def\<close>)
  let ?s1 = "s\<lparr>s_wbuf := wire TypeData ?c @ drop (length (wire TypeData ?c)) (s_wbuf s)\<rparr>"
  note w = assms(1)
  show thesis
  proof (rule writeMessage_cases [of ?s1 "wire TypeData ?c" "s_wall s" cr])
    fix x assume "writeMessage ?s1 (wire TypeData ?c) (s_wall s) cr = (Some x, ?s1\<lparr>s_chWall := s_wall s\<rparr>)"
    then show thesis by (intro err [of x]) (simp add: writeFrame_def w Let_def c e)
  next
    assume "writeMessage ?s1 (wire TypeData ?c) (s_wall s) cr = (None, ?s1\<lparr>s_chWall := s_wall s,
      s_framesWritten := s_framesWritten ?s1 + 1, s_sent := s_sent ?s1 @ [wire TypeData ?c]\<rparr>)"
    then show thesis
      by (intro ok) (auto simp: writeFrame_def w Let_def c e afterFrame_def)
  qed
qed

subsection \<open>The sending side\<close>

lemma tx_writeBegin: "(r, s') \<in> set (writeBegin s e p) \<Longrightarrow> tx_inv s \<Longrightarrow> tx_inv s'"
  by (auto simp: writeBegin_def tx_inv_def bufSize_def split: if_splits option.splits)

lemma tx_writeFrame:
  assumes "s_wjob s \<noteq> None" and "tx_inv s" and "s_maxPayload s \<le> PayloadLimit"
  shows "tx_inv (snd (writeFrame s cr))"
proof -
  obtain p w where w: "s_wjob s = Some (p, w)" using assms(1) by auto
  have l: "length (s_wbuf s) = bufSize s" using assms(2) by (simp add: tx_inv_def)
  show ?thesis
    by (rule writeFrame_cases [OF w assms(3) l, of cr])
       (use assms(2) in \<open>auto simp: tx_inv_def afterFrame_def Let_def bufSize_def nextChunk_def\<close>)
qed

lemma tx_control:
  assumes "(r, s') \<in> set (writeControl s t p now cr)" and "length p \<le> PayloadLimit"
    and "t \<noteq> TypeData" and "tx_inv s"
  shows "tx_inv s'"
  using writeControl_cases [OF assms(1,2)] assms(3,4) by (auto simp: tx_inv_def bufSize_def)

lemma clearPing_views [simp]:
  "rx_view (clearPing s i) = rx_view s" "tx_view (clearPing s i) = tx_view s"
  "flag_view (clearPing s i) = flag_view s"
  by (auto simp: clearPing_def view_defs split: option.splits)

lemma pingBegin_cases:
  assumes "(r, s') \<in> set (pingBegin s rnd now cr)" and "\<forall>n. rnd = Inr n \<longrightarrow> length n = PingSize"
  shows "s' = s \<or> (\<exists>i pd t r' n. length n = PingSize \<and>
    (r', t) \<in> set (writeControl (s\<lparr>s_pingId := i + 1, s_pending := pd\<rparr>) TypePing n now cr) \<and>
    (s' = t \<or> s' = clearPing t i))"
  using assms by (fastforce simp: pingBegin_def Let_def split: sum.splits option.splits)

lemma PingSize_le: "length n = PingSize \<Longrightarrow> length n \<le> PayloadLimit"
  by (simp add: PingSize_def PayloadLimit_def)

lemma tx_pingBegin:
  assumes "(r, s') \<in> set (pingBegin s rnd now cr)" and "\<forall>n. rnd = Inr n \<longrightarrow> length n = PingSize"
    and "tx_inv s"
  shows "tx_inv s'"
proof -
  from pingBegin_cases [OF assms(1,2)] show ?thesis
  proof (elim disjE exE conjE)
    fix i pd t r' n
    assume n: "length n = PingSize" and
      t: "(r', t) \<in> set (writeControl (s\<lparr>s_pingId := i + 1, s_pending := pd\<rparr>) TypePing n now cr)"
    have "tx_inv (s\<lparr>s_pingId := i + 1, s_pending := pd\<rparr>)"
      using assms(3) by (simp add: tx_inv_def bufSize_def)
    then have "tx_inv t" using tx_control [OF t PingSize_le [OF n]] by simp
    moreover assume "s' = clearPing t i"
    ultimately show ?thesis using tx_inv_cong [of s' t] by simp
  next
    fix i pd t r' n
    assume n: "length n = PingSize" and
      t: "(r', t) \<in> set (writeControl (s\<lparr>s_pingId := i + 1, s_pending := pd\<rparr>) TypePing n now cr)"
    have "tx_inv (s\<lparr>s_pingId := i + 1, s_pending := pd\<rparr>)"
      using assms(3) by (simp add: tx_inv_def bufSize_def)
    moreover assume "s' = t"
    ultimately show ?thesis using tx_control [OF t PingSize_le [OF n]] by simp
  qed (use assms(3) in simp)
qed

lemma tx_setWriteDl: "tx_inv s \<Longrightarrow> tx_inv (snd (SetWriteDeadline s t e))"
  by (auto simp: SetWriteDeadline_def tx_inv_def bufSize_def)

lemma tx_terminate: "tx_inv s \<Longrightarrow> tx_inv (terminate s code reason local now cr)"
proof -
  let ?s = "if local \<and> \<not> s_closed s
    then (setReadErr s (Sentinel ErrClosed))\<lparr>s_closed := True\<rparr> else s"
  assume inv: "tx_inv s"
  have v: "tx_view ?s = tx_view s" by (simp add: setReadErr_def tx_view_def split: option.splits)
  then have inv': "tx_inv ?s" using inv tx_inv_cong by blast
  obtain dl where c: "sendCloseFrame ?s code reason now cr \<in>
      {?s, ?s\<lparr>s_chWall := dl\<rparr>, ?s\<lparr>s_chWall := dl, s_framesWritten := s_framesWritten ?s + 1,
       s_sent := s_sent ?s @ [wire TypeClose (EncodeClose code reason)]\<rparr>}"
    using sendCloseFrame_cases [of ?s code reason now cr] by blast
  have "tx_inv (t\<lparr>s_term := True, s_rel := x\<rparr>)"
    if "t = sendCloseFrame ?s code reason now cr \<or>
        t = setReadErr (sendCloseFrame ?s code reason now cr) (Sentinel EOF)" for t x
    using that c inv' by (auto simp: tx_inv_def bufSize_def setReadErr_def split: option.splits)
  then show ?thesis using inv' by (simp add: terminate_def Let_def)
qed

lemma tx_shutdownEOF: "tx_inv s \<Longrightarrow> tx_inv (ShutdownEOF s code reason now cr)"
  unfolding ShutdownEOF_def by (rule tx_terminate) (simp add: tx_inv_def bufSize_def)

subsection \<open>The receiving side\<close>

text \<open>The buffers that hold unread data or are being filled.\<close>

definition live :: "stream \<Rightarrow> nat list" where
  "live s = (if s_pc s = RLExit then [] else [s_buf s]) @ map fst (s_dataCh s)
     @ (case s_cur s of None \<Rightarrow> [] | Some c \<Rightarrow> [fst c])"

lemma owned_live: "owned s = live s @ s_free s"
  by (simp add: owned_def live_def)

lemma live_slices:
  assumes "s_cur t = s_cur s" "s_dataCh t = s_dataCh s" "s_pc t = s_pc s" "s_buf t = s_buf s"
    and "\<forall>b \<in> set (live s). s_heap t b = s_heap s b"
  shows "curBytes t = curBytes s" "queued t = queued s" "inHand t = inHand s"
proof -
  show "curBytes t = curBytes s"
    using assms by (auto simp: curBytes_def slice_def live_def split: option.splits)
  show "queued t = queued s"
    unfolding queued_def assms(2) using assms(5)
    by (intro arg_cong [where f = concat] map_cong) (auto simp: slice_def live_def)
  show "inHand t = inHand s"
    using assms by (auto simp: inHand_def slice_def live_def split: rlpc.splits)
qed

lemma curBytes_empty: "buf_inv s \<Longrightarrow> curBytes s = [] \<longleftrightarrow> s_cur s = None"
  by (auto simp: buf_inv_def curBytes_def slice_def split: option.splits)

lemma getBuf_facts:
  assumes "buf_inv s" and "getBuf s = (b, t)"
  shows "b \<notin> set (live s)" "distinct (live s @ b # s_free t)"
    "\<forall>x \<in> set (live s @ b # s_free t). x < s_next t"
    "\<forall>x \<in> set (live s). s_heap t x = s_heap s x"
    "\<forall>x. length (s_heap t x) = bufSize s" "length (s_free t) \<le> length (s_free s)"
    "t = s\<lparr>s_free := s_free t, s_next := s_next t, s_heap := s_heap t\<rparr>"
  using assms
  by (auto simp: getBuf_def buf_inv_def owned_live bufSize_def less_Suc_eq split: list.splits)

lemma rlSend_pc: "s' \<in> set (rlSend s) \<Longrightarrow> \<exists>n. s_pc s = RLSend n"
proof (cases "s_pc s")
  case (RLSend n)
  then show ?thesis by blast
qed (simp_all add: rlSend_def)

lemma rlSend_cases:
  assumes "s' \<in> set (rlSend s)"
  obtains (enq) n b t where "s_pc s = RLSend n" "length (s_dataCh s) < s_depth s"
    "getBuf s = (b, t)"
    "s' = t\<lparr>s_dataCh := s_dataCh s @ [(s_buf s, n)], s_buf := b, s_pc := RLRead\<rparr>"
  | (stop) n where "s_pc s = RLSend n" "s_term s"
    "s' = rlExit (setReadErr s (Sentinel ErrClosed))"
proof -
  obtain n where n: "s_pc s = RLSend n" using rlSend_pc [OF assms] by blast
  obtain b t where g: "getBuf s = (b, t)" by fastforce
  then have g': "getBuf (s\<lparr>s_dataCh := q\<rparr>) = (b, t\<lparr>s_dataCh := q\<rparr>)" for q
    by (auto simp: getBuf_def bufSize_def split: list.splits)
  have "rlSend s = (if length (s_dataCh s) < s_depth s
      then [t\<lparr>s_dataCh := s_dataCh s @ [(s_buf s, n)], s_buf := b, s_pc := RLRead\<rparr>] else [])
      @ (if s_term s then [rlExit (setReadErr s (Sentinel ErrClosed))] else [])"
    unfolding rlSend_def n g' by simp
  then show thesis using assms enq [OF n _ g] stop [OF n] by (auto split: if_splits)
qed

lemma buf_rlSend:
  assumes "s' \<in> set (rlSend s)" and inv: "buf_inv s"
  shows "buf_inv s'"
  using assms(1)
proof (cases rule: rlSend_cases)
  case (enq n b t)
  note g = getBuf_facts [OF inv enq(3)]
  obtain f n' h where t: "t = s\<lparr>s_free := f, s_next := n', s_heap := h\<rparr>" using g(7) by blast
  have o: "owned s' = b # map fst (s_dataCh s) @ s_buf s #
      (case s_cur s of None \<Rightarrow> [] | Some c \<Rightarrow> [fst c]) @ s_free t"
    by (simp add: enq(4) t owned_def)
  have "distinct (owned s')" "set (owned s') = set (live s @ b # s_free t)"
    using g(2) enq(1) by (auto simp: o live_def)
  then show ?thesis using inv g enq
    by (auto simp: buf_inv_def t msg_len_ok_def bufSize_def)
next
  case (stop n)
  then show ?thesis using inv
    by (auto simp: rlExit_def setReadErr_def buf_inv_def owned_def bufSize_def msg_len_ok_def
        split: option.splits)
qed

lemma rx_rlSend:
  assumes "s' \<in> set (rlSend s)" and inv: "buf_inv s" and rx: "rx_inv s"
  shows "rx_inv s'"
  using assms(1)
proof (cases rule: rlSend_cases)
  case (enq n b t)
  note g = getBuf_facts [OF inv enq(3)]
  obtain f n' h where t: "t = s\<lparr>s_free := f, s_next := n', s_heap := h\<rparr>" using g(7) by blast
  have l: "curBytes t = curBytes s" "queued t = queued s" "inHand t = inHand s"
    by (rule live_slices; use g(4) in \<open>simp add: t\<close>)+
  have "curBytes s' = curBytes t" "queued s' = queued t @ inHand t" "inHand s' = []"
    using enq(1) by (simp_all add: enq(4) t curBytes_def queued_def inHand_def slice_def
        split: option.splits)
  with l rx show ?thesis using enq(1) by (simp add: rx_inv_def enq(4) t)
next
  case (stop n)
  have "inHand s' = []" "curBytes s' = curBytes s" "queued s' = queued s"
    "s_rx s' = s_rx s" "s_out s' = s_out s" "s_framesRead s' = s_framesRead s"
    "s_bytesRead s' = s_bytesRead s" "s_pc s' = RLExit"
    by (auto simp: stop rlExit_def setReadErr_def inHand_def curBytes_def queued_def slice_def
        split: option.splits)
  with rx show ?thesis by (auto simp: rx_inv_def)
qed

lemma putBuf_eq:
  obtains f where "putBuf s b = s\<lparr>s_free := f\<rparr>"
    "f = s_free s @ [b] \<and> length (s_free s) < s_depth s + 2 \<or> f = s_free s"
proof (cases "putBuf s b = s")
  case True
  then show thesis using that [of "s_free s"] by simp
next
  case False
  then show thesis using that [of "s_free s @ [b]"] by (simp add: putBuf_def split: if_splits)
qed

lemma readCopy_eq:
  assumes "buf_inv s" "s_cur s = Some (b, i, j)" "readCopy s len = (r, s')"
  obtains f n where "n = min len (j - i)"
    "f = s_free s @ [b] \<and> length (s_free s) < s_depth s + 2 \<or> f = s_free s"
    "r = RdOk (take len (curBytes s))" "length (curBytes s) = j - i"
    "s' = (if len < j - i
       then s\<lparr>s_cur := Some (b, i + n, j), s_bytesRead := s_bytesRead s + of_nat n,
              s_out := s_out s @ take len (curBytes s)\<rparr>
       else s\<lparr>s_cur := None, s_bytesRead := s_bytesRead s + of_nat n,
              s_out := s_out s @ take len (curBytes s), s_free := f\<rparr>)"
proof -
  have b: "i < j" "j \<le> bufSize s" "length (s_heap s b) = bufSize s"
    using assms(1,2) by (simp_all add: buf_inv_def)
  let ?d = "slice s (b, i, j)" and ?n = "min len (j - i)"
  have d: "curBytes s = ?d" by (simp add: curBytes_def assms(2))
  have l: "length ?d = j - i" using b by (simp add: slice_def)
  let ?s1 = "s\<lparr>s_cur := Some (b, i + ?n, j), s_bytesRead := s_bytesRead s + of_nat ?n,
     s_out := s_out s @ take len ?d\<rparr>"
  have n: "length (take len ?d) = ?n" using l by simp
  have cur1: "curBytes ?s1 = [] \<longleftrightarrow> \<not> len < j - i"
    using b by (auto simp: curBytes_def slice_def min_def)
  have e: "(r, s') = (RdOk (take len ?d),
      if \<not> len < j - i then (putBuf ?s1 b)\<lparr>s_cur := None\<rparr> else ?s1)"
    using assms(3) unfolding readCopy_def assms(2) by (simp only: option.case prod.case Let_def n cur1)
  obtain f where f: "putBuf ?s1 b = ?s1\<lparr>s_free := f\<rparr>"
    "f = s_free s @ [b] \<and> length (s_free s) < s_depth s + 2 \<or> f = s_free s"
    by (rule putBuf_eq [of ?s1 b]) simp
  show thesis by (rule that [of ?n f]) (use f(2) e [unfolded f(1)] d l in simp_all)
qed

lemma readCopy_frame:
  assumes "buf_inv s" "readCopy s len = (r, s')"
  shows "tx_view s' = tx_view s" "flag_view s' = flag_view s"
  using assms by (auto simp: readCopy_def Let_def putBuf_def view_defs split: option.splits if_splits)

lemma buf_readCopy:
  assumes inv: "buf_inv s" and r: "readCopy s len = (r, s')" and "0 < len"
  shows "buf_inv s'"
proof (cases "s_cur s")
  case None
  then show ?thesis using r inv by (simp add: readCopy_def)
next
  case (Some c)
  obtain b i j where c: "s_cur s = Some (b, i, j)" using Some by (cases c) auto
  have b: "HeaderSize \<le> i" "i < j" "j \<le> bufSize s" using inv c by (simp_all add: buf_inv_def)
  show ?thesis
  proof (rule readCopy_eq [OF inv c r])
    fix f n
    assume f: "f = s_free s @ [b] \<and> length (s_free s) < s_depth s + 2 \<or> f = s_free s"
      and n: "n = min len (j - i)"
      and s': "s' = (if len < j - i
       then s\<lparr>s_cur := Some (b, i + n, j), s_bytesRead := s_bytesRead s + of_nat n,
              s_out := s_out s @ take len (curBytes s)\<rparr>
       else s\<lparr>s_cur := None, s_bytesRead := s_bytesRead s + of_nat n,
              s_out := s_out s @ take len (curBytes s), s_free := f\<rparr>)"
    show ?thesis
    proof (cases "len < j - i")
      case True
      then have "owned s' = owned s" by (simp add: s' owned_def c)
      then show ?thesis using True inv c b n
        by (simp add: s' buf_inv_def bufSize_def msg_len_ok_def)
    next
      case False
      obtain A where A: "owned s = A @ b # s_free s" "owned s' = A @ f"
        using False c by (simp add: s' owned_def)
      have "distinct (A @ b # s_free s)" "length (s_free s) \<le> s_depth s + 2"
        using inv A(1) by (simp_all add: buf_inv_def)
      then have "distinct (owned s')" "set (owned s') \<subseteq> set (owned s)" "length f \<le> s_depth s + 2"
        unfolding A using f by auto
      then show ?thesis using inv c False
        by (auto simp: s' buf_inv_def bufSize_def msg_len_ok_def)
    qed
  qed
qed

lemma rx_readCopy:
  assumes inv: "buf_inv s" and rx: "rx_inv s" and r: "readCopy s len = (r, s')"
  shows "rx_inv s'" 
proof (cases "s_cur s")
  case None
  then show ?thesis using r rx by (simp add: readCopy_def)
next
  case (Some c)
  obtain b i j where c: "s_cur s = Some (b, i, j)" using Some by (cases c) auto
  show ?thesis
  proof (rule readCopy_eq [OF inv c r])
    fix f n
    assume n: "n = min len (j - i)" and l: "length (curBytes s) = j - i"
      and s': "s' = (if len < j - i
       then s\<lparr>s_cur := Some (b, i + n, j), s_bytesRead := s_bytesRead s + of_nat n,
              s_out := s_out s @ take len (curBytes s)\<rparr>
       else s\<lparr>s_cur := None, s_bytesRead := s_bytesRead s + of_nat n,
              s_out := s_out s @ take len (curBytes s), s_free := f\<rparr>)"
    have cur: "curBytes s' = drop len (curBytes s)"
      using l by (auto simp: s' n curBytes_def c slice_def drop_take min_def add.commute)
    have q: "queued s' = queued s" "inHand s' = inHand s" "s_rx s' = s_rx s" "s_pc s' = s_pc s"
      "s_framesRead s' = s_framesRead s" "s_out s' = s_out s @ take len (curBytes s)"
      "s_bytesRead s' = s_bytesRead s + of_nat n"
      by (auto simp: s' queued_def inHand_def slice_def split: rlpc.splits)
    show ?thesis using rx l n by (simp add: rx_inv_def cur q min.commute)
  qed
qed

lemma takeMsg_ok:
  assumes "buf_inv s" "rx_inv s" "s_dataCh s = m # q" "s_cur s = None"
  shows "buf_inv (takeMsg (s\<lparr>s_dataCh := q\<rparr>) m)" "rx_inv (takeMsg (s\<lparr>s_dataCh := q\<rparr>) m)"
proof -
  let ?t = "takeMsg (s\<lparr>s_dataCh := q\<rparr>) m"
  obtain P Q where o: "owned s = P @ fst m # Q @ s_free s" "owned ?t = P @ Q @ fst m # s_free s"
    using assms(3,4) by (simp add: takeMsg_def owned_def)
  have "distinct (P @ fst m # Q @ s_free s)" using assms(1) o(1) by (simp add: buf_inv_def)
  then have "distinct (owned ?t)" "set (owned ?t) = set (owned s)" unfolding o by auto
  then show "buf_inv ?t" using assms(1,3,4)
    by (simp add: buf_inv_def takeMsg_def bufSize_def msg_len_ok_def)
  have c: "curBytes s = []" "queued s = curBytes ?t @ queued ?t" "inHand ?t = inHand s"
    "s_rx ?t = s_rx s" "s_out ?t = s_out s" "s_pc ?t = s_pc s" "s_framesRead ?t = s_framesRead s"
    "s_bytesRead ?t = s_bytesRead s"
    using assms(3,4) by (simp_all add: takeMsg_def curBytes_def queued_def inHand_def slice_def
        split: rlpc.splits)
  show "rx_inv ?t" using assms(2) unfolding rx_inv_def c by simp
qed

lemma readCopy_ok:
  assumes "(r, s') = readCopy s len" "buf_inv s" "rx_inv s" "0 < len"
  shows "buf_inv s' \<and> rx_inv s' \<and> tx_view s' = tx_view s \<and> flag_view s' = flag_view s"
  using buf_readCopy [of s len r s'] rx_readCopy [of s len r s'] readCopy_frame [of s len r s'] assms
  by simp

lemma readBody_ok:
  assumes "(r, s') \<in> set (readBody q s e len)" "buf_inv s" "rx_inv s" "s_dataCh s = q" "0 < len"
  shows "buf_inv s' \<and> rx_inv s' \<and> tx_view s' = tx_view s \<and> flag_view s' = flag_view s"
  using assms
proof (induction q arbitrary: s)
  case Nil
  then show ?case
    by (auto dest!: readCopy_ok simp: readBody.simps [of "[]"] split: if_splits)
next
  case (Cons m q)
  show ?case
  proof (cases "curBytes s = [] \<and> \<not> s_closed s")
    case True
    let ?t = "takeMsg (s\<lparr>s_dataCh := q\<rparr>) m"
    have "s_cur s = None" using True Cons.prems(2) curBytes_empty by blast
    note t = takeMsg_ok [OF Cons.prems(2,3,4) this]
    have "(r, s') \<in> set (readBody q ?t e len)"
      using Cons.prems(1) True by (simp add: readBody.simps [of "m # q"])
    from Cons.IH [OF this t _ Cons.prems(5)] show ?thesis
      by (simp add: takeMsg_def view_defs)
  next
    case False
    then show ?thesis using Cons.prems
      by (auto dest!: readCopy_ok simp: readBody.simps [of "m # q"] split: if_splits)
  qed
qed

lemma Read_ok:
  assumes "(r, s') \<in> set (Read s e len)" "buf_inv s" "rx_inv s"
  shows "buf_inv s' \<and> rx_inv s' \<and> tx_view s' = tx_view s \<and> flag_view s' = flag_view s"
proof (cases "len = 0")
  case False
  then have "(r, s') \<in> set (readBody (s_dataCh s) s e len) \<or> s' = s"
    using assms(1) by (auto simp: Read_def split: if_splits)
  then show ?thesis using readBody_ok [OF _ assms(2,3) refl] False assms(2,3) by blast
qed (use assms in \<open>simp add: Read_def\<close>)

text \<open>Writing into a buffer nobody else may read leaves the received data alone.\<close>

lemma heap_update_data:
  assumes "buf_inv s" "b \<notin> set (live s) \<or> s_pc s = RLRead \<and> b = s_buf s"
  shows "curBytes (s\<lparr>s_heap := (s_heap s)(b := d)\<rparr>) = curBytes s"
    "queued (s\<lparr>s_heap := (s_heap s)(b := d)\<rparr>) = queued s"
    "inHand (s\<lparr>s_heap := (s_heap s)(b := d)\<rparr>) = inHand s"
proof -
  have "b \<notin> set (map fst (s_dataCh s)) \<and> (\<forall>c. s_cur s = Some c \<longrightarrow> b \<noteq> fst c) \<and>
      (\<forall>n. s_pc s = RLSend n \<longrightarrow> b \<noteq> s_buf s)"
  proof (cases "b \<in> set (live s)")
    case True
    then have "s_pc s = RLRead" "b = s_buf s" using assms(2) by simp_all
    moreover have "distinct (owned s)" using assms(1) by (simp add: buf_inv_def)
    ultimately show ?thesis by (auto simp: owned_def)
  qed (auto simp: live_def simp del: set_map)
  then show "curBytes (s\<lparr>s_heap := (s_heap s)(b := d)\<rparr>) = curBytes s"
    "queued (s\<lparr>s_heap := (s_heap s)(b := d)\<rparr>) = queued s"
    "inHand (s\<lparr>s_heap := (s_heap s)(b := d)\<rparr>) = inHand s"
    by (auto simp: curBytes_def queued_def inHand_def slice_def split: option.splits rlpc.splits
        intro!: arg_cong [where f = concat])
qed

lemma heap_update_ok:
  assumes "buf_inv s" "rx_inv s" "b \<notin> set (live s) \<or> s_pc s = RLRead \<and> b = s_buf s"
    and "length d = bufSize s"
  shows "buf_inv (s\<lparr>s_heap := (s_heap s)(b := d)\<rparr>)" "rx_inv (s\<lparr>s_heap := (s_heap s)(b := d)\<rparr>)"
proof -
  let ?t = "s\<lparr>s_heap := (s_heap s)(b := d)\<rparr>"
  have "owned ?t = owned s" by (simp add: owned_def)
  then show "buf_inv ?t" using assms(1,4) by (simp add: buf_inv_def bufSize_def msg_len_ok_def)
  show "rx_inv ?t" using assms(2) unfolding rx_inv_def heap_update_data [OF assms(1,3)] by simp
qed

definition stream_inv :: "stream \<Rightarrow> bool" where
  "stream_inv s \<longleftrightarrow> buf_inv s \<and> rx_inv s \<and> tx_inv s \<and> flag_inv s"

lemma stream_inv_cong:
  "rx_view s' = rx_view s \<Longrightarrow> tx_view s' = tx_view s \<Longrightarrow> flag_view s' = flag_view s \<Longrightarrow>
   stream_inv s' \<longleftrightarrow> stream_inv s"
  using buf_inv_cong [of s' s] rx_inv_cong [of s' s] tx_inv_cong [of s' s] flag_inv_cong [of s' s]
  by (simp add: stream_inv_def)

lemma deliverPong_views [simp]:
  "rx_view (deliverPong s p now) = rx_view s" "tx_view (deliverPong s p now) = tx_view s"
  "flag_view (deliverPong s p now) = flag_view s"
  by (auto simp: deliverPong_def Let_def view_defs split: option.splits)

lemma pingWait_views:
  assumes "(r, s') \<in> set (pingWait s i c)"
  shows "rx_view s' = rx_view s" "tx_view s' = tx_view s" "flag_view s' = flag_view s"
  using assms by (auto simp: pingWait_def Let_def split: option.splits if_splits)

lemma rlExit_ok:
  assumes "buf_inv s" "rx_inv s" "tx_inv s" "flag_inv s" "s_readErr s \<noteq> None"
  shows "stream_inv (rlExit s)"
proof -
  let ?t = "rlExit s"
  have "set (owned ?t) \<subseteq> set (owned s)" "distinct (owned ?t)"
    using assms(1) by (auto simp: buf_inv_def rlExit_def owned_def)
  then have "buf_inv ?t" using assms(1) by (auto simp: buf_inv_def rlExit_def bufSize_def msg_len_ok_def)
  moreover have "rx_inv ?t"
  proof -
    have c: "curBytes ?t = curBytes s" "queued ?t = queued s" "inHand ?t = []"
      "s_rx ?t = s_rx s" "s_out ?t = s_out s" "s_pc ?t = RLExit" "s_framesRead ?t = s_framesRead s"
      "s_bytesRead ?t = s_bytesRead s"
      by (simp_all add: rlExit_def curBytes_def queued_def inHand_def slice_def split: option.splits)
    show ?thesis using assms(2) unfolding rx_inv_def c by auto
  qed
  moreover have "tx_inv ?t" using assms(3) by (simp add: rlExit_def tx_inv_def bufSize_def)
  moreover have "flag_inv ?t" using assms(4,5) by (auto simp: rlExit_def flag_inv_def)
  ultimately show ?thesis by (simp add: stream_inv_def)
qed

lemma setReadErr_ok: "stream_inv s \<Longrightarrow> stream_inv (setReadErr s e)"
proof -
  assume inv: "stream_inv s"
  have "flag_inv (setReadErr s e)" using inv
    by (auto simp: stream_inv_def flag_inv_def)
  then show ?thesis using inv buf_inv_cong [of "setReadErr s e" s] rx_inv_cong [of "setReadErr s e" s]
      tx_inv_cong [of "setReadErr s e" s] by (simp add: stream_inv_def)
qed

lemma rlStop_ok: "stream_inv s \<Longrightarrow> stream_inv (rlExit (setReadErr s e))"
  by (rule rlExit_ok; use setReadErr_ok [of s e] in \<open>simp add: stream_inv_def\<close>)


lemma deliverPong_ok: "stream_inv s \<Longrightarrow> stream_inv (deliverPong s p now)"
  by (simp add: stream_inv_cong [of "deliverPong s p now" s])

text \<open>Counting a parsed frame, with the data it carries put in the read loop's hand.\<close>

lemma rx_frame_ok:
  assumes inv: "stream_inv s" and pc: "s_pc s = RLRead"
    and msg: "msg = take (length msg) (s_heap s (s_buf s))" "msg = wire t payload"
      "length msg \<le> bufSize s"
    and pc': "pc' = (if t = TypeData \<and> payload \<noteq> [] then RLSend (length msg) else pc')"
      "\<And>n. pc' = RLSend n \<Longrightarrow> t = TypeData \<and> payload \<noteq> []" "pc' \<noteq> RLExit"
      "\<And>p. pc' = RLPong p \<Longrightarrow> length p = PingSize"
  shows "stream_inv (s\<lparr>s_framesRead := s_framesRead s + 1, s_rx := s_rx s @ [msg], s_pc := pc'\<rparr>)"
    (is "stream_inv ?t")
proof -
  have l: "length msg = HeaderSize + length payload" by (simp add: msg(2) length_wire)
  have o: "owned ?t = owned s" using pc pc'(3) by (simp add: owned_def)
  have n: "msg_len_ok s n" if "pc' = RLSend n" for n
    using pc' that l msg(3) by (auto simp: msg_len_ok_def)
  have "buf_inv ?t" using inv pc'(3) pc o n
    by (auto simp: stream_inv_def buf_inv_def bufSize_def msg_len_ok_def)
  moreover have h: "inHand ?t = (if t = TypeData then payload else [])"
  proof (cases "t = TypeData \<and> payload \<noteq> []")
    case True
    then have "pc' = RLSend (length msg)" using pc'(1) by simp
    then have "inHand ?t = take (length msg - HeaderSize) (drop HeaderSize (s_heap s (s_buf s)))"
      by (simp add: inHand_def slice_def)
    also have "\<dots> = drop HeaderSize msg" by (subst (2) msg(1)) (simp add: drop_take)
    also have "\<dots> = payload" using msg(2) by (simp add: wire_def HeaderSize_def put_uint32_def)
    finally show ?thesis using True by simp
  qed (use pc'(2) in \<open>auto simp: inHand_def split: rlpc.splits\<close>)
  have "rx_inv ?t"
  proof -
    have c: "curBytes ?t = curBytes s" "queued ?t = queued s" "inHand s = []"
      using pc by (simp_all add: curBytes_def queued_def inHand_def slice_def split: option.splits)
    show ?thesis using inv pc unfolding stream_inv_def rx_inv_def c h by (auto simp: msg(2))
  qed
  moreover have "tx_inv ?t" "flag_inv ?t" using inv pc pc'(3,4)
    by (auto simp: stream_inv_def tx_inv_def flag_inv_def bufSize_def)
  ultimately show ?thesis by (simp add: stream_inv_def)
qed


lemma rlRead_ok:
  assumes inv: "stream_inv s" and pc: "s_pc s = RLRead" and r: "\<forall>m. r = Inr m \<longrightarrow> length m \<le> bufSize s"
  shows "stream_inv (rlRead s r now)"
proof (cases r)
  case (Inl e)
  then show ?thesis using rlStop_ok [OF inv] by (simp add: rlRead_def)
next
  case (Inr m)
  let ?b = "s_buf s"
  have hl: "length (s_heap s x) = bufSize s" for x using inv by (simp add: stream_inv_def buf_inv_def)
  have m: "length m \<le> bufSize s" using r Inr by simp
  let ?h = "m @ drop (length m) (s_heap s ?b)"
  have h: "go_copy (s_heap s ?b) 0 m = ?h" using m hl by (simp add: go_copy_fits)
  let ?s = "s\<lparr>s_heap := (s_heap s)(?b := ?h)\<rparr>"
  have "buf_inv ?s" "rx_inv ?s"
    by (rule heap_update_ok; use inv pc m hl in \<open>simp add: stream_inv_def\<close>)+
  then have s: "stream_inv ?s" using inv
    by (auto simp: stream_inv_def tx_inv_def flag_inv_def bufSize_def)
  have n: "min (length m) (length (s_heap ?s ?b)) = length m" using m hl by simp
  have t: "take (length m) (s_heap ?s ?b) = m" by simp
  note rl = rlRead_def [of s "Inr m" now, unfolded sum.case Let_def h n t]
  show ?thesis
  proof (cases "Parse m (int (s_maxPayload s))")
    case (Inl e)
    then show ?thesis using rlStop_ok [OF s, of e] by (simp add: Inr rl)
  next
    case P: (Inr hp)
    obtain hdr p where hp: "hp = (hdr, p)" by fastforce
    let ?t = "hdr_Type hdr"
    have w: "m = wire ?t p" "frame_ok (clampMax (int (s_maxPayload s))) ?t p"
      using Parse_sound P hp by simp_all
    note ok = rx_frame_ok [OF s _ _ w(1), of "pc'" for pc', simplified, OF pc]
    let ?u = "\<lambda>pc. ?s\<lparr>s_framesRead := s_framesRead s + 1, s_rx := s_rx s @ [m], s_pc := pc\<rparr>"
    have rd: "stream_inv (?u RLRead)" if "?t = TypeData \<longrightarrow> p = []"
      using ok [of RLRead] m that by (simp add: bufSize_def)
    have u: "?u RLRead = ?s\<lparr>s_framesRead := s_framesRead s + 1, s_rx := s_rx s @ [m]\<rparr>"
      using pc by simp
    consider "?t = TypeData" "p = []" | "?t = TypeData" "p \<noteq> []" | "?t = TypePing"
      | "?t = TypePong" | "?t \<noteq> TypeData" "?t \<noteq> TypePing" "?t \<noteq> TypePong" by blast
    then show ?thesis
    proof cases
      case 1
      then show ?thesis using rd u by (simp add: Inr rl P hp)
    next
      case 2
      then have "stream_inv (?u (RLSend (length m)))" using ok [of "RLSend (length m)"] m
        by (simp add: bufSize_def)
      then show ?thesis using 2 by (simp add: Inr rl P hp)
    next
      case 3
      then have "stream_inv (?u (RLPong p))" using ok [of "RLPong p"] m w(2)
        by (simp add: bufSize_def frame_ok_def)
      then show ?thesis using 3 by (simp add: Inr rl P hp)
    next
      case 4
      then show ?thesis using rd u deliverPong_ok by (simp add: Inr rl P hp)
    next
      case 5
      have "stream_inv (?u RLRead\<lparr>s_remoteClose := x\<rparr>)" for x
        using rd 5 stream_inv_cong [of "?u RLRead\<lparr>s_remoteClose := x\<rparr>" "?u RLRead"]
        by (simp add: view_defs)
      then show ?thesis using rd u 5 rlStop_ok
        by (simp add: Inr rl P hp split: sum.splits)
    qed
  qed
qed


lemma writeControl_views:
  assumes "(r, s') \<in> set (writeControl s t p now cr)" "length p \<le> PayloadLimit"
  shows "rx_view s' = rx_view s" "flag_view s' = flag_view s"
  using writeControl_cases [OF assms] by (auto simp: view_defs)

lemma stream_inv_rx_cong:
  assumes "stream_inv s" "rx_view s' = rx_view s" "flag_view s' = flag_view s" "tx_inv s'"
  shows "stream_inv s'"
  using assms buf_inv_cong [of s' s] rx_inv_cong [of s' s] flag_inv_cong [of s' s]
  by (simp add: stream_inv_def)

lemma control_ok:
  assumes "(r, s') \<in> set (writeControl s t p now cr)" "length p \<le> PayloadLimit" "t \<noteq> TypeData"
    "stream_inv s"
  shows "stream_inv s'"
  using stream_inv_rx_cong [OF assms(4) writeControl_views [OF assms(1,2)]]
    tx_control [OF assms(1,2,3)] assms(4) by (simp add: stream_inv_def)

lemma pcRead_ok:
  assumes inv: "stream_inv s" and pc: "s_pc s = RLPong p"
  shows "stream_inv (s\<lparr>s_pc := RLRead, s_droppedPongs := x\<rparr>)" "stream_inv (s\<lparr>s_pc := RLRead\<rparr>)"
proof -
  let ?t = "s\<lparr>s_pc := RLRead\<rparr>"
  have "owned ?t = owned s" using pc by (simp add: owned_def)
  then have "buf_inv ?t" using inv by (simp add: stream_inv_def buf_inv_def bufSize_def msg_len_ok_def)
  moreover have "curBytes ?t = curBytes s" "queued ?t = queued s" "inHand ?t = inHand s"
    using pc by (simp_all add: curBytes_def queued_def inHand_def slice_def split: option.splits)
  then have "rx_inv ?t" using inv pc by (auto simp: stream_inv_def rx_inv_def)
  moreover have "tx_inv ?t" "flag_inv ?t" using inv pc
    by (auto simp: stream_inv_def tx_inv_def flag_inv_def bufSize_def)
  ultimately show t: "stream_inv ?t" by (simp add: stream_inv_def)
  show "stream_inv (s\<lparr>s_pc := RLRead, s_droppedPongs := x\<rparr>)"
    using t stream_inv_cong [of "s\<lparr>s_pc := RLRead, s_droppedPongs := x\<rparr>" ?t] by (simp add: view_defs)
qed

lemma rlPong_ok:
  assumes inv: "stream_inv s" and s': "s' \<in> set (rlPong s now cr)"
  shows "stream_inv s'"
proof (cases "s_pc s")
  case (RLPong p)
  have l: "length p \<le> PayloadLimit"
    by (rule PingSize_le) (use inv RLPong in \<open>simp add: stream_inv_def flag_inv_def\<close>)
  from s' obtain r t where t: "(r, t) \<in> set (writeControl s TypePong p now cr)"
    and e: "s' = (case r of None \<Rightarrow> t\<lparr>s_pc := RLRead\<rparr>
      | Some e \<Rightarrow> if errors_Is e ErrControlBusy
          then t\<lparr>s_pc := RLRead, s_droppedPongs := s_droppedPongs t + 1\<rparr>
          else if errors_Is e ErrClosed then rlExit (setReadErr t (Sentinel ErrClosed))
          else rlExit (setReadErr t e))"
    unfolding rlPong_def RLPong rlpc.case by fastforce
  have t': "stream_inv t" by (rule control_ok [OF t l _ inv]) simp
  have "s_pc t = RLPong p" using writeControl_views(1) [OF t l] RLPong by (simp add: rx_view_def)
  from pcRead_ok [OF t' this] show ?thesis using rlStop_ok [OF t'] by (simp add: e split: option.splits)
qed (use s' in \<open>simp_all add: rlPong_def\<close>)

lemma awaitLoop_ok:
  assumes "awaitLoop s b dl iters = Some s'" "buf_inv s" "rx_inv s" "b \<notin> set (live s)"
  shows "buf_inv s' \<and> rx_inv s' \<and> tx_view s' = tx_view s \<and> flag_view s' = flag_view s \<and> s_free s' = s_free s
    \<and> live s' = live s \<and> s_next s' = s_next s \<and> s_depth s' = s_depth s"
  using assms
proof (induction s b dl iters rule: awaitLoop.induct)
  case (2 s b deadline amount now r iters)
  show ?case
  proof (cases "amount > 0 \<and> now < deadline")
    case True
    show ?thesis
    proof (cases r)
      case (Inl e)
      then show ?thesis using 2 True by (auto split: if_splits)
    next
      case (Inr d)
      have hl: "length (s_heap s b) = bufSize s" using 2(4) by (simp add: buf_inv_def)
      let ?d = "go_copy (s_heap s b) 0 d"
      let ?t = "s\<lparr>s_heap := (s_heap s)(b := ?d)\<rparr>"
      have ld: "length ?d = bufSize s" using hl by (simp add: length_go_copy)
      have t: "buf_inv ?t" "rx_inv ?t" by (rule heap_update_ok; use 2(4-6) ld in simp)+
      have lv: "live ?t = live s" by (simp add: live_def)
      have "awaitLoop ?t b deadline iters = Some s'" using 2(3) True Inr by simp
      from 2(2) [OF True Inr this t] show ?thesis using 2(6) lv by (auto simp: view_defs)
    qed
  next
    case False
    then show ?thesis using 2(3-) by (auto split: if_splits)
  qed
qed simp


lemma getBuf_ok:
  assumes inv: "buf_inv s" "rx_inv s" and g: "getBuf s = (b, t)"
  shows "buf_inv t" "rx_inv t" "live t = live s" "b \<notin> set (live t)" "b \<notin> set (s_free t)"
    "b < s_next t" "tx_view t = tx_view s" "flag_view t = flag_view s"
proof -
  note f = getBuf_facts [OF inv(1) g]
  obtain fr n h where t: "t = s\<lparr>s_free := fr, s_next := n, s_heap := h\<rparr>" using f(7) by blast
  have lv: "live t = live s" by (simp add: t live_def)
  have "distinct (owned t)" "\<forall>x \<in> set (owned t). x < s_next t" "length (s_free t) \<le> s_depth s + 2"
    using f(2,3,6) inv(1) by (auto simp: owned_live lv buf_inv_def)
  then show "buf_inv t" using inv(1) f(5)
    by (simp add: t buf_inv_def bufSize_def msg_len_ok_def)
  have "curBytes t = curBytes s" "queued t = queued s" "inHand t = inHand s"
    by (rule live_slices; use f(4) in \<open>simp add: t\<close>)+
  then show "rx_inv t" using inv(2) by (simp add: t rx_inv_def)
  show "live t = live s" by (rule lv)
  show "b \<notin> set (live t)" using f(1) lv by simp
  show "b \<notin> set (s_free t)" "b < s_next t" using f(2,3) by auto
  show "tx_view t = tx_view s" "flag_view t = flag_view s" by (simp_all add: t view_defs)
qed

lemma putBuf_ok:
  assumes "buf_inv s" "rx_inv s" "b \<notin> set (live s)" "b \<notin> set (s_free s)" "b < s_next s"
  shows "buf_inv (putBuf s b)" "rx_inv (putBuf s b)" "tx_view (putBuf s b) = tx_view s"
    "flag_view (putBuf s b) = flag_view s"
proof -
  obtain f where f: "putBuf s b = s\<lparr>s_free := f\<rparr>"
    "f = s_free s @ [b] \<and> length (s_free s) < s_depth s + 2 \<or> f = s_free s"
    by (rule putBuf_eq)
  have o: "owned (putBuf s b) = live s @ f" by (simp add: f(1) owned_live live_def)
  have d: "distinct (live s @ s_free s)" "\<forall>x \<in> set (live s @ s_free s). x < s_next s"
    "length (s_free s) \<le> s_depth s + 2"
    using assms(1) by (simp_all add: buf_inv_def owned_live)
  have "distinct (live s @ f)" "\<forall>x \<in> set (live s @ f). x < s_next s" "length f \<le> s_depth s + 2"
    using d f(2) assms(3-5) by auto
  then show "buf_inv (putBuf s b)" using assms(1) unfolding buf_inv_def o
    by (simp add: f(1) bufSize_def msg_len_ok_def)
  have "curBytes (putBuf s b) = curBytes s" "queued (putBuf s b) = queued s"
    "inHand (putBuf s b) = inHand s"
    by (rule live_slices; simp add: f(1))+
  then show "rx_inv (putBuf s b)" using assms(2) by (simp add: f(1) rx_inv_def)
  show "tx_view (putBuf s b) = tx_view s" "flag_view (putBuf s b) = flag_view s"
    by (simp_all add: f(1) view_defs)
qed

lemma awaitAcks_ok:
  assumes a: "awaitAcks s ba start iters = Some s'" and inv: "stream_inv s"
  shows "stream_inv s'" "flag_view s' = flag_view s"
proof -
  have "stream_inv s' \<and> flag_view s' = flag_view s"
  proof (cases ba)
    case True
    obtain b t where g: "getBuf s = (b, t)" by fastforce
    obtain u where u: "awaitLoop t b (start + drainTimeout) iters = Some u" "s' = putBuf u b"
      using a True g by (auto simp: awaitAcks_def)
    have inv': "buf_inv s" "rx_inv s" "tx_inv s" "flag_inv s" using inv by (simp_all add: stream_inv_def)
    note t = getBuf_ok [OF inv'(1,2) g]
    note u' = awaitLoop_ok [OF u(1) t(1,2,4)]
    have "b \<notin> set (live u)" "b \<notin> set (s_free u)" "b < s_next u" using u' t by simp_all
    note p = putBuf_ok [OF _ _ this, folded u(2)]
    have "tx_view s' = tx_view s" "flag_view s' = flag_view s" using p u' t by simp_all
    then show ?thesis using p(1,2) u' inv'(3,4) tx_inv_cong [of s' s] flag_inv_cong [of s' s]
      by (simp add: stream_inv_def)
  qed (use a inv in \<open>simp add: awaitAcks_def\<close>)
  then show "stream_inv s'" "flag_view s' = flag_view s" by simp_all
qed

lemma flag_ok:
  assumes "stream_inv s" "rx_view s' = rx_view s" "tx_inv s'" "flag_inv s'"
  shows "stream_inv s'"
  using assms buf_inv_cong [of s' s] rx_inv_cong [of s' s] by (simp add: stream_inv_def)

lemma releaseWait_ok: "stream_inv s \<Longrightarrow> stream_inv (releaseWait s)"
  by (rule flag_ok [of s])
     (auto simp: releaseWait_def stream_inv_def flag_inv_def tx_inv_def bufSize_def rx_view_def)

lemma releaseClose_ok: "stream_inv s \<Longrightarrow> stream_inv (releaseClose s)"
  by (rule flag_ok [of s])
     (auto simp: releaseClose_def stream_inv_def flag_inv_def tx_inv_def bufSize_def rx_view_def)

lemma releaseDrain_ok:
  assumes "stream_inv s"
  shows "stream_inv (releaseDrain s ba start iters)"
proof (cases "awaitAcks s ba start iters")
  case (Some t)
  note t = awaitAcks_ok [OF Some assms]
  show ?thesis
  proof (cases "s_rel s = RelDraining")
    case True
    then have "s_rel t = RelDraining" using t(2) by (simp add: flag_view_def)
    then have "flag_inv (t\<lparr>s_rel := RelClosing\<rparr>)" "tx_inv (t\<lparr>s_rel := RelClosing\<rparr>)"
      using t(1) by (auto simp: stream_inv_def flag_inv_def tx_inv_def bufSize_def)
    then show ?thesis using flag_ok [OF t(1), of "t\<lparr>s_rel := RelClosing\<rparr>"] True Some
      by (simp add: releaseDrain_def rx_view_def)
  qed (use assms in \<open>simp add: releaseDrain_def\<close>)
qed (use assms in \<open>simp add: releaseDrain_def\<close>)


text \<open>Local and remote termination.\<close>

lemma sendCloseFrame_views:
  "rx_view (sendCloseFrame s code reason now cr) = rx_view s"
  "flag_view (sendCloseFrame s code reason now cr) = flag_view s"
  using sendCloseFrame_cases [of s code reason now cr] by (auto simp: view_defs)

lemma terminate_eq:
  obtains (again) "s_term s"
    "terminate s code reason local now cr =
       (if local \<and> \<not> s_closed s then (setReadErr s (Sentinel ErrClosed))\<lparr>s_closed := True\<rparr> else s)"
  | (first) t where "\<not> s_term s"
    "rx_view t = rx_view s" "s_done t = s_done s" "s_dataClosed t = s_dataClosed s"
    "s_released t = s_released s" "s_rel t = s_rel s" "s_closed t = (s_closed s \<or> local)"
    "s_readErr t = Some (case s_readErr s of Some e \<Rightarrow> e | None \<Rightarrow> Sentinel (if local then ErrClosed else EOF))
     \<or> s_closed s \<and> local"
    "s_readErr s \<noteq> None \<longrightarrow> s_readErr t = s_readErr s"
    "terminate s code reason local now cr =
      t\<lparr>s_term := True, s_rel := (if local \<and> s_readErr s = None then RelWaitDone else RelClosing)\<rparr>"
proof (cases "s_term s")
  case True
  then show thesis using again by (simp add: terminate_def)
next
  case False
  let ?s = "if local \<and> \<not> s_closed s
    then (setReadErr s (Sentinel ErrClosed))\<lparr>s_closed := True\<rparr> else s"
  let ?c = "sendCloseFrame ?s code reason now cr"
  let ?t = "if \<not> local then setReadErr ?c (Sentinel EOF) else ?c"
  have e: "terminate s code reason local now cr =
      ?t\<lparr>s_term := True, s_rel := (if local \<and> s_readErr s = None then RelWaitDone else RelClosing)\<rparr>"
    using False by (simp add: terminate_def Let_def)
  have v: "rx_view ?c = rx_view ?s" "flag_view ?c = flag_view ?s" by (rule sendCloseFrame_views)+
  have vs: "rx_view ?s = rx_view s" by (simp add: rx_view_def setReadErr_def split: option.splits)
  have f: "s_done ?c = s_done ?s" "s_dataClosed ?c = s_dataClosed ?s" "s_released ?c = s_released ?s"
    "s_rel ?c = s_rel ?s" "s_closed ?c = s_closed ?s" "s_readErr ?c = s_readErr ?s"
    using v(2) by (simp_all only: flag_view_def prod.inject)
  show thesis
  proof (rule first [OF False _ _ _ _ _ _ _ _ e])
    show "rx_view ?t = rx_view s" using v(1) vs by (cases "local") simp_all
  qed (use f in \<open>auto split: if_splits option.splits\<close>)
qed

lemma terminate_ok:
  assumes inv: "stream_inv s"
  shows "stream_inv (terminate s code reason local now cr)"
proof -
  have fl: "flag_inv s" "tx_inv s" using inv by (simp_all add: stream_inv_def)
  note tx = tx_terminate [OF fl(2), of code reason local now cr]
  show ?thesis
  proof (rule terminate_eq [of s code reason local now cr])
    assume "s_term s" and e: "terminate s code reason local now cr =
       (if local \<and> \<not> s_closed s then (setReadErr s (Sentinel ErrClosed))\<lparr>s_closed := True\<rparr> else s)"
    have "flag_inv (terminate s code reason local now cr)"
      using fl(1) \<open>s_term s\<close> by (auto simp: e flag_inv_def)
    then show ?thesis using flag_ok [OF inv _ tx]
      by (simp add: e rx_view_def setReadErr_def split: option.splits)
  next
    fix t
    assume e: "terminate s code reason local now cr =
      t\<lparr>s_term := True, s_rel := (if local \<and> s_readErr s = None then RelWaitDone else RelClosing)\<rparr>"
      and t: "\<not> s_term s" "rx_view t = rx_view s" "s_done t = s_done s" "s_dataClosed t = s_dataClosed s"
        "s_released t = s_released s" "s_rel t = s_rel s"
        "s_readErr t = Some (case s_readErr s of Some e \<Rightarrow> e | None \<Rightarrow> Sentinel (if local then ErrClosed else EOF))
         \<or> s_closed s \<and> local"
    have "s_pc t = s_pc s" using t(2) by (simp add: rx_view_def)
    then have "flag_inv (terminate s code reason local now cr)"
      using fl(1) t by (auto simp: e flag_inv_def)
    moreover have "rx_view (terminate s code reason local now cr) = rx_view s"
      using t(2) by (simp add: e rx_view_def)
    ultimately show ?thesis using flag_ok [OF inv _ tx] by simp
  qed
qed

lemma shutdownEOF_ok: "stream_inv s \<Longrightarrow> stream_inv (ShutdownEOF s code reason now cr)"
  unfolding ShutdownEOF_def
  by (rule terminate_ok, rule flag_ok [of s])
     (auto simp: stream_inv_def flag_inv_def tx_inv_def bufSize_def rx_view_def)

lemma new_ok: "stream_inv (NewStream m b)"
proof -
  have "0 < streamMaxPayload m" "streamMaxPayload m \<le> PayloadLimit" "0 < streamDepth b (streamMaxPayload m)"
    by (auto simp: streamMaxPayload_def streamDepth_def Let_def PayloadLimit_def)
  then show ?thesis
    by (simp add: NewStream_def Let_def stream_inv_def buf_inv_def rx_inv_def tx_inv_def flag_inv_def
        owned_def bufSize_def msg_len_ok_def curBytes_def queued_def inHand_def)
qed

lemma step_ok: "stream_step s s' \<Longrightarrow> stream_inv s \<Longrightarrow> stream_inv s'"
proof (induction rule: stream_step.induct)
  case (st_read r s' s e len)
  then have "stream_inv s' = stream_inv s"
    using Read_ok [OF st_read(1)] tx_inv_cong [of s' s] flag_inv_cong [of s' s]
    by (simp add: stream_inv_def)
  then show ?case using st_read(2) by simp
next
  case (st_writeBegin r s' s e p)
  have "rx_view s' = rx_view s \<and> flag_view s' = flag_view s"
    using st_writeBegin(1) by (auto simp: writeBegin_def view_defs split: if_splits option.splits)
  then show ?case using stream_inv_rx_cong [OF st_writeBegin(2)] tx_writeBegin [OF st_writeBegin(1)]
      st_writeBegin(2) by (simp add: stream_inv_def)
next
  case (st_writeFrame s cr)
  then have i: "tx_inv s" "s_maxPayload s \<le> PayloadLimit" "length (s_wbuf s) = bufSize s"
    by (simp_all add: stream_inv_def buf_inv_def tx_inv_def)
  obtain p w where w: "s_wjob s = Some (p, w)" using st_writeFrame(1) by auto
  have "rx_view (snd (writeFrame s cr)) = rx_view s \<and> flag_view (snd (writeFrame s cr)) = flag_view s"
    by (rule writeFrame_cases [OF w i(2,3), of cr]) (simp_all add: afterFrame_def Let_def view_defs)
  then show ?case using stream_inv_rx_cong [OF st_writeFrame(2)] tx_writeFrame [OF st_writeFrame(1) i(1,2)]
    by simp
next
  case (st_pingBegin r s' s rnd now cr)
  have tx: "tx_inv s'" using tx_pingBegin [OF st_pingBegin(1,2)] st_pingBegin(3) by (simp add: stream_inv_def)
  have "rx_view s' = rx_view s \<and> flag_view s' = flag_view s"
    using pingBegin_cases [OF st_pingBegin(1,2)]
  proof (elim disjE exE conjE)
    fix i pd t r' n
    assume n: "length n = PingSize" and
      t: "(r', t) \<in> set (writeControl (s\<lparr>s_pingId := i + 1, s_pending := pd\<rparr>) TypePing n now cr)"
      and e: "s' = t"
    show ?thesis using writeControl_views [OF t PingSize_le [OF n]] e by (simp add: view_defs)
  next
    fix i pd t r' n
    assume n: "length n = PingSize" and
      t: "(r', t) \<in> set (writeControl (s\<lparr>s_pingId := i + 1, s_pending := pd\<rparr>) TypePing n now cr)"
      and e: "s' = clearPing t i"
    show ?thesis using writeControl_views [OF t PingSize_le [OF n]] clearPing_views [of t i] e
      by (simp add: view_defs)
  qed simp
  then show ?case using stream_inv_rx_cong [OF st_pingBegin(3) _ _ tx] by simp
next
  case (st_pingWait r s' s i c)
  then show ?case using stream_inv_cong [OF pingWait_views [OF st_pingWait(1)]] by simp
next
  case (st_setReadDl s t)
  then show ?case
    using stream_inv_cong [of "s\<lparr>s_readDl := t\<rparr>" s] by (simp add: SetReadDeadline_def view_defs)
next
  case (st_setWriteDl s t e)
  then show ?case using stream_inv_rx_cong [OF st_setWriteDl, of "snd (SetWriteDeadline s t e)"]
      tx_setWriteDl [of s t e]
    by (simp add: SetWriteDeadline_def view_defs stream_inv_def)
next
  case (st_rlSend s' s)
  have i: "buf_inv s" "rx_inv s" "tx_inv s" "flag_inv s" using st_rlSend(2) by (simp_all add: stream_inv_def)
  from st_rlSend(1) show ?case
  proof (cases rule: rlSend_cases)
    case (enq n b t)
    have "tx_view t = tx_view s" "flag_view t = flag_view s" using getBuf_ok [OF i(1,2) enq(3)] by simp_all
    then have "tx_view s' = tx_view s" "flag_view s' = flag_view (s\<lparr>s_pc := RLRead\<rparr>)"
      by (simp_all add: enq(4) view_defs)
    moreover have "flag_inv (s\<lparr>s_pc := RLRead\<rparr>)" using i(4) enq(1) by (auto simp: flag_inv_def)
    ultimately show ?thesis using buf_rlSend [OF st_rlSend(1) i(1)] rx_rlSend [OF st_rlSend(1) i(1,2)]
        i(3) tx_inv_cong [of s' s] flag_inv_cong [of s' "s\<lparr>s_pc := RLRead\<rparr>"]
      by (simp add: stream_inv_def)
  next
    case (stop n)
    then show ?thesis using rlStop_ok [OF st_rlSend(2)] by simp
  qed
qed (simp_all add: terminate_ok shutdownEOF_ok releaseWait_ok releaseDrain_ok releaseClose_ok rlRead_ok
      rlPong_ok)

lemma reach_inv: "stream_reach s \<Longrightarrow> stream_inv s"
  by (induction rule: stream_reach.induct) (auto intro: new_ok step_ok)

end
