(* ===== verification/Stream_Correct.thy ===== *)
theory Stream_Correct
  imports Stream_Inv
begin

text \<open>
  What the byte stream promises its callers, proved from the invariants of
  \<open>Stream_Inv\<close>: the receiver reads a prefix of what the sender committed, a write is split into
  contiguous frames and reports exactly what it committed, reads drain the queue in order before
  they report the terminal condition, receive buffers never alias and stay bounded, the
  life-cycle only moves forward, and a probe is completed by its own nonce only.
\<close>

subsection \<open>A reliable ordered channel between two streams\<close>

text \<open>
  What one direction of a connection relies on: \<open>carried\<close> reads the application bytes off a
  sequence of messages, the sender accounts for what it sent, the receiver hands out what it
  received and holds the rest.
\<close>

locale message_pipe =
  fixes carried :: "'m list \<Rightarrow> 'b list"
    and sender :: "'s \<Rightarrow> bool" and sent :: "'s \<Rightarrow> 'm list" and committed :: "'s \<Rightarrow> 'b list"
    and receiver :: "'r \<Rightarrow> bool" and received :: "'r \<Rightarrow> 'm list" and delivered :: "'r \<Rightarrow> 'b list"
    and unread :: "'r \<Rightarrow> 'b list" and running :: "'r \<Rightarrow> bool"
  assumes carried_append: "carried (xs @ ys) = carried xs @ carried ys"
    and sender_accounts: "sender s \<Longrightarrow> carried (sent s) = committed s"
    and receiver_accounts: "receiver r \<Longrightarrow> prefix (delivered r @ unread r) (carried (received r))"
    and receiver_complete: "receiver r \<Longrightarrow> running r \<Longrightarrow> delivered r @ unread r = carried (received r)"
begin

lemma delivered_prefix:
  assumes "sender s" "receiver r" "prefix (received r) (sent s)"
  shows "prefix (delivered r @ unread r) (committed s)"
proof -
  obtain zs where "sent s = received r @ zs" using assms(3) by (auto simp: prefix_def)
  then have "committed s = carried (received r) @ carried zs"
    using sender_accounts [OF assms(1)] carried_append by metis
  then show ?thesis using receiver_accounts [OF assms(2)] by (auto simp: prefix_def)
qed

lemma delivered_all:
  assumes "sender s" "receiver r" "received r = sent s" "running r"
  shows "delivered r @ unread r = committed s"
  using sender_accounts [OF assms(1)] receiver_complete [OF assms(2,4)] assms(3) by simp

end

definition unread :: "stream \<Rightarrow> bytes" where
  "unread s = curBytes s @ queued s @ inHand s"

interpretation sp: message_pipe data_of stream_reach s_sent s_committed stream_reach s_rx s_out unread
  "\<lambda>r. s_pc r \<noteq> RLExit"
proof
  fix s assume "stream_reach s"
  then have i: "stream_inv s" by (rule reach_inv)
  then show "data_of (s_sent s) = s_committed s" by (simp add: stream_inv_def tx_inv_def)
  obtain lost where l: "data_of (s_rx s) = s_out s @ unread s @ lost" "lost \<noteq> [] \<longrightarrow> s_pc s = RLExit"
    using i by (auto simp: stream_inv_def rx_inv_def unread_def)
  then show "prefix (s_out s @ unread s) (data_of (s_rx s))" by simp
  show "s_out s @ unread s = data_of (s_rx s)" if "s_pc s \<noteq> RLExit" using l that by simp
qed simp

subsection \<open>Splitting a write into frames\<close>

fun chunks :: "nat \<Rightarrow> 'a list \<Rightarrow> 'a list list" where
  "chunks m p = (if p = [] \<or> m = 0 then [] else take m p # chunks m (drop m p))"

declare chunks.simps [simp del]

lemma concat_chunks: "0 < m \<Longrightarrow> concat (chunks m p) = p"
  by (induction m p rule: chunks.induct) (subst chunks.simps, simp)

lemma chunk_bounds: "c \<in> set (chunks m p) \<Longrightarrow> 0 < length c \<and> length c \<le> m"
proof (induction m p rule: chunks.induct)
  case (1 m p)
  then show ?case by (subst (asm) (2) chunks.simps) (auto split: if_splits)
qed

text \<open>The channel accepted the whole frame that carries \<open>c\<close>.\<close>

definition accepted :: "bytes \<Rightarrow> chres" where
  "accepted c = (None, HeaderSize + length c, None)"

lemma writeFrame_accepted:
  assumes "s_wjob s = Some (p, w)" "s_maxPayload s \<le> PayloadLimit" "length (s_wbuf s) = bufSize s"
  shows "writeFrame s (accepted (nextChunk s p)) =
    ((if drop (length (nextChunk s p)) p = [] then Some (w + length (nextChunk s p), None) else None),
     afterFrame s p w)"
proof -
  let ?c = "nextChunk s p"
  have c: "(if length p > s_maxPayload s then take (s_maxPayload s) p else p) = ?c"
    by (simp add: nextChunk_def)
  have e: "Encode (s_wbuf s) TypeData ?c = Inr (wire TypeData ?c)"
    by (rule Encode_wire) (use assms in \<open>simp_all add: nextChunk_def bufSize_def\<close>)
  show ?thesis
    by (simp add: writeFrame_def assms(1) c e writeMessage_def accepted_def length_wire Let_def afterFrame_def)
qed

text \<open>What a sender looks like to the peer and to the caller.\<close>

definition sent_more :: "stream \<Rightarrow> bytes list \<Rightarrow> stream \<Rightarrow> bool" where
  "sent_more s cs s' \<longleftrightarrow>
     s_sent s' = s_sent s @ map (wire TypeData) cs \<and> s_committed s' = s_committed s @ concat cs \<and>
     s_maxPayload s' = s_maxPayload s \<and> length (s_wbuf s') = length (s_wbuf s) \<and>
     flag_view s' = flag_view s \<and> rx_view s' = rx_view s"

lemma sent_more_trans: "sent_more s cs t \<Longrightarrow> sent_more t ds u \<Longrightarrow> sent_more s (cs @ ds) u"
  by (simp add: sent_more_def)

lemma sent_more_afterFrame:
  assumes "length (s_wbuf s) = bufSize s"
  shows "sent_more s [nextChunk s p] (afterFrame s p w)"
  using assms by (simp add: sent_more_def afterFrame_def Let_def view_defs length_wire nextChunk_def bufSize_def)

lemma afterFrame_wjob:
  "s_wjob (afterFrame s p w) = (if drop (s_maxPayload s) p = [] then None
     else Some (drop (s_maxPayload s) p, w + s_maxPayload s))"
  by (auto simp: afterFrame_def Let_def nextChunk_def min_def)

lemma writeRun_accepted:
  assumes "s_wjob s = Some (p, w)" "p \<noteq> []" "0 < s_maxPayload s" "s_maxPayload s \<le> PayloadLimit"
    "length (s_wbuf s) = bufSize s"
  shows "\<exists>s'. writeRun s (map accepted (chunks (s_maxPayload s) p) @ rest) = (Some (w + length p, None), s') \<and>
    sent_more s (chunks (s_maxPayload s) p) s' \<and> s_wjob s' = None"
  using assms
proof (induction "s_maxPayload s" p arbitrary: s w rule: chunks.induct)
  case (1 p)
  let ?m = "s_maxPayload s" and ?t = "afterFrame s p w"
  have c: "chunks ?m p = nextChunk s p # chunks ?m (drop ?m p)"
    using 1(3,4) by (subst chunks.simps) (simp add: nextChunk_def)
  note wf = writeFrame_accepted [OF 1(2,5,6)]
  note sm = sent_more_afterFrame [OF 1(6), of p w]
  show ?case
  proof (cases "drop ?m p = []")
    case True
    have "chunks ?m (drop ?m p) = []" using True by (subst chunks.simps) simp
    then show ?thesis using wf sm True afterFrame_wjob [of s p w] by (simp add: c nextChunk_def)
  next
    case False
    have l: "length (nextChunk s p) = ?m" "drop (length (nextChunk s p)) p = drop ?m p"
      using False by (auto simp: nextChunk_def)
    have t: "s_maxPayload ?t = ?m" "length (s_wbuf ?t) = bufSize ?t"
      "s_wjob ?t = Some (drop ?m p, w + ?m)"
      using sm 1(6) False afterFrame_wjob [of s p w] by (simp_all add: sent_more_def bufSize_def)
    have "\<exists>s'. writeRun ?t (map accepted (chunks (s_maxPayload ?t) (drop ?m p)) @ rest) =
        (Some (w + ?m + length (drop ?m p), None), s') \<and>
        sent_more ?t (chunks (s_maxPayload ?t) (drop ?m p)) s' \<and> s_wjob s' = None"
      by (rule 1(1)) (use 1(3-5) t False in simp_all)
    then obtain s' where s': "writeRun ?t (map accepted (chunks ?m (drop ?m p)) @ rest) =
        (Some (w + ?m + length (drop ?m p), None), s')"
      "sent_more ?t (chunks ?m (drop ?m p)) s'" "s_wjob s' = None" using t(1) by auto
    have "w + ?m + length (drop ?m p) = w + length p" using False by simp
    moreover have "sent_more s (nextChunk s p # chunks ?m (drop ?m p)) s'"
      using sent_more_trans [OF sm s'(2)] by simp
    ultimately show ?thesis using s' wf False l by (simp add: c)
  qed
qed

text \<open>Whatever the channel answers, the count a finished write reports is what it committed.\<close>

lemma writeRun_partial:
  assumes "writeRun s crs = (Some (n, e), s')" "s_wjob s = Some (p, w)" "p \<noteq> []"
    "0 < s_maxPayload s" "s_maxPayload s \<le> PayloadLimit" "length (s_wbuf s) = bufSize s"
  shows "w \<le> n \<and> n - w \<le> length p \<and> s_committed s' = s_committed s @ take (n - w) p \<and>
    (e = None \<longleftrightarrow> n - w = length p) \<and> s_wjob s' = None"
  using assms
proof (induction crs arbitrary: s p w)
  case (Cons cr crs)
  let ?m = "s_maxPayload s" and ?t = "afterFrame s p w"
  note sm = sent_more_afterFrame [OF Cons.prems(6), of p w]
  show ?case
  proof (rule writeFrame_cases [OF Cons.prems(2,5,6), of cr])
    fix x assume "writeFrame s cr = (Some (w, Some x),
      s\<lparr>s_wbuf := wire TypeData (nextChunk s p) @ drop (length (wire TypeData (nextChunk s p))) (s_wbuf s),
        s_chWall := s_wall s, s_wjob := None\<rparr>)"
    then show ?thesis using Cons.prems(1,3) by auto
  next
    assume f: "writeFrame s cr = ((if drop (length (nextChunk s p)) p = []
      then Some (w + length (nextChunk s p), None) else None), afterFrame s p w)"
    show ?thesis
    proof (cases "drop ?m p = []")
      case True
      then have "nextChunk s p = p" by (simp add: nextChunk_def)
      then show ?thesis using Cons.prems(1) f sm True afterFrame_wjob [of s p w]
        by (auto simp: sent_more_def)
    next
      case False
      have l: "length (nextChunk s p) = ?m" "drop (length (nextChunk s p)) p = drop ?m p"
        using False by (auto simp: nextChunk_def)
      have t: "s_maxPayload ?t = ?m" "length (s_wbuf ?t) = bufSize ?t"
        "s_wjob ?t = Some (drop ?m p, w + ?m)" "s_committed ?t = s_committed s @ take ?m p"
        using sm Cons.prems(6) False afterFrame_wjob [of s p w]
        by (simp_all add: sent_more_def bufSize_def nextChunk_def)
      have r: "writeRun ?t crs = (Some (n, e), s')" using Cons.prems(1) f False l by simp
      have "w + ?m \<le> n \<and> n - (w + ?m) \<le> length (drop ?m p) \<and>
          s_committed s' = s_committed ?t @ take (n - (w + ?m)) (drop ?m p) \<and>
          (e = None \<longleftrightarrow> n - (w + ?m) = length (drop ?m p)) \<and> s_wjob s' = None"
        by (rule Cons.IH [OF r t(3)]) (use False Cons.prems t in simp_all)
      moreover from this have "take (n - w) p = take ?m p @ take (n - (w + ?m)) (drop ?m p)"
        by (metis add_diff_cancel_left' add_diff_assoc2 diff_diff_left le_add_diff_inverse take_add
            add_leD1 add.commute le_diff_conv2 add_leD2)
      ultimately show ?thesis using False t(4) by auto
    qed
  qed
qed simp


lemma writeRun_reach: "stream_reach s \<Longrightarrow> stream_reach (snd (writeRun s crs))"
proof (induction crs arbitrary: s)
  case (Cons cr crs)
  have "stream_reach (snd (writeFrame s cr))"
  proof (cases "s_wjob s")
    case (Some x)
    then show ?thesis by (intro reach_step [OF Cons.prems] st_writeFrame) simp
  qed (use Cons.prems in \<open>simp add: writeFrame_def\<close>)
  then show ?case using Cons.IH by (auto split: prod.splits option.splits)
qed simp

lemma reach_facts:
  assumes "stream_reach s"
  shows "0 < s_maxPayload s" "s_maxPayload s \<le> PayloadLimit" "length (s_wbuf s) = bufSize s"
  using reach_inv [OF assms] by (simp_all add: stream_inv_def buf_inv_def tx_inv_def)

subsection \<open>A concrete transfer\<close>

text \<open>One write of five bytes, in two frames; the peer has received both and read three bytes.\<close>

definition ex_new :: stream where
  "ex_new = NewStream 4 8"

definition ex_sender :: stream where
  "ex_sender = snd (writeRun (snd (hd (writeBegin ex_new False [7, 8, 9, 10, 11])))
     (map accepted (chunks 4 [7, 8, 9, 10, 11])))"

definition ex_receiver :: stream where
  "ex_receiver =
     (let r1 = rlRead ex_new (Inr (wire TypeData [7, 8, 9, 10])) 0;
          r2 = hd (rlSend r1);
          r3 = rlRead r2 (Inr (wire TypeData [11])) 0
      in snd (hd (Read r3 False 3)))"

lemma ex_new_eq [simp]:
  "s_maxPayload ex_new = 4" "s_depth ex_new = 2" "s_wjob ex_new = None" "s_sent ex_new = []"
  "s_committed ex_new = []" "s_closed ex_new = False" "s_term ex_new = False" "s_done ex_new = False"
  "s_rx ex_new = []" "s_out ex_new = []" "s_pc ex_new = RLRead" "s_dataCh ex_new = []"
  "s_buf ex_new = 0" "s_cur ex_new = None" "s_free ex_new = []" "s_next ex_new = 1"
  "s_heap ex_new b = replicate 12 0" "s_wbuf ex_new = replicate 12 0"
  by (simp_all add: ex_new_def NewStream_def Let_def streamMaxPayload_def streamDepth_def PayloadLimit_def
      HeaderSize_def)

lemma ex_new_reach: "stream_reach ex_new"
  by (simp add: ex_new_def reach_new)

lemma ex_begin: "writeBegin ex_new False p = (if p = [] then [(Some (0, None), ex_new)]
    else [(None, ex_new\<lparr>s_wjob := Some (p, 0)\<rparr>)])"
  by (simp add: writeBegin_def writable_def)

lemma ex_sender_facts:
  "stream_reach ex_sender" "s_sent ex_sender = [wire TypeData [7, 8, 9, 10], wire TypeData [11]]"
  "s_committed ex_sender = [7, 8, 9, 10, 11]"
proof -
  let ?p = "[7, 8, 9, 10, 11] :: bytes"
  let ?s = "ex_new\<lparr>s_wjob := Some (?p, 0)\<rparr>"
  have "stream_reach ?s"
    by (rule reach_step [OF ex_new_reach], rule st_writeBegin [where expired = False and p = ?p and r = None])
       (simp add: ex_begin)
  then show "stream_reach ex_sender" unfolding ex_sender_def ex_begin by (auto intro: writeRun_reach)
  have c: "chunks 4 ?p = [[7, 8, 9, 10], [11]]" by (simp add: chunks.simps)
  have "\<exists>s'. writeRun ?s (map accepted (chunks (s_maxPayload ?s) ?p) @ []) = (Some (0 + length ?p, None), s') \<and>
    sent_more ?s (chunks (s_maxPayload ?s) ?p) s' \<and> s_wjob s' = None"
    by (rule writeRun_accepted) (simp_all add: bufSize_def HeaderSize_def PayloadLimit_def)
  then have "sent_more ?s (chunks 4 ?p) ex_sender"
    by (auto simp: ex_sender_def ex_begin)
  then show "s_sent ex_sender = [wire TypeData [7, 8, 9, 10], wire TypeData [11]]"
    "s_committed ex_sender = [7, 8, 9, 10, 11]"
    by (simp_all add: sent_more_def c)
qed

lemma rlRead_data:
  assumes "p \<noteq> []" "length p \<le> s_maxPayload s" "s_maxPayload s \<le> PayloadLimit"
    "length (s_heap s (s_buf s)) = bufSize s"
  shows "rlRead s (Inr (wire TypeData p)) now =
    s\<lparr>s_heap := (s_heap s)(s_buf s := wire TypeData p @ drop (HeaderSize + length p) (s_heap s (s_buf s))),
      s_framesRead := s_framesRead s + 1, s_rx := s_rx s @ [wire TypeData p],
      s_pc := RLSend (HeaderSize + length p)\<rparr>"
proof -
  have f: "frame_ok (clampMax (int (s_maxPayload s))) TypeData p"
    using assms(2,3) by (simp add: frame_ok_def clampMax_def Type_valid_def TypeData_def TypePing_def
        TypePong_def TypeClose_def)
  have g: "go_copy (s_heap s (s_buf s)) 0 (wire TypeData p) =
      wire TypeData p @ drop (HeaderSize + length p) (s_heap s (s_buf s))"
    using assms(2,4) by (simp add: go_copy_fits length_wire bufSize_def)
  show ?thesis using assms by (simp add: rlRead_def Let_def g length_wire Parse_wire [OF f] bufSize_def min_def)
qed

lemma ex_receiver_facts:
  "stream_reach ex_receiver" "s_rx ex_receiver = [wire TypeData [7, 8, 9, 10], wire TypeData [11]]"
  "s_pc ex_receiver = RLSend 9" "s_out ex_receiver = [7, 8, 9]" "unread ex_receiver = [10, 11]"
  "curBytes ex_receiver = [10]" "queued ex_receiver = []" "\<not> s_closed ex_receiver"
proof -
  let ?r1 = "rlRead ex_new (Inr (wire TypeData [7, 8, 9, 10])) 0"
  let ?r2 = "hd (rlSend ?r1)"
  let ?r3 = "rlRead ?r2 (Inr (wire TypeData [11])) 0"
  note c = HeaderSize_def PayloadLimit_def bufSize_def
  have r1: "?r1 = ex_new\<lparr>s_heap := (s_heap ex_new)(0 := wire TypeData [7, 8, 9, 10]),
      s_framesRead := s_framesRead ex_new + 1, s_rx := [wire TypeData [7, 8, 9, 10]], s_pc := RLSend 12\<rparr>"
    by (subst rlRead_data) (simp_all add: c)
  have e2: "rlSend ?r1 = [ex_new\<lparr>s_heap := (s_heap ex_new)(0 := wire TypeData [7, 8, 9, 10], 1 := replicate 12 0),
      s_framesRead := s_framesRead ex_new + 1, s_rx := [wire TypeData [7, 8, 9, 10]], s_next := 2,
      s_dataCh := [(0, 12)], s_buf := 1, s_pc := RLRead\<rparr>]" (is "_ = [?x2]")
    unfolding r1 by (simp add: rlSend_def getBuf_def c)
  have r3: "?r3 = ?x2\<lparr>s_heap := (s_heap ?x2)(1 := wire TypeData [11] @ replicate 3 0),
      s_framesRead := s_framesRead ?x2 + 1, s_rx := s_rx ?x2 @ [wire TypeData [11]], s_pc := RLSend 9\<rparr>"
    unfolding e2 by (simp, subst rlRead_data) (simp_all add: c)
  have "stream_reach ?r1" by (rule reach_step [OF ex_new_reach st_rlRead]) (simp_all add: c length_wire)
  then have "stream_reach ?r2" by (rule reach_step [OF _ st_rlSend]) (simp add: e2)
  then have r: "stream_reach ?r3" by (rule reach_step [OF _ st_rlRead]) (simp_all add: e2 c length_wire)
  have e4: "Read ?r3 False 3 = [(RdOk [7, 8, 9], ?r3\<lparr>s_dataCh := [], s_cur := Some (0, 11, 12),
      s_bytesRead := s_bytesRead ?r3 + 3, s_out := [7, 8, 9]\<rparr>)]"
    unfolding r3
    by (simp add: Read_def readBody.simps curBytes_def slice_def takeMsg_def readCopy_def Let_def c
        wire_def put_uint32_def)
  show "stream_reach ex_receiver" unfolding ex_receiver_def Let_def
    by (rule reach_step [OF r st_read [where r = "RdOk [7, 8, 9]" and expired = False and len = 3]])
       (simp add: e4)
  have x: "ex_receiver = ?r3\<lparr>s_dataCh := [], s_cur := Some (0, 11, 12),
      s_bytesRead := s_bytesRead ?r3 + 3, s_out := [7, 8, 9]\<rparr>"
    unfolding ex_receiver_def Let_def e4 by simp
  show "s_rx ex_receiver = [wire TypeData [7, 8, 9, 10], wire TypeData [11]]"
    "s_pc ex_receiver = RLSend 9" "s_out ex_receiver = [7, 8, 9]" unfolding x r3 by simp_all
  show "\<not> s_closed ex_receiver" unfolding x r3 by simp
  show "unread ex_receiver = [10, 11]" "curBytes ex_receiver = [10]" "queued ex_receiver = []" unfolding x r3
    by (simp_all add: unread_def curBytes_def slice_def queued_def inHand_def c wire_def put_uint32_def)
qed

subsection \<open>End to end\<close>

text \<open>C1: Byte-stream integrity. Over a channel that delivers the messages it accepted in order
  (what was received is a prefix of what was sent), whatever the interleaving of reads, writes,
  probes and closes at both ends: the bytes \<open>Read\<close> returned, followed by the unread ones, are a
  prefix of the bytes \<open>Write\<close> committed; and they are all of them when everything sent has been
  received and the read loop is still running.\<close>

theorem stream_integrity:
  assumes "stream_reach s" "stream_reach r" "prefix (s_rx r) (s_sent s)"
  shows "prefix (s_out r @ unread r) (s_committed s) \<and>
    (s_rx r = s_sent s \<longrightarrow> s_pc r \<noteq> RLExit \<longrightarrow> s_out r @ unread r = s_committed s)"
  using sp.delivered_prefix [OF assms] sp.delivered_all [OF assms(1,2)] by simp

theorem stream_integrity_witness:
  "s_out ex_receiver = [7, 8, 9] \<and> s_out ex_receiver @ unread ex_receiver = s_committed ex_sender"
  using stream_integrity [OF ex_sender_facts(1) ex_receiver_facts(1)]
  by (simp add: ex_sender_facts ex_receiver_facts)

text \<open>C2: A write is one contiguous run of frames. A write of \<open>p\<close> that acquires the write lock sends,
  when the channel accepts every message, exactly the frames of the \<open>maxPayload\<close>-sized pieces of \<open>p\<close> in
  order, and reports \<open>length p\<close>. Whatever the channel answers, a finished write has committed
  exactly the first \<open>n\<close> bytes for the \<open>n\<close> it reports, and reports no error exactly when it committed
  all of \<open>p\<close>.\<close>

theorem write_commits:
  assumes "stream_reach s" "p \<noteq> []" "s_wjob s = None" "writable s = None"
  shows "\<exists>s1. writeBegin s False p = [(None, s1)] \<and>
    (\<exists>s2. writeRun s1 (map accepted (chunks (s_maxPayload s) p)) = (Some (length p, None), s2) \<and>
       s_sent s2 = s_sent s @ map (wire TypeData) (chunks (s_maxPayload s) p) \<and>
       s_committed s2 = s_committed s @ p) \<and>
    (\<forall>crs n e s2. writeRun s1 crs = (Some (n, e), s2) \<longrightarrow>
       n \<le> length p \<and> s_committed s2 = s_committed s @ take n p \<and> (e = None \<longleftrightarrow> n = length p))"
proof -
  let ?s1 = "s\<lparr>s_wjob := Some (p, 0)\<rparr>"
  note f = reach_facts [OF assms(1)]
  have f1: "0 < s_maxPayload ?s1" "s_maxPayload ?s1 \<le> PayloadLimit" "length (s_wbuf ?s1) = bufSize ?s1"
    "s_wjob ?s1 = Some (p, 0)" using f by (simp_all add: bufSize_def)
  have "\<not> s_closed s" "\<not> s_term s" using assms(4) by (auto simp: writable_def split: if_splits)
  then have b: "writeBegin s False p = [(None, ?s1)]" using assms by (simp add: writeBegin_def)
  obtain s2 where "writeRun ?s1 (map accepted (chunks (s_maxPayload s) p)) = (Some (length p, None), s2)"
    "sent_more ?s1 (chunks (s_maxPayload s) p) s2"
    using writeRun_accepted [OF f1(4) assms(2) f1(1-3), of "[]"] by auto
  moreover have "n \<le> length p \<and> s_committed s2 = s_committed s @ take n p \<and> (e = None \<longleftrightarrow> n = length p)"
    if "writeRun ?s1 crs = (Some (n, e), s2)" for crs n e s2
    using writeRun_partial [OF that f1(4) assms(2) f1(1-3)] by simp
  ultimately show ?thesis using b concat_chunks [OF f(1), of p] by (auto simp: sent_more_def)
qed

theorem write_commits_witness:
  "\<exists>s1 s2. writeBegin ex_new False [7, 8, 9, 10, 11] = [(None, s1)] \<and>
     writeRun s1 (map accepted [[7, 8, 9, 10], [11]]) = (Some (5, None), s2) \<and>
     s_sent s2 = [wire TypeData [7, 8, 9, 10], wire TypeData [11]]"
  using write_commits [OF ex_new_reach, of "[7, 8, 9, 10, 11]"]
  by (auto simp: writable_def chunks.simps)

subsection \<open>Reads\<close>

lemma readCopy_splits:
  assumes "buf_inv s" "curBytes s \<noteq> []" "0 < len" "readCopy s len = (r, s')"
  shows "\<exists>out. r = RdOk out \<and> out \<noteq> [] \<and> length out \<le> len \<and> curBytes s = out @ curBytes s' \<and>
    queued s' = queued s \<and> s_out s' = s_out s @ out"
proof -
  obtain b i j where c: "s_cur s = Some (b, i, j)"
    using curBytes_empty [OF assms(1)] assms(2) by (cases "s_cur s") auto
  show ?thesis
  proof (rule readCopy_eq [OF assms(1) c assms(4)])
    fix f n
    assume n: "n = min len (j - i)" and l: "length (curBytes s) = j - i" and r: "r = RdOk (take len (curBytes s))"
      and s': "s' = (if len < j - i
       then s\<lparr>s_cur := Some (b, i + n, j), s_bytesRead := s_bytesRead s + of_nat n,
              s_out := s_out s @ take len (curBytes s)\<rparr>
       else s\<lparr>s_cur := None, s_bytesRead := s_bytesRead s + of_nat n,
              s_out := s_out s @ take len (curBytes s), s_free := f\<rparr>)"
    have "curBytes s' = drop len (curBytes s)"
      using l by (auto simp: s' n curBytes_def c slice_def drop_take min_def add.commute)
    moreover have "queued s' = queued s" "s_out s' = s_out s @ take len (curBytes s)"
      by (auto simp: s' queued_def slice_def)
    ultimately show ?thesis using r assms(2,3) by auto
  qed
qed

text \<open>C3: Reads of an open stream without an expired deadline are first in, first out: if any
  received byte is unread, \<open>Read\<close> returns a non-empty chunk of at most \<open>len\<close> bytes off the front;
  otherwise it reports the terminal error once the read loop has ended, and blocks until then.\<close>

theorem read_fifo:
  assumes "stream_reach s" "\<not> s_closed s" "0 < len"
  shows "if curBytes s @ queued s \<noteq> []
    then \<exists>out s'. Read s False len = [(RdOk out, s')] \<and> out \<noteq> [] \<and> length out \<le> len \<and>
      curBytes s @ queued s = out @ curBytes s' @ queued s' \<and> s_out s' = s_out s @ out
    else if s_dataClosed s then Read s False len = [(RdErr (terminalErr s), s)]
    else Read s False len = []"
proof -
  have inv: "buf_inv s" "rx_inv s" using reach_inv [OF assms(1)] by (simp_all add: stream_inv_def)
  have R: "Read s False len = readBody (s_dataCh s) s False len"
    using assms(2,3) by (simp add: Read_def)
  obtain r1 t1 where c1: "readCopy s len = (r1, t1)" by fastforce
  consider (cur) "curBytes s \<noteq> []" | (queue) m q where "curBytes s = []" "s_dataCh s = m # q"
    | (none) "curBytes s = []" "s_dataCh s = []" by (cases "s_dataCh s") auto
  then show ?thesis
  proof cases
    case cur
    then show ?thesis using readCopy_splits [OF inv(1) cur assms(3) c1] c1
      by (auto simp: R readBody.simps [of "s_dataCh s"])
  next
    case queue
    have n: "s_cur s = None" using curBytes_empty [OF inv(1)] queue(1) by simp
    let ?t = "takeMsg (s\<lparr>s_dataCh := q\<rparr>) m"
    note t = takeMsg_ok [OF inv queue(2) n]
    have cq: "curBytes ?t \<noteq> []" using curBytes_empty [OF t(1)] by (simp add: takeMsg_def)
    have q: "queued s = curBytes ?t @ queued ?t" "s_out ?t = s_out s"
      using queue(2) by (simp_all add: takeMsg_def curBytes_def queued_def slice_def)
    obtain r2 t2 where c2: "readCopy ?t len = (r2, t2)" by fastforce
    have "Read s False len = [(r2, t2)]"
      using queue assms(2) cq c2 unfolding R by (simp add: readBody.simps [of "m # q"] readBody.simps [of q])
    then show ?thesis using readCopy_splits [OF t(1) cq assms(3) c2] q queue(1) by auto
  next
    case none
    then show ?thesis using assms(2) by (simp add: R readBody.simps queued_def)
  qed
qed

theorem read_fifo_witness:
  "\<exists>s'. Read ex_receiver False 5 = [(RdOk [10], s')] \<and> curBytes s' @ queued s' = []"
  using read_fifo [OF ex_receiver_facts(1), of 5]
  by (auto simp: ex_receiver_facts Cons_eq_append_conv)

text \<open>C4: Receive buffers never alias: the one the read loop fills, the queued ones, the one being
  read and the free ones are pairwise different, so filling one never changes unread data; and
  received but unread bytes stay within the queue depth plus the two buffers in hand.\<close>

theorem buffers_distinct_bounded:
  assumes "stream_reach s"
  shows "distinct (owned s) \<and> length (s_dataCh s) \<le> s_depth s \<and>
    length (unread s) \<le> (s_depth s + 2) * s_maxPayload s"
proof -
  have i: "buf_inv s" using reach_inv [OF assms] by (simp add: stream_inv_def)
  have m: "length (slice s (b, k, n)) \<le> s_maxPayload s" if "n \<le> bufSize s" "HeaderSize \<le> k" for b k n
    using that by (simp add: slice_def bufSize_def)
  have "length (queued s) \<le> length (map (\<lambda>m. slice s (fst m, HeaderSize, snd m)) (s_dataCh s)) * s_maxPayload s"
    unfolding queued_def by (rule length_concat_bound) (use i m in \<open>auto simp: buf_inv_def msg_len_ok_def\<close>)
  also have "\<dots> \<le> s_depth s * s_maxPayload s" using i by (simp add: buf_inv_def)
  finally have "length (queued s) \<le> s_depth s * s_maxPayload s" .
  moreover have "length (curBytes s) \<le> s_maxPayload s"
    using i m by (auto simp: curBytes_def buf_inv_def split: option.splits)
  moreover have "length (inHand s) \<le> s_maxPayload s"
    using i m by (auto simp: inHand_def buf_inv_def msg_len_ok_def split: rlpc.splits)
  ultimately show ?thesis using i by (simp add: unread_def buf_inv_def algebra_simps)
qed

theorem buffers_distinct_bounded_witness:
  "distinct (owned ex_receiver) \<and> length (unread ex_receiver) = 2"
  using buffers_distinct_bounded [OF ex_receiver_facts(1)] by (simp add: ex_receiver_facts)

subsection \<open>Life cycle\<close>

text \<open>A terminal error that is recorded once and kept.\<close>

locale first_error =
  fixes get :: "'s \<Rightarrow> 'e option" and set_once :: "'s \<Rightarrow> 'e \<Rightarrow> 's"
  assumes first: "get s = None \<Longrightarrow> get (set_once s e) = Some e"
    and later: "get s = Some x \<Longrightarrow> set_once s e = s"
begin

lemma set_twice: "set_once (set_once s e) e' = set_once s e"
  by (cases "get s") (auto simp: first later)

lemma set_many: "es \<noteq> [] \<Longrightarrow> get (foldl set_once s es) = Some (case get s of Some x \<Rightarrow> x | None \<Rightarrow> hd es)"
proof (induction es arbitrary: s)
  case (Cons e es)
  show ?case
  proof (cases "es = []")
    case False
    then show ?thesis using Cons.IH [OF False, of "set_once s e"] by (cases "get s") (simp_all add: first later)
  qed (cases "get s", simp_all add: first later)
qed simp

end

interpretation re: first_error s_readErr setReadErr
  by unfold_locales (simp_all add: setReadErr_def)

definition life :: "stream \<Rightarrow> stream \<Rightarrow> bool" where
  "life s s' \<longleftrightarrow>
     (s_closed s \<longrightarrow> s_closed s') \<and> (s_term s \<longrightarrow> s_term s') \<and> (s_done s \<longrightarrow> s_done s') \<and>
     (s_released s \<longrightarrow> s_released s') \<and>
     (\<forall>e. s_readErr s = Some e \<longrightarrow> s_readErr s' = Some e \<or> s_readErr s' = Some (Sentinel EOF))"

lemma life_refl: "life s s"
  by (simp add: life_def)

lemma life_trans: "life s t \<Longrightarrow> life t u \<Longrightarrow> life s u"
  unfolding life_def by fastforce

lemma life_flag_view: "flag_view s' = flag_view s \<Longrightarrow> life s s'"
  by (simp add: life_def flag_view_def)

lemma life_setReadErr: "life s (setReadErr s e)"
  by (simp add: life_def)

lemma life_rlExit: "life s (rlExit s)"
  by (simp add: life_def rlExit_def)

lemma life_stop: "life s t \<Longrightarrow> life s (rlExit (setReadErr t e))"
  using life_trans life_rlExit life_setReadErr by blast

lemma life_terminate: "life s (terminate s code reason local now cr)"
  by (rule terminate_eq [of s code reason local now cr])
     (auto simp: life_def)

lemma life_deliverPong: "life s (deliverPong t p now) \<longleftrightarrow> life s t"
  using deliverPong_views(3) [of t p now] by (simp add: life_def flag_view_def)

lemma life_clearPing: "life s (clearPing t i) \<longleftrightarrow> life s t"
  using clearPing_views(3) [of t i] by (simp add: life_def flag_view_def)

lemma life_rlRead: "life s (rlRead s r now)"
proof (cases r)
  case (Inr m)
  have "life s (s\<lparr>s_heap := h, s_framesRead := f, s_rx := x\<rparr>)" "life s (s\<lparr>s_heap := h\<rparr>)"
    "life s (s\<lparr>s_heap := h, s_framesRead := f, s_rx := x, s_pc := pc\<rparr>)"
    "life s (s\<lparr>s_heap := h, s_framesRead := f, s_rx := x, s_remoteClose := c\<rparr>)" for h f x pc c
    by (simp_all add: life_def)
  then show ?thesis
    by (auto simp: Inr rlRead_def Let_def life_deliverPong split: sum.splits intro!: life_stop)
qed (simp add: rlRead_def life_stop [OF life_refl])

lemma life_control:
  "(r, s') \<in> set (writeControl s t p now cr) \<Longrightarrow> length p \<le> PayloadLimit \<Longrightarrow> life s s'"
  using writeControl_views(2) life_flag_view by blast

lemma life_rlPong:
  assumes "s' \<in> set (rlPong s now cr)" "flag_inv s"
  shows "life s s'"
proof (cases "s_pc s")
  case (RLPong p)
  have l: "length p \<le> PayloadLimit" by (rule PingSize_le) (use assms(2) RLPong in \<open>simp add: flag_inv_def\<close>)
  obtain r t where t: "(r, t) \<in> set (writeControl s TypePong p now cr)"
    and e: "s' = (case r of None \<Rightarrow> t\<lparr>s_pc := RLRead\<rparr>
      | Some e \<Rightarrow> if errors_Is e ErrControlBusy
          then t\<lparr>s_pc := RLRead, s_droppedPongs := s_droppedPongs t + 1\<rparr>
          else if errors_Is e ErrClosed then rlExit (setReadErr t (Sentinel ErrClosed))
          else rlExit (setReadErr t e))"
    using assms(1) unfolding rlPong_def RLPong rlpc.case by fastforce
  note lt = life_control [OF t l]
  have "life s (t\<lparr>s_pc := RLRead\<rparr>)" "life s (t\<lparr>s_pc := RLRead, s_droppedPongs := x\<rparr>)" for x
    using lt by (simp_all add: life_def)
  then show ?thesis using life_stop [OF lt] by (simp add: e split: option.splits)
qed (use assms in \<open>simp_all add: rlPong_def\<close>)

lemma step_life:
  assumes "stream_step s s'" "flag_inv s" "stream_inv s"
  shows "life s s'"
  using assms
proof (induction rule: stream_step.induct)
  case (st_read r s' s e len)
  then show ?case using Read_ok [OF st_read(1)] life_flag_view by (simp add: stream_inv_def)
next
  case (st_writeBegin r s' s e p)
  then show ?case by (auto simp: writeBegin_def life_def split: if_splits option.splits)
next
  case (st_writeFrame s cr)
  obtain p w where w: "s_wjob s = Some (p, w)" using st_writeFrame(1) by auto
  have i: "s_maxPayload s \<le> PayloadLimit" "length (s_wbuf s) = bufSize s"
    using st_writeFrame(3) by (simp_all add: stream_inv_def buf_inv_def tx_inv_def)
  show ?case by (rule writeFrame_cases [OF w i, of cr]) (simp_all add: life_def afterFrame_def Let_def)
next
  case (st_pingBegin r s' s rnd now cr)
  have "life s t" if "(r', t) \<in> set (writeControl (s\<lparr>s_pingId := i + 1, s_pending := pd\<rparr>) TypePing n now cr)"
    "length n = PingSize" for r' t i pd n
    using life_control [OF that(1) PingSize_le [OF that(2)]] by (simp add: life_def)
  then show ?case using pingBegin_cases [OF st_pingBegin(1,2)] life_clearPing life_refl by metis
next
  case (st_pingWait r s' s i c)
  then show ?case using pingWait_views(3) life_flag_view by blast
next
  case (st_relDrain s ba start iters)
  show ?case
  proof (cases "awaitAcks s ba start iters")
    case (Some t)
    then show ?thesis using awaitAcks_ok(2) [OF Some st_relDrain(2)]
      by (simp add: releaseDrain_def life_def flag_view_def)
  qed (simp add: releaseDrain_def life_refl)
next
  case (st_rlSend s' s)
  have i: "buf_inv s" "rx_inv s" using st_rlSend(3) by (simp_all add: stream_inv_def)
  from st_rlSend(1) show ?case
  proof (cases rule: rlSend_cases)
    case (enq n b t)
    then show ?thesis using getBuf_ok(8) [OF i enq(3)] by (simp add: life_def flag_view_def)
  qed (simp add: life_stop [OF life_refl])
next
  case (st_shutdownEOF s code reason now cr)
  have "life s (s\<lparr>s_readErr := Some (Sentinel EOF)\<rparr>)" by (simp add: life_def)
  then show ?case unfolding ShutdownEOF_def using life_terminate life_trans by blast
next
  case (st_rlPong s' s now cr)
  then show ?case by (simp add: life_rlPong)
qed (simp_all add: life_rlRead life_terminate SetReadDeadline_def SetWriteDeadline_def
    releaseWait_def releaseClose_def, simp_all add: life_def)






lemma unread_rx_view: "rx_view x = rx_view y \<Longrightarrow> unread x = unread y"
  by (auto simp: rx_view_def unread_def curBytes_def queued_def inHand_def slice_def
      split: option.splits rlpc.splits)

lemma terminate_remote:
  assumes c: "\<not> s_closed t"
  shows "unread (terminate t code reason False now cr) = unread t \<and>
      \<not> s_closed (terminate t code reason False now cr) \<and> s_term (terminate t code reason False now cr) \<and>
      terminalErr (terminate t code reason False now cr) = (case s_readErr t of None \<Rightarrow> Sentinel EOF | Some e \<Rightarrow> e)"
proof (rule terminate_eq [of t code reason False now cr])
  fix v assume "rx_view v = rx_view t" "s_closed v = (s_closed t \<or> False)"
    "s_readErr v = Some (case s_readErr t of Some e \<Rightarrow> e | None \<Rightarrow> Sentinel (if False then ErrClosed else EOF))
     \<or> s_closed t \<and> False"
    "terminate t code reason False now cr =
      v\<lparr>s_term := True, s_rel := (if False \<and> s_readErr t = None then RelWaitDone else RelClosing)\<rparr>"
  then show ?thesis using c unread_rx_view [of "terminate t code reason False now cr" t]
    by (auto simp: terminalErr_def rx_view_def split: option.splits)
qed (use c in \<open>auto simp: terminalErr_def\<close>)

lemma unread_readErr [simp]: "unread (s\<lparr>s_readErr := e\<rparr>) = unread s"
  by (simp add: unread_def curBytes_def queued_def inHand_def slice_def split: option.splits rlpc.splits)

lemma shutdown_keeps:
  assumes "\<not> s_closed s"
  shows "unread (Shutdown s code reason now cr) = unread s \<and> unread (ShutdownEOF s code reason now cr) = unread s \<and>
    \<not> s_closed (Shutdown s code reason now cr) \<and> \<not> s_closed (ShutdownEOF s code reason now cr) \<and>
    terminalErr (Shutdown s code reason now cr) = (case s_readErr s of None \<Rightarrow> Sentinel EOF | Some e \<Rightarrow> e) \<and>
    terminalErr (ShutdownEOF s code reason now cr) = Sentinel EOF \<and>
    writable (Shutdown s code reason now cr) \<noteq> None \<and> writable (ShutdownEOF s code reason now cr) \<noteq> None"
  using terminate_remote [OF assms] terminate_remote [of "s\<lparr>s_readErr := Some (Sentinel EOF)\<rparr>"] assms
  by (simp add: Shutdown_def ShutdownEOF_def writable_def)

text \<open>\<open>Shutdown\<close> keeps what was received: unread data is untouched, a reader of a stream that has not
  been closed locally is told \<open>io.EOF\<close> (unless the transport had failed with another error before) only after it,
  \<open>ShutdownEOF\<close> reports \<open>io.EOF\<close> in every case, and writes fail from then on.\<close>

lemma shutdown_keeps_data:
  assumes "\<not> s_closed s"
  shows "unread (Shutdown s code reason now cr) = unread s \<and> unread (ShutdownEOF s code reason now cr) = unread s \<and>
    \<not> s_closed (Shutdown s code reason now cr) \<and> \<not> s_closed (ShutdownEOF s code reason now cr) \<and>
    terminalErr (Shutdown s code reason now cr) = (case s_readErr s of None \<Rightarrow> Sentinel EOF | Some e \<Rightarrow> e) \<and>
    terminalErr (ShutdownEOF s code reason now cr) = Sentinel EOF \<and>
    writable (Shutdown s code reason now cr) \<noteq> None \<and> writable (ShutdownEOF s code reason now cr) \<noteq> None"
  using shutdown_keeps [OF assms] by blast

subsection \<open>Probes\<close>

definition ping_view :: "stream \<Rightarrow> _" where
  "ping_view s = (s_pending s, s_pingId s, s_replies s)"

definition ping_inv :: "stream \<Rightarrow> bool" where
  "ping_inv s \<longleftrightarrow> (\<forall>i \<ge> s_pingId s. s_replies s i = None) \<and>
     (\<forall>p. s_pending s = Some p \<longrightarrow> pp_id p < s_pingId s \<and> s_replies s (pp_id p) = None)"

lemma ping_inv_cong: "ping_view s' = ping_view s \<Longrightarrow> ping_inv s' \<longleftrightarrow> ping_inv s"
  by (simp add: ping_view_def ping_inv_def)

lemma ping_simple [simp]:
  "ping_view (putBuf s b) = ping_view s" "ping_view (snd (getBuf s)) = ping_view s"
  "ping_view (setReadErr s e) = ping_view s" "ping_view (rlExit s) = ping_view s"
  "ping_view (takeMsg s m) = ping_view s" "ping_view (snd (readCopy s n)) = ping_view s"
  "ping_view (snd (writeMessage s msg dl cr)) = ping_view s"
  by (auto simp: ping_view_def putBuf_def getBuf_def setReadErr_def rlExit_def takeMsg_def readCopy_def
      writeMessage_def Let_def split: list.splits option.splits prod.splits)

lemma ping_readCopy: "(r, s') = readCopy s n \<Longrightarrow> ping_view s' = ping_view s"
  using ping_simple(6) [of s n] by (metis snd_conv)

lemma ping_readBody: "(r, s') \<in> set (readBody q s e n) \<Longrightarrow> ping_view s' = ping_view s"
proof (induction q arbitrary: s)
  case Nil
  then show ?case by (auto simp: readBody.simps [of "[]"] split: if_splits dest: ping_readCopy)
next
  case (Cons m q)
  have "ping_view (takeMsg (s\<lparr>s_dataCh := q\<rparr>) m) = ping_view s" by (simp add: ping_view_def takeMsg_def)
  then show ?case using Cons
    by (auto simp: readBody.simps [of "m # q"] split: if_splits dest: ping_readCopy)
qed

lemma ping_control:
  assumes "(r, s') \<in> set (writeControl s t p now cr)"
  shows "ping_view s' = ping_view s"
proof (cases "Encode (replicate (HeaderSize + length p) 0) t p")
  case (Inl e)
  then show ?thesis using assms by (auto simp: writeControl_def ping_view_def split: if_splits)
next
  case (Inr msg)
  then show ?thesis
    by (cases rule: writeMessage_cases [of s msg "Some (now + controlWriteTimeout)" cr])
       (use assms in \<open>auto simp: writeControl_def ping_view_def split: if_splits\<close>)
qed

lemma ping_sendClose: "ping_view (sendCloseFrame s code reason now cr) = ping_view s"
  using ping_simple(7) by (simp add: sendCloseFrame_def Let_def split: sum.splits)

lemma ping_terminate: "ping_view (terminate s code reason local now cr) = ping_view s"
proof -
  let ?s = "if local \<and> \<not> s_closed s
    then (setReadErr s (Sentinel ErrClosed))\<lparr>s_closed := True\<rparr> else s"
  have s: "ping_view ?s = ping_view s" using ping_simple(3) [of s] by (simp add: ping_view_def)
  have "ping_view (t\<lparr>s_term := True, s_rel := x\<rparr>) = ping_view t" for t x by (simp add: ping_view_def)
  then show ?thesis using s ping_sendClose [of ?s code reason now cr] ping_simple(3)
    unfolding terminate_def Let_def by (auto split: if_splits)
qed

lemma ping_writeFrame: "ping_view (snd (writeFrame s cr)) = ping_view s"
proof (cases "s_wjob s")
  case (Some x)
  obtain p w where x: "s_wjob s = Some (p, w)" using Some by (cases x) auto
  let ?c = "if length p > s_maxPayload s then take (s_maxPayload s) p else p"
  show ?thesis
  proof (cases "Encode (s_wbuf s) TypeData ?c")
    case (Inl e)
    then show ?thesis using x by (simp add: writeFrame_def Let_def ping_view_def)
  next
    case (Inr msg)
    then show ?thesis
      by (cases rule: writeMessage_cases [of "s\<lparr>s_wbuf := msg @ drop (length msg) (s_wbuf s)\<rparr>" msg "s_wall s" cr])
         (simp_all add: x writeFrame_def Let_def ping_view_def)
  qed
qed (simp add: writeFrame_def)

lemma ping_awaitLoop: "awaitLoop s b dl it = Some s' \<Longrightarrow> ping_view s' = ping_view s"
  by (induction s b dl it rule: awaitLoop.induct)
     (auto simp: ping_view_def split: if_splits sum.splits)

lemma ping_awaitAcks: "awaitAcks s ba start it = Some s' \<Longrightarrow> ping_view s' = ping_view s"
  using ping_simple(2) [of s]
  by (cases "getBuf s") (auto simp: awaitAcks_def split: if_splits dest!: ping_awaitLoop)

lemma ping_inv_clear: "ping_inv s \<Longrightarrow> ping_inv (clearPing s i)"
  by (auto simp: clearPing_def ping_inv_def split: option.splits)

lemma ping_inv_deliver: "ping_inv s \<Longrightarrow> ping_inv (deliverPong s p now)"
  by (auto simp: deliverPong_def ping_inv_def split: option.splits)

lemma ping_rlRead: "ping_inv s \<Longrightarrow> ping_inv (rlRead s r now)"
proof (cases r)
  case (Inl e)
  assume "ping_inv s"
  then show ?thesis using ping_inv_cong [of "rlRead s r now" s] Inl by (simp add: rlRead_def)
next
  case (Inr m)
  assume "ping_inv s"
  then have s: "ping_inv (s\<lparr>s_heap := h, s_framesRead := f, s_rx := x\<rparr>)" "ping_inv (s\<lparr>s_heap := h\<rparr>)"
    "ping_inv (s\<lparr>s_heap := h, s_framesRead := f, s_rx := x, s_pc := pc\<rparr>)"
    "ping_inv (s\<lparr>s_heap := h, s_framesRead := f, s_rx := x, s_remoteClose := c\<rparr>)" for h f x pc c
    by (simp_all add: ping_inv_def)
  have st: "ping_inv t \<Longrightarrow> ping_inv (rlExit (setReadErr t e))" for t e
    using ping_inv_cong [of "rlExit (setReadErr t e)" t] by simp
  show ?thesis using s
    by (auto simp: Inr rlRead_def Let_def split: sum.splits intro!: st ping_inv_deliver)
qed

lemma ping_rlPong:
  assumes "s' \<in> set (rlPong s now cr)"
  shows "ping_view s' = ping_view s"
proof (cases "s_pc s")
  case (RLPong p)
  obtain r t where t: "(r, t) \<in> set (writeControl s TypePong p now cr)"
    and e: "s' = (case r of None \<Rightarrow> t\<lparr>s_pc := RLRead\<rparr>
      | Some e \<Rightarrow> if errors_Is e ErrControlBusy
          then t\<lparr>s_pc := RLRead, s_droppedPongs := s_droppedPongs t + 1\<rparr>
          else if errors_Is e ErrClosed then rlExit (setReadErr t (Sentinel ErrClosed))
          else rlExit (setReadErr t e))"
    using assms unfolding rlPong_def RLPong rlpc.case by fastforce
  have "ping_view (t\<lparr>s_pc := RLRead\<rparr>) = ping_view t"
    "ping_view (t\<lparr>s_pc := RLRead, s_droppedPongs := x\<rparr>) = ping_view t" for x
    by (simp_all add: ping_view_def)
  then show ?thesis using ping_control [OF t] by (simp add: e split: option.splits)
qed (use assms in \<open>simp_all add: rlPong_def\<close>)

lemma ping_step: "stream_step s s' \<Longrightarrow> ping_inv s \<Longrightarrow> ping_inv s'"
proof (induction rule: stream_step.induct)
  case (st_read r s' s e len)
  then have "ping_view s' = ping_view s"
    by (auto simp: Read_def split: if_splits dest: ping_readBody)
  then show ?case using st_read(2) ping_inv_cong by blast
next
  case (st_writeBegin r s' s e p)
  then show ?case by (auto simp: writeBegin_def ping_inv_def split: if_splits option.splits)
next
  case (st_writeFrame s cr)
  then show ?case using ping_inv_cong [OF ping_writeFrame] by simp
next
  case (st_pingBegin r s' s rnd now cr)
  show ?case
  proof (cases rnd)
    case (Inr n)
    show ?thesis
    proof (cases "s_pending s")
      case None
      let ?p = "\<lparr>pp_id = s_pingId s, pp_nonce = n, pp_sent = now\<rparr>"
      let ?s = "s\<lparr>s_pingId := s_pingId s + 1, s_pending := Some ?p\<rparr>"
      have i: "ping_inv ?s" using st_pingBegin(3) by (auto simp: ping_inv_def)
      obtain r' t where t: "(r', t) \<in> set (writeControl ?s TypePing n now cr)"
        "s' = t \<or> s' = clearPing t (s_pingId s)"
        using st_pingBegin(1) None Inr by (auto simp: pingBegin_def Let_def split: option.splits)
      have "ping_inv t" using i ping_inv_cong [OF ping_control [OF t(1)]] by simp
      then show ?thesis using t(2) ping_inv_clear by blast
    qed (use st_pingBegin Inr in \<open>simp add: pingBegin_def\<close>)
  qed (use st_pingBegin in \<open>simp add: pingBegin_def\<close>)
next
  case (st_pingWait r s' s i c)
  then show ?case by (auto simp: pingWait_def ping_inv_clear split: option.splits if_splits)
next
  case (st_relDrain s ba start it)
  show ?case
  proof (cases "awaitAcks s ba start it")
    case (Some t)
    then show ?thesis using ping_inv_cong [OF ping_awaitAcks [OF Some]] st_relDrain
      by (simp add: releaseDrain_def ping_inv_def)
  qed (use st_relDrain in \<open>simp add: releaseDrain_def\<close>)
next
  case (st_rlSend s' s)
  from st_rlSend(1) show ?case
  proof (cases rule: rlSend_cases)
    case (enq n b t)
    then have "ping_view t = ping_view s" using ping_simple(2) [of s] by simp
    then show ?thesis using st_rlSend(2) enq(4) by (simp add: ping_inv_def ping_view_def)
  next
    case (stop n)
    then show ?thesis using st_rlSend(2) ping_inv_cong [of s' s] by simp
  qed
next
  case (st_rlPong s' s now cr)
  then show ?case using ping_inv_cong [OF ping_rlPong [OF st_rlPong(1)]] by simp
next
  case (st_terminate s code reason local now cr)
  then show ?case using ping_inv_cong [OF ping_terminate] by blast
next
  case (st_shutdownEOF s code reason now cr)
  then show ?case using ping_inv_cong [OF ping_terminate, of "s\<lparr>s_readErr := Some (Sentinel EOF)\<rparr>"]
    by (simp add: ShutdownEOF_def ping_inv_def)
qed (simp_all add: ping_rlRead SetReadDeadline_def SetWriteDeadline_def releaseWait_def releaseClose_def,
   simp_all add: ping_inv_def)

lemma reach_ping: "stream_reach s \<Longrightarrow> ping_inv s"
  by (induction rule: stream_reach.induct) (auto simp: NewStream_def Let_def ping_inv_def dest: ping_step)


text \<open>C10: A probe is answered by its own nonce and by nothing else. A \<open>Ping\<close> that got as far as waiting
  has sent one ping frame carrying its nonce; a pong completes it exactly when it carries that
  nonce, with the time since the probe was sent; no second probe can be started meanwhile.\<close>

theorem ping_matches_nonce:
  assumes "stream_reach s" "length nonce = PingSize"
    "(Inr i, s1) \<in> set (pingBegin s (Inr nonce) now cr)"
  shows "s_sent s1 = s_sent s @ [wire TypePing nonce] \<and>
    (\<forall>payload t. s_replies (deliverPong s1 payload t) i = (if payload = nonce then Some (t - now) else None)) \<and>
    (\<forall>n' t cr'. pingBegin s1 (Inr n') t cr' = [(Inl (Sentinel ErrPingOutstanding), s1)])"
proof -
  let ?p = "\<lparr>pp_id = s_pingId s, pp_nonce = nonce, pp_sent = now\<rparr>"
  let ?s = "s\<lparr>s_pingId := s_pingId s + 1, s_pending := Some ?p\<rparr>"
  have n: "s_pending s = None" using assms(3) by (cases "s_pending s") (auto simp: pingBegin_def)
  then have m: "(None, s1) \<in> set (writeControl ?s TypePing nonce now cr)" "i = s_pingId s"
    using assms(3) by (auto simp: pingBegin_def Let_def split: option.splits)
  have v: "ping_view s1 = ping_view ?s" by (rule ping_control [OF m(1)])
  have r: "s_replies s i = None" using reach_ping [OF assms(1)] m(2) by (simp add: ping_inv_def)
  have sent: "s_sent s1 = s_sent s @ [wire TypePing nonce]"
  proof -
    have "Encode (replicate (HeaderSize + length nonce) 0) TypePing nonce = Inr (wire TypePing nonce)"
      by (rule Encode_wire) (use PingSize_le [OF assms(2)] in simp_all)
    then show ?thesis
      by (cases rule: writeMessage_cases [of ?s "wire TypePing nonce" "Some (now + controlWriteTimeout)" cr])
         (use m(1) in \<open>auto simp: writeControl_def split: if_splits\<close>)
  qed
  show ?thesis using v r sent by (auto simp: ping_view_def deliverPong_def pingBegin_def m(2))
qed

theorem ping_matches_nonce_witness:
  "\<exists>s1. (Inr 0, s1) \<in> set (pingBegin ex_new (Inr (replicate 8 1)) 100 (accepted (replicate 8 1))) \<and>
     s_replies (deliverPong s1 (replicate 8 1) 150) 0 = Some 50 \<and>
     s_replies (deliverPong s1 (replicate 8 2) 150) 0 = None"
proof -
  let ?n = "replicate 8 1 :: bytes"
  have e: "Encode (replicate (HeaderSize + length ?n) 0) TypePing ?n = Inr (wire TypePing ?n)"
    by (rule Encode_wire) (simp_all add: PayloadLimit_def)
  have i: "s_pingId ex_new = 0" "s_pending ex_new = None" by (simp_all add: ex_new_def NewStream_def Let_def)
  obtain s1 where s1: "(Inr 0, s1) \<in> set (pingBegin ex_new (Inr ?n) 100 (accepted ?n))"
    by (simp add: pingBegin_def i Let_def writeControl_def e [simplified] writeMessage_def length_wire accepted_def)
  show ?thesis using ping_matches_nonce [OF ex_new_reach _ s1] s1
    by (auto simp: PingSize_def numeral_eq_Suc intro!: exI [of _ s1])
qed

text \<open>A ping is answered with a pong that carries the same payload: when the read loop receives a
  ping frame it owes exactly that pong, and sends it as soon as the write lock is free and the channel accepts it.\<close>

lemma ping_is_answered:
  assumes "stream_reach s" "s_pc s = RLRead" "PingSize \<le> s_maxPayload s" "length nonce = PingSize"
    "s_wjob s = None" "\<not> s_term s"
  shows "\<exists>s'. rlPong (rlRead s (Inr (wire TypePing nonce)) now) t (accepted nonce) = [s'] \<and> s_pc s' = RLRead \<and>
    s_sent s' = s_sent s @ [wire TypePong nonce] \<and> unread s' = unread s"
proof -
  have inv: "buf_inv s" "flag_inv s" using reach_inv [OF assms(1)] by (simp_all add: stream_inv_def)
  have f: "frame_ok (clampMax (int (s_maxPayload s))) TypePing nonce"
    using assms(3,4) inv by (simp add: frame_ok_def clampMax_def Type_valid_def buf_inv_def TypeData_def TypePing_def
        TypePong_def TypeClose_def)
  let ?h = "wire TypePing nonce @ drop (HeaderSize + length nonce) (s_heap s (s_buf s))"
  have g: "go_copy (s_heap s (s_buf s)) 0 (wire TypePing nonce) = ?h"
    using assms(3,4) inv by (simp add: go_copy_fits length_wire bufSize_def buf_inv_def)
  let ?s1 = "s\<lparr>s_heap := (s_heap s)(s_buf s := ?h), s_framesRead := s_framesRead s + 1,
      s_rx := s_rx s @ [wire TypePing nonce], s_pc := RLPong nonce\<rparr>"
  have r1: "rlRead s (Inr (wire TypePing nonce)) now = ?s1"
    using assms(3,4) inv by (simp add: rlRead_def Let_def g length_wire Parse_wire [OF f] bufSize_def buf_inv_def min_def)
  have e: "Encode (replicate (HeaderSize + length nonce) 0) TypePong nonce = Inr (wire TypePong nonce)"
    by (rule Encode_wire) (use PingSize_le [OF assms(4)] in simp_all)
  have c: "s_closed s = False" using inv(2) assms(6) by (auto simp: flag_inv_def)
  have dis: "s_buf s \<notin> set (live s) \<or> s_pc s = RLRead \<and> s_buf s = s_buf s" using assms(2) by simp
  note d = heap_update_data [OF inv(1) dis, of ?h]
  obtain s' where s': "rlPong ?s1 t (accepted nonce) = [s']" "s_pc s' = RLRead"
    "s_sent s' = s_sent s @ [wire TypePong nonce]" "s_cur s' = s_cur s" "s_dataCh s' = s_dataCh s"
    "s_heap s' = (s_heap s)(s_buf s := ?h)"
    by (simp add: rlPong_def writeControl_def assms(5,6) c e writeMessage_def accepted_def length_wire Let_def)
  have "unread s' = unread (s\<lparr>s_heap := (s_heap s)(s_buf s := ?h)\<rparr>)"
    using assms(2) by (simp add: unread_def curBytes_def queued_def inHand_def slice_def s' split: option.splits del: drop_append take_append)
  then have "unread s' = unread s" unfolding unread_def d .
  then show ?thesis unfolding r1 using s' by blast
qed

end
