(* ===== verification/Session_Correct.thy ===== *)
theory Session_Correct
  imports Session_Inv Stream_Correct
begin

text \<open>
  What a session guarantees: the invariant of every phase of a session under every interleaving, and the
  properties that follow from it. The stream of a session is only ever changed by its own operations,
  so every theorem about reachable streams applies to it.
\<close>

subsection \<open>The invariant of each phase\<close>

definition fresh_ok :: "('p, 'd) session \<Rightarrow> bool" where
  "fresh_ok s \<longleftrightarrow> ss_peerConn s = None \<and> ss_stream s = None \<and> ss_state s = StateNew \<and>
     ss_recoveryTimer s = None \<and> \<not> ss_peerClosed s \<and> \<not> mb_closed (ss_box s)"

definition closed_ok :: "('p, 'd) session \<Rightarrow> bool" where
  "closed_ok s \<longleftrightarrow> ss_state s = StateClosed \<and> mb_closed (ss_box s) \<and> ss_negotiateTimer s = None \<and>
     ss_recoveryTimer s = None \<and> ss_keepaliveTimer s = None \<and> ss_lingerTimer s = None \<and>
     (\<forall>st. ss_stream s = Some st \<longrightarrow> s_term st)"

text \<open>The resources a finished session handed over or released, in order.\<close>

definition peerOut :: "('p, 'd) session \<Rightarrow> sessionOutput list" where
  "peerOut s = (if ss_peerConn s = None then [] else [OClosePeer])"

definition done_ok :: "('p, 'd) session \<Rightarrow> bool" where
  "done_ok s \<longleftrightarrow> ss_finished s \<and> \<not> ss_releaseSlot s \<and>
     (\<forall>p. ss_peerConn s = Some p \<longrightarrow> pe_closed p) \<and> streams_ok s \<and>
     (ss_role s = roleOfferer \<and> ss_delivered s \<longrightarrow>
        signif (ss_out s) = [OResult DialConn] @ peerOut s @ [ORemoveSession]) \<and>
     (ss_role s = roleOfferer \<and> \<not> ss_delivered s \<longrightarrow>
        (\<exists>e. signif (ss_out s) = peerOut s @ [ORemoveSession, OResult (DialErr e)])) \<and>
     (ss_role s = roleAnswerer \<longrightarrow>
        signif (ss_out s) = [OEnqueue] @ peerOut s @ [ORemoveSession] \<or>
        signif (ss_out s) = peerOut s @ [ORemoveSession, OReleaseSlot])"

definition phase_ok :: "('p, 'd) sctx \<Rightarrow> ('p, 'd) session \<Rightarrow> bool" where
  "phase_ok X s \<longleftrightarrow>
     (case ss_at s of
        SStart offer \<Rightarrow> core_ok X s \<and> fresh_ok s
      | SLoop evs \<Rightarrow> loop_ok X s
      | STeardown i \<Rightarrow> core_ok X s
      | SRelease i \<Rightarrow> core_ok X s \<and> closed_ok s
      | SDone \<Rightarrow> closed_ok s \<and> done_ok s)"

lemma reach_life: "stream_reach st \<Longrightarrow> stream_step st st' \<Longrightarrow> life st st'"
  using step_life reach_inv by (auto simp: stream_inv_def)

subsection \<open>Steps of the session goroutine\<close>

lemma continue_ok: "sound X r \<Longrightarrow> phase_ok X (continue evs r)"
  by (cases "fst r") (simp_all add: phase_ok_def continue_def sound_def)

text \<open>What \<open>start\<close> establishes.\<close>

definition started :: "('p, 'd) sctx \<Rightarrow> ('p, 'd) session \<Rightarrow> gerror option \<times> ('p, 'd) session \<Rightarrow> bool" where
  "started X s r \<longleftrightarrow> core_ok X (snd r) \<and> (fst r = None \<longrightarrow>
     ss_peerConn (snd r) \<noteq> None \<and> ss_stream (snd r) = None \<and> ss_recoveryTimer (snd r) = None \<and>
     \<not> ss_peerClosed (snd r) \<and> \<not> mb_closed (ss_box (snd r)) \<and> ss_startedAt (snd r) = ss_startedAt s \<and>
     (ss_state (snd r) = StateSignaling \<or> ss_state (snd r) = StateConnecting))"

lemma startOfferer_ok:
  assumes c: "core_ok X s" and f: "fresh_ok s"
  shows "started X s (startOfferer X E s)"
proof -
  have "core_ok X (snd (sendSignal X E KindOffer b (s\<lparr>ss_peerConn := Some q, ss_state := StateSignaling\<rparr>)))" for b q
    using quietly_core [OF quietly_sendSignal, of X X E KindOffer b "s\<lparr>ss_peerConn := Some q, ss_state := StateSignaling\<rparr>"] c
    by simp
  then show ?thesis using c f
    by (auto simp: startOfferer_def started_def fresh_ok_def sendSignal_eq split: sum.splits prod.splits)
qed

lemma startAnswerer_ok:
  assumes c: "core_ok X s" and f: "fresh_ok s"
  shows "started X s (startAnswerer X E off s)"
proof (cases "NewAnswerer (cx_pion X) (cx_factory X)")
  case (Inl e)
  then show ?thesis using c by (simp add: startAnswerer_def started_def)
next
  case p: (Inr p)
  let ?s = "s\<lparr>ss_peerConn := Some p\<rparr>"
  show ?thesis
  proof (cases "decodePayload decode_sdp (sig_Payload off)")
    case (Inl e)
    then show ?thesis using p c by (simp add: startAnswerer_def started_def)
  next
    case b: (Inr body)
    obtain x t where t: "answerOffer X (sp_SDP body) ?s = (x, t)" by fastforce
    have q: "quietly ?s t" using quietly_answerOffer [of ?s X "sp_SDP body"] t by simp
    let ?t = "t\<lparr>ss_state := StateConnecting\<rparr>"
    have u: "started X s (case sendSignal X E KindAnswer m ?t of (Some e, s) \<Rightarrow> (Some e, s)
        | (None, s) \<Rightarrow> (None, flushCandidates X s))" for m
    proof -
      obtain y u where u: "sendSignal X E KindAnswer m ?t = (y, u)" by fastforce
      have q2: "quietly ?t u" using quietly_sendSignal [of ?t X E KindAnswer m] u by simp
      have cu: "core_ok X u" using quietly_core [OF q2, of X] quietly_core [OF q, of X] c by simp
      show ?thesis using cu flush_ok(1) [OF cu] quietly_fields [OF q2] quietly_fields [OF q] f
        by (cases y) (simp_all add: u started_def fresh_ok_def)
    qed
    show ?thesis using p b t u c quietly_core [OF q, of X]
      by (cases x) (simp_all add: startAnswerer_def, simp add: started_def)
  qed
qed

lemma start_ok: "core_ok X s \<Longrightarrow> fresh_ok s \<Longrightarrow> started X s (start X E offer s)"
  using startOfferer_ok [of X s E] startAnswerer_ok [of X s E]
  by (auto simp: start_def started_def split: option.splits)

lemma core_delivered: "core_ok X s \<Longrightarrow> ss_delivered s \<longleftrightarrow> ss_stream s \<noteq> None"
  by (simp add: core_ok_def)

lemma runStart_ok:
  assumes "core_ok X s" "fresh_ok s"
  shows "phase_ok X (runStart X E offer s)"
proof -
  let ?s = "s\<lparr>ss_startedAt := en_now E\<rparr>"
  obtain r t where t: "start X E offer ?s = (r, t)" by fastforce
  have "started X ?s (r, t)" using start_ok [of X ?s E offer] assms t by (simp add: fresh_ok_def)
  then show ?thesis
    using core_delivered [of X t]
    by (cases r) (auto simp: runStart_def t phase_ok_def started_def loop_ok_def timers_ok_def)
qed

lemma onDrain_ok: "loop_ok X s \<Longrightarrow> phase_ok X (onDrain (s\<lparr>ss_box := b\<rparr>))" if "mbWait (ss_box s) = Some b"
  using that by (auto simp: onDrain_def drain_def mbWait_def phase_ok_def loop_ok_def split: if_splits)

lemma core_stream:
  "core_ok X s \<Longrightarrow> ss_stream s = Some st \<Longrightarrow> stream_reach st' \<Longrightarrow> core_ok X (s\<lparr>ss_stream := Some st'\<rparr>)"
  by (auto simp: core_ok_def delivery_def streams_ok_def)

lemma core_reach: "core_ok X s \<Longrightarrow> ss_stream s = Some st \<Longrightarrow> stream_reach st"
  by (auto simp: core_ok_def streams_ok_def)

lemma terminate_term [simp]: "s_term (terminate st code reason local now cr)"
  by (simp add: terminate_def Let_def)

lemma shut_steps:
  "stream_step st (Shutdown st code reason now cr)" "stream_step st (CloseWith st code reason now cr)"
  by (simp_all add: Shutdown_def CloseWith_def st_terminate)

lemma shutStream_ok:
  assumes c: "core_ok X s"
  shows "core_ok X (shutStream i E s) \<and> (\<forall>st. ss_stream (shutStream i E s) = Some st \<longrightarrow> s_term st)"
proof (cases "ss_stream s")
  case None
  then show ?thesis using c by (simp add: shutStream_def)
next
  case (Some st)
  have r: "stream_reach st" by (rule core_reach [OF c Some])
  let ?m = "emit (OMetric (Count metricStreamBytesWrite (uint (BytesWritten (Stream_Stats st))) []))
    (emit (OMetric (Count metricStreamBytesRead (uint (BytesRead (Stream_Stats st))) [])) s)"
  have "core_ok X (?m\<lparr>ss_stream := Some st'\<rparr>)" if "stream_step st st'" for st'
    by (rule core_stream [of _ _ st]) (use c Some r that reach_step in auto)
  then show ?thesis
    by (auto simp: shutStream_def Some Let_def shut_steps st_shutdownEOF)
       (auto simp: Shutdown_def ShutdownEOF_def CloseWith_def)
qed

lemma teardownBegin_ok:
  assumes c: "core_ok X s"
  shows "phase_ok X ((teardownBegin X E i s)\<lparr>ss_at := SRelease i\<rparr>)"
proof -
  let ?s = "s\<lparr>ss_state := StateClosed, ss_box := mbClose (ss_box s), ss_negotiateTimer := None,
    ss_recoveryTimer := None, ss_keepaliveTimer := None, ss_lingerTimer := None\<rparr>"
  obtain xs where x: "(if ci_notify i then sendCloseSignal X E i ?s else ?s) = ?s\<lparr>ss_out := ss_out s @ xs\<rparr>" "signif xs = []"
  proof (cases "ci_notify i")
    case True
    then show ?thesis using that sendCloseSignal_eq [of X E i ?s] by auto
  next
    case False
    then show ?thesis using that [of "[]"] by simp
  qed
  let ?t = "?s\<lparr>ss_out := ss_out s @ xs\<rparr>"
  have "core_ok X ?t" using quietly_core [OF quietlyI [OF x(2), of "ss_peerConn s" ?s], of X] c by simp
  note sh = shutStream_ok [OF this, of i E]
  have "ss_state (shutStream i E ?t) = StateClosed \<and> mb_closed (ss_box (shutStream i E ?t)) \<and>
    ss_negotiateTimer (shutStream i E ?t) = None \<and> ss_recoveryTimer (shutStream i E ?t) = None \<and>
    ss_keepaliveTimer (shutStream i E ?t) = None \<and> ss_lingerTimer (shutStream i E ?t) = None"
    by (simp add: shutStream_def mbClose_def Let_def split: option.splits)
  then show ?thesis using sh by (simp add: teardownBegin_def Let_def x(1) phase_ok_def closed_ok_def)
qed

lemma teardownEnd_ok:
  assumes c: "core_ok X s" and k: "closed_ok s"
  shows "phase_ok X ((teardownEnd X i s)\<lparr>ss_at := SDone\<rparr>)"
proof -
  have p: "pe_closed (snd (Peer_Close P p))" for P :: "('a, 'b) pion" and p
    by (simp add: Peer_Close_def Let_def split: option.splits prod.splits)
  let ?t = "(teardownEnd X i s)\<lparr>ss_at := SDone\<rparr>"
  have "closed_ok ?t"
    using k by (simp add: closed_ok_def teardownEnd_def Let_def mapConn_def emit_def split: option.splits)
  moreover have "done_ok ?t"
    using c p by (cases "ss_role s"; cases "ss_peerConn s"; cases "ss_delivered s"; cases "ss_releaseSlot s")
      (auto simp: done_ok_def teardownEnd_def Let_def mapConn_def emit_def core_ok_def delivery_def peerOut_def
         streams_ok_def)
  ultimately show ?thesis by (simp add: phase_ok_def)
qed

subsection \<open>Steps around the session goroutine\<close>

lemmas phase_defs = phase_ok_def loop_ok_def fresh_ok_def closed_ok_def done_ok_def peerOut_def

lemma phase_box: "mb_closed b = mb_closed (ss_box s) \<Longrightarrow> phase_ok X s \<Longrightarrow> phase_ok X (s\<lparr>ss_box := b\<rparr>)"
  by (cases "ss_at s") (simp_all add: phase_defs streams_ok_def)

lemma phase_probes: "phase_ok X s \<Longrightarrow> phase_ok X (s\<lparr>ss_probes := n\<rparr>)"
  by (cases "ss_at s") (simp_all add: phase_defs streams_ok_def)

lemma phase_post: "phase_ok X s \<Longrightarrow> phase_ok X (postEvent ev s)"
  unfolding postEvent_def by (rule phase_box) (simp_all add: post_def mbSignal_def)

lemma core_result: "core_ok X s \<Longrightarrow> core_ok X (s\<lparr>ss_result := None\<rparr>)"
  by (simp add: core_ok_def delivery_def streams_ok_def)

lemma phase_result: "phase_ok X s \<Longrightarrow> phase_ok X (s\<lparr>ss_result := None\<rparr>)"
  by (cases "ss_at s") (simp_all add: phase_defs core_result streams_ok_def)

lemma phase_conn: "ss_conn s = Some c \<Longrightarrow> phase_ok X s \<Longrightarrow> phase_ok X (s\<lparr>ss_conn := Some c'\<rparr>)"
  by (cases "ss_at s") (simp_all add: phase_defs core_conn streams_ok_def)

lemma phase_peer:
  "ss_peerConn s = Some p \<Longrightarrow> pe_closed p' = pe_closed p \<Longrightarrow> phase_ok X s \<Longrightarrow> phase_ok X (s\<lparr>ss_peerConn := Some p'\<rparr>)"
  by (cases "ss_at s") (simp_all add: phase_defs streams_ok_def)

lemma phase_stream_reach: "phase_ok X s \<Longrightarrow> ss_stream s = Some st \<Longrightarrow> stream_reach st"
  by (cases "ss_at s") (auto simp: phase_ok_def loop_ok_def done_ok_def streams_ok_def dest: core_reach)

lemma phase_stream:
  assumes "ss_stream s = Some st" "stream_step st st'" "phase_ok X s"
  shows "phase_ok X (s\<lparr>ss_stream := Some st'\<rparr>)"
proof -
  have r: "stream_reach st" by (rule phase_stream_reach [OF assms(3,1)])
  have r': "stream_reach st'" using r assms(2) by (rule reach_step)
  have "s_term st \<Longrightarrow> s_term st'" using reach_life [OF r assms(2)] by (simp add: life_def)
  moreover note core_stream [OF _ assms(1) r', of X]
  ultimately show ?thesis using assms(1,3) r'
    by (cases "ss_at s") (auto simp: phase_defs timers_ok_def streams_ok_def)
qed

lemma onNegotiateTimer_sound: "loop_ok X s \<Longrightarrow> sound X (onNegotiateTimer s)"
  by (cases "ss_stream s"; cases "ss_state s")
     (simp_all add: onNegotiateTimer_def Let_def sound_def loop_ok_def timers_ok_def)

lemma startProbe_ok:
  "loop_ok X s \<Longrightarrow> loop_ok X (startProbe (s\<lparr>ss_keepaliveTimer := None\<rparr>))"
  by (cases "ss_stream s"; cases "ss_state s"; cases "ss_pinging s")
     (simp_all add: startProbe_def loop_ok_def timers_ok_def)

lemma startProbe_at [simp]: "ss_at (startProbe s) = ss_at s"
  by (simp add: startProbe_def)

lemma sess_step_ok:
  assumes "sess_step X s s'" "phase_ok X s"
  shows "phase_ok X s'"
  using assms
proof (induction rule: sess_step.induct)
  case (ss_start s offer E)
  then show ?case by (simp add: phase_ok_def [of _ s] runStart_ok)
next
  case (ss_drain s b)
  then show ?case by (simp add: phase_ok_def [of _ s] onDrain_ok)
next
  case (ss_handle s ev evs E)
  then show ?case by (simp add: phase_ok_def [of _ s] continue_ok handle_sound)
next
  case (ss_negotiate s t E)
  then show ?case by (simp add: phase_ok_def [of _ s] continue_ok onNegotiateTimer_sound)
next
  case (ss_recovery s t E)
  then show ?case by (simp add: phase_ok_def [of _ s] continue_ok onRecoveryDeadline_sound)
next
  case (ss_keepalive s t E)
  then show ?case by (simp add: phase_ok_def startProbe_ok startProbe_at)
next
  case (ss_linger s t E)
  then show ?case by (simp add: phase_ok_def continue_def loop_ok_def)
next
  case (ss_streamDone s st)
  then show ?case by (simp add: phase_ok_def continue_def loop_ok_def)
next
  case (ss_endpointDone s)
  then show ?case by (simp add: phase_ok_def continue_def loop_ok_def)
next
  case (ss_teardown s i E)
  then show ?case by (simp add: phase_ok_def [of _ s] teardownBegin_ok)
next
  case (ss_release s i timedOut)
  then show ?case by (simp add: phase_ok_def [of _ s] teardownEnd_ok)
next
  case (ss_post ev s)
  then show ?case by (simp add: phase_post)
next
  case (ss_probe s r)
  then show ?case by (simp add: phase_post phase_probes)
next
  case (ss_userStream s st st')
  then show ?case by (simp add: phase_stream)
next
  case (ss_connClose s c st now cr first c' st')
  have "stream_step st st'" using ss_connClose(3)
    by (auto simp: closeBegin_def Stream_Close_def intro: shut_steps)
  moreover have "phase_ok X (s\<lparr>ss_conn := Some c'\<rparr>)" using ss_connClose by (simp add: phase_conn)
  ultimately have "phase_ok X (s\<lparr>ss_conn := Some c', ss_stream := Some st'\<rparr>)"
    using phase_stream [of "s\<lparr>ss_conn := Some c'\<rparr>" st st' X] ss_connClose(2) by simp
  then show ?case by (simp add: requestClose_def closeWith_def phase_post)
next
  case (ss_connClosed s c first)
  then show ?case by (simp add: phase_conn)
next
  case (ss_dial s r)
  then show ?case by (simp add: phase_result)
next
  case (ss_engine s p q)
  then show ?case by (simp add: phase_peer)
next
  case (ss_channel s p d ev p')
  have "pe_closed p' = pe_closed p"
    using ss_channel(2) by (auto simp: onDataChannel_def split: option.splits)
  then show ?case using ss_channel by (auto simp: phase_peer phase_post sink_def split: option.splits)
qed

lemma sess_reach_ok: "sess_reach X s \<Longrightarrow> phase_ok X s"
proof (induction rule: sess_reach.induct)
  case (sr_step s s')
  then show ?case using sess_step_ok by blast
qed (simp_all add: phase_defs newSession_def core_ok_def delivery_def streams_ok_def newMailbox_def)

subsection \<open>The life cycle of a session\<close>

text \<open>The documented transitions, with the terminal state reachable from everywhere.\<close>

fun edge :: "ConnectionState \<Rightarrow> ConnectionState \<Rightarrow> bool" where
  "edge StateNew b = (b = StateSignaling \<or> b = StateConnecting)"
| "edge StateSignaling b = (b = StateConnecting \<or> b = StateConnected)"
| "edge StateConnecting b = (b = StateConnected)"
| "edge StateConnected b = (b = StateRecovering)"
| "edge StateRecovering b = (b = StateConnected)"
| "edge StateClosing b = False"
| "edge StateClosed b = False"

definition moves :: "('p, 'd) session \<Rightarrow> ('p, 'd) session \<Rightarrow> bool" where
  "moves s s' \<longleftrightarrow> ss_state s' = ss_state s \<or> edge (ss_state s) (ss_state s') \<or> ss_state s' = StateClosed"

lemma moves_refl [simp]: "moves s s"
  by (simp add: moves_def)

lemma attemptRestart_state: "ss_state (snd (attemptRestart X E s)) = ss_state s"
  by (simp add: attemptRestart_def Let_def sCount_def sendSignal_eq armRecovery_def
      split: option.splits prod.splits sum.splits)

lemma armKeepAlive_state [simp]: "ss_state (armKeepAlive X E s) = ss_state s"
  by (simp add: armKeepAlive_def)

lemma refresh_state [simp]: "ss_state (refreshCandidateStats X s) = ss_state s"
  by (simp add: refreshCandidateStats_def split: option.splits prod.splits)

lemma deliver_state [simp]: "ss_state (snd (deliver E s)) = ss_state s"
  by (simp add: deliver_def Let_def split: option.splits)

lemma lost_moves: "moves s (onConnectivityLost X E s)"
  by (simp add: moves_def onConnectivityLost_def Let_def armRecovery_def)

lemma lost_restart_moves: "moves s (snd (attemptRestart X E (onConnectivityLost X E s)))"
  using lost_moves [of s X E] by (simp add: moves_def attemptRestart_state)

lemma Up_moves: "moves s (onConnectivityUp X E s)"
  by (simp add: moves_def onConnectivityUp_def Let_def sCount_def split: option.splits)

lemma onKeepAlive_moves: "moves s (snd (onKeepAlive X E res s))"
proof -
  let ?s = "sCount metricKeepAliveFailures [labelReason ''no-pong''] (s\<lparr>ss_pinging := False\<rparr>)"
  have "moves s (snd (attemptRestart X E (onConnectivityLost X E ?s)))"
    using lost_restart_moves [of ?s X E] by (simp add: moves_def sCount_def)
  then show ?thesis by (simp add: onKeepAlive_def Let_def split: option.splits)
      (simp add: moves_def sCount_def)
qed

lemma quietly_moves: "quietly s s' \<Longrightarrow> moves s s'"
  by (simp add: moves_def quietly_fields)

lemma onRestart_moves: "moves s (snd (onRestart X E gen sdp s))"
  using quietly_fields(1) [OF quietly_answerOffer [of "s\<lparr>ss_generation := gen\<rparr>" X sdp]]
  by (cases "answerOffer X sdp (s\<lparr>ss_generation := gen\<rparr>)")
     (simp add: onRestart_def moves_def sendSignal_eq quietly_fields(1) [OF quietly_dropSignal]
       split: sum.splits option.splits)

lemma onSignal_moves: "moves s (snd (onSignal X E sig s))"
proof -
  have "moves s (snd (applyAnswer X sdp s))" for sdp
    by (simp add: applyAnswer_def moves_def Let_def split: option.splits prod.splits)
  moreover have "moves s (snd (onCandidate X c s))" for c
    using quietly_moves [OF quietly_applyCandidate [of s X c]] by (simp add: onCandidate_def moves_def)
  moreover have "moves s (onICEComplete X s)"
    using quietly_moves [OF quietly_applyEnd [of s X]] by (simp add: onICEComplete_def moves_def)
  moreover have "moves s (snd (onCloseSignal E s))"
    by (simp add: onCloseSignal_def moves_def Let_def)
  ultimately show ?thesis
    by (simp add: onSignal_def onRestartSignal_def onRestart_moves quietly_moves [OF quietly_dropSignal]
        split: sum.splits)
qed

lemma onChannelOpen_moves: "loop_ok X s \<Longrightarrow> moves s (snd (onChannelOpen X E s))"
  by (cases "ss_stream s"; cases "ss_state s")
     (simp_all add: onChannelOpen_def moves_def Let_def loop_ok_def split: option.splits prod.splits sum.splits)

lemma handle_moves: "loop_ok X s \<Longrightarrow> moves s (snd (handle X E ev s))"
proof (cases ev)
  case (EvPion pe)
  assume "loop_ok X s"
  then show ?thesis using EvPion lost_restart_moves [of s X E] attemptRestart_state [of X E s]
    by (cases pe) (simp_all add: onPionEvent_def sendSignal_eq Up_moves lost_moves onChannelOpen_moves
        onConnectivityFailed_def split: option.splits, simp_all add: moves_def)
qed (simp_all add: onSignal_moves onKeepAlive_moves)

lemma start_state: "ss_state (snd (start X E offer s)) \<in> {ss_state s, StateSignaling, StateConnecting}"
proof -
  have a: "answerOffer X sdp (s\<lparr>ss_peerConn := q\<rparr>) = (r, t) \<Longrightarrow> ss_state t = ss_state s" for sdp q r t
    using quietly_fields(1) [OF quietly_answerOffer [of "s\<lparr>ss_peerConn := q\<rparr>" X sdp]] by simp
  have "ss_state (snd (startAnswerer X E off s)) \<in> {ss_state s, StateConnecting}" for off
    by (auto simp: startAnswerer_def Let_def sendSignal_eq dest: a split: sum.splits prod.splits option.splits)
  then show ?thesis
    by (auto simp: start_def startOfferer_def sendSignal_eq split: sum.splits prod.splits option.splits)
qed

lemma sess_step_moves:
  assumes "sess_step X s s'" "phase_ok X s"
  shows "moves s s'"
  using assms
proof (induction rule: sess_step.induct)
  case (ss_start s offer E)
  let ?s = "s\<lparr>ss_startedAt := en_now E\<rparr>"
  have "started X ?s (start X E offer ?s)"
    by (rule start_ok) (use ss_start in \<open>simp_all add: phase_ok_def fresh_ok_def\<close>)
  moreover have "ss_state s = StateNew" using ss_start by (simp add: phase_ok_def fresh_ok_def)
  moreover have "ss_state (snd (start X E offer ?s)) \<in> {StateNew, StateSignaling, StateConnecting}"
    using start_state [of X E offer ?s] \<open>ss_state s = StateNew\<close> by simp
  ultimately show ?case
    by (cases "start X E offer ?s"; cases "fst (start X E offer ?s)") (auto simp: runStart_def moves_def)
next
  case (ss_handle s ev evs E)
  then have "moves s (snd (handle X E ev s))" by (simp add: phase_ok_def handle_moves)
  then show ?case by (simp add: continue_def moves_def)
next
  case (ss_teardown s i E)
  then show ?case using teardownBegin_ok [of X s i E] by (simp add: phase_ok_def closed_ok_def moves_def)
next
  case (ss_release s i timedOut)
  then show ?case using teardownEnd_ok [of X s i] by (simp add: phase_ok_def closed_ok_def moves_def)
qed (simp_all add: moves_def onDrain_def drain_def continue_def onNegotiateTimer_def Let_def onRecoveryDeadline_def
    attemptRestart_state startProbe_def postEvent_def requestClose_def closeWith_def sink_def split: option.splits)

subsection \<open>A concrete session\<close>

text \<open>Signals that carry a description always validate when the peers and the session are well named.\<close>

lemma newSignal_sdp:
  assumes "length buf = 16" "validID sid" "validPeerID a = None" "validPeerID b = None" "a \<noteq> b"
    "kind = KindOffer \<or> kind = KindAnswer" "validSDP sdp = None"
    "length (encodePayload (PSdp \<lparr> sp_SDP = sdp \<rparr>)) \<le> MaxEnvelopeSize"
  shows "newSignal buf kind a b sid (Some (PSdp \<lparr> sp_SDP = sdp \<rparr>)) =
    Inr \<lparr> sig_Version = ProtocolVersion, sig_ID = NewID buf, sig_SessionID = sid, sig_Kind = kind,
      sig_From = a, sig_To = b, sig_Payload = encodePayload (PSdp \<lparr> sp_SDP = sdp \<rparr>) \<rparr>"
proof -
  have "str_valid sdp" using assms(7) by (simp add: validSDP_def split: if_splits)
  then have "decodePayload decode_sdp (encodePayload (PSdp \<lparr> sp_SDP = sdp \<rparr>)) = Inr \<lparr> sp_SDP = sdp \<rparr>"
    using roundtrip_sdp [of "\<lparr> sp_SDP = sdp \<rparr>"] by simp
  then show ?thesis using assms NewID_valid [OF assms(1)]
    by (auto simp: newSignal_def Validate_def validatePayload_def simp del: encodePayload.simps)
qed

definition ex_config :: Config where
  "ex_config = \<lparr> cfg_ID = ''a'', cfg_hasSignaler = True, cfg_ICEServers = [], cfg_ICETransportPolicy = 0,
     cfg_DialTimeout = 30, cfg_ICETimeout = 20, cfg_KeepAlive = \<lparr> ka_Interval = 5, ka_Timeout = 2 \<rparr>,
     cfg_Reconnect = \<lparr> rc_Enabled = True, rc_MaxAttempts = 2, rc_AttemptTimeout = 10,
       rc_Backoff = \<lparr> bo_Initial = 1, bo_Maximum = 1, bo_Factor = Fin 1, bo_Jitter = Fin 0 \<rparr> \<rparr>,
     cfg_AcceptBacklog = 4, cfg_FramePayload = 1024, cfg_ReadBuffer = 4096,
     cfg_hasLogger = True, cfg_hasMetrics = True, cfg_hasClock = True \<rparr>"

definition ex_ctx :: "(nat \<times> Candidate list, bool) sctx" where
  "ex_ctx = \<lparr> cx_cfg = ex_config, cx_pion = ex_pion, cx_factory = NewFactory [] False \<rparr>"

definition ex_env :: "int \<Rightarrow> env" where
  "ex_env now = \<lparr> en_now = now, en_rand = replicate 16 0, en_send = (\<lambda>_. None), en_enqueue = None,
     en_backoff = 0, en_ch = (None, 0, None) \<rparr>"

definition ex_sid :: string where "ex_sid = replicate 32 (CHR ''f'')"

definition ex_dialing :: "(nat \<times> Candidate list, bool) session" where
  "ex_dialing = runStart ex_ctx (ex_env 100) None (newSession ex_sid ''b'' roleOfferer None)"

lemma ex_names: "validPeerID ''a'' = None" "validPeerID ''b'' = None" "validID ex_sid"
  by (simp_all add: ex_sid_def validID_def allHexLower_def isHexLower_def validPeerID_def MaxPeerIDLength_def
      str_valid_def rune_eval is_control_def is_space_def trim_space_def list_all_iff)

lemma ex_sdp: "validSDP ''o'' = None" "length (encodePayload (PSdp \<lparr> sp_SDP = ''o'' \<rparr>)) \<le> MaxEnvelopeSize"
proof -
  have "str_valid ''o''" unfolding str_valid_def by (rule ascii_key) (simp add: code_of_def)
  then show "validSDP ''o'' = None" by (simp add: validSDP_def MaxSDPSize_def)
  have "length (encodePayload (PSdp \<lparr> sp_SDP = ''o'' \<rparr>)) = 11" by code_simp
  then show "length (encodePayload (PSdp \<lparr> sp_SDP = ''o'' \<rparr>)) \<le> MaxEnvelopeSize" by (simp add: MaxEnvelopeSize_def)
qed

lemma ex_dialing_facts:
  "ss_at ex_dialing = SLoop []" "ss_role ex_dialing = roleOfferer" "ss_stream ex_dialing = None"
  "ss_startedAt ex_dialing = 100" "ss_state ex_dialing = StateSignaling" "ss_pendingCands ex_dialing = []"
  "sess_reach ex_ctx ex_dialing" "ss_restartAttempt ex_dialing = 0"
proof -
  have n: "newSignal (replicate 16 0) KindOffer ''a'' ''b'' ex_sid (Some (PSdp \<lparr> sp_SDP = ''o'' \<rparr>)) =
    Inr \<lparr> sig_Version = ProtocolVersion, sig_ID = NewID (replicate 16 0), sig_SessionID = ex_sid, sig_Kind = KindOffer,
      sig_From = ''a'', sig_To = ''b'', sig_Payload = encodePayload (PSdp \<lparr> sp_SDP = ''o'' \<rparr>) \<rparr>"
    by (rule newSignal_sdp) (simp_all add: ex_names ex_sdp del: encodePayload.simps)
  show "ss_at ex_dialing = SLoop []" "ss_role ex_dialing = roleOfferer" "ss_stream ex_dialing = None"
    "ss_startedAt ex_dialing = 100" "ss_state ex_dialing = StateSignaling" "ss_pendingCands ex_dialing = []"
    "ss_restartAttempt ex_dialing = 0"
    using n by (simp_all add: ex_dialing_def runStart_def start_def startOfferer_def newSession_def ex_ctx_def
        ex_env_def ex_config_def ex_pion_def NewOfferer_def newPeer_def CreateOffer_def sendSignal_eq sendErr_def
        del: encodePayload.simps)
  show "sess_reach ex_ctx ex_dialing"
    unfolding ex_dialing_def
    by (rule sr_step [OF sr_dial ss_start]) (simp add: newSession_def)
qed

subsection \<open>Guarantees\<close>



text \<open>C19: Everything a session owes is settled exactly once, whatever happened before and in whatever order.
  The outputs of a finished session other than signals and measurements are, in this order: the
  connection delivered to \<open>Dial\<close> or to the listener, if there was one; the peer connection closed, if
  it was ever created; the removal from the session table; and, if nothing had been delivered, the
  error for the waiting \<open>Dial\<close> or the return of the backlog slot. Before that, nothing but the
  delivery has happened.\<close>

theorem session_settles_once:
  assumes "sess_reach X s"
  shows "(if ss_at s = SDone then
       (if ss_role s = roleOfferer then
          signif (ss_out s) = [OResult DialConn] @ peerOut s @ [ORemoveSession] \<or>
          (\<exists>e. signif (ss_out s) = peerOut s @ [ORemoveSession, OResult (DialErr e)])
        else signif (ss_out s) = [OEnqueue] @ peerOut s @ [ORemoveSession] \<or>
          signif (ss_out s) = peerOut s @ [ORemoveSession, OReleaseSlot]) \<and>
       ss_finished s \<and> (\<forall>p. ss_peerConn s = Some p \<longrightarrow> pe_closed p) \<and>
       (\<forall>st. ss_stream s = Some st \<longrightarrow> s_term st) \<and> mb_closed (ss_box s)
     else signif (ss_out s) = delivery s \<and> \<not> ss_finished s)"
proof (cases "ss_at s = SDone")
  case True
  have r: "ss_role s = roleAnswerer \<longleftrightarrow> ss_role s \<noteq> roleOfferer" by (cases "ss_role s") simp_all
  show ?thesis using sess_reach_ok [OF assms] True r
    by (auto simp: phase_ok_def done_ok_def closed_ok_def)
next
  case False
  then have "core_ok X s"
    using sess_reach_ok [OF assms] by (cases "ss_at s") (simp_all add: phase_ok_def loop_ok_def)
  then show ?thesis using False by (simp add: core_ok_def)
qed

theorem session_settles_once_witness:
  "signif (ss_out ex_dialing) = [] \<and> \<not> ss_finished ex_dialing"
  using session_settles_once [OF ex_dialing_facts(7)] core_delivered [of ex_ctx ex_dialing]
    sess_reach_ok [OF ex_dialing_facts(7)]
  by (simp add: ex_dialing_facts delivery_def phase_ok_def loop_ok_def)



text \<open>C21: A dial ends. While an outbound session has no stream, its negotiation timer is armed for
  \<open>DialTimeout\<close> after its start; once that time has come and the loop is idle, the session ends by its own
  steps and the waiting \<open>Dial\<close> receives a timeout error.\<close>

theorem dial_times_out:
  assumes "sess_reach X s" "ss_role s = roleOfferer" "ss_at s = SLoop []" "ss_stream s = None"
    "ss_startedAt s + cfg_DialTimeout (cx_cfg X) \<le> en_now E"
  shows "\<exists>i s1 s2 s3 e. ss_negotiateTimer s = Some (ss_startedAt s + cfg_DialTimeout (cx_cfg X)) \<and>
    s1 = continue [] (onNegotiateTimer s) \<and> sess_step X s s1 \<and>
    s2 = (teardownBegin X E i s1)\<lparr>ss_at := SRelease i\<rparr> \<and> sess_step X s1 s2 \<and>
    s3 = (teardownEnd X i s2)\<lparr>ss_at := SDone\<rparr> \<and> sess_step X s2 s3 \<and>
    ss_finished s3 \<and> ss_result s3 = Some (DialErr e) \<and> errors_Is e ErrTimeout"
proof -
  let ?i = "mkIntent CloseTimeout ''negotiation timed out'' True False (errorf ErrTimeout None)"
  let ?s1 = "continue [] (onNegotiateTimer s)"
  let ?s2 = "(teardownBegin X E ?i ?s1)\<lparr>ss_at := SRelease ?i\<rparr>"
  let ?s3 = "(teardownEnd X ?i ?s2)\<lparr>ss_at := SDone\<rparr>"
  have l: "loop_ok X s" using sess_reach_ok [OF assms(1)] assms(3) by (simp add: phase_ok_def)
  then have t: "ss_negotiateTimer s = Some (ss_startedAt s + cfg_DialTimeout (cx_cfg X))"
    "ss_state s \<noteq> StateConnected" "ss_state s \<noteq> StateRecovering"
    using assms(4) by (auto simp: loop_ok_def timers_ok_def)
  have d: "\<not> ss_delivered s" "ss_result s = None" using l assms(4) by (auto simp: loop_ok_def core_ok_def)
  have a1: "ss_at ?s1 = STeardown ?i" using t by (simp add: continue_def onNegotiateTimer_def Let_def)
  have st1: "sess_step X s ?s1" by (rule ss_negotiate [OF assms(3) t(1) assms(5)])
  have st2: "sess_step X ?s1 ?s2" by (rule ss_teardown [OF a1])
  have st3: "sess_step X ?s2 ?s3" by (rule ss_release [where timedOut = True]) simp_all
  obtain xs where "sendCloseSignal X E ?i z = z\<lparr>ss_out := ss_out z @ xs z\<rparr>" for z
    using sendCloseSignal_eq [of X E ?i] by metis
  then have "ss_result ?s2 = None \<and> \<not> ss_delivered ?s2 \<and> ss_role ?s2 = roleOfferer"
    using t d assms(2,4)
    by (simp add: teardownBegin_def shutStream_def Let_def continue_def onNegotiateTimer_def mkIntent_def)
  then have "ss_finished ?s3 \<and> ss_result ?s3 = Some (DialErr (errorf ErrTimeout None))"
    by (simp add: teardownEnd_def Let_def mapConn_def mkIntent_def split: option.splits)
  then show ?thesis using t(1) st1 st2 st3
    by (intro exI [of _ ?i] exI [of _ ?s1] exI [of _ ?s2] exI [of _ ?s3] exI [of _ "errorf ErrTimeout None"]) simp
qed

theorem dial_times_out_witness:
  "\<exists>s1 s2 s3 e. sess_step ex_ctx ex_dialing s1 \<and> sess_step ex_ctx s1 s2 \<and> sess_step ex_ctx s2 s3 \<and>
     ss_result s3 = Some (DialErr e) \<and> errors_Is e ErrTimeout"
proof -
  have n: "ss_startedAt ex_dialing + cfg_DialTimeout (cx_cfg ex_ctx) \<le> en_now (ex_env 130)"
    by (simp add: ex_dialing_facts ex_ctx_def ex_config_def ex_env_def)
  show ?thesis using dial_times_out [OF ex_dialing_facts(7,2,1,3) n] by (elim exE conjE) (intro exI conjI)
qed

subsection \<open>Recovery\<close>

text \<open>The recovery timer expiring again and again while nothing else happens; each element is what one
  expiry meets.\<close>

definition expireRecovery :: "('p, 'd) sctx \<Rightarrow> env \<Rightarrow> ('p, 'd) session \<Rightarrow> ('p, 'd) session" where
  "expireRecovery X E s = continue [] (onRecoveryDeadline X E (s\<lparr>ss_recoveryTimer := None\<rparr>))"

fun expire :: "('p, 'd) sctx \<Rightarrow> env list \<Rightarrow> ('p, 'd) session \<Rightarrow> ('p, 'd) session" where
  "expire X [] s = s"
| "expire X (E # Es) s = (if ss_at s = SLoop [] then expire X Es (expireRecovery X E s) else s)"

lemma attemptRestart_progress:
  "attemptRestart X E s = (None, s') \<Longrightarrow> ss_peerConn s \<noteq> None \<Longrightarrow>
     ss_restartAttempt s' = ss_restartAttempt s + 1 \<and>
     ss_restartAttempt s < rc_MaxAttempts (cfg_Reconnect (cx_cfg X)) \<and> ss_state s' = ss_state s"
  by (auto simp: attemptRestart_def Let_def sCount_def sendSignal_eq armRecovery_def emit_def
      split: if_splits option.splits prod.splits sum.splits)

lemma expire_teardown:
  "loop_ok X s \<Longrightarrow> ss_state s = StateRecovering \<Longrightarrow> ss_at s = SLoop [] \<Longrightarrow>
     int (length Es) > max 0 (rc_MaxAttempts (cfg_Reconnect (cx_cfg X)) - ss_restartAttempt s) \<Longrightarrow>
     \<exists>i. ss_at (expire X Es s) = STeardown i"
proof (induction Es arbitrary: s)
  case (Cons E Es)
  obtain t where t: "ss_recoveryTimer s = Some t" using Cons.prems(1,2) by (auto simp: loop_ok_def timers_ok_def)
  obtain r s' where r: "onRecoveryDeadline X E (s\<lparr>ss_recoveryTimer := None\<rparr>) = (r, s')" by fastforce
  have sd: "sound X (r, s')" using onRecoveryDeadline_sound [OF Cons.prems(1) t, of E] r by simp
  have e: "expireRecovery X E s = continue [] (r, s')" by (simp add: expireRecovery_def r)
  show ?case
  proof (cases r)
    case (Some i)
    have "ss_at (expire X Es (continue [] (r, s'))) = STeardown i"
      by (cases Es) (simp_all add: continue_def Some)
    then show ?thesis using Cons.prems(3) e by simp
  next
    case None
    have a: "attemptRestart X E (s\<lparr>ss_recoveryTimer := None\<rparr>) = (None, s')"
      using r None Cons.prems(2) by (simp add: onRecoveryDeadline_def)
    have p: "ss_peerConn s \<noteq> None" using Cons.prems(1) by (simp add: loop_ok_def)
    note g = attemptRestart_progress [OF a]
    let ?n = "continue [] (r, s')"
    have "\<exists>i. ss_at (expire X Es ?n) = STeardown i"
    proof (rule Cons.IH)
      show "loop_ok X ?n" using sd None by (simp add: continue_def sound_def)
      show "ss_state ?n = StateRecovering" using g p Cons.prems(2) by (simp add: continue_def)
      show "ss_at ?n = SLoop []" by (simp add: continue_def None)
      show "int (length Es) > max 0 (rc_MaxAttempts (cfg_Reconnect (cx_cfg X)) - ss_restartAttempt ?n)"
        using g p Cons.prems(4) by (simp add: continue_def)
    qed
    then show ?thesis using Cons.prems(3) e by simp
  qed
qed simp

text \<open>C22: Recovery is bounded. A session that lost connectivity has its recovery timer armed at every
  moment of its loop, and if nothing is heard from the peer or the engine, the session ends after at most as many
  expiries as it has restart attempts left, plus one.\<close>

theorem recovery_terminates:
  assumes "sess_reach X s" "ss_at s = SLoop []" "ss_state s = StateRecovering"
    "int (length Es) > max 0 (rc_MaxAttempts (cfg_Reconnect (cx_cfg X)) - ss_restartAttempt s)"
  shows "ss_recoveryTimer s \<noteq> None \<and> (\<exists>i. ss_at (expire X Es s) = STeardown i) \<and>
    (\<forall>E t. ss_recoveryTimer s = Some t \<longrightarrow> t \<le> en_now E \<longrightarrow> sess_step X s (expireRecovery X E s))"
proof -
  have l: "loop_ok X s" using sess_reach_ok [OF assms(1)] assms(2) by (simp add: phase_ok_def)
  then show ?thesis using expire_teardown [OF l assms(3,2,4)] assms(3) ss_recovery [OF assms(2)]
    by (auto simp: loop_ok_def timers_ok_def expireRecovery_def)
qed

text \<open>Handing one event to an idle session.\<close>

lemma feed_event:
  assumes "sess_reach X s" "ss_at s = SLoop []" "ss_box s = newMailbox" "\<And>r. ev \<noteq> EvKeepalive r"
  shows "sess_reach X (continue [] (handle X E ev (s\<lparr>ss_at := SLoop [ev]\<rparr>)))"
proof -
  let ?p = "postEvent ev s"
  let ?b = "(ss_box ?p)\<lparr>mb_notify := False\<rparr>"
  have b: "ss_box ?p = \<lparr> mb_items = [ev], mb_overflow = False, mb_closed = False, mb_notify = True \<rparr>"
    using assms(3) by (simp add: postEvent_def post_def newMailbox_def mbSignal_def maxMailbox_def)
  have r1: "sess_reach X ?p" using assms(1) ss_post [OF assms(4)] by (rule sr_step)
  have r2: "sess_reach X (onDrain (?p\<lparr>ss_box := ?b\<rparr>))"
    by (rule sr_step [OF r1 ss_drain]) (use assms(2) b in \<open>simp_all add: mbWait_def postEvent_def\<close>)
  have e: "onDrain (?p\<lparr>ss_box := ?b\<rparr>) = s\<lparr>ss_at := SLoop [ev]\<rparr>"
    using b assms(3) by (simp add: onDrain_def drain_def postEvent_def newMailbox_def)
  show ?thesis by (rule sr_step [OF r2 [unfolded e] ss_handle]) simp
qed

text \<open>The example session connected, and after its connectivity was lost.\<close>

definition ex_connected :: "(nat \<times> Candidate list, bool) session" where
  "ex_connected = continue [] (handle ex_ctx (ex_env 101) (EvPion EventChannelOpen)
     (ex_dialing\<lparr>ss_at := SLoop [EvPion EventChannelOpen]\<rparr>))"

definition ex_lost :: "(nat \<times> Candidate list, bool) session" where
  "ex_lost = continue [] (handle ex_ctx (ex_env 102) (EvPion EventDisconnected)
     (ex_connected\<lparr>ss_at := SLoop [EvPion EventDisconnected]\<rparr>))"

lemma ex_dialing_peer: "ss_peerConn ex_dialing = Some ex_peer" "ss_box ex_dialing = newMailbox"
  "ss_result ex_dialing = None" "ss_keepaliveTimer ex_dialing = None" "ss_pinging ex_dialing = False"
  using newSignal_sdp [of "replicate 16 0" ex_sid "''a''" "''b''" KindOffer "''o''"]
  by (simp_all add: ex_names ex_sdp ex_dialing_def runStart_def start_def startOfferer_def newSession_def ex_ctx_def
      ex_env_def ex_config_def ex_pion_def NewOfferer_def newPeer_def CreateOffer_def sendSignal_eq sendErr_def
      ex_peer_def del: encodePayload.simps)

lemma ex_connected_facts:
  "sess_reach ex_ctx ex_connected" "ss_at ex_connected = SLoop []" "ss_state ex_connected = StateConnected"
  "ss_box ex_connected = newMailbox" "ss_stream ex_connected = Some (NewStream 1024 4096)"
  "ss_restartAttempt ex_connected = 0" "ss_peerClosed ex_connected = ss_peerClosed ex_dialing"
proof -
  show "sess_reach ex_ctx ex_connected"
    unfolding ex_connected_def by (rule feed_event [OF ex_dialing_facts(7,1) ex_dialing_peer(2)]) simp
  have d: "Detach ex_pion ex_peer = (Inr True, ex_peer\<lparr>pe_detached := True\<rparr>)"
    by (simp add: Detach_def ex_pion_def ex_peer_def)
  show "ss_at ex_connected = SLoop []" "ss_state ex_connected = StateConnected"
    "ss_box ex_connected = newMailbox" "ss_stream ex_connected = Some (NewStream 1024 4096)"
    "ss_restartAttempt ex_connected = 0" "ss_peerClosed ex_connected = ss_peerClosed ex_dialing"
    by (simp_all add: ex_connected_def continue_def onPionEvent_def onChannelOpen_def ex_dialing_peer ex_dialing_facts
        ex_ctx_def d MaxMessageSize_def ex_pion_def [THEN arg_cong [where f = pi_MaxMessageSize]]
        Let_def ex_config_def HeaderSize_def deliver_def armKeepAlive_def refreshCandidateStats_def
        SelectedCandidatePair_def ex_env_def split: option.splits prod.splits)
qed

lemma ex_lost_facts:
  "sess_reach ex_ctx ex_lost" "ss_at ex_lost = SLoop []" "ss_state ex_lost = StateRecovering"
  "ss_restartAttempt ex_lost = 0"
  unfolding ex_lost_def
  by (rule feed_event [OF ex_connected_facts(1,2,4)], simp)
     (simp_all add: continue_def onPionEvent_def onConnectivityLost_def ex_connected_facts Let_def armRecovery_def)

theorem recovery_terminates_witness:
  "ss_state ex_lost = StateRecovering \<and>
   (\<exists>i. ss_at (expire ex_ctx [ex_env 200, ex_env 300, ex_env 400] ex_lost) = STeardown i)"
  using recovery_terminates [OF ex_lost_facts(1-3), of "[ex_env 200, ex_env 300, ex_env 400]"]
  by (simp add: ex_lost_facts ex_ctx_def ex_config_def)

subsection \<open>Signals as messages\<close>

text \<open>What a signal says, and what a session does with it: the handler without any decoding.\<close>

datatype message =
    MAnswer string
  | MOffer
  | MRestart u32 string
  | MCandidate Candidate
  | MICEComplete
  | MReject string string
  | MClose

fun onMessage :: "('p, 'd) sctx \<Rightarrow> env \<Rightarrow> message \<Rightarrow> ('p, 'd) session \<Rightarrow> ('p, 'd) handled" where
  "onMessage X E (MAnswer sdp) s =
     (if ss_role s \<noteq> roleOfferer \<or> hasRemote X s \<and> ss_restartAttempt s = 0 then (None, dropSignal s)
      else applyAnswer X sdp s)"
| "onMessage X E MOffer s = (None, dropSignal s)"
| "onMessage X E (MRestart g sdp) s = onRestart X E g sdp s"
| "onMessage X E (MCandidate c) s = onCandidate X c s"
| "onMessage X E MICEComplete s = (None, onICEComplete X s)"
| "onMessage X E (MReject code reason) s =
     (Some (mkIntent CloseNormal [] False False (RejectedError code reason (ss_peer s))), s)"
| "onMessage X E MClose s = onCloseSignal E s"

text \<open>Validated messages are within the limits of the protocol.\<close>

fun message_ok :: "message \<Rightarrow> bool" where
  "message_ok (MAnswer sdp) \<longleftrightarrow> 0 < length sdp \<and> length sdp \<le> MaxSDPSize"
| "message_ok (MRestart g sdp) \<longleftrightarrow> 0 < g \<and> 0 < length sdp \<and> length sdp \<le> MaxSDPSize"
| "message_ok (MCandidate c) \<longleftrightarrow> 0 < length (ca_Candidate c) \<and> length (ca_Candidate c) \<le> MaxCandidateSize"
| "message_ok (MReject code reason) \<longleftrightarrow> RejectCode_valid code \<and> length reason \<le> MaxReasonLength"
| "message_ok MOffer \<longleftrightarrow> True"
| "message_ok MICEComplete \<longleftrightarrow> True"
| "message_ok MClose \<longleftrightarrow> True"



subsection \<open>Closing by the peer\<close>

lemma teardownBegin_stream:
  "ss_stream (teardownBegin X E i s) =
     (case ss_stream s of
        None \<Rightarrow> None
      | Some st \<Rightarrow> Some
         (if ci_graceful i \<and> ss_peerClosed s
          then ShutdownEOF st (streamCloseCode (ci_code i)) (ci_reason i) (en_now E) (en_ch E)
          else if ci_graceful i then Shutdown st (streamCloseCode (ci_code i)) (ci_reason i) (en_now E) (en_ch E)
          else CloseWith st (streamCloseCode (ci_code i)) (ci_reason i) (en_now E) (en_ch E)))"
proof -
  obtain xs where "sendCloseSignal X E i z = z\<lparr>ss_out := ss_out z @ xs z\<rparr>" for z
    using sendCloseSignal_eq [of X E i] by metis
  then show ?thesis by (simp add: teardownBegin_def Let_def shutStream_def split: option.splits)
qed



subsection \<open>Early candidates\<close>

lemma applyAll_peer:
  "ss_peerConn s = Some p \<Longrightarrow>
     ss_peerConn (applyAll X cs s) = Some (fold (\<lambda>c q. snd (AddCandidate (cx_pion X) c q)) cs p)"
proof (induction cs arbitrary: s p)
  case (Cons c cs)
  have "ss_peerConn (applyCandidate X c s) = Some (snd (AddCandidate (cx_pion X) c p))"
    using Cons.prems by (simp add: applyCandidate_def sCount_def split: prod.splits option.splits)
  from Cons.IH [OF this] show ?case by simp
qed simp

text \<open>C25: Candidates that arrive before the description are neither lost nor reordered. When the answer is
  applied, the engine is given every buffered candidate in the order of arrival, then the end mark
  if it had arrived, and the buffers are empty. The hypothesis is the engine's contract that a
  description it accepted is reported as the remote description.\<close>

theorem early_candidates_applied:
  assumes set: "\<And>t sdp q q'. pi_SetRemoteDescription (cx_pion X) t sdp q = (None, q') \<Longrightarrow>
      pi_RemoteDescription (cx_pion X) q' \<noteq> None"
    and p: "ss_peerConn s = Some p" "SetRemoteAnswer (cx_pion X) sdp p = (None, p')"
  shows "\<exists>s' q. applyAnswer X sdp s = (None, s') \<and> ss_pendingCands s' = [] \<and> \<not> ss_remoteComplete s' \<and>
    q = fold (\<lambda>c q. snd (AddCandidate (cx_pion X) c q)) (ss_pendingCands s) p' \<and>
    ss_peerConn s' = Some (if ss_remoteComplete s then snd (EndOfRemoteCandidates (cx_pion X) q) else q)"
proof -
  let ?s = "s\<lparr>ss_peerConn := Some p', ss_restartAttempt := 0,
    ss_state := (if ss_state s = StateSignaling then StateConnecting else ss_state s)\<rparr>"
  have a: "applyAnswer X sdp s = (None, flushCandidates X ?s)" using p by (simp add: applyAnswer_def Let_def)
  have h: "hasRemote X ?s"
    using p(2) set by (auto simp: hasRemote_def HasRemoteDescription_def SetRemoteAnswer_def split: prod.splits)
  let ?q = "fold (\<lambda>c q. snd (AddCandidate (cx_pion X) c q)) (ss_pendingCands s) p'"
  let ?a = "applyAll X (ss_pendingCands s) ?s"
  have q: "ss_peerConn ?a = Some ?q" by (rule applyAll_peer) simp
  have rc: "ss_remoteComplete ?a = ss_remoteComplete s"
    using quietly_fields(6) [OF quietly_applyAll [of ?s X "ss_pendingCands s"]] by simp
  have "ss_pendingCands (flushCandidates X ?s) = [] \<and> \<not> ss_remoteComplete (flushCandidates X ?s) \<and>
    ss_peerConn (flushCandidates X ?s) =
      Some (if ss_remoteComplete s then snd (EndOfRemoteCandidates (cx_pion X) ?q) else ?q)"
    using h q rc by (simp add: flushCandidates_def Let_def applyEnd_def)
  then show ?thesis using a by blast
qed

definition ex_cand :: Candidate where
  "ex_cand = \<lparr> ca_Candidate = ''c'', ca_SDPMid = None, ca_SDPMLineIndex = None, ca_UsernameFragment = None \<rparr>"

theorem early_candidates_applied_witness:
  "\<exists>s'. applyAnswer ex_ctx ''x'' (ex_dialing\<lparr>ss_pendingCands := [ex_cand, ex_cand\<lparr>ca_Candidate := ''d''\<rparr>]\<rparr>) = (None, s') \<and>
     ss_pendingCands s' = [] \<and> \<not> ss_remoteComplete s'"
proof -
  have "pi_RemoteDescription (cx_pion ex_ctx) q' \<noteq> None"
    if "pi_SetRemoteDescription (cx_pion ex_ctx) t sdp q = (None, q')" for t sdp q q'
    using that by (auto simp: ex_ctx_def ex_pion_def split: prod.splits)
  moreover have "SetRemoteAnswer (cx_pion ex_ctx) ''x'' ex_peer = (None, ex_peer\<lparr>pe_pc := (1, [])\<rparr>)"
    by (simp add: SetRemoteAnswer_def ex_ctx_def ex_pion_def ex_peer_def)
  ultimately show ?thesis
    using early_candidates_applied [of ex_ctx "ex_dialing\<lparr>ss_pendingCands := [ex_cand, ex_cand\<lparr>ca_Candidate := ''d''\<rparr>]\<rparr>"
        ex_peer "''x''" "ex_peer\<lparr>pe_pc := (1, [])\<rparr>"] ex_dialing_peer(1) by auto
qed

end
