(* ===== verification/Session_Frame.thy ===== *)
theory Session_Frame
  imports Session_Correct
begin

text \<open>
  What no step of a session takes back: outputs are only appended, a delivered connection stays delivered,
  a backlog slot that was given away is not reclaimed, and the identity of the session is fixed. The
  endpoint relies on these facts.
\<close>

definition grows :: "('p, 'd) session \<Rightarrow> ('p, 'd) session \<Rightarrow> bool" where
  "grows s s' \<longleftrightarrow> (\<exists>xs. ss_out s' = ss_out s @ xs) \<and> (ss_releaseSlot s' \<longrightarrow> ss_releaseSlot s) \<and>
     (ss_delivered s \<longrightarrow> ss_delivered s') \<and> ss_id s' = ss_id s \<and> ss_peer s' = ss_peer s \<and> ss_role s' = ss_role s \<and>
     (ss_finished s \<longrightarrow> ss_finished s')"

lemma grows_refl [simp]: "grows s s"
  by (simp add: grows_def)

lemma grows_trans [trans]: "grows s t \<Longrightarrow> grows t u \<Longrightarrow> grows s u"
  unfolding grows_def by (elim conjE exE, intro conjI) auto

lemma grows_upd [simp]:
  "grows s (t\<lparr>ss_box := v1\<rparr>) = grows s t" "grows s (t\<lparr>ss_result := v2\<rparr>) = grows s t"
  "grows s (t\<lparr>ss_peerConn := v3\<rparr>) = grows s t" "grows s (t\<lparr>ss_stream := v4\<rparr>) = grows s t"
  "grows s (t\<lparr>ss_conn := v5\<rparr>) = grows s t" "grows s (t\<lparr>ss_state := v6\<rparr>) = grows s t"
  "grows s (t\<lparr>ss_pendingCands := v7\<rparr>) = grows s t" "grows s (t\<lparr>ss_remoteComplete := v8\<rparr>) = grows s t"
  "grows s (t\<lparr>ss_generation := v9\<rparr>) = grows s t" "grows s (t\<lparr>ss_restarts := v10\<rparr>) = grows s t"
  "grows s (t\<lparr>ss_restartAttempt := v11\<rparr>) = grows s t" "grows s (t\<lparr>ss_restartStarted := v12\<rparr>) = grows s t"
  "grows s (t\<lparr>ss_startedAt := v13\<rparr>) = grows s t" "grows s (t\<lparr>ss_pinging := v14\<rparr>) = grows s t"
  "grows s (t\<lparr>ss_peerClosed := v15\<rparr>) = grows s t" "grows s (t\<lparr>ss_negotiateTimer := v16\<rparr>) = grows s t"
  "grows s (t\<lparr>ss_recoveryTimer := v17\<rparr>) = grows s t" "grows s (t\<lparr>ss_keepaliveTimer := v18\<rparr>) = grows s t"
  "grows s (t\<lparr>ss_lingerTimer := v19\<rparr>) = grows s t" "grows s (t\<lparr>ss_at := v20\<rparr>) = grows s t"
  "grows s (t\<lparr>ss_probes := v21\<rparr>) = grows s t"
  by (simp_all add: grows_def)

lemma grows_mapConn [simp]: "grows s (mapConn f t) = grows s t"
  by (simp add: mapConn_def)

lemma grows_emit: "grows s t \<Longrightarrow> grows s (emit x t)"
  unfolding grows_def emit_def by auto

lemma grows_sCount: "grows s t \<Longrightarrow> grows s (sCount m ls t)"
  by (simp add: sCount_def grows_emit)

lemma quietly_grows: "quietly t u \<Longrightarrow> grows s t \<Longrightarrow> grows s u"
  by (erule quietlyE) (auto simp: grows_def)

lemma grows_slot: "grows s t \<Longrightarrow> grows s (t\<lparr>ss_releaseSlot := False\<rparr>)"
  by (simp add: grows_def)

lemma grows_delivered: "grows s t \<Longrightarrow> grows s (t\<lparr>ss_delivered := True\<rparr>)"
  by (simp add: grows_def)

lemma grows_finished: "grows s t \<Longrightarrow> grows s (t\<lparr>ss_finished := True\<rparr>)"
  by (simp add: grows_def)

lemma grows_flush: "grows s t \<Longrightarrow> grows s (flushCandidates X t)"
  using quietly_grows [OF quietly_applyAll [of t X "ss_pendingCands t"], of s]
    quietly_grows [OF quietly_applyEnd
      [of "(applyAll X (ss_pendingCands t) t)\<lparr>ss_pendingCands := [], ss_remoteComplete := False\<rparr>" X], of s]
  by (simp add: flushCandidates_def Let_def)

lemma grows_refresh: "grows s t \<Longrightarrow> grows s (refreshCandidateStats X t)"
  by (simp add: refreshCandidateStats_def split: option.splits prod.splits)

lemma grows_armKeepAlive: "grows s t \<Longrightarrow> grows s (armKeepAlive X E t)"
  by (simp add: armKeepAlive_def)

lemma grows_armRecovery: "grows s t \<Longrightarrow> grows s (armRecovery E d t)"
  by (simp add: armRecovery_def)

lemma grows_send: "grows s t \<Longrightarrow> sendSignal X E k b t = (r, u) \<Longrightarrow> grows s u"
  using quietly_grows [OF quietly_sendSignal [of t X E k b], of s] by simp

lemma grows_answer: "grows s t \<Longrightarrow> answerOffer X sdp t = (r, u) \<Longrightarrow> grows s u"
  using quietly_grows [OF quietly_answerOffer [of t X sdp], of s] by simp

lemmas grows_intros = grows_emit grows_sCount grows_slot grows_delivered grows_finished grows_flush grows_refresh
  grows_armKeepAlive grows_armRecovery

lemma grows_drop: "grows s (dropSignal s)"
  by (rule quietly_grows [OF quietly_dropSignal]) simp

lemma grows_attemptRestart: "grows s t \<Longrightarrow> grows s (snd (attemptRestart X E t))"
  by (auto simp: attemptRestart_def Let_def split: option.splits prod.splits sum.splits
      intro!: grows_intros elim!: grows_send [rotated])

lemma grows_lost: "grows s t \<Longrightarrow> grows s (onConnectivityLost X E t)"
  by (simp add: onConnectivityLost_def Let_def grows_intros)

lemma grows_Up: "grows s (onConnectivityUp X E s)"
  by (simp add: onConnectivityUp_def Let_def grows_intros split: option.splits)

lemma grows_onKeepAlive: "grows s (snd (onKeepAlive X E r s))"
  by (simp add: onKeepAlive_def Let_def grows_intros grows_attemptRestart grows_lost split: option.splits)

lemma grows_deliver: "grows s t \<Longrightarrow> grows s (snd (deliver E t))"
  by (simp add: deliver_def Let_def grows_intros split: option.splits)

lemma grows_onChannelOpen: "grows s (snd (onChannelOpen X E s))"
  by (simp add: onChannelOpen_def Let_def grows_intros grows_deliver split: option.splits prod.splits sum.splits)

lemma grows_onRestart: "grows s (snd (onRestart X E g sdp s))"
  by (auto simp: onRestart_def grows_drop split: option.splits prod.splits sum.splits
      intro: grows_answer [of s "s\<lparr>ss_generation := g\<rparr>"] elim!: grows_send [rotated])

lemma grows_onSignal: "grows s (snd (onSignal X E sig s))"
proof -
  have "grows s (snd (applyAnswer X sdp s))" for sdp
    by (simp add: applyAnswer_def Let_def grows_intros split: option.splits prod.splits)
  moreover have "grows s (snd (onCandidate X c s))" for c
    by (simp add: onCandidate_def quietly_grows [OF quietly_applyCandidate])
  moreover have "grows s (onICEComplete X s)"
    by (simp add: onICEComplete_def quietly_grows [OF quietly_applyEnd])
  moreover have "grows s (snd (onCloseSignal E s))" by (simp add: onCloseSignal_def Let_def)
  ultimately show ?thesis
    by (simp add: onSignal_def onRestartSignal_def grows_onRestart grows_drop split: sum.splits)
qed

lemma grows_handle: "grows s (snd (handle X E ev s))"
proof (cases ev)
  case (EvPion pe)
  have "grows s (snd (sendSignal X E k b s))" for k b
    by (rule quietly_grows [OF quietly_sendSignal]) simp
  then show ?thesis using EvPion
    by (cases pe) (simp_all add: onPionEvent_def grows_Up grows_lost grows_onChannelOpen onConnectivityFailed_def
        grows_attemptRestart sendSignal_eq split: option.splits)
qed (simp_all add: grows_onSignal grows_onKeepAlive)

lemma grows_out: "grows s t \<Longrightarrow> grows s (t\<lparr>ss_out := ss_out t @ xs\<rparr>)"
  by (auto simp: grows_def)

lemma grows_state_out: "grows s t \<Longrightarrow> grows s (t\<lparr>ss_state := z, ss_out := ss_out t @ xs\<rparr>)"
  by (auto simp: grows_def)

lemma grows_start:
  assumes g: "grows s t"
  shows "grows s (snd (start X E offer t))"
proof -
  have "grows s (snd (startOfferer X E t))"
    using g by (auto simp: startOfferer_def sendSignal_eq grows_def split: sum.splits prod.splits)
  moreover have "grows s (snd (startAnswerer X E off t))" for off
  proof (cases "NewAnswerer (cx_pion X) (cx_factory X)")
    case (Inr p)
    have "grows s u" if "answerOffer X sdp (t\<lparr>ss_peerConn := Some p\<rparr>) = (x, u)" for sdp x u
      using grows_answer [OF _ that, of s] g by simp
    then show ?thesis using Inr g
      by (auto simp: startAnswerer_def Let_def sendSignal_eq
          intro!: grows_flush grows_state_out split: sum.splits prod.splits option.splits)
  qed (use g in \<open>simp add: startAnswerer_def\<close>)
  ultimately show ?thesis using g by (simp add: start_def split: option.splits)
qed

lemma grows_shut: "grows s t \<Longrightarrow> grows s (shutStream i E t)"
  by (simp add: shutStream_def Let_def grows_emit split: option.splits)

lemma grows_teardownBegin: "grows s (teardownBegin X E i s)"
proof -
  obtain xs where "sendCloseSignal X E i z = z\<lparr>ss_out := ss_out z @ xs z\<rparr>" for z
    using sendCloseSignal_eq [of X E i] by metis
  then have "grows s (if ci_notify i then sendCloseSignal X E i t else t)" if "grows s t" for t
    using that by (simp add: grows_out)
  then show ?thesis by (simp add: teardownBegin_def Let_def grows_shut)
qed

lemma grows_teardownEnd: "grows s (teardownEnd X i s)"
  by (simp add: teardownEnd_def Let_def grows_intros split: option.splits)

lemma sess_step_grows: "sess_step X s s' \<Longrightarrow> grows s s'"
proof (induction rule: sess_step.induct)
  case (ss_start s offer E)
  then show ?case using grows_start [of s "s\<lparr>ss_startedAt := en_now E\<rparr>" X E offer]
    by (cases "start X E offer (s\<lparr>ss_startedAt := en_now E\<rparr>)"; cases "fst (start X E offer (s\<lparr>ss_startedAt := en_now E\<rparr>))")
       (simp_all add: runStart_def)
next
  case (ss_recovery s t E)
  then show ?case by (simp add: continue_def onRecoveryDeadline_def grows_attemptRestart)
qed (simp_all add: continue_def onDrain_def drain_def grows_handle onNegotiateTimer_def Let_def startProbe_def
    grows_teardownBegin grows_teardownEnd postEvent_def requestClose_def closeWith_def sink_def split: option.splits)

end
