(* ===== verification/Endpoint_Inv.thy ===== *)
theory Endpoint_Inv
  imports Endpoint Session_Frame
begin

text \<open>
  The interleavings of an endpoint with its sessions, its listener and its callers, and the invariant of
  the session table, the backlog and the listener that every interleaving keeps.
\<close>

subsection \<open>Interleaving\<close>

text \<open>The outputs a session step adds.\<close>

definition newOuts :: "('p, 'd) session \<Rightarrow> ('p, 'd) session \<Rightarrow> sessionOutput list" where
  "newOuts s s' = drop (length (ss_out s)) (ss_out s')"

text \<open>A session is told the result of \<open>enqueueInbound\<close>: it reports the hand-over exactly when the endpoint
  takes the connection.\<close>

definition enqueueAgrees :: "nat \<Rightarrow> ('p, 'd) session \<Rightarrow> ('p, 'd) session \<Rightarrow> ('p, 'd) endpoint \<Rightarrow> bool" where
  "enqueueAgrees r s s' ep \<longleftrightarrow>
     (OEnqueue \<in> set (newOuts s s') \<longrightarrow> fst (enqueueInbound r ep) = None) \<and>
     (ss_role s = roleAnswerer \<and> ss_delivered s' \<and> \<not> ss_delivered s \<and> OEnqueue \<notin> set (newOuts s s') \<longrightarrow>
        fst (enqueueInbound r ep) \<noteq> None)"

inductive ep_step :: "('p, 'd) sctx \<Rightarrow> ('p, 'd) endpoint \<Rightarrow> ('p, 'd) endpoint \<Rightarrow> bool" for X where
  es_receive: "ep_step X ep (snd (receiveTurn V r ep))"
| es_dial: "Dial buf peer ctxErr ep = (r, ep') \<Longrightarrow> ep_step X ep ep'"
| es_dialWait: "ep_runs ep n \<Longrightarrow> (r, ep') \<in> set (dialWait n ep) \<Longrightarrow> ep_step X ep ep'"
| es_dialCancel: "ep_runs ep n \<Longrightarrow> ep_step X ep (dialCancel e n ep)"
| es_dialAbandon: "ep_runs ep n \<Longrightarrow> dialAbandon now cr e n ep = Some (r, ep') \<Longrightarrow> ep_step X ep ep'"
| es_dialDone: "ep_step X ep (dialDone r ep)"
| es_session: "ep_runs ep n \<Longrightarrow> sess_step X (ep_objs ep n) s' \<Longrightarrow> enqueueAgrees n (ep_objs ep n) s' ep \<Longrightarrow>
    ep_step X ep (settle n (newOuts (ep_objs ep n) s') (setObj n s' ep))"
| es_listen: "ep_step X ep (snd (Listen ep))"
| es_accept: "(r, ep') \<in> set (AcceptConn now cr ep) \<Longrightarrow> ep_step X ep ep'"
| es_lnClose: "ep_step X ep (Listener_Close now cr ep)"
| es_close: "ep_step X ep (closeStart now cr ep)"
| es_finish: "ep_step X ep (closeFinish ep)"

inductive ep_reach :: "('p, 'd) sctx \<Rightarrow> ('p, 'd) endpoint \<Rightarrow> bool" where
  er_new: "New P cfg None = Inr (X, ep) \<Longrightarrow> ep_reach X ep"
| er_step: "ep_reach X ep \<Longrightarrow> ep_step X ep ep' \<Longrightarrow> ep_reach X ep'"

subsection \<open>Invariant\<close>

definition queue :: "('p, 'd) endpoint \<Rightarrow> pendingConn list" where
  "queue ep = (case ep_ln ep of None \<Rightarrow> [] | Some l \<Rightarrow> ln_accept l)"

text \<open>The sessions that are entitled to a slot: those that hold it themselves, and those whose connection
  waits in the queue \<open>q\<close>.\<close>

definition entitled :: "pendingConn list \<Rightarrow> ('p, 'd) endpoint \<Rightarrow> nat set" where
  "entitled q ep = {r. ep_runs ep r \<and> ss_releaseSlot (ep_objs ep r)} \<union> pd_conn ` set q"

definition objs_ok :: "('p, 'd) sctx \<Rightarrow> ('p, 'd) endpoint \<Rightarrow> bool" where
  "objs_ok X ep \<longleftrightarrow> (\<forall>r. ep_runs ep r \<longrightarrow> r < ep_next ep \<and> phase_ok X (ep_objs ep r)) \<and>
     (\<forall>r. ep_fired ep r \<longrightarrow> r < ep_next ep)"

text \<open>The table holds exactly the running sessions that have not finished.\<close>

definition table_ok :: "('p, 'd) endpoint \<Rightarrow> bool" where
  "table_ok ep \<longleftrightarrow> distinct (map fst (ep_sessions ep)) \<and>
     set (ep_sessions ep) = {(ss_id (ep_objs ep r), r) | r. ep_runs ep r \<and> \<not> ss_finished (ep_objs ep r)}"

definition backlog_ok :: "pendingConn list \<Rightarrow> ('p, 'd) endpoint \<Rightarrow> bool" where
  "backlog_ok q ep \<longleftrightarrow> distinct (map pd_conn q) \<and>
     (\<forall>p \<in> set q. pd_release p = Some (pd_conn p) \<and> ep_runs ep (pd_conn p) \<and> \<not> ss_releaseSlot (ep_objs ep (pd_conn p))) \<and>
     ep_slots ep = card (entitled q ep) \<and> ep_slots ep \<le> ep_cap ep \<and> (\<forall>r \<in> entitled q ep. \<not> ep_fired ep r)"

definition listener_ok :: "('p, 'd) endpoint \<Rightarrow> bool" where
  "listener_ok ep \<longleftrightarrow> (ep_ln ep \<noteq> None \<longrightarrow> ep_listened ep) \<and>
     (\<forall>l. ep_ln ep = Some l \<longrightarrow> ln_cap l = ep_cap ep \<and> (ep_attached ep \<longrightarrow> \<not> ln_closed l))"

definition ep_inv :: "('p, 'd) sctx \<Rightarrow> ('p, 'd) endpoint \<Rightarrow> bool" where
  "ep_inv X ep \<longleftrightarrow> objs_ok X ep \<and> table_ok ep \<and> backlog_ok (queue ep) ep \<and> listener_ok ep"

lemma runs_finite: "objs_ok X ep \<Longrightarrow> finite {r. ep_runs ep r \<and> P r}"
  by (rule finite_subset [of _ "{..< ep_next ep}"]) (auto simp: objs_ok_def)

lemma entitled_finite: "objs_ok X ep \<Longrightarrow> finite (entitled q ep)"
  using runs_finite [of X ep "\<lambda>r. ss_releaseSlot (ep_objs ep r)"] by (simp add: entitled_def)

text \<open>Bookkeeping that no part of the invariant looks at.\<close>

definition same_core :: "('p, 'd) endpoint \<Rightarrow> ('p, 'd) endpoint \<Rightarrow> bool" where
  "same_core ep ep' \<longleftrightarrow> ep_slots ep' = ep_slots ep \<and> ep_cap ep' = ep_cap ep \<and> ep_sessions ep' = ep_sessions ep \<and>
     ep_objs ep' = ep_objs ep \<and> ep_next ep' = ep_next ep \<and> ep_runs ep' = ep_runs ep \<and> ep_fired ep' = ep_fired ep \<and>
     ep_ln ep' = ep_ln ep \<and> ep_attached ep' = ep_attached ep \<and> ep_listened ep' = ep_listened ep"

lemma same_core_parts:
  assumes "same_core ep ep'"
  shows "objs_ok X ep' = objs_ok X ep" "table_ok ep' = table_ok ep" "backlog_ok q ep' = backlog_ok q ep"
    "listener_ok ep' = listener_ok ep" "queue ep' = queue ep"
  using assms
  by (simp_all add: same_core_def objs_ok_def table_ok_def backlog_ok_def entitled_def listener_ok_def queue_def)

lemma same_core_inv: "same_core ep ep' \<Longrightarrow> ep_inv X ep' = ep_inv X ep"
  by (simp add: ep_inv_def same_core_parts)

lemma same_core_simps [simp]:
  "same_core ep ep" "same_core ep (eEmit x ep') = same_core ep ep'" "same_core ep (eCount m ls ep') = same_core ep ep'"
  "same_core ep (received sig r ep') = same_core ep ep'" "same_core ep (ep'\<lparr>ep_dedupe := d\<rparr>) = same_core ep ep'"
  "same_core ep (ep'\<lparr>ep_sent := sg\<rparr>) = same_core ep ep'" "same_core ep (setSignalErr e ep') = same_core ep ep'"
  "same_core ep (ep'\<lparr>ep_closed := b\<rparr>) = same_core ep ep'" "same_core ep (ep'\<lparr>ep_done := b\<rparr>) = same_core ep ep'"
  "same_core ep (ep'\<lparr>ep_out := ms\<rparr>) = same_core ep ep'"
  by (simp_all add: same_core_def eEmit_def eCount_def received_def setSignalErr_def)

lemma same_core_reject [simp]: "same_core ep (reject V sig c m ep') = same_core ep ep'"
  by (simp add: reject_def send_def Let_def split: sum.splits option.splits)

lemma ep_inv_emit [simp]: "ep_inv X (eEmit x ep) = ep_inv X ep" "ep_inv X (eCount m ls ep) = ep_inv X ep"
  "ep_inv X (reject V sig c rs ep) = ep_inv X ep" "ep_inv X (received sig r ep) = ep_inv X ep"
  "ep_inv X (ep\<lparr>ep_dedupe := d\<rparr>) = ep_inv X ep" "ep_inv X (setSignalErr e ep) = ep_inv X ep"
  "ep_inv X (ep\<lparr>ep_closed := b\<rparr>) = ep_inv X ep" "ep_inv X (ep\<lparr>ep_done := b\<rparr>) = ep_inv X ep"
  by (rule same_core_inv; simp)+

subsection \<open>Changing one session object\<close>

lemma setObj_fields [simp]:
  "ep_slots (setObj r s ep) = ep_slots ep" "ep_cap (setObj r s ep) = ep_cap ep"
  "ep_sessions (setObj r s ep) = ep_sessions ep" "ep_objs (setObj r s ep) = (ep_objs ep)(r := s)"
  "ep_next (setObj r s ep) = ep_next ep" "ep_runs (setObj r s ep) = ep_runs ep"
  "ep_fired (setObj r s ep) = ep_fired ep" "ep_ln (setObj r s ep) = ep_ln ep"
  "ep_attached (setObj r s ep) = ep_attached ep" "ep_listened (setObj r s ep) = ep_listened ep"
  "ep_closed (setObj r s ep) = ep_closed ep" "ep_signalErr (setObj r s ep) = ep_signalErr ep"
  "queue (setObj r s ep) = queue ep"
  by (simp_all add: setObj_def queue_def)

lemma setObj_objs: "objs_ok X ep \<Longrightarrow> phase_ok X s \<Longrightarrow> objs_ok X (setObj n s ep)"
  by (simp add: objs_ok_def)

lemma setObj_listener [simp]: "listener_ok (setObj n s ep) = listener_ok ep"
  by (simp add: listener_ok_def)

lemma setObj_table:
  assumes "table_ok ep" "ss_id s = ss_id (ep_objs ep n)" "ss_finished s = ss_finished (ep_objs ep n)"
  shows "table_ok (setObj n s ep)"
  using assms unfolding table_ok_def by (auto split: if_splits)

lemma setObj_entitled:
  "ss_releaseSlot s = ss_releaseSlot (ep_objs ep n) \<Longrightarrow> entitled q (setObj n s ep) = entitled q ep"
  by (auto simp: entitled_def)

lemma setObj_backlog:
  "backlog_ok q ep \<Longrightarrow> ss_releaseSlot s = ss_releaseSlot (ep_objs ep n) \<Longrightarrow> backlog_ok q (setObj n s ep)"
  by (auto simp: backlog_ok_def setObj_entitled)

text \<open>What callers do to a session object leaves its slot, its identity and its end alone.\<close>

definition mild :: "('p, 'd) session \<Rightarrow> ('p, 'd) session \<Rightarrow> bool" where
  "mild s s' \<longleftrightarrow> ss_releaseSlot s' = ss_releaseSlot s \<and> ss_id s' = ss_id s \<and> ss_finished s' = ss_finished s \<and>
     (\<forall>X. phase_ok X s \<longrightarrow> phase_ok X s')"

lemma setObj_mild:
  assumes "ep_inv X ep" "ep_runs ep n" "mild (ep_objs ep n) s"
  shows "ep_inv X (setObj n s ep)"
  using assms setObj_objs [of X ep s n] setObj_table [of ep s n] setObj_backlog [of "queue ep" ep s n]
  by (auto simp: ep_inv_def mild_def objs_ok_def)

lemma mild_trans: "mild s t \<Longrightarrow> mild t u \<Longrightarrow> mild s u"
  by (simp add: mild_def)

lemma mild_closeWith: "mild s (closeWith i s)"
  by (auto simp: mild_def closeWith_def phase_post) (simp_all add: postEvent_def)

lemma mild_postSignal: "mild s (postSignal sig s)"
  by (auto simp: mild_def postSignal_def phase_post) (simp_all add: postEvent_def)

lemma mild_result: "mild s (s\<lparr>ss_result := None\<rparr>)"
  by (simp add: mild_def phase_result)

lemma mild_closeConn: "mild s (closeConn now cr s)"
proof (cases "ss_conn s"; cases "ss_stream s")
  fix c st assume cs: "ss_conn s = Some c" "ss_stream s = Some st"
  obtain first c' st' where b: "closeBegin c st now cr = (first, c', st')" by (metis prod_cases3)
  let ?t = "requestClose (s\<lparr>ss_conn := Some c', ss_stream := Some st'\<rparr>)"
  have p: "phase_ok X s \<Longrightarrow> phase_ok X ?t" for X
    by (rule sess_step_ok [OF ss_connClose [OF cs b]])
  have c: "ss_conn ?t = Some c'" by (simp add: requestClose_def closeWith_def postEvent_def)
  have "phase_ok X s \<Longrightarrow> phase_ok X (?t\<lparr>ss_conn := Some (snd (closeEnd first None c'))\<rparr>)" for X
    using phase_conn [OF c p] .
  then show ?thesis
    by (simp add: closeConn_def cs b mild_def) (simp add: requestClose_def closeWith_def postEvent_def)
qed (simp_all add: closeConn_def mild_def)

subsection \<open>Giving slots back\<close>

lemma releaseSlot_fields [simp]:
  "ep_cap (releaseSlot r ep) = ep_cap ep" "ep_sessions (releaseSlot r ep) = ep_sessions ep"
  "ep_objs (releaseSlot r ep) = ep_objs ep" "ep_next (releaseSlot r ep) = ep_next ep"
  "ep_runs (releaseSlot r ep) = ep_runs ep" "ep_ln (releaseSlot r ep) = ep_ln ep"
  "ep_attached (releaseSlot r ep) = ep_attached ep" "ep_listened (releaseSlot r ep) = ep_listened ep"
  "queue (releaseSlot r ep) = queue ep" "entitled q (releaseSlot r ep) = entitled q ep"
  "ep_fired (releaseSlot r ep) = (ep_fired ep)(r := True)"
  "ep_slots (releaseSlot r ep) = (if ep_fired ep r then ep_slots ep else ep_slots ep - 1)"
  by (auto simp: releaseSlot_def eEmit_def queue_def entitled_def Let_def fun_eq_iff)

lemma releaseSlot_parts [simp]:
  "table_ok (releaseSlot r ep) = table_ok ep" "listener_ok (releaseSlot r ep) = listener_ok ep"
  by (simp_all add: table_ok_def listener_ok_def)

lemma releaseSlot_objs: "objs_ok X ep \<Longrightarrow> r < ep_next ep \<Longrightarrow> objs_ok X (releaseSlot r ep)"
  by (simp add: objs_ok_def)

text \<open>The connection at the head of the queue is taken off, and its slot is released.\<close>

lemma dequeue_backlog:
  assumes b: "backlog_ok (p # q) ep" and o: "objs_ok X ep"
  shows "backlog_ok q (releaseSlot (pd_conn p) ep)"
proof -
  let ?r = "pd_conn p"
  have e: "entitled (p # q) ep = insert ?r (entitled q ep)" by (auto simp: entitled_def)
  have n: "?r \<notin> entitled q ep" using b by (auto simp: backlog_ok_def entitled_def)
  have "card (entitled (p # q) ep) = Suc (card (entitled q ep))"
    using n entitled_finite [OF o] by (simp add: e)
  moreover have "\<not> ep_fired ep ?r" using b by (simp add: backlog_ok_def e)
  ultimately show ?thesis using b n e by (auto simp: backlog_ok_def)
qed

text \<open>A session drops the slot it holds.\<close>

lemma drop_backlog:
  assumes b: "backlog_ok q ep" and o: "objs_ok X ep" and n: "ep_runs ep n" "ss_releaseSlot (ep_objs ep n)"
    and s: "\<not> ss_releaseSlot s"
  shows "backlog_ok q (releaseSlot n (setObj n s ep))"
proof -
  have q: "n \<notin> pd_conn ` set q" using b n by (auto simp: backlog_ok_def)
  have e: "entitled q ep = insert n (entitled q (setObj n s ep))" "n \<notin> entitled q (setObj n s ep)"
    using n s q by (auto simp: entitled_def)
  have "finite (entitled q (setObj n s ep))"
    using entitled_finite [OF o, of q] unfolding e(1) by simp
  then have "card (entitled q ep) = Suc (card (entitled q (setObj n s ep)))"
    using e by simp
  moreover have "\<not> ep_fired ep n" using b by (simp add: backlog_ok_def e)
  ultimately show ?thesis using b e s q by (auto simp: backlog_ok_def)
qed

text \<open>A session hands its slot over with its connection.\<close>

lemma handover_backlog:
  assumes b: "backlog_ok q ep" and n: "ep_runs ep n" "ss_releaseSlot (ep_objs ep n)" and s: "\<not> ss_releaseSlot s"
  shows "backlog_ok (q @ [\<lparr> pd_conn = n, pd_release = Some n \<rparr>]) (setObj n s ep)"
proof -
  have q: "n \<notin> pd_conn ` set q" using b n by (auto simp: backlog_ok_def)
  have "entitled (q @ [\<lparr> pd_conn = n, pd_release = Some n \<rparr>]) (setObj n s ep) = entitled q ep"
    using n s by (auto simp: entitled_def)
  then show ?thesis using b n s q by (auto simp: backlog_ok_def)
qed

subsection \<open>The end of a session\<close>

lemma removeSession_fields [simp]:
  "ep_cap (removeSession r ep) = ep_cap ep" "ep_slots (removeSession r ep) = ep_slots ep"
  "ep_objs (removeSession r ep) = ep_objs ep" "ep_next (removeSession r ep) = ep_next ep"
  "ep_runs (removeSession r ep) = ep_runs ep" "ep_ln (removeSession r ep) = ep_ln ep"
  "ep_attached (removeSession r ep) = ep_attached ep" "ep_listened (removeSession r ep) = ep_listened ep"
  "ep_fired (removeSession r ep) = ep_fired ep" "queue (removeSession r ep) = queue ep"
  by (auto simp: removeSession_def eEmit_def queue_def Let_def)

lemma removeSession_parts [simp]:
  "objs_ok X (removeSession r ep) = objs_ok X ep" "backlog_ok q (removeSession r ep) = backlog_ok q ep"
  "listener_ok (removeSession r ep) = listener_ok ep"
  by (simp_all add: objs_ok_def backlog_ok_def entitled_def listener_ok_def)

lemma table_lookup:
  "table_ok ep \<Longrightarrow> map_of (ep_sessions ep) i = Some r \<longleftrightarrow>
     ep_runs ep r \<and> \<not> ss_finished (ep_objs ep r) \<and> ss_id (ep_objs ep r) = i"
  by (auto simp: table_ok_def map_of_eq_Some_iff)

lemma removeSession_table:
  assumes t: "table_ok ep" and n: "ep_runs ep n" "\<not> ss_finished (ep_objs ep n)"
    and s: "ss_id s = ss_id (ep_objs ep n)" "ss_finished s"
  shows "table_ok (removeSession n (setObj n s ep))"
proof -
  let ?i = "ss_id (ep_objs ep n)"
  have m: "map_of (ep_sessions ep) ?i = Some n"
    using t n by (simp add: table_lookup)
  have o: "r = n" if "ep_runs ep r" "\<not> ss_finished (ep_objs ep r)" "ss_id (ep_objs ep r) = ?i" for r
    using table_lookup [OF t, of ?i r] that m by simp
  have e: "ep_sessions (removeSession n (setObj n s ep)) = filter (\<lambda>x. fst x \<noteq> ?i) (ep_sessions ep)"
    using m s by (simp add: removeSession_def Let_def eEmit_def)
  have "distinct (map fst (filter (\<lambda>x. fst x \<noteq> ?i) (ep_sessions ep)))"
    using t by (simp add: table_ok_def distinct_map_filter)
  moreover have "set (filter (\<lambda>x. fst x \<noteq> ?i) (ep_sessions ep)) =
      {(ss_id (((ep_objs ep)(n := s)) r), r) | r. ep_runs ep r \<and> \<not> ss_finished (((ep_objs ep)(n := s)) r)}"
    using t s o by (auto simp: table_ok_def split: if_splits) metis
  ultimately show ?thesis by (simp add: table_ok_def e)
qed

subsection \<open>Steps of a session\<close>

text \<open>The outputs that concern the endpoint.\<close>

fun epOut :: "sessionOutput \<Rightarrow> bool" where
  "epOut OEnqueue = True"
| "epOut OReleaseSlot = True"
| "epOut ORemoveSession = True"
| "epOut _ = False"

abbreviation epOuts :: "sessionOutput list \<Rightarrow> sessionOutput list" where
  "epOuts xs \<equiv> filter epOut xs"

lemma epOuts_signif: "epOuts (signif xs) = epOuts xs"
proof -
  have "epOut x \<Longrightarrow> significant x" for x by (cases x) simp_all
  then show ?thesis by (induction xs) (auto simp: signif_def)
qed

text \<open>What a session of an endpoint has told it so far.\<close>

definition told :: "('p, 'd) session \<Rightarrow> sessionOutput list" where
  "told s = epOuts (ss_out s)"

lemma told_open:
  assumes "phase_ok X s" "\<not> ss_finished s"
  shows "told s = (if ss_role s = roleAnswerer \<and> \<not> ss_releaseSlot s then [OEnqueue] else [])"
proof -
  have c: "core_ok X s" using assms by (auto simp: phase_ok_def loop_ok_def done_ok_def split: sessionPc.splits)
  then have "signif (ss_out s) = delivery s" by (simp add: core_ok_def)
  then have "told s = epOuts (delivery s)" using epOuts_signif [of "ss_out s"] by (simp add: told_def)
  then show ?thesis using c by (cases "ss_role s") (auto simp: delivery_def core_ok_def)
qed

lemma told_done:
  assumes "phase_ok X s" "ss_finished s"
  shows "\<not> ss_releaseSlot s" "ss_role s = roleOfferer \<Longrightarrow> told s = [ORemoveSession]"
    "ss_role s = roleAnswerer \<Longrightarrow> told s = [OEnqueue, ORemoveSession] \<or> told s = [ORemoveSession, OReleaseSlot]"
proof -
  have d: "done_ok s"
    using assms by (auto simp: phase_ok_def loop_ok_def core_ok_def split: sessionPc.splits)
  have t: "told s = epOuts (signif (ss_out s))" by (simp add: told_def epOuts_signif)
  show "\<not> ss_releaseSlot s" using d by (simp add: done_ok_def)
  show "ss_role s = roleOfferer \<Longrightarrow> told s = [ORemoveSession]"
    using d unfolding t by (cases "ss_delivered s") (auto simp: done_ok_def peerOut_def)
  show "ss_role s = roleAnswerer \<Longrightarrow> told s = [OEnqueue, ORemoveSession] \<or> told s = [ORemoveSession, OReleaseSlot]"
    using d unfolding t by (auto simp: done_ok_def peerOut_def)
qed

lemma told_step: "grows s s' \<Longrightarrow> told s' = told s @ epOuts (newOuts s s')"
  by (auto simp: grows_def told_def newOuts_def)

text \<open>So a step tells the endpoint one of five things.\<close>

lemma step_tells:
  assumes p: "phase_ok X s" "phase_ok X s'" and g: "grows s s'"
  shows "epOuts (newOuts s s') = [] \<and> ss_releaseSlot s' = ss_releaseSlot s \<and> ss_finished s' = ss_finished s \<or>
    \<not> ss_finished s \<and> ss_releaseSlot s \<and> \<not> ss_releaseSlot s' \<and>
      (epOuts (newOuts s s') = [OEnqueue] \<and> \<not> ss_finished s' \<or>
       epOuts (newOuts s s') = [OEnqueue, ORemoveSession] \<and> ss_finished s' \<or>
       epOuts (newOuts s s') = [ORemoveSession, OReleaseSlot] \<and> ss_finished s') \<or>
    \<not> ss_finished s \<and> ss_finished s' \<and> \<not> ss_releaseSlot s \<and> \<not> ss_releaseSlot s' \<and>
      epOuts (newOuts s s') = [ORemoveSession]"
proof -
  have r: "ss_role s' = ss_role s" "ss_releaseSlot s' \<Longrightarrow> ss_releaseSlot s" "ss_finished s \<Longrightarrow> ss_finished s'"
    using g by (auto simp: grows_def)
  have o: "ss_role s = roleOfferer \<Longrightarrow> \<not> ss_releaseSlot s"
    using p by (auto simp: phase_ok_def loop_ok_def core_ok_def done_ok_def split: sessionPc.splits)
  note t = told_step [OF g]
  show ?thesis
  proof (cases "ss_finished s'")
    case True
    note d = told_done [OF p(2) True]
    show ?thesis
    proof (cases "ss_finished s")
      case f: True
      have "length (told s) = length (told s')"
        using told_done(2,3) [OF p(1) f] d(2,3) r(1) by (cases "ss_role s") auto
      then show ?thesis using t True f d(1) told_done(1) [OF p(1) f] by simp
    next
      case f: False
      show ?thesis
      proof (cases "ss_role s")
        case roleOfferer
        then have "told s = []" "told s' = [ORemoveSession]" using told_open [OF p(1) f] d(2) r(1) by simp_all
        then show ?thesis using t True f d(1) o roleOfferer by simp
      next
        case a: roleAnswerer
        then have d': "told s' = [OEnqueue, ORemoveSession] \<or> told s' = [ORemoveSession, OReleaseSlot]"
          using d(3) r(1) by simp
        have u: "told s = (if ss_releaseSlot s then [] else [OEnqueue])" using told_open [OF p(1) f] a by simp
        show ?thesis using d' unfolding t u by (cases "ss_releaseSlot s") (simp_all add: True f d(1))
      qed
    qed
  next
    case False
    have f: "\<not> ss_finished s" using r(3) False by blast
    note u = told_open [OF p(1) f] told_open [OF p(2) False]
    show ?thesis
    proof (cases "ss_releaseSlot s")
      case h: True
      then have a: "ss_role s = roleAnswerer" using o by (cases "ss_role s") simp_all
      show ?thesis using t u h a r(1) False f by (cases "ss_releaseSlot s'") simp_all
    next
      case h: False
      then have "\<not> ss_releaseSlot s'" using r(2) by blast
      then show ?thesis using t u h r(1) False f by (simp split: if_splits)
    qed
  qed
qed

text \<open>The other outputs only reach the recorder and the transport.\<close>

definition core :: "('p, 'd) endpoint \<Rightarrow> ('p, 'd) endpoint" where
  "core ep = ep\<lparr>ep_out := [], ep_sent := []\<rparr>"

lemma core_same: "core ep' = core ep \<Longrightarrow> same_core ep ep'"
  unfolding core_def same_core_def by (cases ep; cases ep') simp

lemma core_simps [simp]: "core (eEmit x ep) = core ep" "core (ep\<lparr>ep_sent := sgs\<rparr>) = core ep" "core (core ep) = core ep"
  by (simp_all add: core_def eEmit_def)

lemma core_ops:
  "core (snd (enqueueInbound r ep)) = snd (enqueueInbound r (core ep))"
  "core (releaseSlot r ep) = core (releaseSlot r (core ep))"
  "core (removeSession r ep) = core (removeSession r (core ep))"
proof -
  show "core (snd (enqueueInbound r ep)) = snd (enqueueInbound r (core ep))"
    by (cases "ep_attached ep"; cases "ep_ln ep") (simp_all add: core_def enqueueInbound_def split: prod.splits)
qed (simp_all add: core_def releaseSlot_def removeSession_def eEmit_def Let_def)

lemma core_cong:
  assumes "core ep' = core ep"
  shows "core (snd (enqueueInbound r ep')) = core (snd (enqueueInbound r ep))"
    "core (releaseSlot r ep') = core (releaseSlot r ep)" "core (removeSession r ep') = core (removeSession r ep)"
  using assms core_ops by metis+

lemma settle_core: "core ep' = core ep \<Longrightarrow> core (settle n xs ep') = core (settle n (epOuts xs) ep)"
proof (induction xs arbitrary: ep ep')
  case (Cons x xs)
  show ?case using Cons.IH core_cong [OF Cons.prems] Cons.prems by (cases x) simp_all
qed simp

lemma settle_inv: "ep_inv X (settle n xs ep) = ep_inv X (settle n (epOuts xs) ep)"
  by (rule same_core_inv [OF core_same [OF settle_core]]) simp

text \<open>A successful hand-over appends the connection to the queue.\<close>

lemma enqueue_success:
  assumes "fst (enqueueInbound n ep) = None"
  shows "\<exists>l. ep_ln ep = Some l \<and> ep_attached ep \<and> \<not> ln_closed l \<and> length (ln_accept l) < ln_cap l \<and>
    snd (enqueueInbound n (setObj n s ep)) =
      (setObj n s ep)\<lparr>ep_ln := Some (l\<lparr>ln_accept := ln_accept l @ [\<lparr> pd_conn = n, pd_release = Some n \<rparr>]\<rparr>)\<rparr>"
  using assms by (auto simp: enqueueInbound_def push_def split: if_splits option.splits bool.splits)

lemma ln_update [simp]:
  "objs_ok X (ep\<lparr>ep_ln := x\<rparr>) = objs_ok X ep" "table_ok (ep\<lparr>ep_ln := x\<rparr>) = table_ok ep"
  "backlog_ok q (ep\<lparr>ep_ln := x\<rparr>) = backlog_ok q ep"
  by (simp_all add: objs_ok_def table_ok_def backlog_ok_def entitled_def)

lemma enqueue_parts:
  assumes e: "fst (enqueueInbound n ep) = None" and b: "backlog_ok (queue ep) ep" and l: "listener_ok ep"
    and n: "ep_runs ep n" "ss_releaseSlot (ep_objs ep n)" and s: "\<not> ss_releaseSlot s"
  defines "ep' \<equiv> snd (enqueueInbound n (setObj n s ep))"
  shows "backlog_ok (queue ep') ep'" "listener_ok ep'" "objs_ok X ep' = objs_ok X (setObj n s ep)"
    "table_ok ep' = table_ok (setObj n s ep)"
proof -
  obtain l where l': "ep_ln ep = Some l" "\<not> ln_closed l"
    and u: "ep' = (setObj n s ep)\<lparr>ep_ln := Some (l\<lparr>ln_accept := ln_accept l @ [\<lparr> pd_conn = n, pd_release = Some n \<rparr>]\<rparr>)\<rparr>"
    using enqueue_success [OF e, of s] unfolding ep'_def by blast
  have "queue ep' = queue ep @ [\<lparr> pd_conn = n, pd_release = Some n \<rparr>]" by (simp add: u queue_def l')
  then show "backlog_ok (queue ep') ep'" using handover_backlog [OF b n s] by (simp add: u)
  show "listener_ok ep'" using l l' by (simp add: u listener_ok_def)
  show "objs_ok X ep' = objs_ok X (setObj n s ep)" "table_ok ep' = table_ok (setObj n s ep)" by (simp_all add: u)
qed

lemma removeSession_ln: "table_ok (removeSession n (ep\<lparr>ep_ln := x\<rparr>)) = table_ok (removeSession n ep)"
  by (simp add: table_ok_def removeSession_def eEmit_def Let_def)

lemma removeSession_release: "backlog_ok q (releaseSlot n (removeSession n ep)) = backlog_ok q (releaseSlot n ep)"
  by (simp add: backlog_ok_def entitled_def)

lemma session_inv:
  assumes i: "ep_inv X ep" and n: "ep_runs ep n" and st: "sess_step X (ep_objs ep n) s'"
    and a: "enqueueAgrees n (ep_objs ep n) s' ep"
  shows "ep_inv X (settle n (newOuts (ep_objs ep n) s') (setObj n s' ep))"
proof -
  let ?s = "ep_objs ep n" and ?ep = "setObj n s' ep"
  let ?xs = "epOuts (newOuts ?s s')"
  have parts: "objs_ok X ep" "table_ok ep" "backlog_ok (queue ep) ep" "listener_ok ep"
    using i by (simp_all add: ep_inv_def)
  have p: "phase_ok X ?s" "phase_ok X s'" using parts(1) n sess_step_ok [OF st] by (simp_all add: objs_ok_def)
  have g: "grows ?s s'" by (rule sess_step_grows [OF st])
  have d: "ss_id s' = ss_id ?s" using g by (simp add: grows_def)
  have o: "objs_ok X ?ep" by (rule setObj_objs [OF parts(1) p(2)])
  have bn: "n < ep_next ?ep" using parts(1) n by (simp add: objs_ok_def)
  have e: "fst (enqueueInbound n ep) = None" if "?xs = OEnqueue # ys" for ys
    using a that by (auto simp: enqueueAgrees_def dest: filter_eq_ConsD)
  have q: "ss_releaseSlot ?s \<Longrightarrow> \<not> ss_releaseSlot s' \<Longrightarrow> ?xs = OEnqueue # ys \<Longrightarrow>
      let ep' = snd (enqueueInbound n ?ep) in backlog_ok (queue ep') ep' \<and> listener_ok ep' \<and> objs_ok X ep'" for ys
    using enqueue_parts [OF e parts(3,4) n] o by (simp add: Let_def)
  consider (quiet) "?xs = []" "ss_releaseSlot s' = ss_releaseSlot ?s" "ss_finished s' = ss_finished ?s"
    | (handover) "?xs = [OEnqueue]" "ss_releaseSlot ?s" "\<not> ss_releaseSlot s'" "\<not> ss_finished s'" "\<not> ss_finished ?s"
    | (last) "?xs = [OEnqueue, ORemoveSession]" "ss_releaseSlot ?s" "\<not> ss_releaseSlot s'" "ss_finished s'" "\<not> ss_finished ?s"
    | (drop) "?xs = [ORemoveSession, OReleaseSlot]" "ss_releaseSlot ?s" "\<not> ss_releaseSlot s'" "ss_finished s'" "\<not> ss_finished ?s"
    | (gone) "?xs = [ORemoveSession]" "ss_releaseSlot s' = ss_releaseSlot ?s" "ss_finished s'" "\<not> ss_finished ?s"
    using step_tells [OF p g] by argo
  then have "ep_inv X (settle n ?xs ?ep)"
  proof cases
    case quiet
    then show ?thesis using o parts d by (simp add: ep_inv_def setObj_table setObj_backlog)
  next
    case handover
    then show ?thesis
      using q [of "[]"] enqueue_parts(4) [OF e parts(3,4) n, of "[]" s'] setObj_table [OF parts(2) d]
      by (simp add: ep_inv_def Let_def)
  next
    case last
    obtain l where "snd (enqueueInbound n ?ep) = ?ep\<lparr>ep_ln := l\<rparr>"
      using enqueue_success [OF e [OF last(1)], of s'] by blast
    then show ?thesis using last q [of "[ORemoveSession]"] removeSession_table [OF parts(2) n _ d]
      by (simp add: ep_inv_def Let_def removeSession_ln)
  next
    case drop
    then show ?thesis
      using removeSession_table [OF parts(2) n _ d] drop_backlog [OF parts(3,1) n] parts(4) o bn
      by (simp add: ep_inv_def releaseSlot_objs removeSession_release)
  next
    case gone
    then show ?thesis
      using removeSession_table [OF parts(2) n _ d] setObj_backlog [OF parts(3)] parts(4) o by (simp add: ep_inv_def)
  qed
  then show ?thesis using settle_inv [of X n "newOuts ?s s'" ?ep] by blast
qed

subsection \<open>Steps of the endpoint\<close>

lemma attached_parts [simp]:
  "objs_ok X (ep\<lparr>ep_attached := b\<rparr>) = objs_ok X ep" "table_ok (ep\<lparr>ep_attached := b\<rparr>) = table_ok ep"
  "backlog_ok q (ep\<lparr>ep_attached := b\<rparr>) = backlog_ok q ep"
  by (simp_all add: objs_ok_def table_ok_def backlog_ok_def entitled_def)

lemma drainPending_fields [simp]: "ep_ln (drainPending now cr q ep) = ep_ln ep" "ep_attached (drainPending now cr q ep) = ep_attached ep"
  "ep_listened (drainPending now cr q ep) = ep_listened ep" "ep_cap (drainPending now cr q ep) = ep_cap ep"
  by (induction q arbitrary: ep) (auto simp: Let_def release_def split: option.splits)

lemma drainPending_ok:
  assumes "objs_ok X ep" "table_ok ep" "backlog_ok q ep"
  shows "objs_ok X (drainPending now cr q ep) \<and> table_ok (drainPending now cr q ep) \<and> backlog_ok [] (drainPending now cr q ep)"
  using assms
proof (induction q arbitrary: ep)
  case (Cons p q)
  let ?n = "pd_conn p"
  let ?ep = "releaseSlot ?n ep"
  let ?s = "closeConn now cr (ep_objs ep ?n)"
  have r: "pd_release p = Some ?n" "ep_runs ep ?n" using Cons.prems(3) by (simp_all add: backlog_ok_def)
  have m: "mild (ep_objs ep ?n) ?s" by (rule mild_closeConn)
  have o: "objs_ok X ?ep" using Cons.prems(1) r by (auto intro: releaseSlot_objs simp: objs_ok_def)
  have "objs_ok X (setObj ?n ?s ?ep)" using o r(2) m by (intro setObj_objs) (auto simp: objs_ok_def mild_def)
  moreover have "table_ok (setObj ?n ?s ?ep)" using Cons.prems(2) m by (intro setObj_table) (auto simp: mild_def)
  moreover have "backlog_ok q (setObj ?n ?s ?ep)"
    using dequeue_backlog [OF Cons.prems(3,1)] m by (intro setObj_backlog) (auto simp: mild_def)
  ultimately show ?case using Cons.IH [of "setObj ?n ?s ?ep"] by (simp add: release_def r)
qed simp

lemma drainQueue_inv: "ep_inv X ep \<Longrightarrow> ep_inv X (drainQueue now cr ep)"
proof (cases "ep_ln ep")
  case (Some l)
  assume i: "ep_inv X ep"
  let ?ep = "ep\<lparr>ep_ln := Some (l\<lparr>ln_accept := []\<rparr>)\<rparr>"
  have "objs_ok X ?ep" "table_ok ?ep" "backlog_ok (ln_accept l) ?ep"
    using i Some by (simp_all add: ep_inv_def queue_def)
  from drainPending_ok [OF this, of now cr] show ?thesis
    using i Some by (simp add: ep_inv_def drainQueue_def queue_def listener_ok_def)
qed (simp add: drainQueue_def)

lemma Listener_Close_inv: "ep_inv X ep \<Longrightarrow> ep_inv X (Listener_Close now cr ep)"
proof (cases "ep_ln ep")
  case (Some l)
  assume i: "ep_inv X ep"
  then have "ep_inv X (clearListener (lnMark ep))"
    using Some by (simp add: ep_inv_def clearListener_def lnMark_def queue_def listener_ok_def)
  then show ?thesis using i Some by (simp add: Listener_Close_def drainQueue_inv)
qed (simp add: Listener_Close_def)

lemma accept_inv:
  assumes i: "ep_inv X ep" and a: "(r, ep') \<in> set (AcceptConn now cr ep)"
  shows "ep_inv X ep'"
proof -
  obtain l where l: "ep_ln ep = Some l" using a by (cases "ep_ln ep") (simp_all add: AcceptConn_def)
  have "ep_inv X (release (pd_release p) (ep\<lparr>ep_ln := Some (l\<lparr>ln_accept := q\<rparr>)\<rparr>))" if q: "ln_accept l = p # q" for p q
  proof -
    have b: "backlog_ok (p # q) ep" and o: "objs_ok X ep" using i l q by (simp_all add: ep_inv_def queue_def)
    have r: "pd_release p = Some (pd_conn p)" "pd_conn p < ep_next ep" using b o by (auto simp: backlog_ok_def objs_ok_def)
    let ?ep = "ep\<lparr>ep_ln := Some (l\<lparr>ln_accept := q\<rparr>)\<rparr>"
    have "backlog_ok q (releaseSlot (pd_conn p) ?ep)"
      by (rule dequeue_backlog [where X = X]) (use b o in simp_all)
    moreover have "listener_ok ?ep" using i l by (simp add: ep_inv_def listener_ok_def)
    ultimately show ?thesis using i r o by (simp add: ep_inv_def release_def releaseSlot_objs queue_def)
  qed
  then show ?thesis using a l drainQueue_inv [OF i, of now cr]
    by (auto simp: AcceptConn_def receive_def split: list.splits if_splits)
qed

text \<open>A new session enters the table and starts, with a slot or without.\<close>

lemma spawn_fields [simp]:
  "ep_slots (spawn r s ep) = ep_slots ep" "ep_cap (spawn r s ep) = ep_cap ep"
  "ep_sessions (spawn r s ep) = ep_sessions ep" "ep_objs (spawn r s ep) = (ep_objs ep)(r := s)"
  "ep_next (spawn r s ep) = ep_next ep" "ep_runs (spawn r s ep) = (ep_runs ep)(r := True)"
  "ep_fired (spawn r s ep) = ep_fired ep" "ep_ln (spawn r s ep) = ep_ln ep"
  "ep_attached (spawn r s ep) = ep_attached ep" "ep_listened (spawn r s ep) = ep_listened ep"
  by (simp_all add: spawn_def)

lemma spawn_inv:
  assumes i: "ep_inv X ep" and p: "phase_ok X s" and f: "\<not> ss_finished s"
    and m: "map_of (ep_sessions ep) (ss_id s) = None" and c: "ss_releaseSlot s \<Longrightarrow> ep_slots ep < ep_cap ep"
  shows "ep_inv X (spawn (ep_next ep) s
    (ep\<lparr>ep_slots := (if ss_releaseSlot s then ep_slots ep + 1 else ep_slots ep), ep_next := ep_next ep + 1,
      ep_sessions := (ss_id s, ep_next ep) # ep_sessions ep\<rparr>))" (is "ep_inv X ?ep")
proof -
  let ?n = "ep_next ep"
  have o: "objs_ok X ep" and t: "table_ok ep" and b: "backlog_ok (queue ep) ep" and l: "listener_ok ep"
    using i by (simp_all add: ep_inv_def)
  have n: "\<not> ep_runs ep ?n" "\<not> ep_fired ep ?n" using o by (auto simp: objs_ok_def)
  have q: "?n \<notin> pd_conn ` set (queue ep)" using b n by (auto simp: backlog_ok_def)
  have e: "entitled (queue ep) ?ep = (if ss_releaseSlot s then insert ?n (entitled (queue ep) ep) else entitled (queue ep) ep)"
    using n by (auto simp: entitled_def spawn_def)
  have ne: "?n \<notin> entitled (queue ep) ep" using n q by (auto simp: entitled_def)
  have "objs_ok X ?ep" using o p by (auto simp: objs_ok_def spawn_def less_Suc_eq)
  moreover have "table_ok ?ep"
  proof -
    have "ss_id s \<notin> fst ` set (ep_sessions ep)" using m by (simp add: map_of_eq_None_iff)
    moreover have "{(ss_id (ep_objs ?ep r), r) | r. ep_runs ?ep r \<and> \<not> ss_finished (ep_objs ?ep r)} =
        insert (ss_id s, ?n) {(ss_id (ep_objs ep r), r) | r. ep_runs ep r \<and> \<not> ss_finished (ep_objs ep r)}"
      using n f by (auto simp: spawn_def) metis
    ultimately show ?thesis using t unfolding table_ok_def by (simp add: spawn_def)
  qed
  moreover have "backlog_ok (queue ep) ?ep"
    using b c n q ne entitled_finite [OF o, of "queue ep"] unfolding backlog_ok_def e by auto
  moreover have "queue ?ep = queue ep" "listener_ok ?ep"
    using l by (simp_all add: queue_def listener_ok_def spawn_def)
  ultimately show ?thesis by (simp add: ep_inv_def)
qed

text \<open>An object that was never started is nobody's concern.\<close>

lemma spare_inv: "ep_inv X ep \<Longrightarrow> \<not> ep_runs ep r \<Longrightarrow> ep_inv X (setObj r s ep)"
proof -
  assume i: "ep_inv X ep" and r: "\<not> ep_runs ep r"
  have k: "ep_runs ep n \<Longrightarrow> n \<noteq> r" for n using r by auto
  have "entitled q (setObj r s ep) = entitled q ep" for q using r by (auto simp: entitled_def)
  moreover have "table_ok (setObj r s ep) = table_ok ep"
  proof -
    have "{(ss_id (((ep_objs ep)(r := s)) n), n) | n. ep_runs ep n \<and> \<not> ss_finished (((ep_objs ep)(r := s)) n)} =
        {(ss_id (ep_objs ep n), n) | n. ep_runs ep n \<and> \<not> ss_finished (ep_objs ep n)}" using r by auto
    then show ?thesis by (simp add: table_ok_def)
  qed
  ultimately show ?thesis using i k by (auto simp: ep_inv_def objs_ok_def backlog_ok_def listener_ok_def)
qed

lemma next_inv:
  "ep_inv X ep \<Longrightarrow> ep_inv X (ep\<lparr>ep_next := Suc (ep_next ep)\<rparr>)"
  "ep_inv X ep \<Longrightarrow> ep_inv X (ep\<lparr>ep_next := Suc (ep_next ep), ep_fired := (ep_fired ep)(ep_next ep := True)\<rparr>)"
  by (auto simp: ep_inv_def objs_ok_def table_ok_def backlog_ok_def entitled_def listener_ok_def queue_def less_Suc_eq)
     (metis less_irrefl)+

lemma ep_inv_log [simp]: "ep_inv X (setObj r s (eEmit x ep)) = ep_inv X (setObj r s ep)"
  "ep_inv X (setObj r s (eCount m ls ep)) = ep_inv X (setObj r s ep)"
  by (rule same_core_inv; simp add: same_core_def eEmit_def eCount_def)+

lemma spawn_log: "ep_inv X (spawn r s (eEmit x ep)) = ep_inv X (spawn r s ep)"
  by (rule same_core_inv) (simp add: same_core_def eEmit_def spawn_def)

lemma addSession_cases:
  obtains (refused) e where "addSession r s ep = (Some e, ep)"
  | (added) x where "addSession r s ep = (None, eEmit x (ep\<lparr>ep_sessions := (ss_id s, r) # ep_sessions ep\<rparr>))"
      "map_of (ep_sessions ep) (ss_id s) = None" "\<not> ep_closed ep" "ep_signalErr ep = None"
proof (cases "fst (addSession r s ep)")
  case None
  then show ?thesis
    by (intro added) (auto simp: addSession_def Let_def split: if_splits option.splits)
next
  case (Some e)
  then show ?thesis
    by (intro refused [of e]) (auto simp: addSession_def Let_def split: if_splits option.splits)
qed

lemma new_phase:
  "phase_ok X (newSession sid peer roleOfferer None)"
  "phase_ok X ((newSession sid peer roleAnswerer (Some offer))\<lparr>ss_releaseSlot := True\<rparr>)"
  by (rule sess_reach_ok, rule sess_reach.intros)+

lemma newSession_fields [simp]:
  "ss_id (newSession sid peer role offer) = sid" "ss_peer (newSession sid peer role offer) = peer"
  "\<not> ss_finished (newSession sid peer role offer)" "\<not> ss_releaseSlot (newSession sid peer role offer)"
  by (simp_all add: newSession_def)

lemma admit_inv:
  assumes i: "ep_inv X ep" and c: "ep_slots ep < ep_cap ep"
  shows "ep_inv X (admit V sig ep)"
proof -
  define s :: "('a, 'b) session" where "s = (newSession (sig_SessionID sig) (sig_From sig) roleAnswerer (Some sig))\<lparr>ss_releaseSlot := True\<rparr>"
  have s: "phase_ok X s" "\<not> ss_finished s" "ss_releaseSlot s" by (simp_all add: s_def new_phase)
  let ?n = "ep_next ep" and ?ep = "ep\<lparr>ep_slots := ep_slots ep + 1, ep_next := ep_next ep + 1\<rparr>"
  have n: "\<not> ep_runs ep ?n" "\<not> ep_fired ep ?n" using i by (auto simp: ep_inv_def objs_ok_def)
  show ?thesis
  proof (cases rule: addSession_cases [of ?n s ?ep])
    case (refused e)
    let ?f = "ep\<lparr>ep_next := Suc ?n, ep_fired := (ep_fired ep)(?n := True)\<rparr>"
    have "same_core ?f (releaseSlot ?n ?ep)" using n by (simp add: same_core_def releaseSlot_def eEmit_def)
    then have "ep_inv X (releaseSlot ?n ?ep)" using same_core_inv next_inv(2) [OF i] by blast
    then have "ep_inv X (setObj ?n s (releaseSlot ?n ?ep))" using n by (intro spare_inv) simp_all
    then show ?thesis using refused by (simp add: admit_def s_def Let_def)
  next
    case (added x)
    then show ?thesis using spawn_inv [OF i s(1,2), of] c s(3)
      by (simp add: admit_def s_def [symmetric] Let_def spawn_log)
  qed
qed

lemma Dial_inv:
  assumes i: "ep_inv X ep" and d: "Dial buf peer ctxErr ep = (r, ep')"
  shows "ep_inv X ep'"
proof -
  define s :: "('a, 'b) session" where "s = newSession (NewID buf) peer roleOfferer None"
  have s: "phase_ok X s" "\<not> ss_finished s" "\<not> ss_releaseSlot s" by (simp_all add: s_def new_phase)
  define e where "e = eCount metricDialAttempts [] ep"
  have e: "ep_inv X e" using i by (simp add: e_def)
  then have en: "\<not> ep_runs e (ep_next e)" by (auto simp: ep_inv_def objs_ok_def)
  let ?n = "ep_next e" and ?e = "e\<lparr>ep_next := ep_next e + 1\<rparr>"
  have "ep_inv X (setObj ?n s ?e)" using next_inv(1) [OF e] en by (intro spare_inv) simp_all
  moreover have "map_of (ep_sessions e) (ss_id s) = None \<Longrightarrow> ep_inv X (spawn ?n s (?e\<lparr>ep_sessions := (ss_id s, ?n) # ep_sessions e\<rparr>))"
    using spawn_inv [OF e s(1,2)] s(3) by simp
  ultimately show ?thesis using d e
    by (cases rule: addSession_cases [of ?n s ?e])
       (auto simp: Dial_def dialStart_def e_def [symmetric] s_def [symmetric] Let_def spawn_log split: option.splits if_splits)
qed

lemma post_inv:
  assumes i: "ep_inv X ep" and m: "map_of (ep_sessions ep) sid = Some r"
  shows "ep_inv X (setObj r (postSignal sig (ep_objs ep r)) ep)"
  using i m by (intro setObj_mild mild_postSignal) (auto simp: ep_inv_def table_lookup)

lemma acceptOffer_inv: "ep_inv X ep \<Longrightarrow> ep_inv X (acceptOffer V sig ep)"
proof -
  assume i: "ep_inv X ep"
  define e where "e = eCount metricAcceptAttempts [] ep"
  have "ep_inv X e" using i by (simp add: e_def)
  then show ?thesis by (simp add: acceptOffer_def e_def [symmetric] Let_def admit_inv)
qed

lemma route_inv: "ep_inv X ep \<Longrightarrow> ep_inv X (route V sig ep)"
proof -
  assume i: "ep_inv X ep"
  obtain b d where d: "seenBefore (ep_dedupe ep) (sig_ID sig) = (b, d)" by force
  define e where "e = received sig ''accepted'' (ep\<lparr>ep_dedupe := d\<rparr>)"
  have e: "ep_inv X e" using i by (simp add: e_def)
  have "ep_inv X (eCount metricProtocolFailures [labelScope ''signal''] (received sig k ep))" for k
    using i by simp
  then show ?thesis
    using e i acceptOffer_inv [OF e] post_inv [OF e]
    by (simp add: route_def d e_def [symmetric] Let_def split: option.splits bool.splits)
qed

lemma closeAll_inv:
  "ep_inv X ep \<Longrightarrow> \<forall>r \<in> set rs. ep_runs ep r \<Longrightarrow> ep_inv X (closeAll rs ep)"
proof (induction rs arbitrary: ep)
  case (Cons r rs)
  have "ep_inv X (setObj r (closeWith shuttingDown (ep_objs ep r)) ep)"
    using Cons.prems by (intro setObj_mild mild_closeWith) simp_all
  then show ?case using Cons.IH [of "setObj r (closeWith shuttingDown (ep_objs ep r)) ep"] Cons.prems(2) by simp
qed simp

lemma drainPending_runs [simp]: "ep_runs (drainPending now cr q ep) = ep_runs ep"
  by (induction q arbitrary: ep) (auto simp: Let_def release_def split: option.splits)

lemma Listener_Close_runs [simp]: "ep_runs (Listener_Close now cr ep) = ep_runs ep"
  by (auto simp: Listener_Close_def drainQueue_def clearListener_def lnMark_def split: option.splits)

lemma closeStart_inv: "ep_inv X ep \<Longrightarrow> ep_inv X (closeStart now cr ep)"
proof -
  assume i: "ep_inv X ep"
  then have "\<forall>r \<in> snd ` set (ep_sessions ep). ep_runs ep r" by (auto simp: ep_inv_def table_ok_def)
  moreover have "ep_inv X (Listener_Close now cr (ep\<lparr>ep_closed := True\<rparr>))" using i by (intro Listener_Close_inv) simp
  ultimately show ?thesis using i by (auto simp: closeStart_def Let_def intro!: closeAll_inv)
qed

lemma Listen_inv: "ep_inv X ep \<Longrightarrow> ep_inv X (snd (Listen ep))"
  by (cases "ep_ln ep")
     (auto simp: Listen_def Let_def ep_inv_def queue_def listener_ok_def objs_ok_def table_ok_def backlog_ok_def entitled_def)

lemma dialAbandon_inv:
  assumes i: "ep_inv X ep" and n: "ep_runs ep n" and d: "dialAbandon now cr e n ep = Some (r, ep')"
  shows "ep_inv X ep'"
proof -
  let ?s = "ep_objs ep n"
  have "mild ?s (closeConn now cr (?s\<lparr>ss_result := None\<rparr>))"
    using mild_trans [OF mild_result mild_closeConn] .
  moreover have "mild ?s ?s" by (simp add: mild_def)
  ultimately show ?thesis using d i n
    by (auto simp: dialAbandon_def Let_def mild_result intro: setObj_mild split: if_splits option.splits dialResult.splits)
qed

lemma ep_step_inv: "ep_step X ep ep' \<Longrightarrow> ep_inv X ep \<Longrightarrow> ep_inv X ep'"
proof (induction rule: ep_step.induct)
  case (es_receive ep V r)
  then show ?case by (auto simp: receiveTurn_def route_inv split: sum.splits)
next
  case (es_dialWait ep n r ep')
  then show ?case by (auto simp: dialWait_def intro: setObj_mild mild_result split: option.splits if_splits)
next
  case (es_dialCancel ep n e)
  then show ?case by (simp add: dialCancel_def setObj_mild mild_closeWith)
next
  case es_dial
  from Dial_inv [OF es_dial(2,1)] show ?case .
next
  case es_dialAbandon
  from dialAbandon_inv [OF es_dialAbandon(3,1,2)] show ?case .
next
  case es_session
  from session_inv [OF es_session(4,1,2,3)] show ?case .
next
  case es_accept
  from accept_inv [OF es_accept(2,1)] show ?case .
qed (simp_all add: dialDone_def Listen_inv Listener_Close_inv closeStart_inv closeFinish_def)

lemma New_inv: "New P cfg None = Inr (X, ep) \<Longrightarrow> ep_inv X ep"
  by (auto simp: New_def Let_def ep_inv_def objs_ok_def table_ok_def backlog_ok_def entitled_def listener_ok_def queue_def
      split: sum.splits)

lemma ep_reach_inv: "ep_reach X ep \<Longrightarrow> ep_inv X ep"
  by (induction rule: ep_reach.induct) (simp_all add: New_inv ep_step_inv)

end
