(* ===== verification/Endpoint_Correct.thy ===== *)
theory Endpoint_Correct
  imports Endpoint_Inv
begin

text \<open>
  What an endpoint guarantees: slots are neither lost nor returned twice, an established connection finds
  room in the accept queue, the session table is exact, only valid, fresh and addressed signals reach a
  session, and closing reaches every session.
\<close>

subsection \<open>Example\<close>

text \<open>An endpoint that listens and has admitted an offer.\<close>

definition ex_endpoint :: "(nat \<times> Candidate list, bool) endpoint" where
  "ex_endpoint = \<lparr> ep_id = ''a'', ep_slots = 0, ep_cap = 4, ep_dedupe = newDedupeCache dedupeCacheSize, ep_sessions = [],
     ep_objs = (\<lambda>_. newSession [] [] roleOfferer None), ep_next = 0, ep_runs = (\<lambda>_. False), ep_fired = (\<lambda>_. False),
     ep_ln = None, ep_attached = False, ep_listened = False, ep_signalErr = None, ep_closed = False, ep_done = False,
     ep_out = [], ep_sent = [] \<rparr>"

definition ex_offer :: Signal where
  "ex_offer = \<lparr> sig_Version = ProtocolVersion, sig_ID = replicate 32 (CHR ''0''), sig_SessionID = ex_sid,
     sig_Kind = KindOffer, sig_From = ''b'', sig_To = ''a'', sig_Payload = encodePayload (PSdp \<lparr> sp_SDP = ''o'' \<rparr>) \<rparr>"

definition ex_eenv :: eenv where
  "ex_eenv = \<lparr> ee_allow = None, ee_rand = replicate 16 0, ee_acquire = None, ee_send = None \<rparr>"

definition ex_admitted :: "(nat \<times> Candidate list, bool) endpoint" where
  "ex_admitted = snd (receiveTurn ex_eenv (Inr ex_offer) (snd (Listen ex_endpoint)))"

lemma ex_endpoint_eq: "New ex_pion ex_config None = Inr (ex_ctx, ex_endpoint)"
proof -
  have "config_ok ex_config"
    by (simp add: config_ok_def ex_config_def ex_names ICETransportPolicyAll_def MaxFramePayload_def reconnect_ok_def
        zeroReconnect_def backoff_ok_def)
  then have "clone ex_config = Inr ex_config" by (rule clone_id)
  then show ?thesis by (simp add: New_def ex_ctx_def ex_endpoint_def ex_config_def toPionICEServers_def
      ICETransportPolicyRelay_def)
qed

lemma ex_offer_valid: "Validate ex_offer = None"
proof -
  have "validID (replicate 32 (CHR ''0''))" by (simp add: validID_def allHexLower_def isHexLower_def rune_eval list_all_iff)
  moreover have "str_valid ''o''" using ex_sdp(1) by (simp add: validSDP_def split: if_splits)
  then have "decodePayload decode_sdp (encodePayload (PSdp \<lparr> sp_SDP = ''o'' \<rparr>)) = Inr \<lparr> sp_SDP = ''o'' \<rparr>"
    using roundtrip_sdp [of "\<lparr> sp_SDP = ''o'' \<rparr>"] by simp
  ultimately show ?thesis using ex_names ex_sdp
    by (simp add: Validate_def ex_offer_def validatePayload_def del: encodePayload.simps)
qed

lemma ex_admitted_facts:
  "ep_reach ex_ctx ex_admitted" "ep_runs ex_admitted 0" "ss_releaseSlot (ep_objs ex_admitted 0)"
  "ep_sessions ex_admitted = [(ex_sid, 0)]" "ep_slots ex_admitted = 1" "ep_cap ex_admitted = 4" "listening ex_admitted"
  "\<not> ep_closed ex_admitted" "\<not> ss_finished (ep_objs ex_admitted 0)" "ss_box (ep_objs ex_admitted 0) = newMailbox"
  "queue ex_admitted = []"
proof -
  show "ep_reach ex_ctx ex_admitted" unfolding ex_admitted_def
    by (intro er_step [OF er_step [OF er_new [OF ex_endpoint_eq] es_listen] es_receive])
  note d = ex_admitted_def receiveTurn_def route_def ex_offer_valid
  have r: "ex_admitted = admit ex_eenv ex_offer (eCount metricAcceptAttempts []
      (received ex_offer ''accepted'' ((snd (Listen ex_endpoint))\<lparr>ep_dedupe := snd (seenBefore (ep_dedupe ex_endpoint) (sig_ID ex_offer))\<rparr>)))"
    by (simp add: d)
       (simp add: ex_offer_def ex_endpoint_def Listen_def newDedupeCache_def seenBefore_def Let_def received_def eCount_def
        eEmit_def acceptOffer_def listening_def isClosed_def ex_eenv_def dedupeCacheSize_def)
  show "ep_runs ex_admitted 0" "ss_releaseSlot (ep_objs ex_admitted 0)"
    "ep_sessions ex_admitted = [(ex_sid, 0)]" "ep_slots ex_admitted = 1" "ep_cap ex_admitted = 4" "listening ex_admitted"
    "\<not> ep_closed ex_admitted" "\<not> ss_finished (ep_objs ex_admitted 0)" "ss_box (ep_objs ex_admitted 0) = newMailbox"
    "queue ex_admitted = []"
    unfolding r by (simp_all add: admit_def addSession_def Let_def ex_endpoint_def Listen_def received_def eCount_def eEmit_def
        ex_offer_def newSession_def listening_def isClosed_def queue_def spawn_def setObj_def)
qed

subsection \<open>Properties\<close>

text \<open>A finished session holds no slot.\<close>

lemma slots_split:
  assumes "ep_reach X ep"
  shows "ep_slots ep = card {r. ep_runs ep r \<and> ss_releaseSlot (ep_objs ep r)} + length (queue ep)"
proof -
  let ?H = "{r. ep_runs ep r \<and> ss_releaseSlot (ep_objs ep r)}"
  have i: "objs_ok X ep" "backlog_ok (queue ep) ep" using ep_reach_inv [OF assms] by (simp_all add: ep_inv_def)
  have "?H \<inter> pd_conn ` set (queue ep) = {}" using i(2) by (auto simp: backlog_ok_def)
  moreover have "card (pd_conn ` set (queue ep)) = length (queue ep)"
    using i(2) distinct_card [of "map pd_conn (queue ep)"] by (simp add: backlog_ok_def)
  ultimately show ?thesis
    using i(2) runs_finite [OF i(1), of "\<lambda>r. ss_releaseSlot (ep_objs ep r)"]
    by (simp add: backlog_ok_def entitled_def card_Un_disjoint)
qed

lemma slots_finished:
  assumes "ep_reach X ep" "\<forall>r. ep_runs ep r \<longrightarrow> ss_finished (ep_objs ep r)"
  shows "ep_slots ep = length (queue ep)"
proof -
  have "objs_ok X ep" using ep_reach_inv [OF assms(1)] by (simp add: ep_inv_def)
  then have "{r. ep_runs ep r \<and> ss_releaseSlot (ep_objs ep r)} = {}"
    using assms(2) told_done(1) [of X] by (auto simp: objs_ok_def)
  with slots_split [OF assms(1)] show ?thesis by (simp only: card.empty add_0)
qed

text \<open>C26: The accept backlog is exact. In every reachable state of an endpoint the taken slots are the running
  inbound sessions that hold one plus the connections that wait to be accepted, and they never exceed
  \<open>AcceptBacklog\<close>; once every session has finished and nothing waits, no slot is taken.\<close>

theorem backlog_exact:
  assumes "ep_reach X ep"
  shows "ep_slots ep = card {r. ep_runs ep r \<and> ss_releaseSlot (ep_objs ep r)} + length (queue ep) \<and>
    ep_slots ep \<le> ep_cap ep \<and>
    ((\<forall>r. ep_runs ep r \<longrightarrow> ss_finished (ep_objs ep r)) \<and> queue ep = [] \<longrightarrow> ep_slots ep = 0)"
proof -
  have "ep_slots ep \<le> ep_cap ep" using ep_reach_inv [OF assms] by (simp add: ep_inv_def backlog_ok_def)
  then show ?thesis using slots_split [OF assms] slots_finished [OF assms] by simp
qed

theorem backlog_exact_witness: "ep_slots ex_admitted = card {r. ep_runs ex_admitted r \<and> ss_releaseSlot (ep_objs ex_admitted r)}
    + length (queue ex_admitted) \<and> 0 < ep_slots ex_admitted"
  using backlog_exact [OF ex_admitted_facts(1)] ex_admitted_facts(5) by auto

text \<open>C27: An established inbound connection is never turned away for lack of room. A session that still holds
  its slot can hand its connection to the listener exactly when the endpoint is listening.\<close>

theorem handover_succeeds:
  assumes "ep_reach X ep" "ep_runs ep r" "ss_releaseSlot (ep_objs ep r)"
  shows "fst (enqueueInbound r ep) = None \<longleftrightarrow> listening ep"
proof -
  have i: "objs_ok X ep" "backlog_ok (queue ep) ep" "listener_ok ep"
    using ep_reach_inv [OF assms(1)] by (simp_all add: ep_inv_def)
  have "r \<notin> pd_conn ` set (queue ep)" using i(2) assms(3) by (auto simp: backlog_ok_def)
  then have "card (insert r (pd_conn ` set (queue ep))) = Suc (length (queue ep))"
    using i(2) distinct_card [of "map pd_conn (queue ep)"] by (simp add: backlog_ok_def)
  moreover have "insert r (pd_conn ` set (queue ep)) \<subseteq> entitled (queue ep) ep" using assms by (auto simp: entitled_def)
  then have "card (insert r (pd_conn ` set (queue ep))) \<le> card (entitled (queue ep) ep)"
    by (rule card_mono [OF entitled_finite [OF i(1)]])
  moreover have "card (entitled (queue ep) ep) \<le> ep_cap ep" using i(2) by (simp add: backlog_ok_def)
  ultimately have "length (queue ep) < ep_cap ep" by simp
  then show ?thesis using i(3)
    by (cases "ep_attached ep"; cases "ep_ln ep")
       (auto simp: enqueueInbound_def listening_def listener_ok_def push_def isClosed_def queue_def)
qed

theorem handover_succeeds_witness: "fst (enqueueInbound 0 ex_admitted) = None"
  using handover_succeeds [OF ex_admitted_facts(1,2,3)] ex_admitted_facts(7) by simp

text \<open>C28: The session table is exact. In every reachable state a session identifier leads to a session object
  exactly when the object is a running session with that identifier that has not finished: no finished
  session receives signals, and no live one is lost.\<close>

theorem table_exact:
  assumes "ep_reach X ep"
  shows "map_of (ep_sessions ep) sid = Some r \<longleftrightarrow>
    ep_runs ep r \<and> \<not> ss_finished (ep_objs ep r) \<and> ss_id (ep_objs ep r) = sid"
  using ep_reach_inv [OF assms] by (simp add: ep_inv_def table_lookup)

theorem table_exact_witness: "map_of (ep_sessions ex_admitted) ex_sid = Some 0 \<and> ss_id (ep_objs ex_admitted 0) = ex_sid"
  using table_exact [OF ex_admitted_facts(1), of ex_sid 0] ex_admitted_facts(4) by simp

text \<open>What the endpoint does to a session object other than by its own operations: nothing.\<close>

lemma log_objs [simp]:
  "ep_objs (eEmit x ep) = ep_objs ep" "ep_objs (eCount m ls ep) = ep_objs ep" "ep_objs (received sig k ep) = ep_objs ep"
  "ep_next (eEmit x ep) = ep_next ep" "ep_next (eCount m ls ep) = ep_next ep" "ep_next (received sig k ep) = ep_next ep"
  "ep_sessions (received sig k ep) = ep_sessions ep" "ep_closed (received sig k ep) = ep_closed ep"
  "ep_slots (eCount m ls ep) = ep_slots ep" "ep_cap (eCount m ls ep) = ep_cap ep"
  "ep_slots (received sig k ep) = ep_slots ep" "ep_cap (received sig k ep) = ep_cap ep"
  "listening (eCount m ls ep) = listening ep" "listening (received sig k ep) = listening ep"
  "listening (ep\<lparr>ep_dedupe := d\<rparr>) = listening ep"
  by (simp_all add: eEmit_def eCount_def received_def listening_def)

lemma reject_objs [simp]: "ep_objs (reject V sig c k ep) = ep_objs ep" "ep_next (reject V sig c k ep) = ep_next ep"
  using same_core_reject [of ep V sig c k ep] by (simp_all add: same_core_def del: same_core_reject)

lemma admit_objs: "r \<noteq> ep_next ep \<Longrightarrow> ep_objs (admit V sig ep) r = ep_objs ep r"
  by (auto simp: admit_def addSession_def Let_def split: option.splits)

definition allowed :: "eenv \<Rightarrow> PeerID \<Rightarrow> bool" where
  "allowed V p = (case ee_allow V of None \<Rightarrow> True | Some f \<Rightarrow> f p)"

lemma acceptOffer_objs:
  "r \<noteq> ep_next ep \<Longrightarrow> ep_objs (acceptOffer V sig ep) r = ep_objs ep r"
  "ep_next (acceptOffer V sig ep) \<noteq> ep_next ep \<Longrightarrow> listening ep \<and> allowed V (sig_From sig) \<and> ep_slots ep < ep_cap ep"
  by (auto simp: acceptOffer_def Let_def admit_objs allowed_def split: if_splits option.splits)

text \<open>C29: Routing is guarded. A received signal changes an existing session object only if it is valid, is
  addressed to this endpoint, has a fresh identifier and comes from the peer of the session the table
  names; the change is that the signal is posted to the session's mailbox. A signal creates a session only
  if it is an offer that passes the same checks for a session identifier the table does not know, while the
  endpoint listens, allows the peer and has a free slot.\<close>

theorem route_guarded:
  "(r < ep_next ep \<and> ep_objs (route V sig ep) r \<noteq> ep_objs ep r \<longrightarrow>
      Validate sig = None \<and> sig_To sig = ep_id ep \<and> \<not> fst (seenBefore (ep_dedupe ep) (sig_ID sig)) \<and>
      \<not> ep_closed ep \<and> map_of (ep_sessions ep) (sig_SessionID sig) = Some r \<and> ss_peer (ep_objs ep r) = sig_From sig \<and>
      ep_objs (route V sig ep) r = postSignal sig (ep_objs ep r)) \<and>
    (ep_next (route V sig ep) \<noteq> ep_next ep \<longrightarrow>
      Validate sig = None \<and> sig_To sig = ep_id ep \<and> \<not> fst (seenBefore (ep_dedupe ep) (sig_ID sig)) \<and>
      \<not> ep_closed ep \<and> sig_Kind sig = KindOffer \<and> map_of (ep_sessions ep) (sig_SessionID sig) = None \<and>
      listening ep \<and> allowed V (sig_From sig) \<and> ep_slots ep < ep_cap ep)"
proof -
  obtain b d where d: "seenBefore (ep_dedupe ep) (sig_ID sig) = (b, d)" by force
  define e where "e = received sig ''accepted'' (ep\<lparr>ep_dedupe := d\<rparr>)"
  have e: "ep_objs e = ep_objs ep" "ep_next e = ep_next ep" "ep_sessions e = ep_sessions ep" "ep_closed e = ep_closed ep"
    "listening e = listening ep" "ep_slots e = ep_slots ep" "ep_cap e = ep_cap ep" by (simp_all add: e_def)
  note a = acceptOffer_objs(1) [of r e V sig] acceptOffer_objs(2) [of V sig e]
  show ?thesis
    using a [unfolded e] by (auto simp: route_def d e_def [symmetric] e split: option.splits bool.splits if_splits)
qed

theorem route_guarded_witness:
  "ep_next (route ex_eenv ex_offer (snd (Listen ex_endpoint))) \<noteq> ep_next (snd (Listen ex_endpoint)) \<and>
   sig_To ex_offer = ep_id (snd (Listen ex_endpoint)) \<and> listening (snd (Listen ex_endpoint))"
proof -
  have "ep_next ex_admitted \<noteq> ep_next (snd (Listen ex_endpoint))"
    using ep_reach_inv [OF ex_admitted_facts(1)] ex_admitted_facts(2)
    by (auto simp: ep_inv_def objs_ok_def Listen_def ex_endpoint_def Let_def)
  then show ?thesis
    using route_guarded [of 0 "snd (Listen ex_endpoint)" ex_eenv ex_offer] by (simp add: ex_admitted_def receiveTurn_def)
qed

text \<open>A session that was asked to shut down finds the request in its mailbox, or that its mailbox overflowed,
  which ends it as well.\<close>

definition asked :: "('p, 'd) session \<Rightarrow> bool" where
  "asked s \<longleftrightarrow> EvClose shuttingDown \<in> set (mb_items (ss_box s)) \<or> mb_overflow (ss_box s)"

lemma post_box [simp]: "mb_closed (ss_box (postEvent ev s)) = mb_closed (ss_box s)"
  by (simp add: postEvent_def post_def mbSignal_def)

lemma asked_post: "asked s \<Longrightarrow> asked (postEvent ev s)"
  by (auto simp: asked_def postEvent_def post_def mbSignal_def)

lemma asked_close: "\<not> mb_closed (ss_box s) \<Longrightarrow> asked (closeWith shuttingDown s)"
  by (auto simp: asked_def closeWith_def postEvent_def post_def mbSignal_def)

lemma closeConn_box [simp]: "mb_closed (ss_box (closeConn now cr s)) = mb_closed (ss_box s)"
  by (auto simp: closeConn_def requestClose_def closeWith_def split: option.splits prod.splits)

lemma drainPending_box [simp]:
  "mb_closed (ss_box (ep_objs (drainPending now cr q ep) r)) = mb_closed (ss_box (ep_objs ep r))"
  by (induction q arbitrary: ep) (auto simp: Let_def release_def split: option.splits)

lemma drainPending_closed [simp]: "ep_closed (drainPending now cr q ep) = ep_closed ep"
proof (induction q arbitrary: ep)
  case (Cons p q)
  have "ep_closed (releaseSlot r e) = ep_closed e" for r and e :: "('a, 'b) endpoint"
    by (simp add: releaseSlot_def eEmit_def Let_def)
  then show ?case by (simp add: Cons.IH Let_def release_def split: option.splits)
qed simp

lemma Listener_Close_fields [simp]:
  "mb_closed (ss_box (ep_objs (Listener_Close now cr ep) r)) = mb_closed (ss_box (ep_objs ep r))"
  "ep_closed (Listener_Close now cr ep) = ep_closed ep"
  by (auto simp: Listener_Close_def drainQueue_def clearListener_def lnMark_def split: option.splits)

lemma Listener_Close_detached:
  "listener_ok ep \<Longrightarrow> ep_attached ep \<Longrightarrow> \<not> listening (Listener_Close now cr ep) \<and> queue (Listener_Close now cr ep) = []"
  by (auto simp: Listener_Close_def listener_ok_def listening_def queue_def drainQueue_def clearListener_def lnMark_def
      split: option.splits)

lemma setObj_listening [simp]: "listening (setObj r s ep) = listening ep"
  by (cases "ep_attached ep") (simp_all add: listening_def)

lemma closeAll_fields [simp]: "ep_closed (closeAll rs ep) = ep_closed ep" "queue (closeAll rs ep) = queue ep"
  "listening (closeAll rs ep) = listening ep"
  by (induction rs arbitrary: ep) simp_all

lemma closeAll_asked:
  "asked (ep_objs ep r) \<or> r \<in> set rs \<and> \<not> mb_closed (ss_box (ep_objs ep r)) \<Longrightarrow> asked (ep_objs (closeAll rs ep) r)"
proof (induction rs arbitrary: ep)
  case (Cons a rs)
  then show ?case using asked_post [of "ep_objs ep a"] asked_close [of "ep_objs ep a"]
    by (cases "a = r") (auto simp: closeWith_def)
qed simp

text \<open>Closing an endpoint reaches every session. After the first part of \<open>Close\<close> the endpoint does not
  listen any more, a listener it had is drained, every live session with an open mailbox has been asked to
  shut down, and neither \<open>Dial\<close> nor a received signal adds a session from then on.\<close>

lemma close_reaches_all:
  assumes "ep_reach X ep" "\<not> ep_closed ep"
    "closeStart now cr ep = ep'"
  shows "\<not> listening ep' \<and> (listening ep \<longrightarrow> queue ep' = []) \<and>
    (\<forall>r. ep_runs ep r \<and> \<not> ss_finished (ep_objs ep r) \<and> \<not> mb_closed (ss_box (ep_objs ep r)) \<longrightarrow> asked (ep_objs ep' r)) \<and>
    (\<exists>e. fst (Dial buf peer ctxErr ep') = Inl e) \<and> ep_sessions (route V sig ep') = ep_sessions ep'"
proof -
  let ?e = "ep\<lparr>ep_closed := True\<rparr>"
  define l where "l = (if ep_attached ep then Listener_Close now cr ?e else ?e)"
  have i: "table_ok ep" "listener_ok ep" using ep_reach_inv [OF assms(1)] by (simp_all add: ep_inv_def)
  have c: "ep' = closeAll (map snd (ep_sessions ep)) l" using assms(2) assms(3) by (simp add: closeStart_def l_def Let_def)
  have li: "listener_ok ?e" using i(2) by (simp add: listener_ok_def)
  have cl: "ep_closed l" "mb_closed (ss_box (ep_objs l r)) = mb_closed (ss_box (ep_objs ep r))" for r
    by (simp_all add: l_def)
  have n: "\<not> listening l \<and> (listening ep \<longrightarrow> queue l = [])"
    using Listener_Close_detached [OF li, of now cr] by (auto simp: l_def listening_def split: bool.splits)
  have "r \<in> set (map snd (ep_sessions ep))" if "ep_runs ep r" "\<not> ss_finished (ep_objs ep r)" for r
    using that i(1) by (force simp: table_ok_def)
  then have a: "\<forall>r. ep_runs ep r \<and> \<not> ss_finished (ep_objs ep r) \<and> \<not> mb_closed (ss_box (ep_objs ep r)) \<longrightarrow> asked (ep_objs ep' r)"
    using closeAll_asked [of l _ "map snd (ep_sessions ep)"] cl(2) unfolding c by blast
  have k: "ep_closed ep'" by (simp add: c cl)
  then have "\<exists>e. fst (Dial buf peer ctxErr ep') = Inl e"
    by (auto simp: Dial_def dialStart_def addSession_def eCount_def eEmit_def Let_def split: option.splits)
  moreover have "ep_sessions (route V sig ep') = ep_sessions ep'"
    using k by (auto simp: route_def received_def eCount_def eEmit_def Let_def split: prod.splits bool.splits)
  ultimately show ?thesis using n a by (simp add: c)
qed

end
