(* ===== verification/Owned.thy ===== *)
theory Owned
  imports Endpoint_Correct
begin

text \<open>
  The package-level \<open>Dial\<close> and \<open>Listen\<close> (\<^verbatim>\<open>dial.go\<close>): a hidden endpoint whose life is tied to one connection
  or one listener. \<open>sigErr\<close> is what closing the signaling connection returns; the wait of \<open>Endpoint.Close\<close> for its
  sessions lies between \<open>closeStart\<close> and \<open>closeFinish\<close>, and closing is taken up to that wait.
\<close>

subsection \<open>Definitions\<close>

text \<open>An error comes with the endpoint that was made and closed again, if there was one.\<close>

text \<open>\<open>Dial\<close> up to the wait of \<open>Endpoint.Dial\<close>, and from its result.\<close>

definition pipeDialStart ::
    "('p, 'd) pion \<Rightarrow> Config \<Rightarrow> gerror option \<Rightarrow> bytes \<Rightarrow> PeerID \<Rightarrow> gerror option \<Rightarrow> int \<Rightarrow> chres \<Rightarrow>
     gerror \<times> ('p, 'd) endpoint option + nat \<times> ('p, 'd) sctx \<times> ('p, 'd) endpoint" where
  "pipeDialStart P cfg openErr buf peer ctxErr now cr =
     (case New P cfg openErr of
        Inl e \<Rightarrow> Inl (e, None)
      | Inr (X, ep) \<Rightarrow>
          (case Dial buf peer ctxErr ep of
             (Inl e, ep) \<Rightarrow> Inl (e, Some (closeStart now cr (dialDone (Inl e) ep)))
           | (Inr r, ep) \<Rightarrow> Inr (r, X, ep)))"

definition pipeDialEnd :: "int \<Rightarrow> chres \<Rightarrow> gerror + unit \<Rightarrow> ('p, 'd) endpoint \<Rightarrow> gerror option \<times> ('p, 'd) endpoint" where
  "pipeDialEnd now cr res ep =
     (case res of
        Inl e \<Rightarrow> (Some e, closeStart now cr (dialDone res ep))
      | Inr _ \<Rightarrow> (None, dialDone res ep))"

definition pipeListen ::
    "('p, 'd) pion \<Rightarrow> Config \<Rightarrow> gerror option \<Rightarrow> int \<Rightarrow> chres \<Rightarrow>
     gerror \<times> ('p, 'd) endpoint option + ('p, 'd) sctx \<times> ('p, 'd) endpoint" where
  "pipeListen P cfg openErr now cr =
     (case New P cfg openErr of
        Inl e \<Rightarrow> Inl (e, None)
      | Inr (X, ep) \<Rightarrow>
          (case Listen ep of
             (Inl e, ep) \<Rightarrow> Inl (e, Some (closeStart now cr ep))
           | (Inr l, ep) \<Rightarrow> Inr (X, ep)))"

text \<open>The first error of the two closes.\<close>

definition ownedError :: "gerror option \<Rightarrow> gerror option \<Rightarrow> gerror option" where
  "ownedError err cerr = (if err = None then cerr else err)"

definition ownedConn_Close ::
    "int \<Rightarrow> chres \<Rightarrow> nat \<Rightarrow> gerror option \<Rightarrow> ('p, 'd) endpoint \<Rightarrow> gerror option \<times> ('p, 'd) endpoint" where
  "ownedConn_Close now cr r sigErr ep =
     (ownedError None sigErr, closeStart now cr (setObj r (closeConn now cr (ep_objs ep r)) ep))"

definition ownedListener_Close ::
    "int \<Rightarrow> chres \<Rightarrow> gerror option \<Rightarrow> ('p, 'd) endpoint \<Rightarrow> gerror option \<times> ('p, 'd) endpoint" where
  "ownedListener_Close now cr sigErr ep = (ownedError None sigErr, closeStart now cr (Listener_Close now cr ep))"

subsection \<open>Lemmas\<close>

text \<open>A fresh endpoint can always listen, so \<open>Listen\<close> fails only as \<open>New\<close> does, and what it returns listens.\<close>

lemma New_fresh: "New P cfg e = Inr (X, ep) \<Longrightarrow> \<not> ep_closed ep \<and> \<not> ep_listened ep"
  by (auto simp: New_def Let_def split: sum.splits option.splits)

lemma pipeListen_new:
  "pipeListen P cfg openErr now cr = Inl (e, x) \<longleftrightarrow> New P cfg openErr = Inl e \<and> x = None"
  "pipeListen P cfg openErr now cr = Inr (X, ep) \<Longrightarrow> listening ep \<and> \<not> ep_closed ep"
  using New_fresh [of P cfg openErr]
  by (auto simp: pipeListen_def Listen_def Let_def listening_def isClosed_def split: sum.splits)

text \<open>Closing the connection or the listener closes the endpoint behind it.\<close>

lemma closeStart_closed: "ep_closed (closeStart now cr ep)"
  by (auto simp: closeStart_def Let_def)

lemma owned_closed: "ep_closed (snd (ownedConn_Close now cr r sigErr ep))" "ep_closed (snd (ownedListener_Close now cr sigErr ep))"
  by (simp_all add: ownedConn_Close_def ownedListener_Close_def closeStart_closed)

lemma pipeDialStart_closed: "pipeDialStart P cfg openErr buf peer ctxErr now cr = Inl (e, Some ep) \<Longrightarrow> ep_closed ep"
  by (auto simp: pipeDialStart_def closeStart_closed split: sum.splits prod.splits)

lemma owned_fails: "pipeDialEnd now cr (Inl e) ep = (err, ep') \<Longrightarrow> err = Some e \<and> ep_closed ep'"
  by (auto simp: pipeDialEnd_def closeStart_closed)

end
