(* ===== verification/Endpoint_Close.thy ===== *)
theory Endpoint_Close
  imports Endpoint_Correct
begin

text \<open>
  \<open>Endpoint.Close\<close> from its first line to its last (\<^verbatim>\<open>endpoint.go\<close>), in the middle of everything else the endpoint
  does: the caller that runs the body of \<open>closeOnce\<close> is a process with a program counter, interleaved with the steps of
  the endpoint. \<open>sigErr\<close> is what closing the signaling connection returns. Of \<open>wg.Wait\<close> the goroutines of the sessions
  are modelled; the receive loop, which ends on its own once the context is cancelled, is not waited for.
\<close>

subsection \<open>The wait for the sessions\<close>

text \<open>One turn of the loop of \<open>awaitSessions\<close>: the sessions still to wait for, or \<open>None\<close> when the grace timer wins.
  Nothing is possible while the session runs and the timer has not fired.\<close>

definition awaitTurn :: "bool \<Rightarrow> nat \<Rightarrow> nat list \<Rightarrow> ('p, 'd) endpoint \<Rightarrow> nat list option list" where
  "awaitTurn graceFired r rs ep =
     (if ss_finished (ep_objs ep r) then [Some rs] else []) @ (if graceFired then [None] else [])"

text \<open>The program counter: before the first line; in \<open>awaitSessions\<close>; before \<open>cancel\<close>; before closing the signaling
  connection; in \<open>wg.Wait\<close>; returned. The flag tells whether the grace period ran out.\<close>

datatype closer =
    ClBegin
  | ClAwait "nat list"
  | ClCancel bool
  | ClSignal bool
  | ClWait bool "gerror option"
  | ClReturned bool "gerror option"

inductive close_step :: "('p, 'd) sctx \<Rightarrow> closer \<times> ('p, 'd) endpoint \<Rightarrow> closer \<times> ('p, 'd) endpoint \<Rightarrow> bool" for X where
  cl_begin: "\<not> ep_closed ep \<Longrightarrow> close_step X (ClBegin, ep) (ClAwait (map snd (ep_sessions ep)), closeStart now cr ep)"
| cl_finished: "Some rs' \<in> set (awaitTurn graceFired r rs ep) \<Longrightarrow> close_step X (ClAwait (r # rs), ep) (ClAwait rs', ep)"
| cl_grace: "None \<in> set (awaitTurn graceFired r rs ep) \<Longrightarrow> close_step X (ClAwait (r # rs), ep) (ClCancel True, ep)"
| cl_awaited: "close_step X (ClAwait [], ep) (ClCancel False, ep)"
| cl_cancel: "close_step X (ClCancel late, ep) (ClSignal late, closeFinish ep)"
| cl_signal: "close_step X (ClSignal late, ep) (ClWait late sigErr, ep)"
| cl_wait: "\<forall>r. ep_runs ep r \<longrightarrow> ss_finished (ep_objs ep r) \<Longrightarrow>
    close_step X (ClWait late sigErr, ep) (ClReturned late sigErr, ep)"
| cl_other: "ep_step X ep ep' \<Longrightarrow> close_step X (c, ep) (c, ep')"

inductive close_reach :: "('p, 'd) sctx \<Rightarrow> closer \<times> ('p, 'd) endpoint \<Rightarrow> bool" for X where
  cr_start: "ep_reach X ep \<Longrightarrow> close_reach X (ClBegin, ep)"
| cr_step: "close_reach X z \<Longrightarrow> close_step X z z' \<Longrightarrow> close_reach X z'"

subsection \<open>A closed endpoint takes no session in\<close>

definition narrows :: "('p, 'd) endpoint \<Rightarrow> ('p, 'd) endpoint \<Rightarrow> bool" where
  "narrows ep ep' \<longleftrightarrow> ep_closed ep' = ep_closed ep \<and> set (ep_sessions ep') \<subseteq> set (ep_sessions ep)"

lemma narrows_refl [simp]: "narrows ep ep" by (simp add: narrows_def)

lemma narrows_trans: "narrows a b \<Longrightarrow> narrows b c \<Longrightarrow> narrows a c" by (auto simp: narrows_def)

lemma narrows_basic [simp]:
  "narrows a (eEmit x ep) = narrows a ep" "narrows a (eCount m ls ep) = narrows a ep" "narrows a (setObj r s ep) = narrows a ep"
  "narrows a (releaseSlot r ep) = narrows a ep" "narrows a (setSignalErr e ep) = narrows a ep"
  "narrows a (clearListener ep) = narrows a ep" "narrows a (lnMark ep) = narrows a ep" "narrows a (release f ep) = narrows a ep"
  "narrows a (received sig w ep) = narrows a ep" "narrows a (closeFinish ep) = narrows a ep"
  "narrows a (ep\<lparr>ep_ln := l\<rparr>) = narrows a ep" "narrows a (ep\<lparr>ep_sent := q\<rparr>) = narrows a ep"
  "narrows a (ep\<lparr>ep_dedupe := d\<rparr>) = narrows a ep" "narrows a (ep\<lparr>ep_next := k\<rparr>) = narrows a ep"
  by (auto simp: narrows_def eEmit_def eCount_def setObj_def releaseSlot_def setSignalErr_def clearListener_def lnMark_def
      release_def received_def closeFinish_def Let_def split: option.splits)

lemma narrows_remove: "narrows a ep \<Longrightarrow> narrows a (removeSession r ep)"
  by (auto simp: narrows_def removeSession_def eEmit_def Let_def)

lemma narrows_inbound [simp]: "narrows a (snd (enqueueInbound r ep)) = narrows a ep"
  by (auto simp: enqueueInbound_def split: option.splits prod.splits bool.splits)

lemma narrows_drain [simp]: "narrows a (drainPending now cr q ep) = narrows a ep" "narrows a (drainQueue now cr ep) = narrows a ep"
  "narrows a (Listener_Close now cr ep) = narrows a ep"
proof -
  show d: "narrows a (drainPending now cr q ep) = narrows a ep" for q ep by (induction q arbitrary: ep) (simp_all add: Let_def)
  show q: "narrows a (drainQueue now cr ep) = narrows a ep" for ep by (simp add: drainQueue_def d split: option.splits)
  show "narrows a (Listener_Close now cr ep) = narrows a ep" by (simp add: Listener_Close_def q split: option.splits)
qed

lemma narrows_settle: "narrows a ep \<Longrightarrow> narrows a (settle r xs ep)"
  by (induction r xs ep rule: settle.induct) (simp_all add: narrows_remove)

lemma closed_step:
  assumes "ep_closed ep" "ep_step X ep ep'"
  shows "narrows ep ep'"
  using assms(2,1)
proof (induction rule: ep_step.induct)
  case (es_receive ep V r)
  have "narrows ep (route V sig ep)" for sig
    using es_receive by (auto simp: route_def Let_def received_def eCount_def eEmit_def narrows_def split: prod.splits bool.splits)
  then show ?case by (auto simp: receiveTurn_def split: sum.splits)
next
  case (es_dial buf peer ctxErr ep r ep')
  then show ?case
    by (auto simp: Dial_def dialStart_def addSession_def narrows_def eCount_def eEmit_def setObj_def Let_def split: option.splits if_splits)
next
  case (es_dialWait ep n r ep')
  then show ?case by (auto simp: dialWait_def split: option.splits if_splits)
next
  case (es_dialAbandon ep n now cr e r ep')
  then show ?case by (auto simp: dialAbandon_def Let_def split: if_splits option.splits)
next
  case (es_session ep n s')
  then show ?case by (simp add: narrows_settle)
next
  case (es_accept r ep' now cr ep)
  then show ?case by (auto simp: AcceptConn_def split: option.splits prod.splits list.splits if_splits)
qed (simp_all add: dialCancel_def dialDone_def Listen_def closeStart_def)

subsection \<open>What Close leaves behind\<close>

definition unfinished :: "('p, 'd) endpoint \<Rightarrow> nat set" where
  "unfinished ep = {r. ep_runs ep r \<and> \<not> ss_finished (ep_objs ep r)}"

lemma unfinished_table: "ep_reach X ep \<Longrightarrow> unfinished ep = snd ` set (ep_sessions ep)"
proof -
  assume "ep_reach X ep"
  then have "set (ep_sessions ep) = (\<lambda>r. (ss_id (ep_objs ep r), r)) ` unfinished ep"
    using ep_reach_inv [of X ep] unfolding ep_inv_def table_ok_def unfinished_def by blast
  then show ?thesis by (simp add: image_image)
qed

lemma closed_unfinished:
  assumes "ep_reach X ep" "ep_closed ep" "ep_step X ep ep'"
  shows "ep_closed ep' \<and> unfinished ep' \<subseteq> unfinished ep"
  using closed_step [OF assms(2,3)] unfinished_table [OF assms(1)] unfinished_table [OF er_step [OF assms(1,3)]] assms(2)
  by (auto simp: narrows_def)

lemma closeAll_narrows [simp]: "narrows a (closeAll rs ep) = narrows a ep"
  by (induction rs arbitrary: ep) simp_all

lemma closeStart_sessions:
  assumes "\<not> ep_closed ep"
  shows "ep_closed (closeStart now cr ep) \<and> set (ep_sessions (closeStart now cr ep)) \<subseteq> set (ep_sessions ep)"
proof -
  have "narrows (ep\<lparr>ep_closed := True\<rparr>) (closeStart now cr ep)" using assms by (simp add: closeStart_def Let_def)
  then show ?thesis by (simp add: narrows_def)
qed

text \<open>What the program counter says about the sessions.\<close>

fun closer_ok :: "closer \<Rightarrow> ('p, 'd) endpoint \<Rightarrow> bool" where
  "closer_ok ClBegin ep = True"
| "closer_ok (ClAwait rs) ep = (ep_closed ep \<and> unfinished ep \<subseteq> set rs)"
| "closer_ok (ClCancel late) ep = (ep_closed ep \<and> (late \<or> unfinished ep = {}))"
| "closer_ok (ClSignal late) ep = (ep_closed ep \<and> (late \<or> unfinished ep = {}))"
| "closer_ok (ClWait late sigErr) ep = (ep_closed ep \<and> (late \<or> unfinished ep = {}))"
| "closer_ok (ClReturned late sigErr) ep = (ep_closed ep \<and> unfinished ep = {})"

lemma unfinished_finish [simp]: "unfinished (closeFinish ep) = unfinished ep" "ep_closed (closeFinish ep) = ep_closed ep"
  by (simp_all add: unfinished_def closeFinish_def)

lemma close_step_ok:
  assumes "close_step X z z'" "ep_reach X (snd z)" "closer_ok (fst z) (snd z)"
  shows "ep_reach X (snd z') \<and> closer_ok (fst z') (snd z')"
  using assms
proof (induction rule: close_step.induct)
  case (cl_begin ep now cr)
  have r: "ep_reach X (closeStart now cr ep)" using cl_begin er_step [OF _ es_close] by simp
  have "unfinished (closeStart now cr ep) \<subseteq> set (map snd (ep_sessions ep))"
    using closeStart_sessions [OF cl_begin(1), of now cr] unfinished_table [OF r] by auto
  then show ?case using r closeStart_sessions [OF cl_begin(1), of now cr] by simp
next
  case (cl_finished rs' graceFired r rs ep)
  then have "rs' = rs" "ss_finished (ep_objs ep r)" by (auto simp: awaitTurn_def split: if_splits)
  then show ?case using cl_finished by (auto simp: unfinished_def)
next
  case (cl_cancel late ep)
  then show ?case using er_step [OF _ es_finish] by simp
next
  case (cl_other ep ep' c)
  have n: "ep_reach X ep'" using er_step [OF _ cl_other(1)] cl_other(2) by simp
  show ?case using closed_unfinished [OF _ _ cl_other(1)] cl_other(2,3) n by (cases c) auto
qed (auto simp: unfinished_def)

lemma close_reach_ok: "close_reach X z \<Longrightarrow> ep_reach X (snd z) \<and> closer_ok (fst z) (snd z)"
  by (induction rule: close_reach.induct) (auto dest: close_step_ok)

text \<open>The wait for the sessions is over at the latest when the grace timer fires.\<close>

lemma await_bounded: "awaitTurn True r rs ep \<noteq> []"
  by (simp add: awaitTurn_def)



end
