(* ===== verification/Conformance.thy ===== *)
theory Conformance
  imports Signal "HOL-Library.Multiset" "HOL-Library.AList" "HOL-Library.List_Lexorder" "HOL-Library.Char_ord"
begin

text \<open>
  The conformance suite of signaling transports (\<^verbatim>\<open>signaling/signalertest/signalertest.go\<close>) and the interfaces
  \<open>Signaler\<close> and \<open>SignalConn\<close> of \<^verbatim>\<open>signaling.go\<close> it is written against.

  \<^item> A transport is a record of calls on a state. A call gets the error of its context (\<open>None\<close> while the context
    is not done) and gives every way it can return now; no way means that it blocks.
  \<^item> A test is a predicate on the state \<open>NewSignaler\<close> returned, in the order of the calls of the source: it holds
    when the test passes whatever the calls return. A call that can never return does not pass. A call that blocks
    is released when its context ends; the times (\<open>waitFor\<close> and the sleeps) only say that this happens after
    everything else has come to rest. The connections closed by \<open>t.Cleanup\<close> after a test are left out.
  \<^item> \<open>rnd k\<close> is what \<open>crypto/rand\<close> gives to the \<open>k\<close>-th call of \<open>NewID\<close> in a test.
  \<^item> The two tests with concurrent senders and a reader are a step relation.
\<close>

subsection \<open>The interface\<close>

record 's signaler =
  sg_Open :: "gerror option \<Rightarrow> PeerID \<Rightarrow> 's \<Rightarrow> ((gerror + nat) \<times> 's) list"
  sg_Send :: "gerror option \<Rightarrow> nat \<Rightarrow> Signal \<Rightarrow> 's \<Rightarrow> (gerror option \<times> 's) list"
  sg_Receive :: "gerror option \<Rightarrow> nat \<Rightarrow> 's \<Rightarrow> ((gerror + Signal) \<times> 's) list"
  sg_Close :: "nat \<Rightarrow> 's \<Rightarrow> gerror option \<times> 's"

record confConfig =
  cf_RejectsDuplicatePeers :: bool
  cf_ReportsUnavailablePeer :: bool
  cf_MaxPayload :: int

text \<open>A call with a context that ends with error \<open>e\<close> once nothing else moves.\<close>

definition waits :: "gerror \<Rightarrow> (gerror option \<Rightarrow> 'x list) \<Rightarrow> 'x list" where
  "waits e call = (if call None \<noteq> [] then call None else call (Some e))"

definition always :: "('x \<Rightarrow> bool) \<Rightarrow> 'x list \<Rightarrow> bool" where
  "always P xs \<longleftrightarrow> xs \<noteq> [] \<and> list_all P xs"

definition timedOut :: gerror where "timedOut = Sentinel ContextDeadlineExceeded"
definition canceled :: gerror where "canceled = Sentinel ContextCanceled"

definition confOpen :: "'s signaler \<Rightarrow> PeerID \<Rightarrow> (nat \<Rightarrow> 's \<Rightarrow> bool) \<Rightarrow> 's \<Rightarrow> bool" where
  "confOpen S i k st =
     always (\<lambda>(r, st). case r of Inl e \<Rightarrow> False | Inr c \<Rightarrow> k c st) (waits timedOut (\<lambda>ctx. sg_Open S ctx i st))"

definition confSend :: "'s signaler \<Rightarrow> nat \<Rightarrow> Signal \<Rightarrow> ('s \<Rightarrow> bool) \<Rightarrow> 's \<Rightarrow> bool" where
  "confSend S c sig k st =
     always (\<lambda>(r, st). r = None \<and> k st) (waits timedOut (\<lambda>ctx. sg_Send S ctx c sig st))"

definition confReceive :: "'s signaler \<Rightarrow> nat \<Rightarrow> (Signal \<Rightarrow> 's \<Rightarrow> bool) \<Rightarrow> 's \<Rightarrow> bool" where
  "confReceive S c k st =
     always (\<lambda>(r, st). case r of Inl e \<Rightarrow> False | Inr sig \<Rightarrow> k sig st) (waits timedOut (\<lambda>ctx. sg_Receive S ctx c st))"

text \<open>\<open>if err := c.Close(); err != nil\<close> with \<open>t.Fatalf\<close>.\<close>

definition confClose :: "'s signaler \<Rightarrow> nat \<Rightarrow> ('s \<Rightarrow> bool) \<Rightarrow> 's \<Rightarrow> bool" where
  "confClose S c k st = (case sg_Close S c st of (e, st) \<Rightarrow> e = None \<and> k st)"

text \<open>The call fails with an error that is \<open>want\<close>.\<close>

definition failsWith :: "sentinel \<Rightarrow> gerror + 'a \<Rightarrow> bool" where
  "failsWith want r = (case r of Inl e \<Rightarrow> errors_Is e want | Inr _ \<Rightarrow> False)"

definition failedWith :: "sentinel \<Rightarrow> gerror option \<Rightarrow> bool" where
  "failedWith want r = (case r of Some e \<Rightarrow> errors_Is e want | None \<Rightarrow> False)"

subsection \<open>Envelopes\<close>

definition confSignal :: "bytes \<Rightarrow> PeerID \<Rightarrow> PeerID \<Rightarrow> string \<Rightarrow> string \<Rightarrow> string \<Rightarrow> Signal" where
  "confSignal buf from to session kind payload =
     \<lparr> sig_Version = ProtocolVersion, sig_ID = NewID buf, sig_SessionID = session, sig_Kind = kind,
       sig_From = from, sig_To = to, sig_Payload = payload \<rparr>"

definition sdpText :: "string \<Rightarrow> string" where
  "sdpText sdp = enc_object [(''sdp'', quote sdp)]"

definition Offer :: "bytes \<Rightarrow> PeerID \<Rightarrow> PeerID \<Rightarrow> string \<Rightarrow> string \<Rightarrow> Signal" where
  "Offer buf from to session sdp = confSignal buf from to session KindOffer (sdpText sdp)"

definition Answer :: "bytes \<Rightarrow> PeerID \<Rightarrow> PeerID \<Rightarrow> string \<Rightarrow> string \<Rightarrow> Signal" where
  "Answer buf from to session sdp = confSignal buf from to session KindAnswer (sdpText sdp)"

text \<open>\<open>sameJSON\<close>: both texts are decoded into \<open>any\<close> and compared deeply. \<open>num\<close> is the conversion of a number to
  \<open>float64\<close>, which fails out of range. An object becomes a map: the last member of a name counts, and the order does
  not matter.\<close>

datatype 'f anyValue =
    AnyNil
  | AnyBool bool
  | AnyFloat 'f
  | AnyString string
  | AnySlice "'f anyValue list"
  | AnyMap "(string \<times> 'f anyValue) list"

definition anyMap :: "(string \<times> 'f anyValue) list \<Rightarrow> 'f anyValue" where
  "anyMap ms = AnyMap (sort_key fst (foldl (\<lambda>m (k, v). AList.update k v m) [] ms))"

fun toAny :: "(string \<Rightarrow> 'f option) \<Rightarrow> json \<Rightarrow> 'f anyValue option"
  and toAnys :: "(string \<Rightarrow> 'f option) \<Rightarrow> json list \<Rightarrow> 'f anyValue list option"
  and toMembers :: "(string \<Rightarrow> 'f option) \<Rightarrow> (string \<times> json) list \<Rightarrow> (string \<times> 'f anyValue) list option" where
  "toAny num JNull = Some AnyNil"
| "toAny num (JBool b) = Some (AnyBool b)"
| "toAny num (JNum n) = map_option AnyFloat (num n)"
| "toAny num (JStr s) = Some (AnyString s)"
| "toAny num (JArr vs) = map_option AnySlice (toAnys num vs)"
| "toAny num (JObj ms) = map_option anyMap (toMembers num ms)"
| "toAnys num [] = Some []"
| "toAnys num (v # vs) =
     (case toAny num v of None \<Rightarrow> None | Some x \<Rightarrow> map_option (\<lambda>xs. x # xs) (toAnys num vs))"
| "toMembers num [] = Some []"
| "toMembers num ((k, v) # ms) =
     (case toAny num v of None \<Rightarrow> None | Some x \<Rightarrow> map_option (\<lambda>xs. (k, x) # xs) (toMembers num ms))"

definition unmarshalAny :: "(string \<Rightarrow> 'f option) \<Rightarrow> string \<Rightarrow> 'f anyValue option" where
  "unmarshalAny num raw =
     (case parse_json raw of
        None \<Rightarrow> None
      | Some (v, rest) \<Rightarrow> if skip_ws rest = [] then toAny num v else None)"

definition sameJSON :: "(string \<Rightarrow> 'f option) \<Rightarrow> string \<Rightarrow> string \<Rightarrow> bool" where
  "sameJSON num got want =
     (if got = [] \<or> want = [] then got = [] \<and> want = []
      else case unmarshalAny num got of
        None \<Rightarrow> False
      | Some a \<Rightarrow> (case unmarshalAny num want of None \<Rightarrow> False | Some b \<Rightarrow> a = b))"

subsection \<open>The tests with one caller at a time\<close>

definition crlf :: string where "crlf = [CHR 0x0D, CHR 0x0A]"

definition testRoundTrip :: "(nat \<Rightarrow> bytes) \<Rightarrow> 's signaler \<Rightarrow> 's \<Rightarrow> bool" where
  "testRoundTrip rnd S =
     confOpen S ''alice'' (\<lambda>a. confOpen S ''bob'' (\<lambda>b.
       let sent = Offer (rnd 1) ''alice'' ''bob'' (NewID (rnd 0)) (''v=0'' @ crlf @ ''o=- 1 1 IN IP4 0.0.0.0'' @ crlf)
       in confSend S a sent (confReceive S b (\<lambda>got st.
            sig_ID got = sig_ID sent \<and> sig_Kind got = sig_Kind sent))))"

definition candidateText :: string where
  "candidateText = [CHR 0x7B, CHR 0x22] @ ''candidate'' @ [CHR 0x22, CHR 0x3A, CHR 0x22]
     @ ''candidate:1 1 udp 2130706431 203.0.113.1 8000 typ host'' @ [CHR 0x22, CHR 0x2C, CHR 0x22]
     @ ''sdp_mid'' @ [CHR 0x22, CHR 0x3A, CHR 0x22, CHR 0x30, CHR 0x22, CHR 0x2C, CHR 0x22]
     @ ''sdp_mline_index'' @ [CHR 0x22, CHR 0x3A, CHR 0x30, CHR 0x7D]"

definition survivors :: "(nat \<Rightarrow> bytes) \<Rightarrow> Signal list" where
  "survivors rnd =
     [Offer (rnd 1) ''alice'' ''bob'' (NewID (rnd 0)) (''v=0'' @ crlf @ ''s=-'' @ crlf),
      confSignal (rnd 3) ''alice'' ''bob'' (NewID (rnd 2)) KindICEComplete [],
      confSignal (rnd 5) ''alice'' ''bob'' (NewID (rnd 4)) KindCandidate candidateText]"

text \<open>The loop of \<open>testEnvelopeSurvives\<close>.\<close>

fun surviveLoop :: "(string \<Rightarrow> 'f option) \<Rightarrow> 's signaler \<Rightarrow> nat \<Rightarrow> nat \<Rightarrow> Signal list \<Rightarrow> 's \<Rightarrow> bool" where
  "surviveLoop num S a b [] st = True"
| "surviveLoop num S a b (sent # rest) st =
     confSend S a sent (confReceive S b (\<lambda>got st.
       sig_Version got = sig_Version sent \<and> sig_ID got = sig_ID sent \<and> sig_SessionID got = sig_SessionID sent \<and>
       sig_Kind got = sig_Kind sent \<and> sig_From got = sig_From sent \<and> sig_To got = sig_To sent \<and>
       sameJSON num (sig_Payload got) (sig_Payload sent) \<and> Validate got = None \<and>
       surviveLoop num S a b rest st)) st"

definition testEnvelopeSurvives :: "(string \<Rightarrow> 'f option) \<Rightarrow> (nat \<Rightarrow> bytes) \<Rightarrow> 's signaler \<Rightarrow> 's \<Rightarrow> bool" where
  "testEnvelopeSurvives num rnd S =
     confOpen S ''alice'' (\<lambda>a. confOpen S ''bob'' (\<lambda>b. surviveLoop num S a b (survivors rnd)))"

text \<open>\<open>strings.Repeat\<close> panics on a negative count; integer division cuts towards zero.\<close>

definition largeSDP :: "int \<Rightarrow> string option" where
  "largeSDP maxPayload =
     (let n = maxPayload - 64; count = (if n < 0 then - (- n div 5) else n div 5)
      in if count < 0 then None
         else Some (''v=0'' @ crlf @ concat (replicate (nat count) (''a=x'' @ crlf))))"

definition testLargePayload :: "(string \<Rightarrow> 'f option) \<Rightarrow> (nat \<Rightarrow> bytes) \<Rightarrow> confConfig \<Rightarrow> 's signaler \<Rightarrow> 's \<Rightarrow> bool" where
  "testLargePayload num rnd cfg S =
     confOpen S ''alice'' (\<lambda>a. confOpen S ''bob'' (\<lambda>b st.
       case largeSDP (cf_MaxPayload cfg) of
         None \<Rightarrow> False
       | Some sdp \<Rightarrow>
           let sent = Offer (rnd 1) ''alice'' ''bob'' (NewID (rnd 0)) sdp
           in confSend S a sent (confReceive S b (\<lambda>got st.
                sameJSON num (sig_Payload got) (sig_Payload sent))) st))"

definition testBidirectional :: "(nat \<Rightarrow> bytes) \<Rightarrow> 's signaler \<Rightarrow> 's \<Rightarrow> bool" where
  "testBidirectional rnd S =
     confOpen S ''alice'' (\<lambda>a. confOpen S ''bob'' (\<lambda>b.
       let session = NewID (rnd 0) in
       confSend S a (Offer (rnd 1) ''alice'' ''bob'' session (''v=0'' @ crlf @ ''offer'' @ crlf))
         (confReceive S b (\<lambda>got st. sig_Kind got = KindOffer \<and>
           confSend S b (Answer (rnd 2) ''bob'' ''alice'' session (''v=0'' @ crlf @ ''answer'' @ crlf))
             (confReceive S a (\<lambda>got st. sig_Kind got = KindAnswer)) st))))"

definition testIsolation :: "(nat \<Rightarrow> bytes) \<Rightarrow> 's signaler \<Rightarrow> 's \<Rightarrow> bool" where
  "testIsolation rnd S =
     confOpen S ''alice'' (\<lambda>a. confOpen S ''bob'' (\<lambda>b. confOpen S ''carol'' (\<lambda>c.
       confSend S a (confSignal (rnd 1) ''alice'' ''bob'' (NewID (rnd 0)) KindICEComplete [])
         (confReceive S b (\<lambda>_ st.
           always (\<lambda>(r, _). failsWith ContextDeadlineExceeded r) (waits timedOut (\<lambda>ctx. sg_Receive S ctx c st)))))))"

definition testReceiveHonorsContext :: "'s signaler \<Rightarrow> 's \<Rightarrow> bool" where
  "testReceiveHonorsContext S =
     confOpen S ''alice'' (\<lambda>a st.
       always (\<lambda>(r, _). failsWith ContextCanceled r) (waits canceled (\<lambda>ctx. sg_Receive S ctx a st)))"

definition testOpenHonorsCancelledContext :: "'s signaler \<Rightarrow> 's \<Rightarrow> bool" where
  "testOpenHonorsCancelledContext S st =
     always (\<lambda>(r, _). failsWith ContextCanceled r) (sg_Open S (Some canceled) ''alice'' st)"

text \<open>\<open>testCloseUnblocksReceive\<close>: the receive of the other goroutine returns before the close or after it.\<close>

definition testCloseUnblocksReceive :: "'s signaler \<Rightarrow> 's \<Rightarrow> bool" where
  "testCloseUnblocksReceive S =
     confOpen S ''alice'' (\<lambda>a st.
       let released = (\<lambda>r. case r of Inr _ \<Rightarrow> False | Inl e \<Rightarrow> \<not> errors_Is e ContextDeadlineExceeded) in
       list_all (\<lambda>(r, st). confClose S a (\<lambda>_. released r) st) (sg_Receive S None a st) \<and>
       confClose S a (\<lambda>st. always (\<lambda>(r, _). released r) (waits timedOut (\<lambda>ctx. sg_Receive S ctx a st))) st)"

definition testCloseIsIdempotent :: "'s signaler \<Rightarrow> 's \<Rightarrow> bool" where
  "testCloseIsIdempotent S =
     confOpen S ''alice'' (\<lambda>a. confClose S a (confClose S a (confClose S a (\<lambda>_. True))))"

definition testUseAfterCloseFails :: "(nat \<Rightarrow> bytes) \<Rightarrow> 's signaler \<Rightarrow> 's \<Rightarrow> bool" where
  "testUseAfterCloseFails rnd S =
     confOpen S ''alice'' (\<lambda>a. confOpen S ''bob'' (\<lambda>b. confClose S a (\<lambda>st.
       let sig = confSignal (rnd 1) ''alice'' ''bob'' (NewID (rnd 0)) KindICEComplete [];
           reply = confSignal (rnd 3) ''bob'' ''alice'' (NewID (rnd 2)) KindICEComplete []
       in always (\<lambda>(r, st). failedWith ErrClosed r \<and>
            always (\<lambda>(r, st). failsWith ErrClosed r \<and>
              always (\<lambda>(r, _). r = None \<or> failedWith ErrPeerUnavailable r) (waits timedOut (\<lambda>ctx. sg_Send S ctx b reply st)))
              (waits timedOut (\<lambda>ctx. sg_Receive S ctx a st)))
            (waits timedOut (\<lambda>ctx. sg_Send S ctx a sig st)))))"

definition testDuplicatePeer :: "confConfig \<Rightarrow> 's signaler \<Rightarrow> 's \<Rightarrow> bool" where
  "testDuplicatePeer cfg S st =
     (if \<not> cf_RejectsDuplicatePeers cfg then True
      else confOpen S ''alice'' (\<lambda>first st.
        always (\<lambda>(r, st). failsWith ErrDuplicatePeer r \<and>
          confClose S first (confOpen S ''alice'' (\<lambda>_ _. True)) st)
          (waits timedOut (\<lambda>ctx. sg_Open S ctx ''alice'' st))) st)"

definition testUnavailablePeer :: "(nat \<Rightarrow> bytes) \<Rightarrow> confConfig \<Rightarrow> 's signaler \<Rightarrow> 's \<Rightarrow> bool" where
  "testUnavailablePeer rnd cfg S st =
     (if \<not> cf_ReportsUnavailablePeer cfg then True
      else confOpen S ''alice'' (\<lambda>a st.
        always (\<lambda>(r, _). failedWith ErrPeerUnavailable r)
          (waits timedOut (\<lambda>ctx. sg_Send S ctx a (confSignal (rnd 1) ''alice'' ''nobody'' (NewID (rnd 0)) KindICEComplete []) st))) st)"

subsection \<open>The tests with concurrent senders\<close>

text \<open>
  \<open>testNoLoss\<close> has one sender, \<open>testConcurrentSenders\<close> has eight; a reader collects the identifiers it has seen until
  they are \<open>count\<close>. \<open>rc_todo\<close> is what each sender still has to send. A call happens when it can return; the
  senders and the reader take turns in any order.
\<close>

record 's race =
  rc_todo :: "Signal list list"
  rc_seen :: "string list"
  rc_reading :: bool
  rc_failed :: bool
  rc_st :: 's

inductive race_step :: "'s signaler \<Rightarrow> nat \<Rightarrow> nat \<Rightarrow> nat \<Rightarrow> 's race \<Rightarrow> 's race \<Rightarrow> bool"
  for S a b count where
  rs_send: "w < length (rc_todo x) \<Longrightarrow> rc_todo x ! w = sig # rest \<Longrightarrow> (None, st') \<in> set (sg_Send S None a sig (rc_st x)) \<Longrightarrow>
    race_step S a b count x (x\<lparr>rc_todo := (rc_todo x)[w := rest], rc_st := st'\<rparr>)"
| rs_sendFailed: "w < length (rc_todo x) \<Longrightarrow> rc_todo x ! w = sig # rest \<Longrightarrow>
    (Some e, st') \<in> set (sg_Send S None a sig (rc_st x)) \<Longrightarrow>
    race_step S a b count x (x\<lparr>rc_todo := (rc_todo x)[w := []], rc_failed := True, rc_st := st'\<rparr>)"
| rs_receive: "rc_reading x \<Longrightarrow> length (rc_seen x) < count \<Longrightarrow> (Inr sig, st') \<in> set (sg_Receive S None b (rc_st x)) \<Longrightarrow>
    race_step S a b count x (x\<lparr>rc_seen := List.insert (sig_ID sig) (rc_seen x), rc_st := st'\<rparr>)"
| rs_receiveFailed: "rc_reading x \<Longrightarrow> length (rc_seen x) < count \<Longrightarrow> (Inl e, st') \<in> set (sg_Receive S None b (rc_st x)) \<Longrightarrow>
    race_step S a b count x (x\<lparr>rc_reading := False, rc_st := st'\<rparr>)"
| rs_enough: "rc_reading x \<Longrightarrow> \<not> length (rc_seen x) < count \<Longrightarrow> race_step S a b count x (x\<lparr>rc_reading := False\<rparr>)"

definition race_start :: "Signal list list \<Rightarrow> 's \<Rightarrow> 's race" where
  "race_start todo st = \<lparr> rc_todo = todo, rc_seen = [], rc_reading = True, rc_failed = False, rc_st = st \<rparr>"

text \<open>The signals of the tests: \<open>each\<close> signals for every one of \<open>senders\<close> goroutines, with identifiers drawn for
  each.\<close>

definition raceSignal :: "(nat \<Rightarrow> bytes) \<Rightarrow> nat \<Rightarrow> Signal" where
  "raceSignal rnd i = confSignal (rnd (2 * i)) ''alice'' ''bob'' (NewID (rnd (2 * i + 1))) KindICEComplete []"

definition raceTodo :: "(nat \<Rightarrow> bytes) \<Rightarrow> nat \<Rightarrow> nat \<Rightarrow> Signal list list" where
  "raceTodo rnd senders each = map (\<lambda>w. map (\<lambda>i. raceSignal rnd (w * each + i)) [0..<each]) [0..<senders]"

definition noLossTodo :: "(nat \<Rightarrow> bytes) \<Rightarrow> Signal list list" where
  "noLossTodo rnd = raceTodo rnd 1 200"

definition concurrentTodo :: "(nat \<Rightarrow> bytes) \<Rightarrow> Signal list list" where
  "concurrentTodo rnd = raceTodo rnd 8 25"

text \<open>The verdict when nothing moves any more.\<close>

definition racePassed :: "string list \<Rightarrow> 's race \<Rightarrow> bool" where
  "racePassed ids x \<longleftrightarrow> \<not> rc_failed x \<and> \<not> rc_reading x \<and> (\<forall>todo \<in> set (rc_todo x). todo = []) \<and>
     length (rc_seen x) = length ids \<and> set ids \<subseteq> set (rc_seen x)"

text \<open>A concurrent test passes when its runs are bounded, no send fails in them, and where nothing moves any more
  the verdict is good.\<close>

definition raceTest :: "Signal list list \<Rightarrow> 's signaler \<Rightarrow> 's \<Rightarrow> bool" where
  "raceTest todo S =
     confOpen S ''alice'' (\<lambda>a. confOpen S ''bob'' (\<lambda>b st.
       let count = length (concat todo); ids = map sig_ID (concat todo) in
       \<exists>bound. \<forall>n x. (race_step S a b count ^^ n) (race_start todo st) x \<longrightarrow>
         n \<le> bound \<and> \<not> rc_failed x \<and> ((\<nexists>y. race_step S a b count x y) \<longrightarrow> racePassed ids x)))"

definition testNoLoss :: "(nat \<Rightarrow> bytes) \<Rightarrow> 's signaler \<Rightarrow> 's \<Rightarrow> bool" where
  "testNoLoss rnd = raceTest (noLossTodo rnd)"

definition testConcurrentSenders :: "(nat \<Rightarrow> bytes) \<Rightarrow> 's signaler \<Rightarrow> 's \<Rightarrow> bool" where
  "testConcurrentSenders rnd = raceTest (concurrentTodo rnd)"

text \<open>\<open>Run\<close>: every test gets a new transport.\<close>

definition confRun :: "(string \<Rightarrow> 'f option) \<Rightarrow> (nat \<Rightarrow> bytes) \<Rightarrow> confConfig \<Rightarrow> 's signaler \<Rightarrow> 's \<Rightarrow> bool" where
  "confRun num rnd cfg S st =
     (let cfg = (if cf_MaxPayload cfg \<le> 0 then cfg\<lparr>cf_MaxPayload := int MaxSDPSize\<rparr> else cfg) in
      testRoundTrip rnd S st \<and> testEnvelopeSurvives num rnd S st \<and> testLargePayload num rnd cfg S st \<and>
      testBidirectional rnd S st \<and> testIsolation rnd S st \<and> testNoLoss rnd S st \<and>
      testConcurrentSenders rnd S st \<and> testReceiveHonorsContext S st \<and>
      testOpenHonorsCancelledContext S st \<and> testCloseUnblocksReceive S st \<and> testCloseIsIdempotent S st \<and>
      testUseAfterCloseFails rnd S st \<and> testDuplicatePeer cfg S st \<and> testUnavailablePeer rnd cfg S st)"

subsection \<open>A contract that passes\<close>

text \<open>
  What a bounded transport promises that keeps a queue for every live connection: \<open>live\<close> is its table, \<open>inbox\<close> the
  queue of a connection, \<open>dead\<close> marks closed ones. The suite follows from these laws.
\<close>

locale queue_transport =
  fixes S :: "'s signaler"
    and ok :: "'s \<Rightarrow> bool"
    and live :: "'s \<Rightarrow> PeerID \<Rightarrow> nat option"
    and inbox :: "'s \<Rightarrow> nat \<Rightarrow> Signal list"
    and dead :: "'s \<Rightarrow> nat \<Rightarrow> bool"
    and cap :: nat
  assumes room: "0 < cap"
    and live_inj: "ok st \<Longrightarrow> live st i = Some c \<Longrightarrow> live st j = Some c \<Longrightarrow> i = j"
    and open_free: "ok st \<Longrightarrow> i \<noteq> [] \<Longrightarrow> live st i = None \<Longrightarrow> \<exists>c st'. sg_Open S None i st = [(Inr c, st')] \<and> ok st' \<and>
      live st' = (live st)(i \<mapsto> c) \<and> inbox st' = (inbox st)(c := [])"
    and open_taken: "ok st \<Longrightarrow> i \<noteq> [] \<Longrightarrow> live st i \<noteq> None \<Longrightarrow>
      \<exists>e. sg_Open S None i st = [(Inl e, st)] \<and> errors_Is e ErrDuplicatePeer"
    and open_done: "ok st \<Longrightarrow> i \<noteq> [] \<Longrightarrow> sg_Open S (Some e) i st = [(Inl e, st)]"
    and send_room: "ok st \<Longrightarrow> live st (sig_From sig) = Some c \<Longrightarrow> live st (sig_To sig) = Some d \<Longrightarrow>
      length (inbox st d) < cap \<Longrightarrow> \<exists>st'. sg_Send S None c sig st = [(None, st')] \<and> ok st' \<and> live st' = live st \<and>
      inbox st' = (inbox st)(d := inbox st d @ [sig])"
    and send_full: "ok st \<Longrightarrow> live st (sig_From sig) = Some c \<Longrightarrow> live st (sig_To sig) = Some d \<Longrightarrow>
      \<not> length (inbox st d) < cap \<Longrightarrow> sg_Send S None c sig st = []"
    and send_absent: "ok st \<Longrightarrow> live st (sig_From sig) = Some c \<Longrightarrow> live st (sig_To sig) = None \<Longrightarrow>
      \<exists>e. sg_Send S None c sig st = [(Some e, st)] \<and> errors_Is e ErrPeerUnavailable"
    and receive_some: "ok st \<Longrightarrow> live st i = Some c \<Longrightarrow> inbox st c = sig # rest \<Longrightarrow>
      \<exists>st'. sg_Receive S None c st = [(Inr sig, st')] \<and> ok st' \<and> live st' = live st \<and> inbox st' = (inbox st)(c := rest)"
    and receive_none: "ok st \<Longrightarrow> live st i = Some c \<Longrightarrow> inbox st c = [] \<Longrightarrow> sg_Receive S None c st = []"
    and receive_done: "ok st \<Longrightarrow> live st i = Some c \<Longrightarrow> inbox st c = [] \<Longrightarrow> sg_Receive S (Some e) c st = [(Inl e, st)]"
    and close_live: "ok st \<Longrightarrow> live st i = Some c \<Longrightarrow> \<exists>st'. sg_Close S c st = (None, st') \<and> ok st' \<and>
      live st' = (live st)(i := None) \<and> inbox st' = inbox st \<and> dead st' c"
    and close_dead: "ok st \<Longrightarrow> dead st c \<Longrightarrow> sg_Close S c st = (None, st)"
    and send_dead: "ok st \<Longrightarrow> dead st c \<Longrightarrow> \<exists>e. sg_Send S None c sig st = [(Some e, st)] \<and> errors_Is e ErrClosed"
    and receive_dead: "ok st \<Longrightarrow> dead st c \<Longrightarrow> inbox st c = [] \<Longrightarrow> \<exists>e. sg_Receive S None c st = [(Inl e, st)] \<and>
      errors_Is e ErrClosed \<and> \<not> errors_Is e ContextDeadlineExceeded"
begin

text \<open>The helpers of the suite on states that satisfy the contract.\<close>

lemma confOpen_ok:
  assumes "ok st" "i \<noteq> []" "live st i = None"
    and k: "\<And>c st'. ok st' \<Longrightarrow> live st' = (live st)(i \<mapsto> c) \<Longrightarrow> inbox st' = (inbox st)(c := []) \<Longrightarrow> k c st'"
  shows "confOpen S i k st"
  using open_free [OF assms(1-3)] k by (auto simp: confOpen_def waits_def always_def)

lemma confSend_ok:
  assumes "ok st" "live st (sig_From sig) = Some c" "live st (sig_To sig) = Some d" "inbox st d = []"
    and k: "\<And>st'. ok st' \<Longrightarrow> live st' = live st \<Longrightarrow> inbox st' = (inbox st)(d := [sig]) \<Longrightarrow> k st'"
  shows "confSend S c sig k st"
  using send_room [OF assms(1-3)] assms(4) room k by (auto simp: confSend_def waits_def always_def)

lemma confReceive_ok:
  assumes "ok st" "live st i = Some c" "inbox st c = [sig]"
    and k: "\<And>st'. ok st' \<Longrightarrow> live st' = live st \<Longrightarrow> inbox st' = (inbox st)(c := []) \<Longrightarrow> k sig st'"
  shows "confReceive S c k st"
  using receive_some [OF assms(1-3)] k by (auto simp: confReceive_def waits_def always_def)

lemma confClose_ok:
  assumes "ok st" "live st i = Some c"
    and k: "\<And>st'. ok st' \<Longrightarrow> live st' = (live st)(i := None) \<Longrightarrow> inbox st' = inbox st \<Longrightarrow> dead st' c \<Longrightarrow> k st'"
  shows "confClose S c k st"
  using close_live [OF assms(1,2)] k by (auto simp: confClose_def)

text \<open>A signal between two peers with empty queues arrives as it was sent.\<close>

lemma pass_one:
  assumes "ok st" "live st (sig_From sig) = Some c" "live st (sig_To sig) = Some d" "inbox st d = []"
    and k: "\<And>st'. ok st' \<Longrightarrow> live st' = live st \<Longrightarrow> inbox st' = inbox st \<Longrightarrow> k sig st'"
  shows "confSend S c sig (confReceive S d k) st"
proof (rule confSend_ok [OF assms(1-4)])
  fix s assume s: "ok s" "live s = live st" "inbox s = (inbox st)(d := [sig])"
  show "confReceive S d k s"
    by (rule confReceive_ok [of s "sig_To sig"]) (use s assms(3,4) k in \<open>auto simp: fun_upd_idem\<close>)
qed

text \<open>Two peers are open and nothing has been sent.\<close>

lemma open_pair:
  assumes "ok st" "\<forall>i. live st i = None"
    and k: "\<And>a b st'. ok st' \<Longrightarrow> live st' ''alice'' = Some a \<Longrightarrow> live st' ''bob'' = Some b \<Longrightarrow> a \<noteq> b \<Longrightarrow>
      \<forall>i. i \<noteq> ''alice'' \<longrightarrow> i \<noteq> ''bob'' \<longrightarrow> live st' i = None \<Longrightarrow> inbox st' a = [] \<Longrightarrow> inbox st' b = [] \<Longrightarrow> k a b st'"
  shows "confOpen S ''alice'' (\<lambda>a. confOpen S ''bob'' (k a)) st"
proof (rule confOpen_ok)
  fix a s assume s: "ok s" "live s = (live st)(''alice'' \<mapsto> a)" "inbox s = (inbox st)(a := [])"
  show "confOpen S ''bob'' (k a) s"
  proof (rule confOpen_ok)
    fix b t assume t: "ok t" "live t = (live s)(''bob'' \<mapsto> b)" "inbox t = (inbox s)(b := [])"
    have "a \<noteq> b" using live_inj [OF t(1), of "''alice''" a "''bob''"] t(2) s(2) by auto
    then show "k a b t" using s t assms(2) by (intro k) auto
  qed (use s assms(2) in auto)
qed (use assms in auto)

lemma open_one:
  assumes "ok st" "\<forall>i. live st i = None"
    and k: "\<And>a st'. ok st' \<Longrightarrow> live st' ''alice'' = Some a \<Longrightarrow> \<forall>i. i \<noteq> ''alice'' \<longrightarrow> live st' i = None \<Longrightarrow>
      inbox st' a = [] \<Longrightarrow> k a st'"
  shows "confOpen S ''alice'' k st"
  by (rule confOpen_ok) (use assms in auto)

end

subsection \<open>The envelopes of the suite\<close>

lemma sameJSON_refl: "raw = [] \<or> unmarshalAny num raw \<noteq> None \<Longrightarrow> sameJSON num raw raw"
  by (auto simp: sameJSON_def)

lemma unmarshal_object:
  assumes "ms \<noteq> []" "\<forall>(k, x, v) \<in> set ms. utf8_valid (bytes_of_string k) \<and> encodes x v"
    "toMembers num (map (\<lambda>(k, x, v). (k, v)) ms) \<noteq> None"
  shows "unmarshalAny num (enc_object (map (\<lambda>(k, x, v). (k, x)) ms)) \<noteq> None"
  using parse_enc_object [OF assms(1,2), of "[]"] assms(3) by (auto simp: unmarshalAny_def skip_ws_def)

lemma sdpText_json: "str_valid sdp \<Longrightarrow> unmarshalAny num (sdpText sdp) \<noteq> None"
  using unmarshal_object [of "[(''sdp'', quote sdp, JStr sdp)]" num]
  by (simp add: sdpText_def key_valid encodes_str)

definition candidateBody :: candidatePayload where
  "candidateBody = \<lparr> cp_Candidate = ''candidate:1 1 udp 2130706431 203.0.113.1 8000 typ host'',
     cp_SDPMid = Some ''0'', cp_SDPMLineIndex = Some 0, cp_UsernameFragment = None \<rparr>"

lemma candidateText_encodes: "candidateText = encodePayload (PCandidate candidateBody)"
  by code_simp

lemma ascii_text: "\<forall>c \<in> set s. code_of c < 128 \<Longrightarrow> str_valid s"
  by (simp add: str_valid_def ascii_key)

lemma candidateBody_valid: "str_valid (cp_Candidate candidateBody)" "str_valid ''0''"
  by (rule ascii_text, simp add: candidateBody_def code_of_def)+

lemma candidateText_json:
  assumes "num ''0'' \<noteq> None"
  shows "unmarshalAny num candidateText \<noteq> None"
proof -
  let ?ms = "[(''candidate'', quote (cp_Candidate candidateBody), JStr (cp_Candidate candidateBody)),
    (''sdp_mid'', quote ''0'', JStr ''0''), (''sdp_mline_index'', format_uint 0, JNum (format_uint 0))]"
  have "candidateText = enc_object (map (\<lambda>(k, x, v). (k, x)) ?ms)"
    by (simp add: candidateText_encodes candidateBody_def opt_member_def)
  moreover have f: "format_uint 0 = ''0''" by code_simp
  moreover have "encodes ''0'' (JNum ''0'')" using encodes_number [of 0] unfolding f .
  ultimately show ?thesis using unmarshal_object [of ?ms num] assms
    by (auto simp: key_valid encodes_str candidateBody_valid)
qed

lemma peers_valid: "validPeerID ''alice'' = None" "validPeerID ''bob'' = None"
  by (simp_all add: validPeerID_def MaxPeerIDLength_def str_valid_def rune_eval is_control_def is_space_def trim_space_def)

lemma confSignal_valid:
  assumes "length buf = 16" "length ses = 16" "length payload \<le> MaxEnvelopeSize"
    "validatePayload (confSignal buf ''alice'' ''bob'' (NewID ses) kind payload) = None"
  shows "Validate (confSignal buf ''alice'' ''bob'' (NewID ses) kind payload) = None"
  using assms by (simp add: Validate_def confSignal_def NewID_valid peers_valid)

lemma offer_body:
  assumes "str_valid sdp" "sdp \<noteq> []" "length sdp \<le> MaxSDPSize"
  shows "validatePayload (Offer buf from to ses sdp) = None"
  using roundtrip_sdp [of "\<lparr>sp_SDP = sdp\<rparr>"] assms
  by (simp add: validatePayload_def Offer_def confSignal_def sdpText_def validSDP_def)

lemma candidate_body: "validatePayload (confSignal buf from to ses KindCandidate candidateText) = None"
proof -
  have "decodePayload decode_candidate candidateText = Inr candidateBody" unfolding candidateText_encodes
    by (rule roundtrip_candidate) (use candidateBody_valid in \<open>simp_all add: opt_valid_def candidateBody_def\<close>)
  moreover have "validCandidate candidateBody = None"
    using candidateBody_valid by (simp add: validCandidate_def candidateBody_def MaxCandidateSize_def)
  ultimately show ?thesis by (simp add: validatePayload_def confSignal_def)
qed

lemma crlf_ascii: "\<forall>c \<in> set crlf. code_of c < 128" by (simp add: crlf_def code_of_def)

lemma survivors_good:
  assumes "\<forall>k. length (rnd k) = 16" "num ''0'' \<noteq> None" "sent \<in> set (survivors rnd)"
  shows "sig_From sent = ''alice'' \<and> sig_To sent = ''bob'' \<and> sameJSON num (sig_Payload sent) (sig_Payload sent) \<and>
    Validate sent = None"
proof -
  let ?sdp = "''v=0'' @ crlf @ ''s=-'' @ crlf"
  have v: "str_valid ?sdp" by (rule ascii_text) (simp add: crlf_def code_of_def)
  have l: "length (sdpText ?sdp) \<le> MaxEnvelopeSize" "length candidateText \<le> MaxEnvelopeSize" "length ?sdp \<le> MaxSDPSize"
  proof -
    have "length (sdpText ?sdp) \<le> 40" by code_simp
    then show "length (sdpText ?sdp) \<le> MaxEnvelopeSize" by (simp add: MaxEnvelopeSize_def)
  qed (simp_all add: candidateText_def crlf_def MaxEnvelopeSize_def MaxSDPSize_def)
  have "Validate (Offer (rnd 1) ''alice'' ''bob'' (NewID (rnd 0)) ?sdp) = None"
    using confSignal_valid [of "rnd 1" "rnd 0"] offer_body [OF v, of "rnd 1"] l assms(1) by (simp add: Offer_def)
  moreover have "Validate (confSignal (rnd 3) ''alice'' ''bob'' (NewID (rnd 2)) KindICEComplete []) = None"
    by (rule confSignal_valid) (use assms(1) in \<open>simp_all add: validatePayload_def confSignal_def\<close>)
  moreover have "Validate (confSignal (rnd 5) ''alice'' ''bob'' (NewID (rnd 4)) KindCandidate candidateText) = None"
    by (rule confSignal_valid) (use assms(1) l candidate_body in simp_all)
  moreover have "sameJSON num (sdpText ?sdp) (sdpText ?sdp)" "sameJSON num candidateText candidateText"
    using sameJSON_refl [OF disjI2] sdpText_json [OF v, of num] candidateText_json [of num, OF assms(2)] by blast+
  ultimately show ?thesis using assms(3)
    by (auto simp: survivors_def Offer_def confSignal_def sameJSON_refl)
qed

lemma largeSDP_valid: "largeSDP n = Some sdp \<Longrightarrow> str_valid sdp"
proof (rule ascii_text)
  assume "largeSDP n = Some sdp"
  then have "set sdp \<subseteq> set ''v=0'' \<union> set crlf \<union> set (''a=x'' @ crlf)"
    by (auto simp: largeSDP_def Let_def split: if_splits)
  then show "\<forall>c \<in> set sdp. code_of c < 128" by (auto simp: crlf_def code_of_def)
qed

text \<open>The test of large payloads goes beyond the limit it is given: the limit counts the characters of the
  description, and every line break takes two more bytes in JSON.\<close>

lemma estr_ascii: "\<forall>c \<in> set s. code_of c < 128 \<Longrightarrow> estr s = concat (map esc_ascii s)"
  by (induction s) (simp_all add: estr.simps)

lemma largeSDP_exceeds: "\<exists>sdp. largeSDP (int MaxSDPSize) = Some sdp \<and> length (sdpText sdp) = 183424 \<and> MaxSDPSize < 183424"
proof -
  let ?line = "''a=x'' @ crlf"
  let ?sdp = "''v=0'' @ crlf @ concat (replicate 26201 ?line)"
  have l: "largeSDP (int MaxSDPSize) = Some ?sdp" by (simp add: largeSDP_def MaxSDPSize_def)
  have k: "length (concat (map esc_ascii (concat (replicate n ?line)))) = 7 * n" for n
    by (induction n) (simp_all add: crlf_def esc_ascii_def code_of_def)
  have "\<forall>c \<in> set ?sdp. code_of c < 128" by (auto simp: crlf_def code_of_def)
  then have "length (estr ?sdp) = 7 + 7 * 26201" using k [of 26201]
    by (simp only: estr_ascii map_append concat_append length_append) (simp add: crlf_def esc_ascii_def code_of_def)
  moreover have "length (estr ''sdp'') = 3" by (subst estr_ascii) (simp_all add: code_of_def esc_ascii_def)
  ultimately show ?thesis using l by (simp add: sdpText_def enc_object_def quote_def MaxSDPSize_def)
qed

subsection \<open>Every transport with the contract passes\<close>

lemmas confSignal_fields = confSignal_def Offer_def Answer_def

context queue_transport
begin

lemma surviveLoop_ok:
  "ok st \<Longrightarrow> live st ''alice'' = Some a \<Longrightarrow> live st ''bob'' = Some b \<Longrightarrow> inbox st b = [] \<Longrightarrow>
   \<forall>sent \<in> set sigs. sig_From sent = ''alice'' \<and> sig_To sent = ''bob'' \<and>
     sameJSON num (sig_Payload sent) (sig_Payload sent) \<and> Validate sent = None \<Longrightarrow>
   surviveLoop num S a b sigs st"
proof (induction sigs arbitrary: st)
  case (Cons sent rest)
  then show ?case unfolding surviveLoop.simps by (intro pass_one) auto
qed simp

lemma fresh_tests:
  assumes "ok st" "\<forall>i. live st i = None" "\<forall>k. length (rnd k) = 16" "num ''0'' \<noteq> None"
  shows "testRoundTrip rnd S st" "testEnvelopeSurvives num rnd S st" "testBidirectional rnd S st"
proof -
  show "testRoundTrip rnd S st" unfolding testRoundTrip_def Let_def
    by (rule open_pair [OF assms(1,2)], rule pass_one) (simp_all add: confSignal_fields)
  show "testEnvelopeSurvives num rnd S st" unfolding testEnvelopeSurvives_def
    by (rule open_pair [OF assms(1,2)], rule surviveLoop_ok) (use survivors_good [of rnd num, OF assms(3,4)] in auto)
  show "testBidirectional rnd S st" unfolding testBidirectional_def Let_def
  proof (rule open_pair [OF assms(1,2)], rule pass_one)
    fix a b s s'
    assume s: "ok s" "live s ''alice'' = Some a" "live s ''bob'' = Some b" "inbox s a = []" "ok s'" "live s' = live s"
      "inbox s' = inbox s"
    show "sig_Kind (Offer (rnd 1) ''alice'' ''bob'' (NewID (rnd 0)) (''v=0'' @ crlf @ ''offer'' @ crlf)) = KindOffer \<and>
      confSend S b (Answer (rnd 2) ''bob'' ''alice'' (NewID (rnd 0)) (''v=0'' @ crlf @ ''answer'' @ crlf))
        (confReceive S a (\<lambda>got st. sig_Kind got = KindAnswer)) s'"
      by (intro conjI pass_one) (use s in \<open>simp_all add: confSignal_fields\<close>)
  qed (simp_all add: confSignal_fields)
qed

lemma largePayload:
  assumes "ok st" "\<forall>i. live st i = None" "60 \<le> cf_MaxPayload cfg"
  shows "testLargePayload num rnd cfg S st"
proof -
  let ?n = "cf_MaxPayload cfg - 64"
  have "\<not> (if ?n < 0 then - (- ?n div 5) else ?n div 5) < 0" using assms(3) by (auto simp: not_less)
  then obtain sdp where sdp: "largeSDP (cf_MaxPayload cfg) = Some sdp"
    unfolding largeSDP_def Let_def by (metis (lifting))
  show ?thesis unfolding testLargePayload_def sdp option.case Let_def
    by (rule open_pair [OF assms(1,2)], rule pass_one)
      (use sameJSON_refl [OF disjI2] sdpText_json [OF largeSDP_valid [OF sdp], of num] in \<open>simp_all add: confSignal_fields\<close>)
qed

lemma isolation:
  assumes "ok st" "\<forall>i. live st i = None"
  shows "testIsolation rnd S st"
  unfolding testIsolation_def
proof (rule open_pair [OF assms])
  fix a b s
  assume s: "ok s" "live s ''alice'' = Some a" "live s ''bob'' = Some b" "a \<noteq> b" "inbox s b = []"
    "\<forall>i. i \<noteq> ''alice'' \<longrightarrow> i \<noteq> ''bob'' \<longrightarrow> live s i = None"
  let ?sig = "confSignal (rnd 1) ''alice'' ''bob'' (NewID (rnd 0)) KindICEComplete []"
  show "confOpen S ''carol'' (\<lambda>c. confSend S a ?sig (confReceive S b (\<lambda>_ st.
      always (\<lambda>(r, _). failsWith ContextDeadlineExceeded r) (waits timedOut (\<lambda>ctx. sg_Receive S ctx c st))))) s"
  proof (rule confOpen_ok)
    fix c t assume t: "ok t" "live t = (live s)(''carol'' \<mapsto> c)" "inbox t = (inbox s)(c := [])"
    show "confSend S a ?sig (confReceive S b (\<lambda>_ st.
      always (\<lambda>(r, _). failsWith ContextDeadlineExceeded r) (waits timedOut (\<lambda>ctx. sg_Receive S ctx c st)))) t"
    proof (rule pass_one)
      fix u assume u: "ok u" "live u = live t" "inbox u = inbox t"
      have "sg_Receive S None c u = []" "sg_Receive S (Some timedOut) c u = [(Inl timedOut, u)]"
        using receive_none [of u "''carol''" c] receive_done [of u "''carol''" c] u t by simp_all
      then show "always (\<lambda>(r, _). failsWith ContextDeadlineExceeded r) (waits timedOut (\<lambda>ctx. sg_Receive S ctx c u))"
        by (simp add: always_def waits_def failsWith_def timedOut_def)
    qed (use s t in \<open>auto simp: confSignal_def\<close>)
  qed (use s in auto)
qed

lemma context_tests:
  assumes "ok st" "\<forall>i. live st i = None"
  shows "testReceiveHonorsContext S st" "testOpenHonorsCancelledContext S st"
proof -
  show "testReceiveHonorsContext S st" unfolding testReceiveHonorsContext_def
    by (rule open_one [OF assms])
      (simp add: receive_none [of _ "''alice''"] receive_done [of _ "''alice''"] waits_def always_def failsWith_def canceled_def)
  show "testOpenHonorsCancelledContext S st"
    using open_done [OF assms(1), of "''alice''"]
    by (simp add: testOpenHonorsCancelledContext_def always_def failsWith_def canceled_def)
qed

lemma close_tests:
  assumes "ok st" "\<forall>i. live st i = None"
  shows "testCloseUnblocksReceive S st" "testCloseIsIdempotent S st"
proof -
  show "testCloseUnblocksReceive S st" unfolding testCloseUnblocksReceive_def Let_def
  proof (rule open_one [OF assms], rule conjI)
    fix a s assume s: "ok s" "live s ''alice'' = Some a" "inbox s a = []"
    show "list_all (\<lambda>(r, st). confClose S a (\<lambda>_. case r of Inl e \<Rightarrow> \<not> errors_Is e ContextDeadlineExceeded | Inr _ \<Rightarrow> False) st)
      (sg_Receive S None a s)" by (simp add: receive_none [OF s])
    show "confClose S a (\<lambda>st. always (\<lambda>(r, _). case r of Inl e \<Rightarrow> \<not> errors_Is e ContextDeadlineExceeded | Inr _ \<Rightarrow> False)
      (waits timedOut (\<lambda>ctx. sg_Receive S ctx a st))) s"
    proof (rule confClose_ok [OF s(1,2)])
      fix t assume "ok t" "inbox t = inbox s" "dead t a"
      then show "always (\<lambda>(r, _). case r of Inl e \<Rightarrow> \<not> errors_Is e ContextDeadlineExceeded | Inr _ \<Rightarrow> False)
        (waits timedOut (\<lambda>ctx. sg_Receive S ctx a t))"
        using receive_dead [of t a] s(3) by (auto simp: waits_def always_def)
    qed
  qed
  show "testCloseIsIdempotent S st" unfolding testCloseIsIdempotent_def
    by (rule open_one [OF assms], rule confClose_ok, assumption, assumption) (simp add: confClose_def close_dead)
qed

lemma useAfterClose:
  assumes "ok st" "\<forall>i. live st i = None"
  shows "testUseAfterCloseFails rnd S st"
  unfolding testUseAfterCloseFails_def Let_def
proof (rule open_pair [OF assms], rule confClose_ok)
  fix a b s t
  assume s: "live s ''bob'' = Some b" "inbox s a = []" and t: "ok t" "live t = (live s)(''alice'' := None)" "inbox t = inbox s" "dead t a"
  let ?sig = "confSignal (rnd 1) ''alice'' ''bob'' (NewID (rnd 0)) KindICEComplete []"
  let ?reply = "confSignal (rnd 3) ''bob'' ''alice'' (NewID (rnd 2)) KindICEComplete []"
  obtain e where e: "sg_Send S None a ?sig t = [(Some e, t)]" "errors_Is e ErrClosed" using send_dead [OF t(1,4)] by blast
  obtain f where f: "sg_Receive S None a t = [(Inl f, t)]" "errors_Is f ErrClosed"
    using receive_dead [OF t(1,4)] t(3) s(2) by auto
  obtain g where g: "sg_Send S None b ?reply t = [(Some g, t)]" "errors_Is g ErrPeerUnavailable"
    using send_absent [OF t(1), of ?reply b] t(2) s(1) by (auto simp: confSignal_def)
  show "always (\<lambda>(r, st). failedWith ErrClosed r \<and>
      always (\<lambda>(r, st). failsWith ErrClosed r \<and>
        always (\<lambda>(r, _). r = None \<or> failedWith ErrPeerUnavailable r) (waits timedOut (\<lambda>ctx. sg_Send S ctx b ?reply st)))
        (waits timedOut (\<lambda>ctx. sg_Receive S ctx a st))) (waits timedOut (\<lambda>ctx. sg_Send S ctx a ?sig t))"
    using e f g by (simp add: always_def waits_def failedWith_def failsWith_def)
qed

lemma optional_tests:
  assumes "ok st" "\<forall>i. live st i = None"
  shows "testDuplicatePeer cfg S st" "testUnavailablePeer rnd cfg S st"
proof -
  have "confOpen S ''alice'' (\<lambda>first st. always (\<lambda>(r, st). failsWith ErrDuplicatePeer r \<and>
      confClose S first (confOpen S ''alice'' (\<lambda>_ _. True)) st) (waits timedOut (\<lambda>ctx. sg_Open S ctx ''alice'' st))) st"
  proof (rule open_one [OF assms])
    fix a s assume s: "ok s" "live s ''alice'' = Some a"
    obtain e where e: "sg_Open S None ''alice'' s = [(Inl e, s)]" "errors_Is e ErrDuplicatePeer"
      using open_taken [OF s(1), of "''alice''"] s(2) by auto
    have "confClose S a (confOpen S ''alice'' (\<lambda>_ _. True)) s"
      by (rule confClose_ok [OF s], rule confOpen_ok) simp_all
    then show "always (\<lambda>(r, st). failsWith ErrDuplicatePeer r \<and> confClose S a (confOpen S ''alice'' (\<lambda>_ _. True)) st)
      (waits timedOut (\<lambda>ctx. sg_Open S ctx ''alice'' s))"
      using e by (simp add: always_def waits_def failsWith_def)
  qed
  then show "testDuplicatePeer cfg S st" by (simp add: testDuplicatePeer_def)
  let ?sig = "confSignal (rnd 1) ''alice'' ''nobody'' (NewID (rnd 0)) KindICEComplete []"
  have "confOpen S ''alice'' (\<lambda>a st. always (\<lambda>(r, _). failedWith ErrPeerUnavailable r)
      (waits timedOut (\<lambda>ctx. sg_Send S ctx a ?sig st))) st"
  proof (rule open_one [OF assms])
    fix a s assume s: "ok s" "live s ''alice'' = Some a" "\<forall>i. i \<noteq> ''alice'' \<longrightarrow> live s i = None"
    then obtain e where "sg_Send S None a ?sig s = [(Some e, s)]" "errors_Is e ErrPeerUnavailable"
      using send_absent [OF s(1), of ?sig a] by (auto simp: confSignal_def)
    then show "always (\<lambda>(r, _). failedWith ErrPeerUnavailable r) (waits timedOut (\<lambda>ctx. sg_Send S ctx a ?sig s))"
      by (simp add: always_def waits_def failedWith_def)
  qed
  then show "testUnavailablePeer rnd cfg S st" by (simp add: testUnavailablePeer_def)
qed

end

subsection \<open>The concurrent tests\<close>

lemma mset_concat_update:
  "w < length xs \<Longrightarrow> xs ! w = y # ys \<Longrightarrow> mset (concat xs) = add_mset y (mset (concat (xs[w := ys])))"
proof (induction xs arbitrary: w)
  case (Cons z zs)
  then show ?case by (cases w) auto
qed simp

lemma length_concat_update:
  "w < length xs \<Longrightarrow> xs ! w = y # ys \<Longrightarrow> length (concat xs) = Suc (length (concat (xs[w := ys])))"
  using mset_concat_update [of w xs y ys] by (metis size_add_mset size_mset)

context queue_transport
begin

definition race_ids :: "nat \<Rightarrow> 's race \<Rightarrow> string list" where
  "race_ids b x = rc_seen x @ map sig_ID (inbox (rc_st x) b) @ map sig_ID (concat (rc_todo x))"

definition race_ok :: "nat \<Rightarrow> nat \<Rightarrow> string list \<Rightarrow> 's race \<Rightarrow> bool" where
  "race_ok a b ids x \<longleftrightarrow> ok (rc_st x) \<and> live (rc_st x) ''alice'' = Some a \<and> live (rc_st x) ''bob'' = Some b \<and>
     (\<forall>todo \<in> set (rc_todo x). \<forall>sig \<in> set todo. sig_From sig = ''alice'' \<and> sig_To sig = ''bob'') \<and>
     mset (race_ids b x) = mset ids \<and> \<not> rc_failed x \<and> (\<not> rc_reading x \<longrightarrow> length ids \<le> length (rc_seen x))"

definition race_left :: "nat \<Rightarrow> 's race \<Rightarrow> nat" where
  "race_left b x = 2 * length (concat (rc_todo x)) + length (inbox (rc_st x) b) + (if rc_reading x then 1 else 0)"

text \<open>What a send and a receive do in a state of the race.\<close>

lemma race_send:
  assumes r: "race_ok a b ids x" and w: "w < length (rc_todo x)" "rc_todo x ! w = sig # rest"
  shows "if length (inbox (rc_st x) b) < cap
    then \<exists>st'. sg_Send S None a sig (rc_st x) = [(None, st')] \<and> ok st' \<and> live st' = live (rc_st x) \<and>
      inbox st' = (inbox (rc_st x))(b := inbox (rc_st x) b @ [sig])
    else sg_Send S None a sig (rc_st x) = []"
proof -
  have "sig # rest \<in> set (rc_todo x)" using w by (metis nth_mem)
  then have "sig_From sig = ''alice''" "sig_To sig = ''bob''" using r by (auto simp: race_ok_def)
  then show ?thesis using r send_room [of "rc_st x" sig a b] send_full [of "rc_st x" sig a b] by (auto simp: race_ok_def)
qed

lemma race_receive:
  assumes "race_ok a b ids x"
  shows "case inbox (rc_st x) b of
      [] \<Rightarrow> sg_Receive S None b (rc_st x) = []
    | sig # rest \<Rightarrow> \<exists>st'. sg_Receive S None b (rc_st x) = [(Inr sig, st')] \<and> ok st' \<and> live st' = live (rc_st x) \<and>
        inbox st' = (inbox (rc_st x))(b := rest)"
  using assms receive_some [of "rc_st x" "''bob''" b] receive_none [of "rc_st x" "''bob''" b]
  by (auto simp: race_ok_def split: list.splits)

lemma race_step_ok:
  assumes d: "distinct ids" and s: "race_step S a b (length ids) x x'" and r: "race_ok a b ids x"
  shows "race_ok a b ids x' \<and> race_left b x' < race_left b x"
  using s
proof (cases rule: race_step.cases)
  case (rs_send w sig rest st')
  then have st': "ok st'" "live st' = live (rc_st x)" "inbox st' = (inbox (rc_st x))(b := inbox (rc_st x) b @ [sig])"
    using race_send [OF r rs_send(2,3)] by (auto split: if_splits)
  have m: "mset (concat (rc_todo x)) = add_mset sig (mset (concat ((rc_todo x)[w := rest])))"
    by (rule mset_concat_update [OF rs_send(2,3)])
  have t: "set ((rc_todo x)[w := rest]) \<subseteq> insert rest (set (rc_todo x))" by (rule set_update_subset_insert)
  have "sig # rest \<in> set (rc_todo x)" using rs_send(2,3) by (metis nth_mem)
  then have "\<forall>todo \<in> insert rest (set (rc_todo x)). \<forall>g \<in> set todo. sig_From g = ''alice'' \<and> sig_To g = ''bob''"
    using r by (auto simp: race_ok_def)
  then have f: "\<forall>todo \<in> set ((rc_todo x)[w := rest]). \<forall>g \<in> set todo. sig_From g = ''alice'' \<and> sig_To g = ''bob''"
    using t by blast
  have "image_mset sig_ID (mset (concat (rc_todo x))) =
      add_mset (sig_ID sig) (image_mset sig_ID (mset (concat ((rc_todo x)[w := rest]))))" by (simp add: m)
  then have "mset (race_ids b x') = mset (race_ids b x)" by (simp add: race_ids_def rs_send(1) st'(3))
  then show ?thesis using r f st' length_concat_update [OF rs_send(2,3)]
    by (simp add: race_ok_def race_left_def rs_send(1))
next
  case (rs_sendFailed w sig rest e st')
  then show ?thesis using race_send [OF r rs_sendFailed(2,3)] by (auto split: if_splits)
next
  case (rs_receive sig st')
  obtain rest where i: "inbox (rc_st x) b = sig # rest" and st': "ok st'" "live st' = live (rc_st x)"
      "inbox st' = (inbox (rc_st x))(b := rest)"
    using race_receive [OF r] rs_receive(4) by (auto split: list.splits)
  have "distinct (race_ids b x)" using d r by (metis mset_eq_imp_distinct_iff race_ok_def)
  then have "sig_ID sig \<notin> set (rc_seen x)" by (simp add: race_ids_def i)
  then show ?thesis using r i st'
    by (simp add: race_ok_def race_left_def race_ids_def rs_receive(1,2) List.insert_def)
next
  case (rs_receiveFailed e st')
  then show ?thesis using race_receive [OF r] by (auto split: list.splits)
next
  case rs_enough
  then show ?thesis using r by (simp add: race_ok_def race_left_def race_ids_def)
qed

text \<open>Nothing is left undone when nothing can move.\<close>

lemma race_rest:
  assumes r: "race_ok a b ids x" and n: "\<nexists>x'. race_step S a b (length ids) x x'"
  shows "racePassed ids x"
proof -
  have l: "length (race_ids b x) = length ids" using r by (metis race_ok_def size_mset)
  have reads: "length ids \<le> length (rc_seen x)"
  proof (rule ccontr)
    assume c: "\<not> length ids \<le> length (rc_seen x)"
    then have rd: "rc_reading x" using r by (auto simp: race_ok_def)
    have i: "inbox (rc_st x) b = []"
    proof (cases "inbox (rc_st x) b")
      case (Cons sig rest)
      then obtain st' where "(Inr sig, st') \<in> set (sg_Receive S None b (rc_st x))" using race_receive [OF r] by auto
      then show ?thesis using race_step.rs_receive [OF rd] c n by (meson not_le)
    qed
    then have "length (rc_seen x) + length (concat (rc_todo x)) = length ids" using l by (simp add: race_ids_def)
    then have "concat (rc_todo x) \<noteq> []" using c by (metis add_0_right list.size(3) order_refl)
    then obtain todo where "todo \<in> set (rc_todo x)" "todo \<noteq> []" by auto
    then obtain w sig rest where w: "w < length (rc_todo x)" "rc_todo x ! w = sig # rest"
      by (metis in_set_conv_nth list.exhaust)
    then obtain st' where "(None, st') \<in> set (sg_Send S None a sig (rc_st x))"
      using race_send [OF r w] room i by auto
    then show False using race_step.rs_send [OF w] n by blast
  qed
  have "\<not> rc_reading x" using race_step.rs_enough [of x] reads n by (meson not_le)
  moreover have e: "inbox (rc_st x) b = []" "concat (rc_todo x) = []" "length (rc_seen x) = length ids"
  proof -
    have "length (rc_seen x) + (length (inbox (rc_st x) b) + length (concat (rc_todo x))) = length ids"
      using l by (simp add: race_ids_def)
    then have "length (inbox (rc_st x) b) = 0" "length (concat (rc_todo x)) = 0" "length (rc_seen x) = length ids"
      using reads by linarith+
    then show "inbox (rc_st x) b = []" "concat (rc_todo x) = []" "length (rc_seen x) = length ids"
      by (metis length_0_conv)+
  qed
  moreover have "mset ids = mset (rc_seen x)" using r e(1,2) by (simp add: race_ok_def race_ids_def)
  then have "set ids = set (rc_seen x)" by (metis set_mset_mset)
  ultimately show ?thesis using r by (simp add: racePassed_def race_ok_def)
qed

text \<open>Every run of a concurrent test ends after at most two steps per signal and one more, and it ends with the
  test passed.\<close>

lemma race_runs:
  assumes "distinct ids" "(race_step S a b (length ids) ^^ n) x y" "race_ok a b ids x"
  shows "race_ok a b ids y \<and> n + race_left b y \<le> race_left b x"
  using assms(2)
proof (induction n arbitrary: y)
  case (Suc n)
  then obtain z where "(race_step S a b (length ids) ^^ n) x z" and z: "race_step S a b (length ids) z y" by auto
  then have "race_ok a b ids z" "n + race_left b z \<le> race_left b x" using Suc.IH by blast+
  then show ?case using race_step_ok [OF assms(1) z] by auto
qed (use assms(3) in simp)

lemma race_start_ok:
  assumes "ok st" "live st ''alice'' = Some a" "live st ''bob'' = Some b" "inbox st b = []"
    "\<forall>sig \<in> set (concat todo). sig_From sig = ''alice'' \<and> sig_To sig = ''bob''"
  shows "race_ok a b (map sig_ID (concat todo)) (race_start todo st)"
  using assms by (simp add: race_ok_def race_start_def race_ids_def)

lemma race_passes:
  assumes "ok st" "\<forall>i. live st i = None" "distinct (map sig_ID (concat todo))"
    "\<forall>sig \<in> set (concat todo). sig_From sig = ''alice'' \<and> sig_To sig = ''bob''"
  shows "raceTest todo S st"
  unfolding raceTest_def Let_def
proof (rule open_pair [OF assms(1,2)], intro exI allI impI)
  fix a b s n y
  let ?ids = "map sig_ID (concat todo)"
  assume s: "ok s" "live s ''alice'' = Some a" "live s ''bob'' = Some b" "inbox s b = []"
    and y: "(race_step S a b (length (concat todo)) ^^ n) (race_start todo s) y"
  have i: "race_ok a b ?ids (race_start todo s)" by (rule race_start_ok [OF s assms(4)])
  have r: "race_ok a b ?ids y" "n + race_left b y \<le> race_left b (race_start todo s)"
    using race_runs [OF assms(3) _ i, of n y] y by simp_all
  have "race_left b (race_start todo s) = 2 * length (concat todo) + 1" using s(4) by (simp add: race_left_def race_start_def)
  then show "n \<le> 2 * length (concat todo) + 1 \<and> \<not> rc_failed y \<and>
    ((\<nexists>z. race_step S a b (length (concat todo)) y z) \<longrightarrow> racePassed ?ids y)"
    using r race_rest [OF r(1)] by (auto simp: race_ok_def)
qed

end

text \<open>The signals of both tests have distinct identifiers when the random source does not repeat itself.\<close>

lemma NewID_inj: "length u = length v \<Longrightarrow> NewID u = NewID v \<Longrightarrow> u = v"
proof (induction u v rule: list_induct2)
  case (Cons x xs y ys)
  have h: "hex_char d = hex_char e \<Longrightarrow> d = e" if "d < 16" "e < 16" for d e
    using that hex_val_char [of d] hex_val_char [of e] by (metis option.inject)
  have "unat x < 2 ^ LENGTH(8)" "unat y < 2 ^ LENGTH(8)" by (rule unsigned_less)+
  then have "unat x div 16 = unat y div 16" "unat x mod 16 = unat y mod 16"
    using Cons.prems by (auto simp: NewID_def hex2_def intro!: h)
  then have "unat x = unat y" by (metis div_mult_mod_eq)
  then show ?case using Cons by (simp add: NewID_def hex2_def word_unat_eq_iff)
qed simp

lemma raceTodo_concat: "concat (raceTodo rnd senders each) = map (raceSignal rnd) [0..<senders * each]"
proof (induction senders)
  case (Suc n)
  have "map (\<lambda>i. raceSignal rnd (n * each + i)) [0..<each] = map (raceSignal rnd) [n * each..<n * each + each]"
    by (rule nth_equalityI) simp_all
  moreover have "[0..<Suc n * each] = [0..<n * each] @ [n * each..<n * each + each]"
    using upt_add_eq_append [of 0 "n * each" each] by (simp add: add.commute)
  ultimately show ?case using Suc by (simp add: raceTodo_def del: upt_Suc mult_Suc) (simp add: raceTodo_def)
qed (simp add: raceTodo_def)

lemma raceTodo_distinct:
  assumes "inj_on rnd {..<2 * senders * each}" "\<forall>k. length (rnd k) = 16"
  shows "distinct (map sig_ID (concat (raceTodo rnd senders each)))"
proof -
  have "i = j" if "NewID (rnd (2 * i)) = NewID (rnd (2 * j))" "i < senders * each" "j < senders * each" for i j
    using that assms(2) NewID_inj [of "rnd (2 * i)" "rnd (2 * j)"] inj_onD [OF assms(1), of "2 * i" "2 * j"]
    by (simp add: mult.assoc)
  then have "inj_on (sig_ID \<circ> raceSignal rnd) (set [0..<senders * each])"
    by (auto simp: inj_on_def raceSignal_def confSignal_def)
  then show ?thesis unfolding raceTodo_concat map_map by (simp add: distinct_map)
qed

lemma raceTodo_alice:
  "sig \<in> set (concat (raceTodo rnd senders each)) \<Longrightarrow> sig_From sig = ''alice'' \<and> sig_To sig = ''bob''"
  unfolding raceTodo_concat by (auto simp: raceSignal_def confSignal_def)

context queue_transport
begin

text \<open>The whole suite.\<close>

lemma suite_passes:
  assumes "ok st" "\<forall>i. live st i = None" "\<forall>k. length (rnd k) = 16" "num ''0'' \<noteq> None"
    "cf_MaxPayload cfg \<le> 0 \<or> 60 \<le> cf_MaxPayload cfg" "inj_on rnd {..<400}"
  shows "confRun num rnd cfg S st"
proof -
  have "raceTest (raceTodo rnd k m) S st" if "k * m = 200" for k m
    using raceTodo_distinct [of rnd k m] raceTodo_alice [of _ rnd k m] assms(3,6) that
    by (intro race_passes [OF assms(1,2)]) (simp_all add: mult.assoc)
  then have "testNoLoss rnd S st" "testConcurrentSenders rnd S st"
    by (simp_all add: testNoLoss_def testConcurrentSenders_def noLossTodo_def concurrentTodo_def)
  then show ?thesis using fresh_tests [of st rnd num, OF assms(1-4)] isolation [OF assms(1,2)] context_tests [OF assms(1,2)]
    close_tests [OF assms(1,2)] useAfterClose [OF assms(1,2)] optional_tests [OF assms(1,2)] assms(5)
    by (auto simp: confRun_def MaxSDPSize_def intro!: largePayload [OF assms(1,2)])
qed

end

end
