(* ===== verification/Memory.thy ===== *)
theory Memory
  imports Signal Queue
begin

text \<open>
  The in-process signaling hub (\<^verbatim>\<open>signaling/memory/memory.go\<close>). Connections are objects:
  \<open>h_conns\<close> is the store, \<open>h_next\<close> the next free number, and the table \<open>h_peers\<close> holds numbers, so
  the pointer comparison of \<open>unregister\<close> compares numbers. A send that has passed its checks delivers one
  signal at a time and may block between two of them: \<open>h_sends\<close> holds the sends that are under way.
  \<open>h_put\<close> and \<open>h_got\<close> are the history of every inbox, what went in and what was received; no operation
  reads them. A fault injector carries the state its closure keeps.
\<close>

subsection \<open>Fault injectors\<close>

datatype fault =
    FaultFunc "Signal \<Rightarrow> Signal list"
  | DuplicateAll
  | DropKind "string list"
  | DropFirst string int
  | SwapAdjacent string "Signal option"

fun Apply :: "fault \<Rightarrow> Signal \<Rightarrow> Signal list \<times> fault" where
  "Apply (FaultFunc f) sig = (f sig, FaultFunc f)"
| "Apply DuplicateAll sig = ([sig, sig], DuplicateAll)"
| "Apply (DropKind kinds) sig = (if sig_Kind sig \<in> set kinds then [] else [sig], DropKind kinds)"
| "Apply (DropFirst kind remaining) sig =
     (if sig_Kind sig \<noteq> kind then ([sig], DropFirst kind remaining)
      else if remaining > 0 then ([], DropFirst kind (remaining - 1))
      else ([sig], DropFirst kind remaining))"
| "Apply (SwapAdjacent kind held) sig =
     (if sig_Kind sig \<noteq> kind then ([sig], SwapAdjacent kind held)
      else case held of
        None \<Rightarrow> ([], SwapAdjacent kind (Some sig))
      | Some h \<Rightarrow> ([sig, h], SwapAdjacent kind None))"

subsection \<open>State\<close>

definition DefaultQueueSize :: int where "DefaultQueueSize = 64"

record mconn =
  mc_local :: PeerID
  mc_inbox :: "Signal list"
  mc_cap :: nat
  mc_closed :: bool

record hub =
  h_queueSize :: int
  h_fault :: "fault option"
  h_peers :: "(PeerID \<times> nat) list"
  h_conns :: "nat \<Rightarrow> mconn"
  h_next :: nat
  h_sends :: "(nat \<times> nat \<times> Signal list) list"
  h_put :: "nat \<Rightarrow> Signal list"
  h_got :: "nat \<Rightarrow> Signal list"

datatype hubOption = WithQueueSize int | WithFault fault

fun applyOption :: "hubOption \<Rightarrow> hub \<Rightarrow> hub" where
  "applyOption (WithQueueSize n) h = (if n > 0 then h\<lparr>h_queueSize := n\<rparr> else h)"
| "applyOption (WithFault f) h = h\<lparr>h_fault := Some f\<rparr>"

definition NewHub :: "hubOption list \<Rightarrow> hub" where
  "NewHub opts = foldl (\<lambda>h opt. applyOption opt h)
     \<lparr> h_queueSize = DefaultQueueSize, h_fault = None, h_peers = [],
       h_conns = (\<lambda>_. \<lparr> mc_local = [], mc_inbox = [], mc_cap = 0, mc_closed = False \<rparr>), h_next = 0,
       h_sends = [], h_put = (\<lambda>_. []), h_got = (\<lambda>_. []) \<rparr> opts"

definition setConn :: "nat \<Rightarrow> mconn \<Rightarrow> hub \<Rightarrow> hub" where
  "setConn r c h = h\<lparr>h_conns := (h_conns h)(r := c)\<rparr>"

subsection \<open>Operations of the hub\<close>

definition Open :: "gerror option \<Rightarrow> PeerID \<Rightarrow> hub \<Rightarrow> (gerror + nat) \<times> hub" where
  "Open ctxErr local h =
     (if local = [] then (Inl (Plain ''memory: a local peer ID is required''), h)
      else case ctxErr of
        Some e \<Rightarrow> (Inl e, h)
      | None \<Rightarrow>
          if map_of (h_peers h) local \<noteq> None then (Inl (Wrap (Sentinel ErrDuplicatePeer)), h)
          else
            let r = h_next h;
                c = \<lparr> mc_local = local, mc_inbox = [], mc_cap = nat (h_queueSize h), mc_closed = False \<rparr>
            in (Inr r, setConn r c (h\<lparr>h_peers := (local, r) # h_peers h, h_next := r + 1\<rparr>)))"

definition hubLookup :: "PeerID \<Rightarrow> hub \<Rightarrow> nat option" where
  "hubLookup i h = map_of (h_peers h) i"

definition unregister :: "nat \<Rightarrow> hub \<Rightarrow> hub" where
  "unregister r h =
     (let i = mc_local (h_conns h r) in
      if map_of (h_peers h) i = Some r then h\<lparr>h_peers := filter (\<lambda>x. fst x \<noteq> i) (h_peers h)\<rparr> else h)"

definition Registered :: "hub \<Rightarrow> PeerID list" where
  "Registered h = map fst (h_peers h)"

text \<open>\<open>Close\<close>: the channel is closed first, then the table entry goes.\<close>

definition closeMark :: "nat \<Rightarrow> hub \<Rightarrow> hub" where
  "closeMark r h = setConn r ((h_conns h r)\<lparr>mc_closed := True\<rparr>) h"

definition mc_Close :: "nat \<Rightarrow> hub \<Rightarrow> hub" where
  "mc_Close r h = (if mc_closed (h_conns h r) then h else unregister r (closeMark r h))"

definition Disconnect :: "PeerID \<Rightarrow> hub \<Rightarrow> bool \<times> hub" where
  "Disconnect i h = (case map_of (h_peers h) i of None \<Rightarrow> (False, h) | Some r \<Rightarrow> (True, mc_Close r h))"

subsection \<open>Sending and receiving\<close>

text \<open>\<open>Send\<close> up to its loop: the error, or the destination with the signals to deliver.\<close>

definition sendBegin :: "nat \<Rightarrow> Signal \<Rightarrow> hub \<Rightarrow> (gerror + unit) \<times> hub" where
  "sendBegin r msg h =
     (let c = h_conns h r in
      if mc_closed c then (Inl (Sentinel ErrClosed), h)
      else if sig_From msg \<noteq> mc_local c then (Inl (Wrap (Sentinel ErrProtocol)), h)
      else case hubLookup (sig_To msg) h of
        None \<Rightarrow> (Inl (Wrap (Sentinel ErrPeerUnavailable)), h)
      | Some dst \<Rightarrow>
          (case h_fault h of
             None \<Rightarrow> (Inr (), h\<lparr>h_sends := h_sends h @ [(r, dst, [msg])]\<rparr>)
           | Some f \<Rightarrow>
               (case Apply f msg of (sigs, f') \<Rightarrow>
                  (Inr (), h\<lparr>h_fault := Some f', h_sends := h_sends h @ [(r, dst, sigs)]\<rparr>))))"

text \<open>The inbox: a channel of capacity \<open>mc_cap\<close>.\<close>

definition inboxPut :: "Signal \<Rightarrow> mconn \<Rightarrow> bool \<times> mconn" where
  "inboxPut sig c =
     (if length (mc_inbox c) < mc_cap c then (True, c\<lparr>mc_inbox := mc_inbox c @ [sig]\<rparr>) else (False, c))"

definition inboxTake :: "mconn \<Rightarrow> Signal list \<times> mconn" where
  "inboxTake c = (case mc_inbox c of [] \<Rightarrow> ([], c) | sig # rest \<Rightarrow> ([sig], c\<lparr>mc_inbox := rest\<rparr>))"

text \<open>One turn of the loop of the send with number \<open>k\<close>: the ways it can go on, with the result of \<open>Send\<close> when
  it is over. No way means that the send blocks.\<close>

definition dropSend :: "nat \<Rightarrow> hub \<Rightarrow> hub" where
  "dropSend k h = h\<lparr>h_sends := take k (h_sends h) @ drop (Suc k) (h_sends h)\<rparr>"

definition sendTurn :: "gerror option \<Rightarrow> nat \<Rightarrow> hub \<Rightarrow> (gerror option option \<times> hub) list" where
  "sendTurn ctxErr k h =
     (case h_sends h ! k of
        (r, dst, []) \<Rightarrow> [(Some None, dropSend k h)]
      | (r, dst, sig # rest) \<Rightarrow>
          (case inboxPut sig (h_conns h dst) of
             (True, c) \<Rightarrow>
               [(None, (setConn dst c h)\<lparr>h_sends := (h_sends h)[k := (r, dst, rest)],
                  h_put := (h_put h)(dst := h_put h dst @ [sig])\<rparr>)]
           | (False, _) \<Rightarrow> [])
          @ (if mc_closed (h_conns h dst)
             then [(Some (Some (Wrap (Sentinel ErrPeerUnavailable))), dropSend k h)] else [])
          @ (if mc_closed (h_conns h r) then [(Some (Some (Sentinel ErrClosed)), dropSend k h)] else [])
          @ (case ctxErr of None \<Rightarrow> [] | Some e \<Rightarrow> [(Some (Some e), dropSend k h)]))"

definition mc_Receive :: "gerror option \<Rightarrow> nat \<Rightarrow> hub \<Rightarrow> ((gerror + Signal) \<times> hub) list" where
  "mc_Receive ctxErr r h =
     (case inboxTake (h_conns h r) of
        ([sig], c) \<Rightarrow> [(Inr sig, (setConn r c h)\<lparr>h_got := (h_got h)(r := h_got h r @ [sig])\<rparr>)]
      | _ \<Rightarrow> [])
     @ (if mc_closed (h_conns h r) then [(Inl (Sentinel ErrClosed), h)] else [])
     @ (case ctxErr of None \<Rightarrow> [] | Some e \<Rightarrow> [(Inl e, h)])"

interpretation inbox: bounded_fifo mc_inbox inboxPut inboxTake mc_cap
  by unfold_locales (auto simp: inboxPut_def inboxTake_def split: if_splits list.splits)

subsection \<open>Interleaving\<close>

inductive hub_step :: "hub \<Rightarrow> hub \<Rightarrow> bool" where
  hs_open: "hub_step h (snd (Open ctxErr local h))"
| hs_mark: "r < h_next h \<Longrightarrow> hub_step h (closeMark r h)"
| hs_unregister: "r < h_next h \<Longrightarrow> mc_closed (h_conns h r) \<Longrightarrow> hub_step h (unregister r h)"
| hs_send: "r < h_next h \<Longrightarrow> hub_step h (snd (sendBegin r msg h))"
| hs_turn: "k < length (h_sends h) \<Longrightarrow> (x, h') \<in> set (sendTurn ctxErr k h) \<Longrightarrow> hub_step h h'"
| hs_receive: "r < h_next h \<Longrightarrow> (x, h') \<in> set (mc_Receive ctxErr r h) \<Longrightarrow> hub_step h h'"

inductive hub_reach :: "hub \<Rightarrow> bool" where
  hr_new: "hub_reach (NewHub opts)"
| hr_step: "hub_reach h \<Longrightarrow> hub_step h h' \<Longrightarrow> hub_reach h'"

subsection \<open>Invariant\<close>

definition hub_table :: "hub \<Rightarrow> bool" where
  "hub_table h \<longleftrightarrow> (\<forall>i r. map_of (h_peers h) i = Some r \<longrightarrow> r < h_next h \<and> mc_local (h_conns h r) = i) \<and>
     (\<forall>r < h_next h. \<not> mc_closed (h_conns h r) \<longrightarrow> map_of (h_peers h) (mc_local (h_conns h r)) = Some r)"

definition hub_fifo :: "hub \<Rightarrow> bool" where
  "hub_fifo h \<longleftrightarrow> (\<forall>r. h_put h r = h_got h r @ mc_inbox (h_conns h r) \<and>
     length (mc_inbox (h_conns h r)) \<le> mc_cap (h_conns h r)) \<and> (\<forall>r \<ge> h_next h. h_put h r = [] \<and> h_got h r = [])"

text \<open>The injectors that deliver nothing but copies of the signal at hand.\<close>

fun copying :: "fault \<Rightarrow> bool" where
  "copying DuplicateAll = True"
| "copying (DropKind _) = True"
| "copying (DropFirst _ _) = True"
| "copying _ = False"

definition routed :: "hub \<Rightarrow> nat \<Rightarrow> Signal \<Rightarrow> bool" where
  "routed h dst sig \<longleftrightarrow> sig_To sig = mc_local (h_conns h dst) \<and> (\<exists>r < h_next h. mc_local (h_conns h r) = sig_From sig)"

definition routed_all :: "hub \<Rightarrow> bool" where
  "routed_all h \<longleftrightarrow>
     (\<forall>(r, dst, sigs) \<in> set (h_sends h). dst < h_next h \<and> (\<forall>sig \<in> set sigs. routed h dst sig)) \<and>
     (\<forall>dst. \<forall>sig \<in> set (h_put h dst). dst < h_next h \<and> routed h dst sig)"

definition hub_routed :: "hub \<Rightarrow> bool" where
  "hub_routed h \<longleftrightarrow> ((\<forall>f. h_fault h = Some f \<longrightarrow> copying f) \<longrightarrow> routed_all h)"

lemma hub_tableD:
  assumes "hub_table h"
  shows "map_of (h_peers h) i = Some r \<Longrightarrow> r < h_next h \<and> mc_local (h_conns h r) = i"
    "r < h_next h \<Longrightarrow> \<not> mc_closed (h_conns h r) \<Longrightarrow> map_of (h_peers h) (mc_local (h_conns h r)) = Some r"
  using assms unfolding hub_table_def by blast+

lemma hub_tableI:
  assumes "\<And>i r. map_of (h_peers h) i = Some r \<Longrightarrow> r < h_next h \<and> mc_local (h_conns h r) = i"
    "\<And>r. r < h_next h \<Longrightarrow> \<not> mc_closed (h_conns h r) \<Longrightarrow> map_of (h_peers h) (mc_local (h_conns h r)) = Some r"
  shows "hub_table h"
  using assms unfolding hub_table_def by blast

lemma hub_table_cong:
  assumes "hub_table h" "h_peers h' = h_peers h" "h_next h' = h_next h"
    "\<And>r. mc_local (h_conns h' r) = mc_local (h_conns h r)" "\<And>r. mc_closed (h_conns h r) \<Longrightarrow> mc_closed (h_conns h' r)"
  shows "hub_table h'"
  using assms(1) unfolding hub_table_def assms(2,3,4) using assms(5) by blast

lemma hub_fifo_cong:
  assumes "hub_fifo h" "h_put h' = h_put h" "h_got h' = h_got h" "h_next h \<le> h_next h'"
    "\<And>r. mc_inbox (h_conns h' r) = mc_inbox (h_conns h r)" "\<And>r. mc_cap (h_conns h' r) = mc_cap (h_conns h r)"
  shows "hub_fifo h'"
  using assms(1) unfolding hub_fifo_def assms(2,3,5,6) using assms(4) le_trans by blast

lemma setConn_fields [simp]:
  "h_peers (setConn r c h) = h_peers h" "h_conns (setConn r c h) = (h_conns h)(r := c)" "h_next (setConn r c h) = h_next h"
  "h_sends (setConn r c h) = h_sends h" "h_put (setConn r c h) = h_put h" "h_got (setConn r c h) = h_got h"
  "h_fault (setConn r c h) = h_fault h"
  by (simp_all add: setConn_def)

lemma routed_mono:
  "routed h dst sig \<Longrightarrow> dst < h_next h \<Longrightarrow> h_next h \<le> h_next h' \<Longrightarrow>
     \<forall>r < h_next h. mc_local (h_conns h' r) = mc_local (h_conns h r) \<Longrightarrow> routed h' dst sig"
  unfolding routed_def by (metis order_less_le_trans)

lemma routed_all_mono:
  assumes r: "routed_all h" and h: "set (h_sends h') \<subseteq> set (h_sends h)" "h_put h' = h_put h" "h_next h \<le> h_next h'"
    and l: "\<forall>r < h_next h. mc_local (h_conns h' r) = mc_local (h_conns h r)"
  shows "routed_all h'"
proof -
  have m: "routed h' dst sig \<and> dst < h_next h'" if "routed h dst sig" "dst < h_next h" for dst sig
    using routed_mono [OF that h(3) l] that(2) h(3) by simp
  show ?thesis unfolding routed_all_def h(2)
  proof (intro conjI ballI allI)
    fix s assume "s \<in> set (h_sends h')"
    then have s: "s \<in> set (h_sends h)" using h(1) by blast
    obtain q dst sigs where e: "s = (q, dst, sigs)" by (cases s)
    have "dst < h_next h \<and> (\<forall>sig \<in> set sigs. routed h dst sig)"
      using bspec [OF conjunct1 [OF r [unfolded routed_all_def]] s] by (simp add: e)
    then show "case s of (r, dst, sigs) \<Rightarrow> dst < h_next h' \<and> (\<forall>sig \<in> set sigs. routed h' dst sig)"
      using m h(3) by (simp add: e)
  next
    fix dst sig assume "sig \<in> set (h_put h dst)"
    then have "dst < h_next h \<and> routed h dst sig" using r by (simp add: routed_all_def)
    then show "dst < h_next h'" "routed h' dst sig" using m by blast+
  qed
qed

lemma Apply_copying:
  assumes "copying f" "Apply f sig = (sigs, f')"
  shows "set sigs \<subseteq> {sig}" "copying f'"
  using assms by (cases f; auto split: if_splits)+

lemma copying_back: "Apply f sig = (sigs, f') \<Longrightarrow> copying f' \<Longrightarrow> copying f"
  by (cases f) (auto split: if_splits option.splits)

definition sends_ok :: "hub \<Rightarrow> bool" where
  "sends_ok h \<longleftrightarrow> (\<forall>s \<in> set (h_sends h). fst (snd s) < h_next h)"

definition hub_inv :: "hub \<Rightarrow> bool" where
  "hub_inv h \<longleftrightarrow> hub_table h \<and> hub_fifo h \<and> hub_routed h \<and> sends_ok h"

lemma sends_ok_mono: "sends_ok h \<Longrightarrow> set (h_sends h') \<subseteq> set (h_sends h) \<Longrightarrow> h_next h \<le> h_next h' \<Longrightarrow> sends_ok h'"
  unfolding sends_ok_def by (meson order_less_le_trans subsetD)

text \<open>A step that keeps names and histories, and at most closes connections or drops sends, keeps everything.\<close>

lemma hub_inv_quiet:
  assumes "hub_inv h" "h_peers h' = h_peers h" "h_next h' = h_next h" "h_put h' = h_put h" "h_got h' = h_got h"
    "h_fault h' = h_fault h" "set (h_sends h') \<subseteq> set (h_sends h)"
    "\<And>r. mc_local (h_conns h' r) = mc_local (h_conns h r)" "\<And>r. mc_closed (h_conns h r) \<Longrightarrow> mc_closed (h_conns h' r)"
    "\<And>r. mc_inbox (h_conns h' r) = mc_inbox (h_conns h r)" "\<And>r. mc_cap (h_conns h' r) = mc_cap (h_conns h r)"
  shows "hub_inv h'"
proof -
  have h: "hub_table h" "hub_fifo h" "hub_routed h" "sends_ok h" using assms(1) by (simp_all add: hub_inv_def)
  have "hub_table h'" using hub_table_cong [OF h(1) assms(2,3,8,9)] .
  moreover have "hub_fifo h'" using hub_fifo_cong [OF h(2) assms(4,5) _ assms(10,11)] assms(3) by simp
  moreover have "sends_ok h'" using sends_ok_mono [OF h(4) assms(7)] assms(3) by simp
  moreover have "hub_routed h'" using h(3) routed_all_mono [of h h', OF _ assms(7,4)] assms(3,8)
    unfolding hub_routed_def assms(6) by simp
  ultimately show ?thesis by (simp add: hub_inv_def)
qed

lemma NewHub_inv: "hub_inv (NewHub opts)"
proof -
  have *: "h_peers (foldl (\<lambda>h opt. applyOption opt h) h0 opts) = h_peers h0 \<and>
      h_conns (foldl (\<lambda>h opt. applyOption opt h) h0 opts) = h_conns h0 \<and>
      h_next (foldl (\<lambda>h opt. applyOption opt h) h0 opts) = h_next h0 \<and>
      h_sends (foldl (\<lambda>h opt. applyOption opt h) h0 opts) = h_sends h0 \<and>
      h_put (foldl (\<lambda>h opt. applyOption opt h) h0 opts) = h_put h0 \<and>
      h_got (foldl (\<lambda>h opt. applyOption opt h) h0 opts) = h_got h0" for h0
  proof (induction opts arbitrary: h0)
    case (Cons x xs)
    then show ?case by (cases x) simp_all
  qed simp
  show ?thesis unfolding NewHub_def hub_inv_def hub_table_def hub_fifo_def hub_routed_def routed_all_def sends_ok_def by (simp add: *)
qed

lemma Open_inv: "hub_inv h \<Longrightarrow> hub_inv (snd (Open ctxErr local h))"
proof -
  assume i: "hub_inv h"
  let ?c = "\<lparr> mc_local = local, mc_inbox = [], mc_cap = nat (h_queueSize h), mc_closed = False \<rparr>"
  let ?h = "setConn (h_next h) ?c (h\<lparr>h_peers := (local, h_next h) # h_peers h, h_next := h_next h + 1\<rparr>)"
  have "hub_inv ?h" if n: "map_of (h_peers h) local = None"
  proof -
    have t: "hub_table h" using i by (simp add: hub_inv_def)
    have o: "map_of (h_peers h) j = Some r \<Longrightarrow> r < h_next h \<and> mc_local (h_conns h r) = j" for j r
      using t by (simp add: hub_table_def)
    have live: "map_of (h_peers h) (mc_local (h_conns h r)) = Some r" if "r < h_next h" "\<not> mc_closed (h_conns h r)" for r
      using t that by (simp add: hub_table_def)
    have "hub_table ?h" unfolding hub_table_def
    proof (intro conjI allI impI)
      fix j r assume a: "map_of (h_peers ?h) j = Some r"
      then show "r < h_next ?h" "mc_local (h_conns ?h r) = j" using o [of j r] by (auto split: if_splits)
    next
      fix r assume a: "r < h_next ?h" "\<not> mc_closed (h_conns ?h r)"
      show "map_of (h_peers ?h) (mc_local (h_conns ?h r)) = Some r"
      proof (cases "r = h_next h")
        case False
        then show ?thesis using live [of r] a n by auto
      qed simp
    qed
    moreover have "hub_fifo ?h" using i by (auto simp: hub_inv_def hub_fifo_def)
    moreover have "hub_routed ?h"
      using i routed_all_mono [of h ?h] by (simp add: hub_inv_def hub_routed_def)
    moreover have "sends_ok ?h" by (rule sends_ok_mono [of h]) (use i in \<open>simp_all add: hub_inv_def\<close>)
    ultimately show ?thesis by (simp add: hub_inv_def)
  qed
  then show ?thesis using i by (auto simp: Open_def Let_def split: option.splits)
qed

lemma closeMark_inv: "hub_inv h \<Longrightarrow> hub_inv (closeMark r h)"
  by (erule hub_inv_quiet) (simp_all add: closeMark_def)

lemma map_of_filter_key: "map_of (filter (\<lambda>x. fst x \<noteq> k) xs) j = (if j = k then None else map_of xs j)"
  by (induction xs) auto

lemma unregister_inv: "hub_inv h \<Longrightarrow> mc_closed (h_conns h r) \<Longrightarrow> hub_inv (unregister r h)"
proof -
  assume i: "hub_inv h" and c: "mc_closed (h_conns h r)"
  let ?i = "mc_local (h_conns h r)"
  show ?thesis
  proof (cases "map_of (h_peers h) ?i = Some r")
    case True
    let ?h = "h\<lparr>h_peers := filter (\<lambda>x. fst x \<noteq> ?i) (h_peers h)\<rparr>"
    have t: "hub_table h" using i by (simp add: hub_inv_def)
    have "hub_table ?h"
    proof (rule hub_tableI)
      fix j q assume "map_of (h_peers ?h) j = Some q"
      then have "map_of (h_peers h) j = Some q" by (simp add: map_of_filter_key split: if_splits)
      then show "q < h_next ?h \<and> mc_local (h_conns ?h q) = j" using hub_tableD(1) [OF t] by simp
    next
      fix q assume q: "q < h_next ?h" "\<not> mc_closed (h_conns ?h q)"
      then have m: "map_of (h_peers h) (mc_local (h_conns h q)) = Some q" using hub_tableD(2) [OF t] by simp
      have "mc_local (h_conns h q) \<noteq> ?i"
      proof
        assume "mc_local (h_conns h q) = ?i"
        with m True have "q = r" by (metis option.inject)
        then show False using c q(2) by simp
      qed
      then show "map_of (h_peers ?h) (mc_local (h_conns ?h q)) = Some q" using m by (simp add: map_of_filter_key)
    qed
    moreover have "hub_fifo ?h" by (rule hub_fifo_cong [of h]) (use i in \<open>simp_all add: hub_inv_def\<close>)
    moreover have "hub_routed ?h"
      using i routed_all_mono [of h ?h] by (simp add: hub_inv_def hub_routed_def)
    moreover have "sends_ok ?h" using i by (simp add: hub_inv_def sends_ok_def)
    ultimately show ?thesis using True by (simp add: unregister_def Let_def hub_inv_def)
  qed (use i in \<open>simp add: unregister_def Let_def\<close>)
qed

lemma sendBegin_inv: "hub_inv h \<Longrightarrow> r < h_next h \<Longrightarrow> hub_inv (snd (sendBegin r msg h))"
proof -
  assume i: "hub_inv h" and r: "r < h_next h"
  have "hub_inv (h\<lparr>h_fault := f', h_sends := h_sends h @ [(r, dst, sigs)]\<rparr>)"
    if l: "map_of (h_peers h) (sig_To msg) = Some dst" and fr: "sig_From msg = mc_local (h_conns h r)"
      and s: "(\<forall>f. f' = Some f \<longrightarrow> copying f) \<longrightarrow> (\<forall>f. h_fault h = Some f \<longrightarrow> copying f) \<and> set sigs \<subseteq> {msg}"
    for dst sigs f'
  proof -
    let ?h = "h\<lparr>h_fault := f', h_sends := h_sends h @ [(r, dst, sigs)]\<rparr>"
    have t: "hub_table h" using i by (simp add: hub_inv_def)
    have d: "dst < h_next h" "mc_local (h_conns h dst) = sig_To msg" using hub_tableD(1) [OF t l] by simp_all
    have rt: "routed ?h = routed h" by (simp add: routed_def fun_eq_iff)
    have "routed h dst msg" using d r fr by (auto simp: routed_def)
    moreover have "routed_all h" "set sigs \<subseteq> {msg}" if "\<forall>f. f' = Some f \<longrightarrow> copying f"
      using i s that unfolding hub_inv_def hub_routed_def by blast+
    ultimately have "hub_routed ?h" using d(1)
      unfolding hub_routed_def routed_all_def rt by (auto simp del: split_paired_All)
    moreover have "hub_table ?h" by (rule hub_table_cong [OF t]) simp_all
    moreover have "hub_fifo ?h" by (rule hub_fifo_cong [of h]) (use i in \<open>simp_all add: hub_inv_def\<close>)
    moreover have "sends_ok ?h" using i d(1) by (simp add: hub_inv_def sends_ok_def)
    ultimately show ?thesis by (simp add: hub_inv_def)
  qed
  note add = this
  show ?thesis
  proof (cases "mc_closed (h_conns h r) \<or> sig_From msg \<noteq> mc_local (h_conns h r) \<or> map_of (h_peers h) (sig_To msg) = None")
    case False
    then obtain dst where l: "map_of (h_peers h) (sig_To msg) = Some dst" and fr: "sig_From msg = mc_local (h_conns h r)"
      and c: "\<not> mc_closed (h_conns h r)" by auto
    show ?thesis
    proof (cases "h_fault h")
      case None
      have "hub_inv (h\<lparr>h_fault := None, h_sends := h_sends h @ [(r, dst, [msg])]\<rparr>)"
        by (rule add [OF l fr]) (simp add: None)
      moreover have "h\<lparr>h_fault := None\<rparr> = h" using None by (cases h) simp
      ultimately show ?thesis using None l fr c by (simp add: sendBegin_def hubLookup_def Let_def)
    next
      case (Some f)
      obtain sigs f' where a: "Apply f msg = (sigs, f')" by fastforce
      have "hub_inv (h\<lparr>h_fault := Some f', h_sends := h_sends h @ [(r, dst, sigs)]\<rparr>)"
        by (rule add [OF l fr]) (use copying_back [OF a] Apply_copying [OF _ a] in \<open>simp add: Some\<close>)
      then show ?thesis using Some a l fr c by (simp add: sendBegin_def hubLookup_def Let_def)
    qed
  qed (use i in \<open>auto simp: sendBegin_def hubLookup_def Let_def\<close>)
qed

lemma dropSend_inv: "hub_inv h \<Longrightarrow> hub_inv (dropSend k h)"
  by (erule hub_inv_quiet) (auto simp: dropSend_def dest: in_set_takeD in_set_dropD)

text \<open>One signal enters an inbox.\<close>

lemma put_inv:
  assumes i: "hub_inv h" and k: "k < length (h_sends h)" "h_sends h ! k = (r, dst, sig # rest)"
    and p: "inboxPut sig (h_conns h dst) = (True, c)"
  shows "hub_inv ((setConn dst c h)\<lparr>h_sends := (h_sends h)[k := (r, dst, rest)],
    h_put := (h_put h)(dst := h_put h dst @ [sig])\<rparr>)" (is "hub_inv ?h")
proof -
  have h: "hub_table h" "hub_fifo h" "hub_routed h" "sends_ok h" using i by (simp_all add: hub_inv_def)
  have c: "mc_inbox c = mc_inbox (h_conns h dst) @ [sig]" "length (mc_inbox c) \<le> mc_cap c"
    "mc_local c = mc_local (h_conns h dst)" "mc_closed c = mc_closed (h_conns h dst)"
    using p by (auto simp: inboxPut_def split: if_splits)
  have m: "(r, dst, sig # rest) \<in> set (h_sends h)" using k by (metis nth_mem)
  have d: "dst < h_next h" using h(4) m by (auto simp: sends_ok_def)
  have sub: "set ((h_sends h)[k := (r, dst, rest)]) \<subseteq> insert (r, dst, rest) (set (h_sends h))"
    by (rule set_update_subset_insert)
  have rt: "routed ?h = routed h" using c(3) by (simp add: routed_def fun_eq_iff) (metis c(3))
  have "hub_table ?h" by (rule hub_table_cong [OF h(1)]) (use c in auto)
  moreover have "hub_fifo ?h" using h(2) c(1,2) d unfolding hub_fifo_def by simp (metis Nil_is_append_conv)
  moreover have "sends_ok ?h" using h(4) d sub unfolding sends_ok_def by fastforce
  moreover have "routed_all ?h" if ra: "routed_all h"
  proof -
    have s: "\<forall>x \<in> set (sig # rest). routed h dst x" using ra m unfolding routed_all_def by fast
    have "\<forall>(r, e, sigs) \<in> insert (r, dst, rest) (set (h_sends h)). e < h_next h \<and> (\<forall>x \<in> set sigs. routed h e x)"
      using ra s d unfolding routed_all_def by simp
    then show ?thesis using ra s d sub unfolding routed_all_def rt by simp blast
  qed
  then have "hub_routed ?h" using h(3) by (simp add: hub_routed_def)
  ultimately show ?thesis by (simp add: hub_inv_def)
qed

text \<open>One signal leaves an inbox.\<close>

lemma take_inv:
  assumes i: "hub_inv h" and r: "r < h_next h" and t: "inboxTake (h_conns h r) = ([sig], c)"
  shows "hub_inv ((setConn r c h)\<lparr>h_got := (h_got h)(r := h_got h r @ [sig])\<rparr>)" (is "hub_inv ?h")
proof -
  have h: "hub_table h" "hub_fifo h" "hub_routed h" "sends_ok h" using i by (simp_all add: hub_inv_def)
  have c: "mc_inbox (h_conns h r) = sig # mc_inbox c" "mc_cap c = mc_cap (h_conns h r)"
    "mc_local c = mc_local (h_conns h r)" "mc_closed c = mc_closed (h_conns h r)"
    using t by (auto simp: inboxTake_def split: list.splits)
  have "hub_table ?h" by (rule hub_table_cong [OF h(1)]) (use c in auto)
  moreover have "hub_fifo ?h" unfolding hub_fifo_def
  proof (intro conjI allI impI)
    fix q
    have q: "h_put h q = h_got h q @ mc_inbox (h_conns h q)" "length (mc_inbox (h_conns h q)) \<le> mc_cap (h_conns h q)"
      using h(2) by (simp_all add: hub_fifo_def)
    show "h_put ?h q = h_got ?h q @ mc_inbox (h_conns ?h q)" "length (mc_inbox (h_conns ?h q)) \<le> mc_cap (h_conns ?h q)"
      using q c by (cases "q = r"; simp)+
  next
    fix q assume "h_next ?h \<le> q"
    then show "h_put ?h q = []" "h_got ?h q = []" using h(2) r by (auto simp: hub_fifo_def)
  qed
  moreover have "sends_ok ?h" using h(4) by (simp add: sends_ok_def)
  moreover have "hub_routed ?h"
    using h(3) routed_all_mono [of h ?h] c(3) by (simp add: hub_routed_def)
  ultimately show ?thesis by (simp add: hub_inv_def)
qed

lemma hub_step_inv: "hub_step h h' \<Longrightarrow> hub_inv h \<Longrightarrow> hub_inv h'"
proof (induction rule: hub_step.induct)
  case (hs_turn k h x h' ctxErr)
  show ?case
  proof (cases "h_sends h ! k")
    case (fields r dst sigs)
    show ?thesis
    proof (cases sigs)
      case Nil
      then show ?thesis using hs_turn fields dropSend_inv by (simp add: sendTurn_def)
    next
      case (Cons sig rest)
      obtain b c where p: "inboxPut sig (h_conns h dst) = (b, c)" by fastforce
      show ?thesis
        using hs_turn fields Cons p dropSend_inv [of h k] put_inv [of h k r dst sig rest c]
        by (cases b) (auto simp: sendTurn_def split: if_splits option.splits)
    qed
  qed
next
  case (hs_receive r h x h' ctxErr)
  show ?case
  proof (cases "mc_inbox (h_conns h r)")
    case Nil
    then show ?thesis using hs_receive by (auto simp: mc_Receive_def inboxTake_def split: if_splits option.splits)
  next
    case (Cons sig rest)
    then have t: "inboxTake (h_conns h r) = ([sig], (h_conns h r)\<lparr>mc_inbox := rest\<rparr>)" by (simp add: inboxTake_def)
    show ?thesis using hs_receive(2,3) take_inv [OF hs_receive(3,1) t]
      by (auto simp: mc_Receive_def t split: if_splits option.splits)
  qed
qed (simp_all add: Open_inv closeMark_inv unregister_inv sendBegin_inv)

lemma hub_reach_inv: "hub_reach h \<Longrightarrow> hub_inv h"
  by (induction rule: hub_reach.induct) (simp_all add: NewHub_inv hub_step_inv)

subsection \<open>Properties\<close>

text \<open>C31: The hub delivers in order, within its queue bound and to the right peer. Under every interleaving of
  opens, sends, receives and closes, what entered the inbox of a connection is what its owner has received
  followed by what is still queued, and the queue is within its capacity; two live connections never share a
  peer identifier; and, unless the fault injector forwards something else than copies, every signal in an inbox
  is addressed to the owner and carries the name of a connection that was opened on the hub as its sender.\<close>

theorem hub_delivers:
  assumes "hub_reach h"
  shows "h_put h r = h_got h r @ mc_inbox (h_conns h r) \<and> length (mc_inbox (h_conns h r)) \<le> mc_cap (h_conns h r) \<and>
    (r < h_next h \<and> q < h_next h \<and> \<not> mc_closed (h_conns h r) \<and> \<not> mc_closed (h_conns h q) \<and>
       mc_local (h_conns h r) = mc_local (h_conns h q) \<longrightarrow> r = q) \<and>
    ((\<forall>f. h_fault h = Some f \<longrightarrow> copying f) \<and> sig \<in> set (h_got h r) \<longrightarrow>
       sig_To sig = mc_local (h_conns h r) \<and> (\<exists>s < h_next h. mc_local (h_conns h s) = sig_From sig))"
proof -
  have i: "hub_table h" "hub_fifo h" "hub_routed h" using hub_reach_inv [OF assms] by (simp_all add: hub_inv_def)
  have f: "h_put h r = h_got h r @ mc_inbox (h_conns h r)" "length (mc_inbox (h_conns h r)) \<le> mc_cap (h_conns h r)"
    using i(2) by (simp_all add: hub_fifo_def)
  have u: "r = q" if "r < h_next h" "q < h_next h" "\<not> mc_closed (h_conns h r)" "\<not> mc_closed (h_conns h q)"
      "mc_local (h_conns h r) = mc_local (h_conns h q)"
    using hub_tableD(2) [OF i(1)] that by (metis option.inject)
  have "routed h r sig" if "\<forall>f. h_fault h = Some f \<longrightarrow> copying f" "sig \<in> set (h_got h r)"
    using i(3) that f(1) by (simp add: hub_routed_def routed_all_def)
  then show ?thesis using f u unfolding routed_def by blast
qed

definition ex_hub :: hub where
  "ex_hub = snd (Open None ''b'' (snd (Open None ''a'' (NewHub [WithQueueSize 1, WithFault DuplicateAll]))))"

definition ex_hub_sent :: hub where
  "ex_hub_sent = snd (hd (sendTurn None 0 (snd (sendBegin 0 ex_signal ex_hub))))"

definition ex_hub_got :: hub where
  "ex_hub_got = snd (hd (mc_Receive None 1 ex_hub_sent))"

lemma ex_hub_facts:
  "hub_reach ex_hub_got" "h_got ex_hub_got 1 = [ex_signal]" "h_fault ex_hub_got = Some DuplicateAll"
  "mc_local (h_conns ex_hub_got 1) = ''b''" "mc_inbox (h_conns ex_hub_got 1) = []"
proof -
  note d = ex_hub_got_def ex_hub_sent_def ex_hub_def ex_signal_def NewHub_def Open_def setConn_def sendBegin_def
    hubLookup_def sendTurn_def inboxPut_def mc_Receive_def inboxTake_def Let_def
  show "h_got ex_hub_got 1 = [ex_signal]" "h_fault ex_hub_got = Some DuplicateAll"
    "mc_local (h_conns ex_hub_got 1) = ''b''" "mc_inbox (h_conns ex_hub_got 1) = []"
    by (simp_all add: d)
  have "hub_reach ex_hub" unfolding ex_hub_def by (intro hr_step [OF hr_step [OF hr_new hs_open] hs_open])
  then have "hub_reach (snd (sendBegin 0 ex_signal ex_hub))"
    by (rule hr_step) (rule hs_send, simp add: d)
  then have "hub_reach ex_hub_sent"
    by (rule hr_step) (rule hs_turn [where k = 0 and ctxErr = None and x = None], simp_all add: d)
  then show "hub_reach ex_hub_got"
    by (rule hr_step) (rule hs_receive [where r = 1 and ctxErr = None and x = "Inr ex_signal"], simp_all add: d)
qed

theorem hub_delivers_witness:
  "h_got ex_hub_got 1 = [ex_signal] \<and> sig_To ex_signal = mc_local (h_conns ex_hub_got 1)"
  using hub_delivers [OF ex_hub_facts(1), of 1 1 ex_signal] ex_hub_facts by simp

text \<open>The swapping injector releases a held signal into the inbox of the destination of the next one, whoever the
  held signal was for.\<close>

lemma swap_misroutes:
  assumes "\<not> mc_closed (h_conns h r)" "sig_From msg = mc_local (h_conns h r)" "hubLookup (sig_To msg) h = Some dst"
    "h_fault h = Some (SwapAdjacent (sig_Kind msg) (Some held))"
  shows "(r, dst, [msg, held]) \<in> set (h_sends (snd (sendBegin r msg h)))"
  using assms by (simp add: sendBegin_def Let_def)

end
