(* ===== verification/Conformance_Hub.thy ===== *)
theory Conformance_Hub
  imports Conformance Memory
begin

text \<open>
  The in-process hub against the conformance suite. A \<open>Send\<close> is its checks followed by its whole loop, so on a hub
  without a fault injector a call that cannot return has changed nothing.
\<close>

subsection \<open>The hub as a transport\<close>

text \<open>The loop of \<open>Send\<close>: every turn delivers one signal, so one turn more than there are signals is enough.\<close>

fun sendRun :: "nat \<Rightarrow> gerror option \<Rightarrow> nat \<Rightarrow> hub \<Rightarrow> (gerror option \<times> hub) list" where
  "sendRun 0 ctxErr k h = []"
| "sendRun (Suc n) ctxErr k h =
     concat (map (\<lambda>(r, h). case r of Some res \<Rightarrow> [(res, h)] | None \<Rightarrow> sendRun n ctxErr k h) (sendTurn ctxErr k h))"

definition mc_Send :: "gerror option \<Rightarrow> nat \<Rightarrow> Signal \<Rightarrow> hub \<Rightarrow> (gerror option \<times> hub) list" where
  "mc_Send ctxErr r msg h =
     (case sendBegin r msg h of
        (Inl e, h) \<Rightarrow> [(Some e, h)]
      | (Inr _, h) \<Rightarrow>
          let k = length (h_sends h) - 1
          in sendRun (Suc (length (snd (snd (h_sends h ! k))))) ctxErr k h)"

definition hubTransport :: "hub signaler" where
  "hubTransport = \<lparr> sg_Open = (\<lambda>ctxErr i h. [Open ctxErr i h]), sg_Send = mc_Send, sg_Receive = mc_Receive,
     sg_Close = (\<lambda>r h. (None, mc_Close r h)) \<rparr>"

definition hub_live :: "hub \<Rightarrow> PeerID \<Rightarrow> nat option" where
  "hub_live h = map_of (h_peers h)"

definition hub_inbox :: "hub \<Rightarrow> nat \<Rightarrow> Signal list" where
  "hub_inbox h r = mc_inbox (h_conns h r)"

definition hub_dead :: "hub \<Rightarrow> nat \<Rightarrow> bool" where
  "hub_dead h r = mc_closed (h_conns h r)"

text \<open>A hub with queues of size \<open>n\<close> and no injector, between two calls.\<close>

definition hub_ready :: "nat \<Rightarrow> hub \<Rightarrow> bool" where
  "hub_ready n h \<longleftrightarrow> hub_inv h \<and> h_fault h = None \<and> h_sends h = [] \<and> h_queueSize h = int n \<and>
     (\<forall>i r. map_of (h_peers h) i = Some r \<longrightarrow> \<not> mc_closed (h_conns h r) \<and> mc_cap (h_conns h r) = n)"

lemmas hub_view = hub_live_def hub_inbox_def hub_dead_def hubTransport_def

lemma hub_readyD:
  assumes "hub_ready n h" "map_of (h_peers h) i = Some r"
  shows "\<not> mc_closed (h_conns h r)" "mc_cap (h_conns h r) = n" "r < h_next h" "mc_local (h_conns h r) = i"
  using assms hub_tableD(1) [of h i r] by (auto simp: hub_ready_def hub_inv_def)

lemma ready_open:
  assumes h: "hub_ready n h" and i: "i \<noteq> []" "map_of (h_peers h) i = None"
  shows "\<exists>c h'. Open None i h = (Inr c, h') \<and> hub_ready n h' \<and> hub_live h' = (hub_live h)(i \<mapsto> c) \<and>
    hub_inbox h' = (hub_inbox h)(c := [])"
proof -
  let ?c = "\<lparr> mc_local = i, mc_inbox = [], mc_cap = nat (h_queueSize h), mc_closed = False \<rparr>"
  let ?h = "setConn (h_next h) ?c (h\<lparr>h_peers := (i, h_next h) # h_peers h, h_next := h_next h + 1\<rparr>)"
  have o: "Open None i h = (Inr (h_next h), ?h)" using i by (simp add: Open_def Let_def)
  have "hub_inv ?h" using Open_inv [of h None i] h o by (simp add: hub_ready_def)
  moreover have "r \<noteq> h_next h" if "map_of (h_peers h) j = Some r" for j r using hub_readyD(3) [OF h that] by simp
  ultimately have "hub_ready n ?h" using h unfolding hub_ready_def by (auto simp: setConn_def)
  then show ?thesis using o by (auto simp: hub_view fun_eq_iff)
qed

lemma ready_send:
  assumes h: "hub_ready n h" and c: "map_of (h_peers h) (sig_From sig) = Some c" "map_of (h_peers h) (sig_To sig) = Some d"
  shows "if length (hub_inbox h d) < n
    then \<exists>h'. mc_Send None c sig h = [(None, h')] \<and> hub_ready n h' \<and> hub_live h' = hub_live h \<and>
      hub_inbox h' = (hub_inbox h)(d := hub_inbox h d @ [sig])
    else mc_Send None c sig h = []"
proof -
  note hc = hub_readyD [OF h c(1)] and hd = hub_readyD [OF h c(2)]
  let ?h1 = "h\<lparr>h_sends := [(c, d, [sig])]\<rparr>"
  have f: "h_fault h = None" "h_sends h = []" using h by (simp_all add: hub_ready_def)
  have b: "sendBegin c sig h = (Inr (), ?h1)" using f c hc by (simp add: sendBegin_def Let_def hubLookup_def)
  show ?thesis
  proof (cases "length (hub_inbox h d) < n")
    case True
    let ?c = "(h_conns h d)\<lparr>mc_inbox := mc_inbox (h_conns h d) @ [sig]\<rparr>"
    let ?h2 = "(setConn d ?c ?h1)\<lparr>h_sends := (h_sends ?h1)[0 := (c, d, [])], h_put := (h_put ?h1)(d := h_put ?h1 d @ [sig])\<rparr>"
    have p: "inboxPut sig (h_conns ?h1 d) = (True, ?c)" using True hd(2) by (simp add: inboxPut_def hub_inbox_def)
    have s: "mc_Send None c sig h = [(None, dropSend 0 ?h2)]"
      using p hc(1) hd(1) by (simp add: mc_Send_def b sendTurn_def)
    have "hub_inv ?h1" using sendBegin_inv [of h c sig] h hc(3) b by (simp add: hub_ready_def)
    then have "hub_inv ?h2" using put_inv [of ?h1 0 c d sig "[]" ?c] p by simp
    then have "hub_inv (dropSend 0 ?h2)" by (rule dropSend_inv)
    then have "hub_ready n (dropSend 0 ?h2)" using h hd unfolding hub_ready_def by (auto simp: dropSend_def setConn_def)
    moreover have "hub_live (dropSend 0 ?h2) = hub_live h"
      "hub_inbox (dropSend 0 ?h2) = (hub_inbox h)(d := hub_inbox h d @ [sig])"
      by (auto simp: hub_view dropSend_def fun_eq_iff)
    ultimately show ?thesis using True s by simp
  next
    case False
    then have "inboxPut sig (h_conns h d) = (False, h_conns h d)" using hd(2) by (simp add: inboxPut_def hub_inbox_def)
    then show ?thesis using False hc(1) hd(1) by (simp add: mc_Send_def b sendTurn_def)
  qed
qed

lemma ready_receive:
  assumes h: "hub_ready n h" and c: "map_of (h_peers h) i = Some c" and s: "hub_inbox h c = sig # rest"
  shows "\<exists>h'. mc_Receive None c h = [(Inr sig, h')] \<and> hub_ready n h' \<and> hub_live h' = hub_live h \<and>
    hub_inbox h' = (hub_inbox h)(c := rest)"
proof -
  let ?c = "(h_conns h c)\<lparr>mc_inbox := rest\<rparr>"
  let ?h = "(setConn c ?c h)\<lparr>h_got := (h_got h)(c := h_got h c @ [sig])\<rparr>"
  note hc = hub_readyD [OF h c]
  have t: "inboxTake (h_conns h c) = ([sig], ?c)" using s by (simp add: inboxTake_def hub_inbox_def)
  then have r: "mc_Receive None c h = [(Inr sig, ?h)]" using hc(1) by (simp add: mc_Receive_def)
  have "hub_inv ?h" using take_inv [OF _ hc(3) t] h by (simp add: hub_ready_def)
  then have "hub_ready n ?h" using h hc unfolding hub_ready_def by (auto simp: setConn_def)
  then show ?thesis using r by (auto simp: hub_view fun_eq_iff)
qed

lemma ready_close:
  assumes h: "hub_ready n h" and c: "map_of (h_peers h) i = Some c"
  shows "hub_ready n (mc_Close c h) \<and> hub_live (mc_Close c h) = (hub_live h)(i := None) \<and>
    hub_inbox (mc_Close c h) = hub_inbox h \<and> hub_dead (mc_Close c h) c"
proof -
  note hc = hub_readyD [OF h c]
  let ?m = "closeMark c h"
  have m: "mc_closed (h_conns ?m c)" "map_of (h_peers ?m) i = Some c" "mc_local (h_conns ?m c) = i"
    using c hc(4) by (simp_all add: closeMark_def)
  have e: "mc_Close c h = ?m\<lparr>h_peers := filter (\<lambda>x. fst x \<noteq> i) (h_peers h)\<rparr>"
    using hc(1) m by (simp add: mc_Close_def unregister_def Let_def) (simp add: closeMark_def)
  have "hub_inv (mc_Close c h)"
    using unregister_inv [OF closeMark_inv m(1)] h hc(1,3) by (simp add: hub_ready_def mc_Close_def)
  moreover have "r \<noteq> c" if "map_of (h_peers h) j = Some r" "j \<noteq> i" for j r using hub_readyD(4) [OF h that(1)] hc(4) that(2) by auto
  ultimately have "hub_ready n (mc_Close c h)" using h unfolding hub_ready_def e
    by (auto simp: closeMark_def setConn_def map_of_filter_key split: if_splits)
  then show ?thesis using m(1) unfolding e by (auto simp: hub_view closeMark_def map_of_filter_key fun_eq_iff)
qed

lemma hub_is_transport: "0 < n \<Longrightarrow> queue_transport hubTransport (hub_ready n) hub_live hub_inbox hub_dead n"
proof (unfold_locales, goal_cases)
  case (2 h i c j)
  then show ?case using hub_readyD(4) [of n h] by (metis hub_live_def)
next
  case (3 h i)
  then show ?case using ready_open [of n h i] by (auto simp: hubTransport_def hub_live_def)
next
  case (6 h sig c d)
  then show ?case using ready_send [of n h sig c d] by (simp add: hubTransport_def hub_live_def)
next
  case (7 h sig c d)
  then show ?case using ready_send [of n h sig c d] by (simp add: hubTransport_def hub_live_def)
next
  case (8 h sig c)
  then show ?case using hub_readyD [of n h "sig_From sig" c]
    by (simp add: hub_view mc_Send_def sendBegin_def hubLookup_def Let_def)
next
  case (9 h i c sig rest)
  then show ?case using ready_receive [of n h i c sig rest] by (simp add: hubTransport_def hub_live_def)
next
  case (10 h i c)
  then show ?case using hub_readyD(1) [of n h i c] by (simp add: hub_view mc_Receive_def inboxTake_def)
next
  case (11 h i c e)
  then show ?case using hub_readyD(1) [of n h i c] by (simp add: hub_view mc_Receive_def inboxTake_def)
next
  case (12 h i c)
  then show ?case using ready_close [of n h i c] by (simp add: hubTransport_def hub_live_def)
next
  case (13 h c)
  then show ?case by (simp add: hub_view mc_Close_def)
qed (auto simp: hub_view Open_def mc_Send_def sendBegin_def mc_Receive_def inboxTake_def)

interpretation hub: queue_transport hubTransport "hub_ready 64" hub_live hub_inbox hub_dead 64
  by (rule hub_is_transport) simp

text \<open>A hub created without an injector is ready, whatever queue sizes it was given.\<close>

lemma NewHub_ready:
  assumes "\<forall>opt \<in> set opts. \<exists>k. opt = WithQueueSize k"
  shows "\<exists>n. 0 < n \<and> hub_ready n (NewHub opts) \<and> (\<forall>i. hub_live (NewHub opts) i = None)"
proof -
  let ?h0 = "NewHub []"
  have f: "NewHub opts = foldl (\<lambda>h opt. applyOption opt h) ?h0 opts" by (simp add: NewHub_def)
  have "0 < h_queueSize (NewHub opts) \<and> h_fault (NewHub opts) = None \<and> h_sends (NewHub opts) = [] \<and> h_peers (NewHub opts) = []"
    using assms unfolding f
  proof (induction opts rule: rev_induct)
    case (snoc opt opts)
    then obtain k where "opt = WithQueueSize k" by auto
    then show ?case using snoc by simp
  qed (simp add: NewHub_def DefaultQueueSize_def)
  then show ?thesis using NewHub_inv [of opts] by (intro exI [of _ "nat (h_queueSize (NewHub opts))"]) (simp add: hub_ready_def hub_live_def)
qed

subsection \<open>The hub passes\<close>

text \<open>C32: The in-process hub conforms. Every hub created without a fault injector, whatever its queue size, passes all
  fourteen tests of the conformance suite for transports, with the optional ones on duplicate and absent peers
  switched on or off: signals arrive unchanged, at their addressee only, in both directions and at the size limit;
  contexts and closes release blocked calls; closing is idempotent and final; and with one or eight concurrent
  senders and a reader, every interleaving of their calls ends with every signal delivered, even when the queue is
  much shorter than the number of signals. The random identifiers have 16 bytes and do not repeat, zero is a number
  that JSON decoding accepts, and a payload limit below 60, which makes the suite itself panic, is excluded.\<close>

theorem hub_conforms:
  assumes "\<forall>opt \<in> set opts. \<exists>k. opt = WithQueueSize k"
    "\<forall>k. length (rnd k) = 16" "inj_on rnd {..<400}" "num ''0'' \<noteq> None"
    "cf_MaxPayload cfg \<le> 0 \<or> 60 \<le> cf_MaxPayload cfg"
  shows "confRun num rnd cfg hubTransport (NewHub opts)"
proof -
  obtain n where n: "0 < n" "hub_ready n (NewHub opts)" "\<forall>i. hub_live (NewHub opts) i = None"
    using NewHub_ready [OF assms(1)] by blast
  show ?thesis by (rule queue_transport.suite_passes [where num = num, OF hub_is_transport [OF n(1)] n(2,3) assms(2,4,5,3)])
qed

definition ex_rnd :: "nat \<Rightarrow> bytes" where
  "ex_rnd k = replicate 14 0 @ put_uint16 (of_nat k)"

lemma ex_rnd_facts: "length (ex_rnd k) = 16" "inj_on ex_rnd {..<400}"
proof -
  show "length (ex_rnd k) = 16" by (simp add: ex_rnd_def put_uint16_def)
  have "i = j" if e: "ex_rnd i = ex_rnd j" and l: "i < 400" "j < 400" for i j
  proof -
    have "put_uint16 (of_nat i) = put_uint16 (of_nat j)" using e by (simp add: ex_rnd_def)
    then have "(of_nat i :: u16) = of_nat j" unfolding put_uint16_def by (metis get_put_uint16 list.inject)
    then have "unat (of_nat i :: u16) = unat (of_nat j :: u16)" by simp
    then show ?thesis using l by (simp add: unat_of_nat)
  qed
  then show "inj_on ex_rnd {..<400}" by (auto intro!: inj_onI)
qed

theorem hub_conforms_witness:
  "confRun (\<lambda>text. Some text) ex_rnd
     \<lparr> cf_RejectsDuplicatePeers = True, cf_ReportsUnavailablePeer = True, cf_MaxPayload = 0 \<rparr> hubTransport (NewHub [WithQueueSize 1])"
  by (rule hub_conforms) (simp_all add: ex_rnd_facts)

end
