(* ===== verification/Sse_Peer.thy ===== *)
theory Sse_Peer
  imports Prelude
begin

text \<open>
  The queue, replay log and delivery cursor the signaling server keeps for one peer
  (\<^verbatim>\<open>signaling/sse/server.go\<close>, \<open>peer\<close>). Sequence numbers are 64-bit words.
  Streams are named by numbers; the operations return the stream they end, and the server calls its
  \<open>end\<close> function. The reaper timer is a flag: armed or not. \<open>Q\<close> and \<open>D\<close> are \<open>QueueSize\<close> and
  \<open>ReplayDepth\<close>. What a queued entry carries is left open.
\<close>

subsection \<open>State and operations\<close>

record 'a entry =
  e_id :: u64
  e_data :: 'a

record 'a peer =
  p_id :: string
  p_seq :: u64
  p_sentUpTo :: u64
  p_log :: "'a entry list"
  p_stream :: "nat option"
  p_reaper :: bool
  p_down :: bool

definition newPeer :: "string \<Rightarrow> 'a peer" where
  "newPeer i = \<lparr> p_id = i, p_seq = 0, p_sentUpTo = 0, p_log = [], p_stream = None, p_reaper = True, p_down = False \<rparr>"

definition enqueue :: "int \<Rightarrow> 'a \<Rightarrow> 'a peer \<Rightarrow> bool \<times> 'a peer" where
  "enqueue Q data p =
     (if p_down p then (False, p)
      else if p_seq p - p_sentUpTo p \<ge> word_of_int Q then (False, p)
      else
        let seq = p_seq p + 1
        in (True, p\<lparr>p_seq := seq, p_log := p_log p @ [\<lparr> e_id = seq, e_data = data \<rparr>]\<rparr>))"

definition attach :: "nat \<Rightarrow> u64 \<Rightarrow> 'a peer \<Rightarrow> nat option \<times> 'a peer" where
  "attach att lastID p =
     (let ended = p_stream p;
          p = p\<lparr>p_stream := Some att, p_reaper := False\<rparr>
      in (ended,
          if lastID < p_sentUpTo p then
            let floor = (case p_log p of [] \<Rightarrow> p_seq p | e # es \<Rightarrow> e_id e - 1)
            in p\<lparr>p_sentUpTo := max lastID floor\<rparr>
          else p))"

definition detach :: "nat \<Rightarrow> 'a peer \<Rightarrow> 'a peer" where
  "detach att p =
     (if p_stream p \<noteq> Some att then p
      else
        let p = p\<lparr>p_stream := None\<rparr>
        in if \<not> p_down p then p\<lparr>p_reaper := True\<rparr> else p)"

text \<open>The index of the first entry after the cursor; the length of the log if there is none.\<close>

fun firstUnsent :: "'a entry list \<Rightarrow> u64 \<Rightarrow> nat" where
  "firstUnsent [] sent = 0"
| "firstUnsent (e # es) sent = (if e_id e > sent then 0 else Suc (firstUnsent es sent))"

definition takeUnsent :: "int \<Rightarrow> nat \<Rightarrow> 'a peer \<Rightarrow> 'a entry list \<times> 'a peer" where
  "takeUnsent D att p =
     (if p_stream p \<noteq> Some att then ([], p)
      else
        let out = drop (firstUnsent (p_log p) (p_sentUpTo p)) (p_log p);
            p = (if out \<noteq> [] then p\<lparr>p_sentUpTo := e_id (last out)\<rparr> else p);
            extra = int (length (p_log p)) - D;
            p = (if extra > 0 then p\<lparr>p_log := drop (nat extra) (p_log p)\<rparr> else p)
        in (out, p))"

text \<open>\<open>expire\<close>: whether the server is asked to forget the peer.\<close>

definition expire :: "'a peer \<Rightarrow> bool \<times> 'a peer" where
  "expire p = (if p_stream p \<noteq> None \<or> p_down p then (False, p) else (True, p\<lparr>p_down := True, p_log := []\<rparr>))"

definition shutdown :: "'a peer \<Rightarrow> nat option \<times> 'a peer" where
  "shutdown p = (p_stream p, p\<lparr>p_down := True, p_log := [], p_reaper := False, p_stream := None\<rparr>)"

subsection \<open>Well-formedness\<close>

text \<open>The entries of the accepted signals \<open>a, ..., b - 1\<close>, counted from 0.\<close>

definition entries :: "'a list \<Rightarrow> nat \<Rightarrow> nat \<Rightarrow> 'a entry list" where
  "entries hist a b = map (\<lambda>i. \<lparr> e_id = of_nat (Suc i), e_data = hist ! i \<rparr>) [a ..< b]"

text \<open>\<open>hist\<close> is what was accepted so far. While the peer is up, its log is a suffix of it, the cursor lies within the
  log, at most \<open>D\<close> delivered entries are kept and at most \<open>Q + D\<close> in all.\<close>

definition peer_ok :: "int \<Rightarrow> int \<Rightarrow> 'a list \<Rightarrow> 'a peer \<Rightarrow> bool" where
  "peer_ok Q D hist p \<longleftrightarrow> length hist < 2 ^ 64 \<and> p_seq p = of_nat (length hist) \<and>
     (p_down p \<and> p_log p = [] \<or>
      \<not> p_down p \<and> (\<exists>k. k \<le> unat (p_sentUpTo p) \<and> unat (p_sentUpTo p) \<le> length hist \<and>
        p_log p = entries hist k (length hist) \<and>
        unat (p_sentUpTo p) \<le> k + nat D \<and> length hist \<le> k + nat Q + nat D))"

lemma length_entries [simp]: "length (entries hist a b) = b - a"
  by (simp add: entries_def)

lemma entries_empty [simp]: "b \<le> a \<Longrightarrow> entries hist a b = []"
  by (simp add: entries_def)

lemma entries_snoc: "a \<le> length hist \<Longrightarrow>
    entries (hist @ [x]) a (Suc (length hist)) = entries hist a (length hist) @ [\<lparr> e_id = of_nat (Suc (length hist)), e_data = x \<rparr>]"
  by (auto simp: entries_def nth_append)

lemma entries_old: "b \<le> length hist \<Longrightarrow> entries (hist @ [x]) a b = entries hist a b"
  by (auto simp: entries_def nth_append)

lemma drop_entries: "drop n (entries hist a b) = entries hist (a + n) b"
  by (simp add: entries_def drop_map)

lemma entries_Cons: "a < b \<Longrightarrow> entries hist a b = \<lparr> e_id = of_nat (Suc a), e_data = hist ! a \<rparr> # entries hist (Suc a) b"
  by (simp add: entries_def upt_conv_Cons)

lemma entries_append: "a \<le> b \<Longrightarrow> b \<le> c \<Longrightarrow> entries hist a b @ entries hist b c = entries hist a c"
  using upt_add_eq_append [of a b "c - b"] by (simp add: entries_def flip: map_append)

lemma unat_seq: "n < 2 ^ 64 \<Longrightarrow> unat (of_nat n :: u64) = n"
  by (simp add: unat_of_nat)

lemma word_above: "n < 2 ^ 64 \<Longrightarrow> (w :: u64) < of_nat n \<longleftrightarrow> unat w < n"
  by (simp add: word_less_nat_alt unat_seq)

text \<open>The search loop finds the first unsent entry.\<close>

lemma firstUnsent_entries:
  "k \<le> unat s \<Longrightarrow> unat s \<le> n \<Longrightarrow> n < 2 ^ 64 \<Longrightarrow> firstUnsent (entries hist k n) s = unat s - k"
proof (induction "n - k" arbitrary: k)
  case (Suc d)
  then have k: "k < n" by simp
  have e: "entries hist k n = \<lparr> e_id = of_nat (Suc k), e_data = hist ! k \<rparr> # entries hist (Suc k) n"
    by (rule entries_Cons [OF k])
  have w: "s < of_nat (Suc k) \<longleftrightarrow> unat s < Suc k" using k Suc.prems(3) by (intro word_above) simp
  show ?case
  proof (cases "unat s = k")
    case True
    then show ?thesis using w by (simp add: e)
  next
    case False
    then have "Suc k \<le> unat s" using Suc.prems(1) by simp
    then show ?thesis using Suc.hyps(1) [of "Suc k"] Suc.hyps(2) Suc.prems w by (simp add: e Suc_diff_Suc)
  qed
qed simp

subsection \<open>Every operation keeps it\<close>

lemma newPeer_ok: "0 \<le> Q \<Longrightarrow> 0 \<le> D \<Longrightarrow> peer_ok Q D [] (newPeer i)"
  by (simp add: peer_ok_def newPeer_def)

text \<open>The room test compares the number of accepted entries behind the cursor with the queue size.\<close>

lemma enqueue_room:
  assumes "peer_ok Q D hist p" "\<not> p_down p" "0 \<le> Q" "Q < 2 ^ 63"
  shows "p_seq p - p_sentUpTo p \<ge> word_of_int Q \<longleftrightarrow> unat (p_sentUpTo p) + nat Q \<le> length hist"
proof -
  have s: "p_seq p = of_nat (length hist)" "unat (p_sentUpTo p) \<le> length hist" "length hist < 2 ^ 64"
    using assms(1,2) by (auto simp: peer_ok_def)
  have "p_sentUpTo p \<le> p_seq p" using s by (simp add: word_le_nat_alt unat_seq)
  then have "unat (p_seq p - p_sentUpTo p) = length hist - unat (p_sentUpTo p)"
    using s by (simp add: unat_sub unat_seq)
  moreover have "unat (word_of_int Q :: u64) = nat Q"
    using assms(3,4) by (simp add: unat_eq_nat_uint uint_word_of_int)
  ultimately show ?thesis using s(2) by (auto simp: word_le_nat_alt)
qed

lemma enqueue_ok:
  assumes ok: "peer_ok Q D hist p" and Q: "0 \<le> Q" "Q < 2 ^ 63" and e: "enqueue Q x p = (b, p')"
    and n: "Suc (length hist) < 2 ^ 64"
  shows "peer_ok Q D (if b then hist @ [x] else hist) p'"
proof (cases "b")
  case False
  then show ?thesis using e ok by (auto simp: enqueue_def Let_def split: if_splits)
next
  case True
  have d: "\<not> p_down p" and r: "\<not> p_seq p - p_sentUpTo p \<ge> word_of_int Q"
    and p': "p' = p\<lparr>p_seq := p_seq p + 1, p_log := p_log p @ [\<lparr> e_id = p_seq p + 1, e_data = x \<rparr>]\<rparr>"
    using e True by (auto simp: enqueue_def Let_def split: if_splits)
  have room: "length hist < unat (p_sentUpTo p) + nat Q" using enqueue_room [OF ok d Q] r by simp
  obtain k where k: "k \<le> unat (p_sentUpTo p)" "unat (p_sentUpTo p) \<le> length hist" "p_log p = entries hist k (length hist)"
    "unat (p_sentUpTo p) \<le> k + nat D"
    using ok d by (auto simp: peer_ok_def)
  have s: "p_seq p + 1 = of_nat (Suc (length hist))" using ok by (simp add: peer_ok_def add.commute)
  have "p_log p' = entries (hist @ [x]) k (Suc (length hist))"
    using k by (simp add: p' s entries_snoc)
  then show ?thesis using True ok d k room n s unfolding peer_ok_def
    by (auto simp: p' intro!: exI [of _ k])
qed

lemma attach_ok:
  assumes ok: "peer_ok Q D hist p" and a: "attach att lastID p = (ended, p')"
  shows "peer_ok Q D hist p'"
proof (cases "p_down p \<or> \<not> lastID < p_sentUpTo p")
  case True
  then show ?thesis using ok a by (auto simp: attach_def Let_def peer_ok_def)
next
  case False
  then obtain k where k: "k \<le> unat (p_sentUpTo p)" "unat (p_sentUpTo p) \<le> length hist" "p_log p = entries hist k (length hist)"
    "unat (p_sentUpTo p) \<le> k + nat D" "length hist \<le> k + nat Q + nat D"
    using ok by (auto simp: peer_ok_def)
  have n: "length hist < 2 ^ 64" "p_seq p = of_nat (length hist)" using ok by (simp_all add: peer_ok_def)
  have f: "(case p_log p of [] \<Rightarrow> p_seq p | e # es \<Rightarrow> e_id e - 1) = of_nat k"
  proof (cases "k < length hist")
    case True
    then show ?thesis by (simp add: k(3) entries_Cons)
  next
    case False
    then have "k = length hist" using k(1,2) by simp
    then show ?thesis using n(2) by (simp add: k(3))
  qed
  have l: "unat lastID < unat (p_sentUpTo p)" using False by (simp add: word_less_nat_alt)
  have m: "unat (max lastID (of_nat k)) = max (unat lastID) k"
    using k n by (auto simp: max_def word_le_nat_alt unat_seq)
  have p': "p' = p\<lparr>p_stream := Some att, p_reaper := False, p_sentUpTo := max lastID (of_nat k)\<rparr>"
    using a False f by (cases "p_log p") (simp_all add: attach_def Let_def)
  have b: "k \<le> max (unat lastID) k" "max (unat lastID) k \<le> length hist" "max (unat lastID) k \<le> k + nat D"
    using k l by auto
  then show ?thesis using ok False k(3,5) m unfolding peer_ok_def p'
    by (auto intro!: exI [of _ k])
qed

lemma detach_ok: "peer_ok Q D hist p \<Longrightarrow> peer_ok Q D hist (detach att p)"
  by (auto simp: detach_def Let_def peer_ok_def)

text \<open>What \<open>takeUnsent\<close> returns are the accepted signals after the cursor; afterwards none is left.\<close>

lemma takeUnsent_ok:
  assumes ok: "peer_ok Q D hist p" and D: "0 \<le> D" and Q: "0 \<le> Q" and t: "takeUnsent D att p = (out, p')"
    and u: "\<not> p_down p" "p_stream p = Some att"
  shows "out = entries hist (unat (p_sentUpTo p)) (length hist)" "peer_ok Q D hist p'" "unat (p_sentUpTo p') = length hist"
    "p_stream p' = Some att" "\<not> p_down p'"
proof -
  obtain k where k: "k \<le> unat (p_sentUpTo p)" "unat (p_sentUpTo p) \<le> length hist" "p_log p = entries hist k (length hist)"
    "length hist \<le> k + nat Q + nat D"
    using ok u by (auto simp: peer_ok_def)
  have n: "length hist < 2 ^ 64" "p_seq p = of_nat (length hist)" using ok by (simp_all add: peer_ok_def)
  have o: "drop (firstUnsent (p_log p) (p_sentUpTo p)) (p_log p) = entries hist (unat (p_sentUpTo p)) (length hist)"
    using firstUnsent_entries [OF k(1,2) n(1), of hist] k(1) by (simp add: k(3) drop_entries)
  define q where "q = (if out \<noteq> [] then p\<lparr>p_sentUpTo := e_id (last out)\<rparr> else p)"
  define extra where "extra = int (length (p_log q)) - D"
  have p': "p' = (if extra > 0 then q\<lparr>p_log := drop (nat extra) (p_log q)\<rparr> else q)"
    and out: "out = entries hist (unat (p_sentUpTo p)) (length hist)"
    using t u o by (auto simp: takeUnsent_def Let_def q_def extra_def)
  show "out = entries hist (unat (p_sentUpTo p)) (length hist)" by (rule out)
  have sq: "unat (p_sentUpTo q) = length hist"
  proof (cases "unat (p_sentUpTo p) < length hist")
    case True
    then obtain m where m: "length hist = Suc m" "unat (p_sentUpTo p) \<le> m" by (cases "length hist") auto
    then have "e_id (last out) = of_nat (length hist)" "out \<noteq> []" by (simp_all add: out entries_def)
    then show ?thesis using n by (simp add: q_def unat_seq)
  next
    case False
    then show ?thesis using k(2) by (simp add: q_def out)
  qed
  have q: "p_log q = entries hist k (length hist)" "p_seq q = p_seq p" "\<not> p_down q" "p_stream q = Some att"
    using u by (simp_all add: q_def k(3))
  have l: "p_log p' = entries hist (if extra > 0 then k + nat extra else k) (length hist)"
    by (simp add: p' q(1) drop_entries)
  have x: "extra = int (length hist) - int k - D" using k by (simp add: extra_def q(1))
  show s': "unat (p_sentUpTo p') = length hist" "p_stream p' = Some att" "\<not> p_down p'" using sq q by (simp_all add: p')
  have "peer_ok Q D hist p' \<longleftrightarrow> (\<exists>j. j \<le> length hist \<and> p_log p' = entries hist j (length hist) \<and>
      length hist \<le> j + nat D \<and> length hist \<le> j + nat Q + nat D)"
    using n s' q(2) by (simp add: peer_ok_def p')
  then show "peer_ok Q D hist p'"
    using l x k D Q by (auto intro!: exI [of _ "if extra > 0 then k + nat extra else k"])
qed

lemma expire_ok: "peer_ok Q D hist p \<Longrightarrow> peer_ok Q D hist (snd (expire p))"
  by (auto simp: expire_def peer_ok_def)

lemma shutdown_ok: "peer_ok Q D hist p \<Longrightarrow> peer_ok Q D hist (snd (shutdown p))"
  by (auto simp: shutdown_def peer_ok_def)

subsection \<open>A server, a network and a client\<close>

text \<open>
  One peer record, the stream that is being written and the client that reads it: \<open>y_wire\<close> holds what was taken
  for the current stream and has not reached the client, \<open>y_got\<close> what the client has received, \<open>y_last\<close> the
  identifier it would send as \<open>Last-Event-ID\<close> (\<^verbatim>\<open>signaling/sse/client.go\<close>, \<open>lastID\<close>). A stream
  breaks at any moment and what is on the wire is lost.
\<close>

record 'a ssesys =
  y_peer :: "'a peer"
  y_hist :: "'a list"
  y_wire :: "'a entry list"
  y_got :: "'a entry list"
  y_last :: u64
  y_att :: nat

text \<open>The oldest accepted entry that is still held is the one with index \<open>oldest\<close>.\<close>

definition oldest :: "'a ssesys \<Rightarrow> nat" where
  "oldest y = length (y_hist y) - length (p_log (y_peer y))"

inductive sse_step :: "int \<Rightarrow> int \<Rightarrow> 'a ssesys \<Rightarrow> 'a ssesys \<Rightarrow> bool" for Q D where
  sy_enqueue: "enqueue Q x (y_peer y) = (b, p) \<Longrightarrow> Suc (length (y_hist y)) < 2 ^ 64 \<Longrightarrow>
    sse_step Q D y (y\<lparr>y_peer := p, y_hist := (if b then y_hist y @ [x] else y_hist y)\<rparr>)"
| sy_take: "takeUnsent D (y_att y) (y_peer y) = (out, p) \<Longrightarrow>
    sse_step Q D y (y\<lparr>y_peer := p, y_wire := y_wire y @ out\<rparr>)"
| sy_receive: "y_wire y = e # es \<Longrightarrow>
    sse_step Q D y (y\<lparr>y_wire := es, y_got := y_got y @ [e], y_last := e_id e\<rparr>)"
| sy_break: "sse_step Q D y (y\<lparr>y_peer := detach (y_att y) (y_peer y), y_wire := [], y_att := y_att y + 1\<rparr>)"
| sy_connect: "att \<noteq> y_att y \<Longrightarrow> attach att (y_last y) (y_peer y) = (ended, p) \<Longrightarrow> oldest y \<le> unat (y_last y) \<Longrightarrow>
    sse_step Q D y (y\<lparr>y_peer := p, y_wire := [], y_att := att\<rparr>)"

definition sse_start :: "string \<Rightarrow> 'a ssesys" where
  "sse_start i = \<lparr> y_peer = newPeer i, y_hist = [], y_wire = [], y_got = [], y_last = 0, y_att = 0 \<rparr>"

inductive sse_reach :: "int \<Rightarrow> int \<Rightarrow> 'a ssesys \<Rightarrow> bool" for Q D where
  sr_start: "sse_reach Q D (sse_start i)"
| sr_step: "sse_reach Q D y \<Longrightarrow> sse_step Q D y y' \<Longrightarrow> sse_reach Q D y'"

text \<open>The client has the accepted signals up to \<open>y_last\<close>, and while its stream is attached the wire continues
  from there to the cursor.\<close>

definition sys_ok :: "int \<Rightarrow> int \<Rightarrow> 'a ssesys \<Rightarrow> bool" where
  "sys_ok Q D y \<longleftrightarrow> peer_ok Q D (y_hist y) (y_peer y) \<and> \<not> p_down (y_peer y) \<and>
     unat (y_last y) + length (y_wire y) \<le> unat (p_sentUpTo (y_peer y)) \<and>
     y_got y = entries (y_hist y) 0 (unat (y_last y)) \<and>
     y_wire y = entries (y_hist y) (unat (y_last y)) (unat (y_last y) + length (y_wire y)) \<and>
     (p_stream (y_peer y) = None \<or> p_stream (y_peer y) = Some (y_att y) \<and>
        unat (p_sentUpTo (y_peer y)) = unat (y_last y) + length (y_wire y))"

lemma sse_start_ok: "0 \<le> Q \<Longrightarrow> 0 \<le> D \<Longrightarrow> sys_ok Q D (sse_start i)"
  using newPeer_ok [of Q D i] by (simp add: sys_ok_def sse_start_def newPeer_def)

text \<open>Attaching with an identifier whose successors are all held puts the cursor there.\<close>

lemma attach_cursor:
  assumes ok: "peer_ok Q D hist p" "\<not> p_down p" and l: "unat lastID \<le> unat (p_sentUpTo p)"
    and o: "length hist - length (p_log p) \<le> unat lastID" and a: "attach att lastID p = (ended, p')"
  shows "p_sentUpTo p' = lastID" "p_stream p' = Some att" "\<not> p_down p'" "p_log p' = p_log p"
proof -
  obtain k where k: "k \<le> unat (p_sentUpTo p)" "unat (p_sentUpTo p) \<le> length hist" "p_log p = entries hist k (length hist)"
    using ok by (auto simp: peer_ok_def)
  have n: "length hist < 2 ^ 64" "p_seq p = of_nat (length hist)" using ok by (simp_all add: peer_ok_def)
  have kl: "k \<le> unat lastID" using o k by simp
  have f: "(case p_log p of [] \<Rightarrow> p_seq p | e # es \<Rightarrow> e_id e - 1) = of_nat k"
  proof (cases "k < length hist")
    case False
    then have "k = length hist" using k(1,2) by simp
    then show ?thesis using n(2) by (simp add: k(3))
  qed (simp add: k(3) entries_Cons)
  have "(of_nat k :: u64) \<le> lastID" using kl k n by (simp add: word_le_nat_alt unat_seq)
  then have m: "max lastID (of_nat k) = lastID" by (simp add: max_def)
  have e: "lastID = p_sentUpTo p" if "\<not> lastID < p_sentUpTo p"
    using that l by (metis not_less word_le_nat_alt order_antisym)
  have "p' = p\<lparr>p_stream := Some att, p_reaper := False, p_sentUpTo := lastID\<rparr>"
  proof (cases "lastID < p_sentUpTo p")
    case True
    then show ?thesis using a f m by (cases "p_log p") (simp_all add: attach_def Let_def)
  next
    case False
    then show ?thesis using a e by (cases p) (auto simp: attach_def Let_def)
  qed
  then show "p_sentUpTo p' = lastID" "p_stream p' = Some att" "\<not> p_down p'" "p_log p' = p_log p"
    using ok(2) by simp_all
qed

lemma sse_step_ok:
  assumes "sse_step Q D y y'" "sys_ok Q D y" "0 \<le> Q" "Q < 2 ^ 63" "0 \<le> D"
  shows "sys_ok Q D y'"
  using assms
proof (induction rule: sse_step.induct)
  case (sy_enqueue x y b p)
  have ok: "peer_ok Q D (y_hist y) (y_peer y)" using sy_enqueue.prems by (simp add: sys_ok_def)
  have k: "peer_ok Q D (if b then y_hist y @ [x] else y_hist y) p"
    using enqueue_ok [OF ok sy_enqueue.prems(2,3) sy_enqueue.hyps] .
  have f: "p_stream p = p_stream (y_peer y)" "p_sentUpTo p = p_sentUpTo (y_peer y)" "p_down p = p_down (y_peer y)"
    using sy_enqueue.hyps(1) by (auto simp: enqueue_def Let_def split: if_splits)
  let ?l = "unat (y_last y)" and ?w = "length (y_wire y)"
  have h: "?l + ?w \<le> length (y_hist y)" using sy_enqueue.prems(1) by (auto simp: sys_ok_def peer_ok_def)
  then have o: "entries (y_hist y @ [x]) 0 ?l = entries (y_hist y) 0 ?l"
    "entries (y_hist y @ [x]) ?l (?l + ?w) = entries (y_hist y) ?l (?l + ?w)" by (intro entries_old; simp)+
  show ?case using sy_enqueue.prems(1) k unfolding sys_ok_def by (cases b) (simp_all add: f o)
next
  case (sy_take y out p)
  have ok: "peer_ok Q D (y_hist y) (y_peer y)" "\<not> p_down (y_peer y)" using sy_take.prems by (simp_all add: sys_ok_def)
  show ?case
  proof (cases "p_stream (y_peer y) = Some (y_att y)")
    case True
    note t = takeUnsent_ok [OF ok(1) sy_take.prems(4,2) sy_take.hyps ok(2) True]
    let ?l = "unat (y_last y)" and ?s = "unat (p_sentUpTo (y_peer y))"
    have s: "?s = ?l + length (y_wire y)" using sy_take.prems(1) True by (auto simp: sys_ok_def)
    have h: "?s \<le> length (y_hist y)" using ok by (auto simp: peer_ok_def)
    have "y_wire y @ out = entries (y_hist y) ?l (length (y_hist y))"
    proof -
      have w: "y_wire y = entries (y_hist y) ?l ?s" using sy_take.prems(1) s by (simp add: sys_ok_def)
      show ?thesis by (subst w, subst t(1)) (rule entries_append; use s h in simp)
    qed
    then show ?thesis using sy_take.prems(1) t s h unfolding sys_ok_def by (simp add: t(3))
  next
    case False
    then show ?thesis using sy_take by (cases y) (auto simp: takeUnsent_def)
  qed
next
  case (sy_receive y e es)
  let ?l = "unat (y_last y)"
  have w: "e # es = entries (y_hist y) ?l (Suc ?l + length es)" "Suc ?l + length es \<le> unat (p_sentUpTo (y_peer y))"
    using sy_receive by (auto simp: sys_ok_def)
  have h: "unat (p_sentUpTo (y_peer y)) \<le> length (y_hist y)" using sy_receive.prems by (auto simp: sys_ok_def peer_ok_def)
  have n: "length (y_hist y) < 2 ^ 64" using sy_receive.prems by (simp add: sys_ok_def peer_ok_def)
  have e: "e = \<lparr> e_id = of_nat (Suc ?l), e_data = y_hist y ! ?l \<rparr>" "es = entries (y_hist y) (Suc ?l) (Suc ?l + length es)"
    using w(1) entries_Cons [of ?l "Suc ?l + length es" "y_hist y"] by auto
  have u: "unat (e_id e) = Suc ?l" using w(2) h n by (simp add: e(1) unat_seq del: of_nat_Suc)
  have g: "entries (y_hist y) 0 ?l @ [e] = entries (y_hist y) 0 (Suc ?l)"
    by (simp add: entries_def e(1) del: of_nat_Suc)
  have s: "peer_ok Q D (y_hist y) (y_peer y)" "\<not> p_down (y_peer y)" "y_got y = entries (y_hist y) 0 ?l"
    "p_stream (y_peer y) = None \<or> p_stream (y_peer y) = Some (y_att y) \<and> unat (p_sentUpTo (y_peer y)) = Suc ?l + length es"
    using sy_receive.prems(1) sy_receive.hyps by (simp_all add: sys_ok_def)
  show ?case unfolding sys_ok_def using s w(2) e(2) g u by simp
next
  case (sy_break y)
  have "peer_ok Q D (y_hist y) (detach (y_att y) (y_peer y))" using sy_break.prems by (simp add: sys_ok_def detach_ok)
  moreover have "p_stream (detach (y_att y) (y_peer y)) = None" "\<not> p_down (detach (y_att y) (y_peer y))"
    "p_sentUpTo (detach (y_att y) (y_peer y)) = p_sentUpTo (y_peer y)"
    using sy_break.prems by (auto simp: sys_ok_def detach_def Let_def)
  ultimately show ?case using sy_break.prems unfolding sys_ok_def by simp
next
  case (sy_connect att y ended p)
  have ok: "peer_ok Q D (y_hist y) (y_peer y)" "\<not> p_down (y_peer y)" "unat (y_last y) \<le> unat (p_sentUpTo (y_peer y))"
    using sy_connect.prems by (simp_all add: sys_ok_def)
  note c = attach_cursor [OF ok _ sy_connect.hyps(2)]
  show ?case using sy_connect.prems sy_connect.hyps(3) c attach_ok [OF ok(1) sy_connect.hyps(2)]
    unfolding sys_ok_def oldest_def by simp
qed

lemma sse_reach_ok: "sse_reach Q D y \<Longrightarrow> 0 \<le> Q \<Longrightarrow> Q < 2 ^ 63 \<Longrightarrow> 0 \<le> D \<Longrightarrow> sys_ok Q D y"
  by (induction rule: sse_reach.induct) (simp_all add: sse_start_ok sse_step_ok)

text \<open>Reconnecting loses and repeats nothing, as long as every reconnect names an identifier whose successors the
  server still holds.\<close>

lemma sse_resume:
  assumes "sse_reach Q D y" "0 \<le> Q" "Q < 2 ^ 63" "0 \<le> D"
  shows "map e_data (y_got y) = take (unat (y_last y)) (y_hist y) \<and>
    (p_stream (y_peer y) = Some (y_att y) \<longrightarrow>
       map e_data (y_got y @ y_wire y @ fst (takeUnsent D (y_att y) (y_peer y))) = y_hist y)"
proof -
  have ok: "sys_ok Q D y" using sse_reach_ok [OF assms] .
  let ?l = "unat (y_last y)" and ?s = "unat (p_sentUpTo (y_peer y))" and ?n = "length (y_hist y)"
  have p: "peer_ok Q D (y_hist y) (y_peer y)" "\<not> p_down (y_peer y)" "?l + length (y_wire y) \<le> ?s"
    "y_got y = entries (y_hist y) 0 ?l" "y_wire y = entries (y_hist y) ?l (?l + length (y_wire y))"
    using ok by (simp_all add: sys_ok_def)
  have s: "?s \<le> ?n" using p(1,2) by (auto simp: peer_ok_def)
  have d: "map e_data (entries (y_hist y) 0 k) = take k (y_hist y)" if "k \<le> ?n" for k
    using that by (auto simp: entries_def o_def intro: nth_equalityI)
  have "y_got y @ y_wire y @ fst (takeUnsent D (y_att y) (y_peer y)) = entries (y_hist y) 0 ?n"
    if a: "p_stream (y_peer y) = Some (y_att y)"
  proof -
    have w: "y_wire y = entries (y_hist y) ?l ?s" using ok a by (auto simp: sys_ok_def)
    have t: "fst (takeUnsent D (y_att y) (y_peer y)) = entries (y_hist y) ?s ?n"
      using takeUnsent_ok(1) [OF p(1) assms(4,2) _ p(2) a] by (metis prod.collapse)
    have "entries (y_hist y) ?l ?s @ entries (y_hist y) ?s ?n = entries (y_hist y) ?l ?n"
      by (rule entries_append) (use p(3) s in simp_all)
    then show ?thesis unfolding p(4) t w using entries_append [of 0 ?l ?n "y_hist y"] p(3) s by simp
  qed
  then show ?thesis using d [of ?l] d [of ?n] p(3,4) s by simp
qed

end
