(* ===== verification/Sse_Server.thy ===== *)
theory Sse_Server
  imports Sse_Peer Signal "HOL-Library.List_Lexorder" "HOL-Library.Char_ord"
begin

text \<open>
  The signaling server (\<^verbatim>\<open>signaling/sse/server.go\<close>, \<^verbatim>\<open>mux_server.go\<close>,
  \<^verbatim>\<open>auth.go\<close>).

  \<^item> Peer records, multiplexed streams and attachments are objects with numbers; the tables hold numbers, so the
    pointer comparisons of \<open>forget\<close>, \<open>closeMux\<close>, \<open>join\<close> and \<open>ended\<close> compare numbers.
  \<^item> A request is the part of an \<open>http.Request\<close> the handlers look at: the method, the headers they read (empty
    when absent) and what reading and decoding the body gives. A queued entry carries the signal; its JSON
    text on the stream is not modelled.
  \<^item> A response is a status, or an event stream that stays open. What is written to it is a list of events; the
    handler loops are turns that return the events they write.
  \<^item> The channel \<open>wake\<close> of an attachment is a flag, and so are the channels \<open>done\<close> and \<open>down\<close>.
  \<^item> \<open>sv_hist\<close> is the history of what each peer record accepted; no operation reads it.
  \<^item> \<open>sv_sends\<close> holds the local variables of the \<open>POST\<close> handlers that have found the recipient and not yet queued
    the signal: the request, the peer record and the signal.
\<close>

subsection \<open>Requests and identities\<close>

datatype requestBody = BodyTooLarge | BodyUnreadable | BodyMalformed | BodySignal Signal

record request =
  rq_method :: string
  rq_Authorization :: string
  rq_PeerHeader :: string
  rq_MuxHeader :: string
  rq_LastEventID :: string
  rq_body :: requestBody

text \<open>\<open>strings.EqualFold\<close> against a text in lower case: only the two cases of an ASCII letter fold together for the
  letters that occur here.\<close>

definition lowerChar :: "char \<Rightarrow> char" where
  "lowerChar c = (let n = (of_char c :: nat) in if 65 \<le> n \<and> n \<le> 90 then char_of (n + 32) else c)"

definition equalFold :: "string \<Rightarrow> string \<Rightarrow> bool" where
  "equalFold s lower \<longleftrightarrow> map lowerChar s = lower"

definition BearerToken :: "request \<Rightarrow> string option" where
  "BearerToken r =
     (let prefix = ''bearer ''; h = rq_Authorization r in
      if length h \<le> length prefix \<or> \<not> equalFold (take (length prefix) h) prefix then None
      else
        let token = trimSpace (drop (length prefix) h)
        in if token \<noteq> [] then Some token else None)"

datatype authenticator =
    AuthenticatorFunc "request \<Rightarrow> gerror + PeerID"
  | StaticTokens "(string \<times> PeerID) list"
  | TrustPeerHeader

text \<open>\<open>StaticTokens\<close>: the table it keeps and the loop that compares every candidate.\<close>

definition tokenTable :: "(string \<times> PeerID) list \<Rightarrow> (string \<times> PeerID) list" where
  "tokenTable tokens = filter (\<lambda>(token, peer). \<not> (token = [] \<or> peer = [])) tokens"

fun matchToken :: "(string \<times> PeerID) list \<Rightarrow> string \<Rightarrow> gerror + PeerID" where
  "matchToken [] token = Inl (Sentinel ErrUnauthorized)"
| "matchToken ((candidate, peer) # rest) token =
     (if length candidate = length token \<and> candidate = token then Inr peer else matchToken rest token)"

fun Authenticate :: "authenticator \<Rightarrow> request \<Rightarrow> gerror + PeerID" where
  "Authenticate (AuthenticatorFunc f) r = f r"
| "Authenticate (StaticTokens tokens) r =
     (case BearerToken r of
        None \<Rightarrow> Inl (Sentinel ErrUnauthorized)
      | Some token \<Rightarrow> matchToken (tokenTable tokens) token)"
| "Authenticate TrustPeerHeader r =
     (let peer = trimSpace (rq_PeerHeader r)
      in if peer = [] then Inl (Sentinel ErrUnauthorized) else Inr peer)"

subsection \<open>Configuration\<close>

record sseConfig =
  sc_Authenticator :: "authenticator option"
  sc_QueueSize :: int
  sc_ReplayDepth :: int
  sc_OfflineGrace :: int
  sc_KeepAlive :: int
  sc_MaxPeers :: int

definition DefaultQueueSize :: int where "DefaultQueueSize = 256"
definition DefaultReplayDepth :: int where "DefaultReplayDepth = 256"
definition DefaultOfflineGrace :: int where "DefaultOfflineGrace = 30 * 10 ^ 9"
definition DefaultKeepAlive :: int where "DefaultKeepAlive = 15 * 10 ^ 9"

definition eventHello :: string where "eventHello = ''hello''"
definition eventSignal :: string where "eventSignal = ''signal''"
definition eventReplaced :: string where "eventReplaced = ''replaced''"
definition eventShutdown :: string where "eventShutdown = ''shutdown''"
definition eventMux :: string where "eventMux = ''mux''"
definition eventDetached :: string where "eventDetached = ''detached''"

definition errServerClosing :: gerror where
  "errServerClosing = Plain ''signaling server is shutting down''"

subsection \<open>State\<close>

record attachment =
  at_peer :: PeerID
  at_mux :: "nat option"
  at_wake :: bool
  at_reason :: "string option"

record muxMember =
  mm_peer :: nat
  mm_att :: nat

record muxDetached =
  md_Peer :: PeerID
  md_Reason :: string

record muxStream =
  mx_id :: string
  mx_owner :: PeerID
  mx_wake :: bool
  mx_down :: bool
  mx_members :: "(PeerID \<times> muxMember) list"
  mx_detached :: "muxDetached list"
  mx_closed :: bool

record server =
  sv_cfg :: sseConfig
  sv_peers :: "(PeerID \<times> nat) list"
  sv_objs :: "nat \<Rightarrow> Signal peer"
  sv_next :: nat
  sv_muxes :: "(string \<times> nat) list"
  sv_streams :: "nat \<Rightarrow> muxStream"
  sv_mnext :: nat
  sv_atts :: "nat \<Rightarrow> attachment"
  sv_anext :: nat
  sv_closed :: bool
  sv_hist :: "nat \<Rightarrow> Signal list"
  sv_sends :: "(request \<times> nat \<times> Signal) list"

definition NewServer :: "sseConfig \<Rightarrow> gerror + server" where
  "NewServer cfg =
     (if sc_Authenticator cfg = None then Inl (Plain ''sse: Config.Authenticator is required'')
      else
        let cfg = (if sc_QueueSize cfg \<le> 0 then cfg\<lparr>sc_QueueSize := DefaultQueueSize\<rparr> else cfg) in
        if sc_ReplayDepth cfg < 0 then Inl (Plain ''sse: Config.ReplayDepth must not be negative'')
        else
          let cfg = (if sc_ReplayDepth cfg = 0 then cfg\<lparr>sc_ReplayDepth := DefaultReplayDepth\<rparr> else cfg);
              cfg = (if sc_OfflineGrace cfg \<le> 0 then cfg\<lparr>sc_OfflineGrace := DefaultOfflineGrace\<rparr> else cfg);
              cfg = (if sc_KeepAlive cfg \<le> 0 then cfg\<lparr>sc_KeepAlive := DefaultKeepAlive\<rparr> else cfg)
          in if sc_MaxPeers cfg < 0 then Inl (Plain ''sse: Config.MaxPeers must not be negative'')
             else Inr \<lparr> sv_cfg = cfg, sv_peers = [], sv_objs = (\<lambda>_. newPeer []), sv_next = 0, sv_muxes = [],
               sv_streams = (\<lambda>_. \<lparr> mx_id = [], mx_owner = [], mx_wake = False, mx_down = False, mx_members = [],
                 mx_detached = [], mx_closed = False \<rparr>),
               sv_mnext = 0, sv_atts = (\<lambda>_. \<lparr> at_peer = [], at_mux = None, at_wake = False, at_reason = None \<rparr>),
               sv_anext = 0, sv_closed = False, sv_hist = (\<lambda>_. []), sv_sends = [] \<rparr>)"

definition setPeer :: "nat \<Rightarrow> Signal peer \<Rightarrow> server \<Rightarrow> server" where
  "setPeer n p sv = sv\<lparr>sv_objs := (sv_objs sv)(n := p)\<rparr>"

definition setStream :: "nat \<Rightarrow> muxStream \<Rightarrow> server \<Rightarrow> server" where
  "setStream m x sv = sv\<lparr>sv_streams := (sv_streams sv)(m := x)\<rparr>"

definition setAtt :: "nat \<Rightarrow> attachment \<Rightarrow> server \<Rightarrow> server" where
  "setAtt a x sv = sv\<lparr>sv_atts := (sv_atts sv)(a := x)\<rparr>"

subsection \<open>Attachments\<close>

definition poke :: "nat \<Rightarrow> server \<Rightarrow> server" where
  "poke a sv =
     (case at_mux (sv_atts sv a) of
        None \<Rightarrow> setAtt a ((sv_atts sv a)\<lparr>at_wake := True\<rparr>) sv
      | Some m \<Rightarrow> setStream m ((sv_streams sv m)\<lparr>mx_wake := True\<rparr>) sv)"

definition ended :: "nat \<Rightarrow> PeerID \<Rightarrow> nat \<Rightarrow> string \<Rightarrow> server \<Rightarrow> server" where
  "ended m i a reason sv =
     (let x = sv_streams sv m in
      case map_of (mx_members x) i of
        None \<Rightarrow> sv
      | Some mem \<Rightarrow>
          if mm_att mem \<noteq> a then sv
          else
            let x = x\<lparr>mx_members := filter (\<lambda>y. fst y \<noteq> i) (mx_members x)\<rparr>;
                x = (if reason = eventReplaced
                     then x\<lparr>mx_detached := mx_detached x @ [\<lparr> md_Peer = i, md_Reason = reason \<rparr>]\<rparr> else x)
            in setStream m (x\<lparr>mx_wake := True\<rparr>) sv)"

definition endAtt :: "nat option \<Rightarrow> string \<Rightarrow> server \<Rightarrow> server" where
  "endAtt a reason sv =
     (case a of
        None \<Rightarrow> sv
      | Some a \<Rightarrow>
          (case at_mux (sv_atts sv a) of
             None \<Rightarrow> setAtt a ((sv_atts sv a)\<lparr>at_reason := Some reason\<rparr>) sv
           | Some m \<Rightarrow> ended m (at_peer (sv_atts sv a)) a reason sv))"

definition newAtt :: "PeerID \<Rightarrow> nat option \<Rightarrow> server \<Rightarrow> nat \<times> server" where
  "newAtt i m sv =
     (sv_anext sv,
      setAtt (sv_anext sv) \<lparr> at_peer = i, at_mux = m, at_wake = False, at_reason = None \<rparr>
        (sv\<lparr>sv_anext := sv_anext sv + 1\<rparr>))"

subsection \<open>Peer records in the server\<close>

definition srvEnqueue :: "nat \<Rightarrow> Signal \<Rightarrow> server \<Rightarrow> bool \<times> server" where
  "srvEnqueue n sig sv =
     (case enqueue (sc_QueueSize (sv_cfg sv)) sig (sv_objs sv n) of
        (False, p) \<Rightarrow> (False, sv)
      | (True, p) \<Rightarrow>
          let sv = (setPeer n p sv)\<lparr>sv_hist := (sv_hist sv)(n := sv_hist sv n @ [sig])\<rparr>
          in (True, case p_stream p of None \<Rightarrow> sv | Some a \<Rightarrow> poke a sv))"

definition srvAttach :: "nat \<Rightarrow> nat \<Rightarrow> u64 \<Rightarrow> server \<Rightarrow> server" where
  "srvAttach n a lastID sv =
     (case attach a lastID (sv_objs sv n) of
        (old, p) \<Rightarrow> poke a (setPeer n p (endAtt old eventReplaced sv)))"

definition srvDetach :: "nat \<Rightarrow> nat \<Rightarrow> server \<Rightarrow> server" where
  "srvDetach n a sv = setPeer n (detach a (sv_objs sv n)) sv"

definition srvTake :: "nat \<Rightarrow> nat \<Rightarrow> server \<Rightarrow> Signal entry list \<times> server" where
  "srvTake n a sv =
     (case takeUnsent (sc_ReplayDepth (sv_cfg sv)) a (sv_objs sv n) of (out, p) \<Rightarrow> (out, setPeer n p sv))"

definition admitPeer :: "PeerID \<Rightarrow> server \<Rightarrow> (gerror + nat) \<times> server" where
  "admitPeer i sv =
     (if sv_closed sv then (Inl errServerClosing, sv)
      else case map_of (sv_peers sv) i of
        Some n \<Rightarrow> (Inr n, sv)
      | None \<Rightarrow>
          if sc_MaxPeers (sv_cfg sv) > 0 \<and> int (length (sv_peers sv)) \<ge> sc_MaxPeers (sv_cfg sv)
          then (Inl (Plain ''peer limit reached''), sv)
          else
            let n = sv_next sv
            in (Inr n, setPeer n (newPeer i) (sv\<lparr>sv_peers := (i, n) # sv_peers sv, sv_next := n + 1\<rparr>)))"

definition lookupPeer :: "PeerID \<Rightarrow> server \<Rightarrow> nat option" where
  "lookupPeer i sv = map_of (sv_peers sv) i"

definition forget :: "nat \<Rightarrow> server \<Rightarrow> server" where
  "forget n sv =
     (let i = p_id (sv_objs sv n) in
      if map_of (sv_peers sv) i = Some n
      then sv\<lparr>sv_peers := filter (\<lambda>x. fst x \<noteq> i) (sv_peers sv)\<rparr> else sv)"

text \<open>The reaper fires: the mark first, then the table.\<close>

definition srvExpire :: "nat \<Rightarrow> server \<Rightarrow> bool \<times> server" where
  "srvExpire n sv = (case expire (sv_objs sv n) of (gone, p) \<Rightarrow> (gone, setPeer n p sv))"

definition srvShutdown :: "nat \<Rightarrow> server \<Rightarrow> server" where
  "srvShutdown n sv = (case shutdown (sv_objs sv n) of (old, p) \<Rightarrow> setPeer n p (endAtt old eventShutdown sv))"

definition muxShutdown :: "nat \<Rightarrow> server \<Rightarrow> server" where
  "muxShutdown m sv = setStream m ((sv_streams sv m)\<lparr>mx_down := True\<rparr>) sv"

definition Peers :: "server \<Rightarrow> PeerID list" where
  "Peers sv = sort (map fst (sv_peers sv))"

text \<open>\<open>Close\<close>: under the lock the tables are emptied, then every record and stream that was in them is shut down.\<close>

definition closeTables :: "server \<Rightarrow> server" where
  "closeTables sv = sv\<lparr>sv_closed := True, sv_peers := [], sv_muxes := []\<rparr>"

definition Server_Close :: "server \<Rightarrow> server" where
  "Server_Close sv =
     (let peers = map snd (sv_peers sv); muxes = map snd (sv_muxes sv);
          sv = closeTables sv;
          sv = fold srvShutdown peers sv
      in fold muxShutdown muxes sv)"

subsection \<open>Multiplexed streams\<close>

definition openMux :: "bytes \<Rightarrow> PeerID \<Rightarrow> server \<Rightarrow> (gerror + nat) \<times> server" where
  "openMux buf owner sv =
     (if sv_closed sv then (Inl errServerClosing, sv)
      else
        let m = sv_mnext sv;
            x = \<lparr> mx_id = NewID buf, mx_owner = owner, mx_wake = False, mx_down = False, mx_members = [],
                  mx_detached = [], mx_closed = False \<rparr>
        in (Inr m, setStream m x (sv\<lparr>sv_muxes := (NewID buf, m) # filter (\<lambda>y. fst y \<noteq> NewID buf) (sv_muxes sv),
                                     sv_mnext := m + 1\<rparr>)))"

definition lookupMux :: "string \<Rightarrow> server \<Rightarrow> nat option" where
  "lookupMux i sv = (if i = [] then None else map_of (sv_muxes sv) i)"

definition detachMember :: "muxMember \<Rightarrow> server \<Rightarrow> server" where
  "detachMember mem sv = srvDetach (mm_peer mem) (mm_att mem) sv"

definition closeMux :: "nat \<Rightarrow> server \<Rightarrow> server" where
  "closeMux m sv =
     (let x = sv_streams sv m;
          sv = (if map_of (sv_muxes sv) (mx_id x) = Some m
                then sv\<lparr>sv_muxes := filter (\<lambda>y. fst y \<noteq> mx_id x) (sv_muxes sv)\<rparr> else sv);
          members = map snd (mx_members x);
          sv = setStream m (x\<lparr>mx_closed := True, mx_members := []\<rparr>) sv
      in fold detachMember members sv)"

text \<open>\<open>join\<close>: the member is recorded, then the peer is attached, then the stream is looked at again. Other
  operations can come in between.\<close>

definition joinRecord :: "nat \<Rightarrow> nat \<Rightarrow> server \<Rightarrow> nat option \<times> server" where
  "joinRecord m n sv =
     (let i = p_id (sv_objs sv n); x = sv_streams sv m in
      if mx_closed x then (None, sv)
      else
        (case newAtt i (Some m) sv of
           (a, sv) \<Rightarrow>
             let prev = map_of (mx_members x) i;
                 sv = setStream m (x\<lparr>mx_members := (i, \<lparr> mm_peer = n, mm_att = a \<rparr>) #
                        filter (\<lambda>y. fst y \<noteq> i) (mx_members x)\<rparr>) sv;
                 sv = (case prev of
                         None \<Rightarrow> sv
                       | Some mem \<Rightarrow> if mm_peer mem \<noteq> n then detachMember mem sv else sv)
             in (Some a, sv)))"

definition joinCheck :: "nat \<Rightarrow> nat \<Rightarrow> nat \<Rightarrow> server \<Rightarrow> bool \<times> server" where
  "joinCheck m n a sv = (if mx_closed (sv_streams sv m) then (False, srvDetach n a sv) else (True, sv))"

definition join :: "nat \<Rightarrow> nat \<Rightarrow> u64 \<Rightarrow> server \<Rightarrow> bool \<times> server" where
  "join m n lastID sv =
     (case joinRecord m n sv of
        (None, sv) \<Rightarrow> (False, sv)
      | (Some a, sv) \<Rightarrow> joinCheck m n a (srvAttach n a lastID sv))"

definition leave :: "nat \<Rightarrow> PeerID \<Rightarrow> server \<Rightarrow> server" where
  "leave m i sv =
     (let x = sv_streams sv m in
      case map_of (mx_members x) i of
        None \<Rightarrow> sv
      | Some mem \<Rightarrow>
          detachMember mem (setStream m (x\<lparr>mx_members := filter (\<lambda>y. fst y \<noteq> i) (mx_members x)\<rparr>) sv))"

definition snapshot :: "nat \<Rightarrow> server \<Rightarrow> muxMember list" where
  "snapshot m sv = map snd (mx_members (sv_streams sv m))"

definition takeDetached :: "nat \<Rightarrow> server \<Rightarrow> muxDetached list \<times> server" where
  "takeDetached m sv =
     (let x = sv_streams sv m in (mx_detached x, setStream m (x\<lparr>mx_detached := []\<rparr>) sv))"

subsection \<open>Handlers\<close>

text \<open>What a handler meets besides the request: whether encoding the signal fails, whether the response can stream,
  and the random bytes of a stream identifier.\<close>

record senv =
  sn_marshalFails :: bool
  sn_streams :: bool
  sn_rand :: bytes

datatype response =
    Status nat
  | EventStream nat nat
  | MuxEventStream nat

datatype event =
    EvHello PeerID
  | EvSignal u64 Signal
  | EvComment
  | EvEnd string
  | EvMuxHello string
  | EvMuxDetached muxDetached

text \<open>\<open>serveSend\<close>: the checks and the look-up of the recipient, then the queue of the record that was found. The table
  and the record have locks of their own, and other handlers can come in between.\<close>

definition sendChecks :: "senv \<Rightarrow> request \<Rightarrow> PeerID \<Rightarrow> server \<Rightarrow> response + nat \<times> Signal" where
  "sendChecks V r from sv =
     (case rq_body r of
        BodyTooLarge \<Rightarrow> Inl (Status 413)
      | BodyUnreadable \<Rightarrow> Inl (Status 400)
      | BodyMalformed \<Rightarrow> Inl (Status 400)
      | BodySignal sig \<Rightarrow>
          if sig_From sig \<noteq> from then Inl (Status 403)
          else if Validate sig \<noteq> None then Inl (Status 400)
          else case lookupPeer (sig_To sig) sv of
            None \<Rightarrow> Inl (Status 404)
          | Some dst \<Rightarrow> if sn_marshalFails V then Inl (Status 500) else Inr (dst, sig))"

definition sendEnqueue :: "nat \<Rightarrow> Signal \<Rightarrow> server \<Rightarrow> response \<times> server" where
  "sendEnqueue dst sig sv =
     (case srvEnqueue dst sig sv of
        (False, sv) \<Rightarrow> (Status 503, sv)
      | (True, sv) \<Rightarrow> (Status 202, sv))"

definition serveSend :: "senv \<Rightarrow> request \<Rightarrow> PeerID \<Rightarrow> server \<Rightarrow> response \<times> server" where
  "serveSend V r from sv =
     (case sendChecks V r from sv of
        Inl status \<Rightarrow> (status, sv)
      | Inr (dst, sig) \<Rightarrow> sendEnqueue dst sig sv)"

text \<open>The \<open>Last-Event-ID\<close> header: absent, a number, or malformed.\<close>

definition parseLastID :: "string \<Rightarrow> u64 option" where
  "parseLastID raw = (if raw = [] then Some 0 else map_option of_nat (parse_uint 64 raw))"

definition serveStream :: "senv \<Rightarrow> request \<Rightarrow> PeerID \<Rightarrow> server \<Rightarrow> response \<times> server" where
  "serveStream V r i sv =
     (case admitPeer i sv of
        (Inl e, sv) \<Rightarrow> (Status 503, sv)
      | (Inr n, sv) \<Rightarrow>
          (case parseLastID (rq_LastEventID r) of
             None \<Rightarrow> (Status 400, sv)
           | Some lastID \<Rightarrow>
               if \<not> sn_streams V then (Status 500, sv)
               else
                 (case newAtt i None sv of
                    (a, sv) \<Rightarrow> (EventStream n a, srvAttach n a lastID sv))))"

text \<open>One turn of the loop of \<open>serveStream\<close>: what is written, then the ways the \<open>select\<close> can go; \<open>True\<close> when the loop
  goes on. Leaving the handler detaches the stream.\<close>

definition streamWrite :: "nat \<Rightarrow> nat \<Rightarrow> server \<Rightarrow> event list \<times> server" where
  "streamWrite n a sv =
     (case srvTake n a sv of (out, sv) \<Rightarrow> (map (\<lambda>e. EvSignal (e_id e) (e_data e)) out, sv))"

definition streamWait :: "nat \<Rightarrow> nat \<Rightarrow> server \<Rightarrow> (bool \<times> event list \<times> server) list" where
  "streamWait n a sv =
     (if at_wake (sv_atts sv a) then [(True, [], setAtt a ((sv_atts sv a)\<lparr>at_wake := False\<rparr>) sv)] else [])
     @ [(True, [EvComment], sv)]
     @ (case at_reason (sv_atts sv a) of None \<Rightarrow> [] | Some reason \<Rightarrow> [(False, [EvEnd reason], srvDetach n a sv)])
     @ [(False, [], srvDetach n a sv)]"

definition serveMuxStream :: "senv \<Rightarrow> PeerID \<Rightarrow> server \<Rightarrow> response \<times> server" where
  "serveMuxStream V owner sv =
     (case openMux (sn_rand V) owner sv of
        (Inl e, sv) \<Rightarrow> (Status 503, sv)
      | (Inr m, sv) \<Rightarrow> if \<not> sn_streams V then (Status 500, closeMux m sv) else (MuxEventStream m, sv))"

fun takeMembers :: "muxMember list \<Rightarrow> server \<Rightarrow> event list \<times> server" where
  "takeMembers [] sv = ([], sv)"
| "takeMembers (mem # ms) sv =
     (case srvTake (mm_peer mem) (mm_att mem) sv of
        (out, sv) \<Rightarrow>
          (case takeMembers ms sv of
             (evs, sv) \<Rightarrow> (map (\<lambda>e. EvSignal (e_id e) (e_data e)) out @ evs, sv)))"

definition muxWrite :: "nat \<Rightarrow> server \<Rightarrow> event list \<times> server" where
  "muxWrite m sv =
     (case takeMembers (snapshot m sv) sv of
        (evs, sv) \<Rightarrow> (case takeDetached m sv of (ds, sv) \<Rightarrow> (evs @ map EvMuxDetached ds, sv)))"

definition muxWait :: "nat \<Rightarrow> server \<Rightarrow> (bool \<times> event list \<times> server) list" where
  "muxWait m sv =
     (if mx_wake (sv_streams sv m) then [(True, [], setStream m ((sv_streams sv m)\<lparr>mx_wake := False\<rparr>) sv)] else [])
     @ [(True, [EvComment], sv)]
     @ (if mx_down (sv_streams sv m) then [(False, [EvEnd eventShutdown], closeMux m sv)] else [])
     @ [(False, [], closeMux m sv)]"

definition serveJoin :: "request \<Rightarrow> PeerID \<Rightarrow> server \<Rightarrow> response \<times> server" where
  "serveJoin r i sv =
     (case lookupMux (rq_MuxHeader r) sv of
        None \<Rightarrow> (Status 404, sv)
      | Some m \<Rightarrow>
          (case parseLastID (rq_LastEventID r) of
             None \<Rightarrow> (Status 400, sv)
           | Some lastID \<Rightarrow>
               (case admitPeer i sv of
                  (Inl e, sv) \<Rightarrow> (Status 503, sv)
                | (Inr n, sv) \<Rightarrow>
                    (case join m n lastID sv of
                       (False, sv) \<Rightarrow> (Status 404, sv)
                     | (True, sv) \<Rightarrow> (Status 204, sv)))))"

definition serveLeave :: "request \<Rightarrow> PeerID \<Rightarrow> server \<Rightarrow> response \<times> server" where
  "serveLeave r i sv =
     (Status 204, case lookupMux (rq_MuxHeader r) sv of None \<Rightarrow> sv | Some m \<Rightarrow> leave m i sv)"

text \<open>\<open>ServeHTTP\<close>: who is asking, then the handler of the method.\<close>

definition identify :: "request \<Rightarrow> server \<Rightarrow> response + PeerID" where
  "identify r sv =
     (case sc_Authenticator (sv_cfg sv) of
        None \<Rightarrow> Inl (Status 401)
      | Some auth \<Rightarrow>
          (case Authenticate auth r of
             Inl e \<Rightarrow> Inl (Status 401)
           | Inr i \<Rightarrow>
               if rq_PeerHeader r \<noteq> [] \<and> rq_PeerHeader r \<noteq> i then Inl (Status 403) else Inr i))"

definition ServeHTTP :: "senv \<Rightarrow> request \<Rightarrow> server \<Rightarrow> response \<times> server" where
  "ServeHTTP V r sv =
     (if sv_closed sv then (Status 503, sv)
      else case identify r sv of
        Inl status \<Rightarrow> (status, sv)
      | Inr i \<Rightarrow>
          if rq_method r = ''GET'' then
            if rq_MuxHeader r \<noteq> [] then serveMuxStream V i sv else serveStream V r i sv
          else if rq_method r = ''POST'' then serveSend V r i sv
          else if rq_method r = ''PUT'' then serveJoin r i sv
          else if rq_method r = ''DELETE'' then serveLeave r i sv
          else (Status 405, sv))"

end
