(* ===== verification/Sse_Correct.thy ===== *)
theory Sse_Correct
  imports Sse_Server
begin

text \<open>
  The interleavings of the handlers of the signaling server and what holds in all of them: peer records stay
  well-formed and bounded, and only validated signals of authenticated senders are queued, for the peer they are
  addressed to.
\<close>

subsection \<open>Interleaving\<close>

text \<open>
  The handlers, the reapers and \<open>Close\<close> take turns. Where a handler holds no lock between two actions, the actions
  are also steps of their own: admitting and attaching, the parts of \<open>join\<close>, the reaper's mark and its removal
  from the table, the parts of \<open>Close\<close>, and the two halves of a \<open>POST\<close>, so that a record can be marked, forgotten
  and replaced by a new one between the look-up of the recipient and the enqueue. The sequence numbers of a record do
  not wrap: fewer than \<open>2 ^ 64\<close> signals are accepted for it.
\<close>

inductive srv_step :: "server \<Rightarrow> server \<Rightarrow> bool" where
  vs_http: "(\<forall>n. Suc (length (sv_hist sv n)) < 2 ^ 64) \<Longrightarrow> srv_step sv (snd (ServeHTTP V r sv))"
| vs_send: "identify r sv = Inr i \<Longrightarrow> rq_method r = ''POST'' \<Longrightarrow> sendChecks V r i sv = Inr (dst, sig) \<Longrightarrow>
    srv_step sv (sv\<lparr>sv_sends := (r, dst, sig) # sv_sends sv\<rparr>)"
| vs_enqueue: "(r, dst, sig) \<in> set (sv_sends sv) \<Longrightarrow> Suc (length (sv_hist sv dst)) < 2 ^ 64 \<Longrightarrow>
    srv_step sv (snd (sendEnqueue dst sig (sv\<lparr>sv_sends := remove1 (r, dst, sig) (sv_sends sv)\<rparr>)))"
| vs_write: "srv_step sv (snd (streamWrite n a sv))"
| vs_wait: "(b, evs, sv') \<in> set (streamWait n a sv) \<Longrightarrow> srv_step sv sv'"
| vs_muxWrite: "srv_step sv (snd (muxWrite m sv))"
| vs_muxWait: "(b, evs, sv') \<in> set (muxWait m sv) \<Longrightarrow> srv_step sv sv'"
| vs_joinRecord: "srv_step sv (snd (joinRecord m n sv))"
| vs_attach: "srv_step sv (srvAttach n a lastID sv)"
| vs_joinCheck: "srv_step sv (snd (joinCheck m n a sv))"
| vs_expire: "srv_step sv (snd (srvExpire n sv))"
| vs_forget: "p_down (sv_objs sv n) \<Longrightarrow> srv_step sv (forget n sv)"
| vs_close: "srv_step sv (Server_Close sv)"
| vs_admit: "srv_step sv (snd (admitPeer i sv))"
| vs_tables: "srv_step sv (closeTables sv)"
| vs_shutdown: "srv_step sv (srvShutdown n sv)"
| vs_muxShutdown: "srv_step sv (muxShutdown m sv)"

text \<open>A Go \<open>int\<close> has 64 bits.\<close>

inductive srv_reach :: "server \<Rightarrow> bool" where
  vr_new: "NewServer cfg = Inr sv \<Longrightarrow> sc_QueueSize cfg < 2 ^ 63 \<Longrightarrow> srv_reach sv"
| vr_step: "srv_reach sv \<Longrightarrow> srv_step sv sv' \<Longrightarrow> srv_reach sv'"

subsection \<open>Invariant\<close>

text \<open>The part of the state that decides what is delivered.\<close>

definition srv_core :: "server \<Rightarrow> sseConfig \<times> (PeerID \<times> nat) list \<times> (nat \<Rightarrow> Signal peer) \<times> nat \<times> (nat \<Rightarrow> Signal list) \<times>
    (request \<times> nat \<times> Signal) list" where
  "srv_core sv = (sv_cfg sv, sv_peers sv, sv_objs sv, sv_next sv, sv_hist sv, sv_sends sv)"

lemma srv_core_simps [simp]:
  "srv_core (setStream m x sv) = srv_core sv" "srv_core (setAtt a y sv) = srv_core sv"
  "srv_core (poke a sv) = srv_core sv" "srv_core (ended m i a rs sv) = srv_core sv"
  "srv_core (endAtt b rs sv) = srv_core sv" "srv_core (snd (newAtt i mo sv)) = srv_core sv"
  "srv_core (muxShutdown m sv) = srv_core sv" "srv_core (snd (takeDetached m sv)) = srv_core sv"
  "srv_core (sv\<lparr>sv_muxes := ms, sv_mnext := k\<rparr>) = srv_core sv" "srv_core (sv\<lparr>sv_muxes := ms\<rparr>) = srv_core sv"
  by (auto simp: srv_core_def setStream_def setAtt_def poke_def ended_def endAtt_def newAtt_def muxShutdown_def
      takeDetached_def Let_def split: option.splits)

definition cfg_ok :: "sseConfig \<Rightarrow> bool" where
  "cfg_ok cfg \<longleftrightarrow> 0 < sc_QueueSize cfg \<and> sc_QueueSize cfg < 2 ^ 63 \<and> 0 < sc_ReplayDepth cfg \<and> 0 \<le> sc_MaxPeers cfg"

definition peers_ok :: "server \<Rightarrow> bool" where
  "peers_ok sv \<longleftrightarrow> (\<forall>n < sv_next sv.
     peer_ok (sc_QueueSize (sv_cfg sv)) (sc_ReplayDepth (sv_cfg sv)) (sv_hist sv n) (sv_objs sv n) \<and>
     (\<forall>sig \<in> set (sv_hist sv n). Validate sig = None \<and> sig_To sig = p_id (sv_objs sv n))) \<and>
     (\<forall>n \<ge> sv_next sv. sv_hist sv n = [])"

definition names_ok :: "server \<Rightarrow> bool" where
  "names_ok sv \<longleftrightarrow> distinct (map fst (sv_peers sv)) \<and>
     (\<forall>(i, n) \<in> set (sv_peers sv). n < sv_next sv \<and> p_id (sv_objs sv n) = i) \<and>
     (0 < sc_MaxPeers (sv_cfg sv) \<longrightarrow> int (length (sv_peers sv)) \<le> sc_MaxPeers (sv_cfg sv))"

text \<open>A signal on its way to a record is valid and addressed to the peer of the record.\<close>

definition posts_ok :: "server \<Rightarrow> bool" where
  "posts_ok sv \<longleftrightarrow> (\<forall>(r, n, sig) \<in> set (sv_sends sv).
     n < sv_next sv \<and> Validate sig = None \<and> sig_To sig = p_id (sv_objs sv n))"

definition srv_ok :: "server \<Rightarrow> bool" where
  "srv_ok sv \<longleftrightarrow> cfg_ok (sv_cfg sv) \<and> peers_ok sv \<and> names_ok sv \<and> posts_ok sv"

lemma srv_ok_cong: "srv_core sv' = srv_core sv \<Longrightarrow> srv_ok sv' = srv_ok sv"
  by (simp add: srv_core_def srv_ok_def peers_ok_def names_ok_def posts_ok_def)

text \<open>A change of one peer record that keeps it well-formed and its name.\<close>

lemma setPeer_ok:
  assumes "srv_ok sv" "p_id p = p_id (sv_objs sv n)"
    "n < sv_next sv \<Longrightarrow> peer_ok (sc_QueueSize (sv_cfg sv)) (sc_ReplayDepth (sv_cfg sv)) (sv_hist sv n) p"
  shows "srv_ok (setPeer n p sv)"
proof -
  have "peers_ok (setPeer n p sv)" using assms by (auto simp: srv_ok_def peers_ok_def setPeer_def)
  moreover have "names_ok (setPeer n p sv)" using assms(1,2) by (auto simp: srv_ok_def names_ok_def setPeer_def)
  moreover have "posts_ok (setPeer n p sv)" using assms(1,2) by (auto simp: srv_ok_def posts_ok_def setPeer_def)
  ultimately show ?thesis using assms(1) by (simp add: srv_ok_def setPeer_def)
qed

lemma srv_peer: "srv_ok sv \<Longrightarrow> n < sv_next sv \<Longrightarrow>
    peer_ok (sc_QueueSize (sv_cfg sv)) (sc_ReplayDepth (sv_cfg sv)) (sv_hist sv n) (sv_objs sv n)"
  by (simp add: srv_ok_def peers_ok_def)

lemma takeUnsent_keeps:
  assumes "peer_ok Q D hist p" "0 \<le> Q" "0 \<le> D"
  shows "peer_ok Q D hist (snd (takeUnsent D a p))"
proof (cases "p_stream p = Some a \<and> \<not> p_down p")
  case True
  then show ?thesis using takeUnsent_ok(2) [OF assms(1,3,2), of a] by (metis prod.collapse)
next
  case False
  then show ?thesis using assms by (auto simp: takeUnsent_def Let_def peer_ok_def)
qed

lemma peer_names [simp]:
  "p_id (snd (attach a l p)) = p_id p" "p_id (detach a p) = p_id p" "p_id (snd (takeUnsent D a p)) = p_id p"
  "p_id (snd (expire p)) = p_id p" "p_id (snd (shutdown p)) = p_id p" "p_id (snd (enqueue Q x p)) = p_id p"
  by (simp_all add: attach_def detach_def takeUnsent_def expire_def shutdown_def enqueue_def Let_def)

lemma srvDetach_ok: "srv_ok sv \<Longrightarrow> srv_ok (srvDetach n a sv)"
  unfolding srvDetach_def by (rule setPeer_ok) (auto intro: detach_ok srv_peer)

text \<open>Ending an attachment first makes no difference.\<close>

lemma endSet_ok:
  assumes s: "srv_ok sv" and "p_id p = p_id (sv_objs sv n)"
    "n < sv_next sv \<Longrightarrow> peer_ok (sc_QueueSize (sv_cfg sv)) (sc_ReplayDepth (sv_cfg sv)) (sv_hist sv n) p"
  shows "srv_ok (setPeer n p (endAtt old rs sv))"
proof -
  have c: "srv_core (endAtt old rs sv) = srv_core sv" by simp
  then have "sv_objs (endAtt old rs sv) = sv_objs sv" "sv_next (endAtt old rs sv) = sv_next sv"
    "sv_cfg (endAtt old rs sv) = sv_cfg sv" "sv_hist (endAtt old rs sv) = sv_hist sv"
    by (simp_all add: srv_core_def)
  then show ?thesis using assms srv_ok_cong [OF c] by (intro setPeer_ok) simp_all
qed

lemma srvAttach_ok: "srv_ok sv \<Longrightarrow> srv_ok (srvAttach n a l sv)"
proof -
  assume s: "srv_ok sv"
  obtain old p where a: "attach a l (sv_objs sv n) = (old, p)" by fastforce
  have "srv_ok (setPeer n p (endAtt old eventReplaced sv))"
  proof (rule endSet_ok [OF s])
    show "p_id p = p_id (sv_objs sv n)" using peer_names(1) [of a l "sv_objs sv n"] a by simp
    show "peer_ok (sc_QueueSize (sv_cfg sv)) (sc_ReplayDepth (sv_cfg sv)) (sv_hist sv n) p" if "n < sv_next sv"
      using attach_ok [OF srv_peer [OF s that] a] .
  qed
  then show ?thesis using srv_ok_cong [OF srv_core_simps(3)] by (simp add: srvAttach_def a)
qed

lemma srvShutdown_ok: "srv_ok sv \<Longrightarrow> srv_ok (srvShutdown n sv)"
proof -
  assume s: "srv_ok sv"
  have "srv_ok (setPeer n (snd (shutdown (sv_objs sv n))) (endAtt (fst (shutdown (sv_objs sv n))) eventShutdown sv))"
    by (rule endSet_ok [OF s]) (auto intro: shutdown_ok srv_peer [OF s])
  then show ?thesis by (simp add: srvShutdown_def case_prod_beta)
qed

lemma srvTake_ok: "srv_ok sv \<Longrightarrow> srv_ok (snd (srvTake n a sv))"
proof -
  assume s: "srv_ok sv"
  then have "0 \<le> sc_QueueSize (sv_cfg sv)" "0 \<le> sc_ReplayDepth (sv_cfg sv)" by (simp_all add: srv_ok_def cfg_ok_def)
  then have "srv_ok (setPeer n (snd (takeUnsent (sc_ReplayDepth (sv_cfg sv)) a (sv_objs sv n))) sv)"
    using s by (intro setPeer_ok) (auto intro: takeUnsent_keeps srv_peer)
  then show ?thesis by (simp add: srvTake_def case_prod_beta)
qed

lemma srvExpire_ok: "srv_ok sv \<Longrightarrow> srv_ok (snd (srvExpire n sv))"
proof -
  assume s: "srv_ok sv"
  then have "srv_ok (setPeer n (snd (expire (sv_objs sv n))) sv)"
    by (intro setPeer_ok) (auto intro: expire_ok srv_peer)
  then show ?thesis by (simp add: srvExpire_def case_prod_beta)
qed

text \<open>A queued signal joins the history of its record.\<close>

lemma srvEnqueue_ok:
  assumes s: "srv_ok sv" and n: "n < sv_next sv" and v: "Validate sig = None" "sig_To sig = p_id (sv_objs sv n)"
    and b: "Suc (length (sv_hist sv n)) < 2 ^ 64"
  shows "srv_ok (snd (srvEnqueue n sig sv))"
proof -
  obtain ok p where e: "enqueue (sc_QueueSize (sv_cfg sv)) sig (sv_objs sv n) = (ok, p)" by fastforce
  have c: "0 \<le> sc_QueueSize (sv_cfg sv)" "sc_QueueSize (sv_cfg sv) < 2 ^ 63" using s by (simp_all add: srv_ok_def cfg_ok_def)
  have k: "peer_ok (sc_QueueSize (sv_cfg sv)) (sc_ReplayDepth (sv_cfg sv))
      (if ok then sv_hist sv n @ [sig] else sv_hist sv n) p"
    using enqueue_ok [OF srv_peer [OF s n] c e b] .
  have i: "p_id p = p_id (sv_objs sv n)" using peer_names(6) [of "sc_QueueSize (sv_cfg sv)" sig "sv_objs sv n"] e by simp
  let ?sv = "(setPeer n p sv)\<lparr>sv_hist := (sv_hist sv)(n := sv_hist sv n @ [sig])\<rparr>"
  have "srv_ok ?sv" if ok
  proof -
    have "peers_ok ?sv" using s n v k that i by (auto simp: srv_ok_def peers_ok_def setPeer_def)
    moreover have "names_ok ?sv" using s i by (auto simp: srv_ok_def names_ok_def setPeer_def)
    moreover have "posts_ok ?sv" using s i by (auto simp: srv_ok_def posts_ok_def setPeer_def)
    ultimately show ?thesis using s by (simp add: srv_ok_def setPeer_def)
  qed
  then show ?thesis using s srv_ok_cong [OF srv_core_simps(3), of _ ?sv]
    by (auto simp: srvEnqueue_def e Let_def split: bool.splits option.splits)
qed

lemma admitPeer_ok: "srv_ok sv \<Longrightarrow> srv_ok (snd (admitPeer i sv))"
proof -
  assume s: "srv_ok sv"
  let ?n = "sv_next sv"
  let ?sv = "setPeer ?n (newPeer i) (sv\<lparr>sv_peers := (i, ?n) # sv_peers sv, sv_next := ?n + 1\<rparr>)"
  have "srv_ok ?sv" if new: "map_of (sv_peers sv) i = None"
    and room: "\<not> (sc_MaxPeers (sv_cfg sv) > 0 \<and> int (length (sv_peers sv)) \<ge> sc_MaxPeers (sv_cfg sv))"
  proof -
    have "peer_ok (sc_QueueSize (sv_cfg sv)) (sc_ReplayDepth (sv_cfg sv)) [] (newPeer i)"
      using s by (intro newPeer_ok) (simp_all add: srv_ok_def cfg_ok_def)
    then have "peers_ok ?sv" using s by (auto simp: srv_ok_def peers_ok_def setPeer_def less_Suc_eq)
    moreover have "names_ok ?sv" using s new room
      by (auto simp: srv_ok_def names_ok_def setPeer_def newPeer_def map_of_eq_None_iff)
    moreover have "posts_ok ?sv" using s by (auto simp: srv_ok_def posts_ok_def setPeer_def)
    ultimately show ?thesis using s by (simp add: srv_ok_def setPeer_def)
  qed
  then show ?thesis using s by (auto simp: admitPeer_def Let_def split: option.splits)
qed

lemma srv_shrink:
  assumes "srv_ok sv"
  shows "srv_ok (sv\<lparr>sv_peers := filter P (sv_peers sv)\<rparr>)"
proof -
  have "int (length (filter P (sv_peers sv))) \<le> k" if "int (length (sv_peers sv)) \<le> k" for k
    using that length_filter_le [of P "sv_peers sv"] by linarith
  then show ?thesis using assms by (auto simp: srv_ok_def peers_ok_def names_ok_def posts_ok_def distinct_map_filter)
qed

lemma forget_ok: "srv_ok sv \<Longrightarrow> srv_ok (forget n sv)"
  using srv_shrink [of sv] by (simp add: forget_def Let_def)

text \<open>Multiplexed streams touch the peer records only by attaching and detaching.\<close>

lemma detachMembers_ok: "srv_ok sv \<Longrightarrow> srv_ok (fold detachMember ms sv)"
  by (induction ms arbitrary: sv) (simp_all add: detachMember_def srvDetach_ok)

lemma srv_ok_simps [simp]:
  "srv_ok (setStream m x sv) = srv_ok sv" "srv_ok (setAtt a y sv) = srv_ok sv" "srv_ok (muxShutdown m sv) = srv_ok sv"
  "srv_ok (snd (takeDetached m sv)) = srv_ok sv" "srv_ok (sv\<lparr>sv_muxes := ms\<rparr>) = srv_ok sv"
  "srv_ok (sv\<lparr>sv_muxes := ms, sv_mnext := k\<rparr>) = srv_ok sv" "srv_ok (snd (newAtt i mo sv)) = srv_ok sv"
  by (intro srv_ok_cong srv_core_simps)+

lemma closeMux_ok: "srv_ok sv \<Longrightarrow> srv_ok (closeMux m sv)"
  by (simp add: closeMux_def Let_def detachMembers_ok)

lemma openMux_ok: "srv_ok sv \<Longrightarrow> srv_ok (snd (openMux buf owner sv))"
  by (simp add: openMux_def Let_def)

lemma joinRecord_ok: "srv_ok sv \<Longrightarrow> srv_ok (snd (joinRecord m n sv))"
proof -
  assume s: "srv_ok sv"
  obtain a sv' where a: "newAtt (p_id (sv_objs sv n)) (Some m) sv = (a, sv')" by fastforce
  then have "srv_ok sv'" using s srv_ok_simps(7) [of "p_id (sv_objs sv n)" "Some m" sv] by simp
  then show ?thesis using s by (auto simp: joinRecord_def Let_def a detachMember_def intro!: srvDetach_ok split: option.splits)
qed

lemma join_ok: "srv_ok sv \<Longrightarrow> srv_ok (snd (join m n l sv))"
  using joinRecord_ok [of sv m n]
  by (auto simp: join_def joinCheck_def intro!: srvDetach_ok srvAttach_ok split: prod.splits option.splits)

lemma leave_ok: "srv_ok sv \<Longrightarrow> srv_ok (leave m i sv)"
  by (auto simp: leave_def Let_def detachMember_def intro!: srvDetach_ok split: option.splits)

lemma takeMembers_ok: "srv_ok sv \<Longrightarrow> srv_ok (snd (takeMembers ms sv))"
proof (induction ms arbitrary: sv)
  case (Cons mem ms)
  obtain out sv' where t: "srvTake (mm_peer mem) (mm_att mem) sv = (out, sv')" by fastforce
  then have "srv_ok sv'" using srvTake_ok [OF Cons.prems, of "mm_peer mem" "mm_att mem"] by simp
  then show ?case using Cons.IH [of sv'] by (simp add: t case_prod_beta)
qed simp

lemma muxWrite_ok: "srv_ok sv \<Longrightarrow> srv_ok (snd (muxWrite m sv))"
  using takeMembers_ok [of sv "snapshot m sv"] by (simp add: muxWrite_def case_prod_beta)

lemma closeTables_ok: "srv_ok sv \<Longrightarrow> srv_ok (closeTables sv)"
  by (simp add: closeTables_def srv_ok_def peers_ok_def names_ok_def posts_ok_def)

lemma Server_Close_ok: "srv_ok sv \<Longrightarrow> srv_ok (Server_Close sv)"
proof -
  assume "srv_ok sv"
  then have "srv_ok (closeTables sv)" by (rule closeTables_ok)
  moreover have "srv_ok (fold srvShutdown ns sv')" if "srv_ok sv'" for ns sv'
    using that by (induction ns arbitrary: sv') (simp_all add: srvShutdown_ok)
  moreover have "srv_ok (fold muxShutdown ms sv')" if "srv_ok sv'" for ms sv'
    using that by (induction ms arbitrary: sv') simp_all
  ultimately show ?thesis by (simp add: Server_Close_def)
qed

subsection \<open>The handlers\<close>

lemma lookupPeer_ok: "srv_ok sv \<Longrightarrow> lookupPeer i sv = Some n \<Longrightarrow> n < sv_next sv \<and> p_id (sv_objs sv n) = i"
  by (auto simp: lookupPeer_def srv_ok_def names_ok_def dest!: map_of_SomeD)

lemma sendEnqueue_ok: "srv_ok (snd (srvEnqueue n sig sv)) \<Longrightarrow> srv_ok (snd (sendEnqueue n sig sv))"
  by (simp add: sendEnqueue_def case_prod_beta split: bool.splits)

lemma sendChecks_sound:
  assumes "sendChecks V r i sv = Inr (dst, sig)"
  shows "rq_body r = BodySignal sig" "sig_From sig = i" "Validate sig = None" "lookupPeer (sig_To sig) sv = Some dst"
  using assms by (auto simp: sendChecks_def split: requestBody.splits option.splits if_splits)

lemma serveSend_ok:
  assumes s: "srv_ok sv" and b: "\<forall>n. Suc (length (sv_hist sv n)) < 2 ^ 64"
  shows "srv_ok (snd (serveSend V r i sv))"
proof (cases "sendChecks V r i sv")
  case (Inr c)
  then obtain dst sig where c: "sendChecks V r i sv = Inr (dst, sig)" by (cases c) simp
  note k = sendChecks_sound [OF c]
  have "srv_ok (snd (sendEnqueue dst sig sv))"
    using lookupPeer_ok [OF s k(4)] k(3) b by (intro sendEnqueue_ok srvEnqueue_ok [OF s]) simp_all
  then show ?thesis by (simp add: serveSend_def c)
qed (use s in \<open>simp add: serveSend_def\<close>)

text \<open>The two halves of a \<open>POST\<close> that other handlers run in between.\<close>

lemma send_half_ok:
  assumes s: "srv_ok sv" and c: "sendChecks V r i sv = Inr (dst, sig)"
  shows "srv_ok (sv\<lparr>sv_sends := (r, dst, sig) # sv_sends sv\<rparr>)"
  using s lookupPeer_ok [OF s sendChecks_sound(4) [OF c]] sendChecks_sound(3) [OF c]
  by (auto simp: srv_ok_def peers_ok_def names_ok_def posts_ok_def)

lemma enqueue_half_ok:
  assumes s: "srv_ok sv" and m: "(r, dst, sig) \<in> set (sv_sends sv)" and b: "Suc (length (sv_hist sv dst)) < 2 ^ 64"
  shows "srv_ok (snd (sendEnqueue dst sig (sv\<lparr>sv_sends := remove1 (r, dst, sig) (sv_sends sv)\<rparr>)))"
proof -
  let ?sv = "sv\<lparr>sv_sends := remove1 (r, dst, sig) (sv_sends sv)\<rparr>"
  have "\<forall>c \<in> set (sv_sends ?sv). c \<in> set (sv_sends sv)" using set_remove1_subset by fastforce
  then have "srv_ok ?sv" using s by (auto simp: srv_ok_def peers_ok_def names_ok_def posts_ok_def)
  then show ?thesis using s m b by (intro sendEnqueue_ok srvEnqueue_ok) (auto simp: srv_ok_def posts_ok_def)
qed

lemma serveStream_ok: "srv_ok sv \<Longrightarrow> srv_ok (snd (serveStream V r i sv))"
proof -
  assume "srv_ok sv"
  then have "srv_ok (snd (admitPeer i sv))" by (rule admitPeer_ok)
  then show ?thesis by (auto simp: serveStream_def case_prod_beta intro!: srvAttach_ok split: sum.splits option.splits)
qed

lemma serveMuxStream_ok: "srv_ok sv \<Longrightarrow> srv_ok (snd (serveMuxStream V i sv))"
  using openMux_ok [of sv "sn_rand V" i]
  by (auto simp: serveMuxStream_def case_prod_beta intro!: closeMux_ok split: sum.splits)

lemma serveJoin_ok: "srv_ok sv \<Longrightarrow> srv_ok (snd (serveJoin r i sv))"
  using admitPeer_ok [of sv i]
  by (auto simp: serveJoin_def case_prod_beta intro!: join_ok split: sum.splits option.splits bool.splits)

lemma ServeHTTP_ok:
  "srv_ok sv \<Longrightarrow> \<forall>n. Suc (length (sv_hist sv n)) < 2 ^ 64 \<Longrightarrow> srv_ok (snd (ServeHTTP V r sv))"
  by (auto simp: ServeHTTP_def serveLeave_def serveMuxStream_ok serveStream_ok serveSend_ok serveJoin_ok
      intro!: leave_ok split: option.splits sum.splits)

lemma srv_step_ok: "srv_step sv sv' \<Longrightarrow> srv_ok sv \<Longrightarrow> srv_ok sv'"
proof (induction rule: srv_step.induct)
  case (vs_write sv n a)
  then show ?case using srvTake_ok by (simp add: streamWrite_def case_prod_beta)
next
  case (vs_wait b evs sv' n a sv)
  then show ?case by (auto simp: streamWait_def srvDetach_ok split: if_splits option.splits)
next
  case (vs_muxWait b evs sv' m sv)
  then show ?case by (auto simp: muxWait_def closeMux_ok split: if_splits)
next
  case (vs_joinCheck sv m n a)
  then show ?case by (simp add: joinCheck_def srvDetach_ok)
qed (simp_all add: ServeHTTP_ok send_half_ok enqueue_half_ok muxWrite_ok joinRecord_ok srvAttach_ok srvExpire_ok forget_ok Server_Close_ok
    admitPeer_ok closeTables_ok srvShutdown_ok)

lemma NewServer_ok: "NewServer cfg = Inr sv \<Longrightarrow> sc_QueueSize cfg < 2 ^ 63 \<Longrightarrow> srv_ok sv"
  by (auto simp: NewServer_def Let_def srv_ok_def peers_ok_def names_ok_def posts_ok_def cfg_ok_def DefaultQueueSize_def
      DefaultReplayDepth_def split: if_splits)

lemma srv_reach_ok: "srv_reach sv \<Longrightarrow> srv_ok sv"
  by (induction rule: srv_reach.induct) (auto intro: NewServer_ok srv_step_ok)

subsection \<open>What the server guarantees\<close>

lemma peer_log:
  assumes "peer_ok Q D hist p" "0 \<le> Q" "0 \<le> D" "p_log p \<noteq> []"
  shows "int (length (p_log p)) \<le> Q + D" "e \<in> set (p_log p) \<Longrightarrow> e_data e \<in> set hist"
    "sorted_wrt (<) (map e_id (p_log p))"
proof -
  obtain k where k: "p_log p = entries hist k (length hist)" "length hist \<le> k + nat Q + nat D"
    and n: "length hist < 2 ^ 64" using assms(1,4) by (auto simp: peer_ok_def)
  show "int (length (p_log p)) \<le> Q + D" using k assms(2,3) by simp
  show "e_data e \<in> set hist" if "e \<in> set (p_log p)" using that unfolding k(1) by (auto simp: entries_def)
  have w: "(of_nat (Suc i) :: u64) < of_nat (Suc j)" if "i < j" "j < length hist" for i j
    using that n by (subst word_above) (simp_all add: unat_seq del: of_nat_Suc)
  show "sorted_wrt (<) (map e_id (p_log p))" unfolding k(1) sorted_wrt_iff_nth_less
    by (auto simp: entries_def simp del: of_nat_Suc intro!: w)
qed

text \<open>C34: The server's state is well-formed in every interleaving of its handlers, reapers and \<open>Close\<close>. Every
  registered identity names one peer record, of that identity; its log holds at most \<open>QueueSize + ReplayDepth\<close>
  entries, numbered in ascending order, and every one is a valid signal addressed to that identity; and there are
  at most \<open>MaxPeers\<close> records when a limit is set.\<close>

theorem server_wellformed:
  assumes "srv_reach sv" "(i, n) \<in> set (sv_peers sv)"
  shows "map_of (sv_peers sv) i = Some n \<and> p_id (sv_objs sv n) = i \<and>
    int (length (p_log (sv_objs sv n))) \<le> sc_QueueSize (sv_cfg sv) + sc_ReplayDepth (sv_cfg sv) \<and>
    sorted_wrt (<) (map e_id (p_log (sv_objs sv n))) \<and>
    (\<forall>e \<in> set (p_log (sv_objs sv n)). Validate (e_data e) = None \<and> sig_To (e_data e) = i) \<and>
    (0 < sc_MaxPeers (sv_cfg sv) \<longrightarrow> int (length (sv_peers sv)) \<le> sc_MaxPeers (sv_cfg sv))"
proof -
  have ok: "srv_ok sv" by (rule srv_reach_ok [OF assms(1)])
  then have c: "0 \<le> sc_QueueSize (sv_cfg sv)" "0 \<le> sc_ReplayDepth (sv_cfg sv)" by (simp_all add: srv_ok_def cfg_ok_def)
  have n: "n < sv_next sv" "p_id (sv_objs sv n) = i" "map_of (sv_peers sv) i = Some n"
    "0 < sc_MaxPeers (sv_cfg sv) \<longrightarrow> int (length (sv_peers sv)) \<le> sc_MaxPeers (sv_cfg sv)"
    using ok assms(2) by (auto simp: srv_ok_def names_ok_def)
  have v: "\<forall>sig \<in> set (sv_hist sv n). Validate sig = None \<and> sig_To sig = i"
    using ok n(1,2) by (auto simp: srv_ok_def peers_ok_def)
  show ?thesis
  proof (cases "p_log (sv_objs sv n) = []")
    case False
    show ?thesis using n v peer_log [OF srv_peer [OF ok n(1)] c False] by blast
  qed (use n c in simp)
qed

text \<open>A server with two connected peers; one of them posts a signal to the other.\<close>

definition ex_sse_cfg :: sseConfig where
  "ex_sse_cfg = \<lparr> sc_Authenticator = Some (StaticTokens [(''t1'', ''a''), (''t2'', ''b'')]), sc_QueueSize = 8,
     sc_ReplayDepth = 4, sc_OfflineGrace = 1, sc_KeepAlive = 1, sc_MaxPeers = 2 \<rparr>"

definition ex_senv :: senv where
  "ex_senv = \<lparr> sn_marshalFails = False, sn_streams = True, sn_rand = [] \<rparr>"

definition ex_get :: request where
  "ex_get = \<lparr> rq_method = ''GET'', rq_Authorization = ''Bearer t2'', rq_PeerHeader = ''b'', rq_MuxHeader = [],
     rq_LastEventID = [], rq_body = BodyUnreadable \<rparr>"

definition ex_post :: request where
  "ex_post = \<lparr> rq_method = ''POST'', rq_Authorization = ''bearer t1'', rq_PeerHeader = [], rq_MuxHeader = [],
     rq_LastEventID = [], rq_body = BodySignal ex_signal \<rparr>"

definition ex_server_new :: server where
  "ex_server_new = (case NewServer ex_sse_cfg of Inr sv \<Rightarrow> sv)"

definition ex_server :: server where
  "ex_server = snd (ServeHTTP ex_senv ex_get ex_server_new)"

definition ex_server_sent :: server where
  "ex_server_sent = snd (ServeHTTP ex_senv ex_post ex_server)"

lemma ex_tokens: "trimSpace ''t1'' = ''t1''" "trimSpace ''t2'' = ''t2''"
  by (simp_all add: trimSpace_def trim_space_def rune_eval is_space_def string_of_bytes_def char_of_byte_def
      char_of_eq_iff take_bit_eq_mod)

lemma ex_bearer: "BearerToken ex_get = Some ''t2''" "BearerToken ex_post = Some ''t1''"
  using ex_tokens by (simp_all add: ex_get_def ex_post_def BearerToken_def equalFold_def lowerChar_def Let_def
      char_of_eq_iff take_bit_eq_mod)

lemma ex_auth:
  "Authenticate (StaticTokens [(''t1'', ''a''), (''t2'', ''b'')]) ex_get = Inr ''b''"
  "Authenticate (StaticTokens [(''t1'', ''a''), (''t2'', ''b'')]) ex_post = Inr ''a''"
  by (simp_all add: ex_bearer tokenTable_def)

lemmas ex_server_defs = ServeHTTP_def identify_def serveStream_def admitPeer_def parseLastID_def newAtt_def srvAttach_def
  srvEnqueue_def attach_def enqueue_def endAtt_def poke_def setPeer_def setAtt_def newPeer_def lookupPeer_def
  ex_sse_cfg_def ex_senv_def Let_def

lemma ex_new: "NewServer ex_sse_cfg = Inr ex_server_new" "sv_cfg ex_server_new = ex_sse_cfg" "\<not> sv_closed ex_server_new"
  "sv_peers ex_server_new = []" "sv_next ex_server_new = 0" "sv_anext ex_server_new = 0" "sv_hist ex_server_new = (\<lambda>_. [])"
  "sv_sends ex_server_new = []"
  by (simp_all add: ex_server_new_def NewServer_def ex_sse_cfg_def)

lemma ex_server_facts:
  "sv_cfg ex_server = ex_sse_cfg" "\<not> sv_closed ex_server" "sv_peers ex_server = [(''b'', 0)]"
  "sv_hist ex_server = (\<lambda>_. [])" "sv_objs ex_server 0 = (newPeer ''b'')\<lparr>p_stream := Some 0, p_reaper := False\<rparr>"
  "at_mux (sv_atts ex_server 0) = None" "sv_sends ex_server = []"
  using ex_auth(1) by (simp_all add: ex_server_def ex_server_defs ex_new) (simp_all add: ex_get_def ex_new)

lemma ex_sent_facts:
  "fst (ServeHTTP ex_senv ex_post ex_server) = Status 202" "sv_hist ex_server_sent 0 = [ex_signal]"
  "sv_peers ex_server_sent = [(''b'', 0)]" "sv_cfg ex_server_sent = ex_sse_cfg"
  "p_log (sv_objs ex_server_sent 0) = [\<lparr> e_id = 1, e_data = ex_signal \<rparr>]" "p_stream (sv_objs ex_server_sent 0) = Some 0"
proof -
  have s: "sig_To ex_signal = ''b''" "sig_From ex_signal = ''a''" by (simp_all add: ex_signal_def)
  have r: "rq_body ex_post = BodySignal ex_signal" "rq_method ex_post = ''POST''" "rq_PeerHeader ex_post = []"
    by (simp_all add: ex_post_def)
  have l: "lookupPeer ''b'' ex_server = Some 0" by (simp add: lookupPeer_def ex_server_facts)
  let ?p = "(newPeer ''b'')\<lparr>p_stream := Some 0, p_reaper := False, p_seq := 1, p_log := [\<lparr> e_id = 1, e_data = ex_signal \<rparr>]\<rparr>"
  have e: "enqueue 8 ex_signal (sv_objs ex_server 0) = (True, ?p)"
    by (simp add: enqueue_def ex_server_facts newPeer_def)
  let ?sv = "poke 0 ((setPeer 0 ?p ex_server)\<lparr>sv_hist := (sv_hist ex_server)(0 := [ex_signal])\<rparr>)"
  have "srvEnqueue 0 ex_signal ex_server = (True, ?sv)"
    using e by (simp add: srvEnqueue_def ex_server_facts ex_sse_cfg_def Let_def newPeer_def)
  then have h: "ServeHTTP ex_senv ex_post ex_server = (Status 202, ?sv)"
    using ex_auth(2) l
    by (simp add: ServeHTTP_def identify_def serveSend_def sendChecks_def sendEnqueue_def ex_server_facts ex_sse_cfg_def r s ex_signal_valid ex_senv_def)
  then show "fst (ServeHTTP ex_senv ex_post ex_server) = Status 202" "sv_hist ex_server_sent 0 = [ex_signal]"
    "sv_peers ex_server_sent = [(''b'', 0)]" "sv_cfg ex_server_sent = ex_sse_cfg"
    "p_log (sv_objs ex_server_sent 0) = [\<lparr> e_id = 1, e_data = ex_signal \<rparr>]" "p_stream (sv_objs ex_server_sent 0) = Some 0"
    by (simp_all add: ex_server_sent_def poke_def setPeer_def setAtt_def ex_server_facts split: option.splits)
qed

lemma ex_server_reach: "srv_reach ex_server" "srv_reach ex_server_sent"
proof -
  have "srv_reach ex_server_new" by (rule vr_new [OF ex_new(1)]) (simp add: ex_sse_cfg_def)
  then show r: "srv_reach ex_server" unfolding ex_server_def by (rule vr_step) (rule vs_http, simp add: ex_new)
  show "srv_reach ex_server_sent" unfolding ex_server_sent_def
    by (rule vr_step [OF r]) (rule vs_http, simp add: ex_server_facts)
qed

theorem server_wellformed_witness:
  "p_log (sv_objs ex_server_sent 0) = [\<lparr> e_id = 1, e_data = ex_signal \<rparr>] \<and>
   Validate ex_signal = None \<and> sig_To ex_signal = p_id (sv_objs ex_server_sent 0)"
  using server_wellformed [OF ex_server_reach(2), of "''b''" 0] ex_sent_facts by simp

text \<open>Only a \<open>POST\<close> adds to what a peer has been sent or is about to be sent.\<close>

definition srv_log :: "server \<Rightarrow> (nat \<Rightarrow> Signal list) \<times> (request \<times> nat \<times> Signal) list" where
  "srv_log sv = (sv_hist sv, sv_sends sv)"

lemma srv_log_upd [simp]:
  "srv_log (sv\<lparr>sv_peers := ps\<rparr>) = srv_log sv" "srv_log (sv\<lparr>sv_next := k\<rparr>) = srv_log sv"
  "srv_log (sv\<lparr>sv_muxes := ms\<rparr>) = srv_log sv" "srv_log (sv\<lparr>sv_mnext := k\<rparr>) = srv_log sv"
  "srv_log (sv\<lparr>sv_closed := b\<rparr>) = srv_log sv"
  by (simp_all add: srv_log_def)

lemma log_basic [simp]:
  "srv_log (setPeer n p sv) = srv_log sv" "srv_log (setStream m x sv) = srv_log sv" "srv_log (setAtt a y sv) = srv_log sv"
  "srv_log (poke a sv) = srv_log sv" "srv_log (endAtt b rs sv) = srv_log sv" "srv_log (snd (newAtt i mo sv)) = srv_log sv"
  "srv_log (muxShutdown m sv) = srv_log sv" "srv_log (snd (takeDetached m sv)) = srv_log sv"
  by (auto simp: srv_log_def setPeer_def setStream_def setAtt_def poke_def ended_def endAtt_def newAtt_def muxShutdown_def
      takeDetached_def Let_def split: option.splits)

lemma log_peer [simp]:
  "srv_log (srvAttach n a l sv) = srv_log sv" "srv_log (srvDetach n a sv) = srv_log sv"
  "srv_log (snd (srvTake n a sv)) = srv_log sv" "srv_log (snd (admitPeer i sv)) = srv_log sv"
  "srv_log (forget n sv) = srv_log sv" "srv_log (snd (srvExpire n sv)) = srv_log sv" "srv_log (srvShutdown n sv) = srv_log sv"
  by (auto simp: srvAttach_def srvDetach_def srvTake_def admitPeer_def forget_def srvExpire_def srvShutdown_def Let_def
      case_prod_beta split: option.splits)

lemma log_fold [simp]:
  "srv_log (fold detachMember ms sv) = srv_log sv" "srv_log (fold srvShutdown ns sv) = srv_log sv"
  "srv_log (fold muxShutdown ks sv) = srv_log sv"
proof -
  show "srv_log (fold detachMember ms sv) = srv_log sv"
    by (induction ms arbitrary: sv) (simp_all add: detachMember_def)
  show "srv_log (fold srvShutdown ns sv) = srv_log sv" by (induction ns arbitrary: sv) simp_all
  show "srv_log (fold muxShutdown ks sv) = srv_log sv" by (induction ks arbitrary: sv) simp_all
qed

lemma log_mux [simp]:
  "srv_log (snd (openMux buf i sv)) = srv_log sv" "srv_log (closeMux m sv) = srv_log sv"
  "srv_log (snd (joinCheck m n a sv)) = srv_log sv" "srv_log (leave m i sv) = srv_log sv"
  "srv_log (closeTables sv) = srv_log sv" "srv_log (Server_Close sv) = srv_log sv"
  by (auto simp: closeTables_def openMux_def closeMux_def joinCheck_def leave_def Server_Close_def detachMember_def Let_def
      split: option.splits)

lemma log_join [simp]: "srv_log (snd (joinRecord m n sv)) = srv_log sv" "srv_log (snd (join m n l sv)) = srv_log sv"
proof -
  show j: "srv_log (snd (joinRecord m n sv)) = srv_log sv"
    using log_basic(6) [of "p_id (sv_objs sv n)" "Some m" sv]
    by (auto simp: joinRecord_def Let_def detachMember_def case_prod_beta split: option.splits)
  show "srv_log (snd (join m n l sv)) = srv_log sv"
    using j by (cases "joinRecord m n sv") (auto simp: join_def split: option.splits)
qed

lemma log_write [simp]: "srv_log (snd (streamWrite n a sv)) = srv_log sv" "srv_log (snd (takeMembers ms sv)) = srv_log sv"
  "srv_log (snd (muxWrite m sv)) = srv_log sv"
proof -
  show "srv_log (snd (streamWrite n a sv)) = srv_log sv" by (simp add: streamWrite_def case_prod_beta)
  show t: "srv_log (snd (takeMembers ms sv)) = srv_log sv" for ms sv
    by (induction ms arbitrary: sv) (simp_all add: case_prod_beta)
  show "srv_log (snd (muxWrite m sv)) = srv_log sv" by (simp add: muxWrite_def case_prod_beta t)
qed

lemma log_handlers:
  "srv_log (snd (serveStream V r i sv)) = srv_log sv" "srv_log (snd (serveMuxStream V i sv)) = srv_log sv"
  "srv_log (snd (serveJoin r i sv)) = srv_log sv" "srv_log (snd (serveLeave r i sv)) = srv_log sv"
  by (auto simp: serveStream_def serveMuxStream_def serveJoin_def serveLeave_def case_prod_beta
      split: sum.splits option.splits bool.splits)

text \<open>A request that may put \<open>sig\<close> in the queue of record \<open>n\<close>: a \<open>POST\<close> of the signal by the peer that the signal
  names as its sender, while record \<open>n\<close> is the one registered for the recipient.\<close>

definition may_send :: "server \<Rightarrow> request \<Rightarrow> nat \<Rightarrow> Signal \<Rightarrow> bool" where
  "may_send sv r n sig \<longleftrightarrow> rq_method r = ''POST'' \<and> rq_body r = BodySignal sig \<and>
     (case sc_Authenticator (sv_cfg sv) of
        None \<Rightarrow> False
      | Some auth \<Rightarrow> Authenticate auth r = Inr (sig_From sig)) \<and>
     Validate sig = None \<and> map_of (sv_peers sv) (sig_To sig) = Some n"

lemma sendChecks_may_send:
  assumes "identify r sv = Inr i" "rq_method r = ''POST''" "sendChecks V r i sv = Inr (n, sig)"
  shows "may_send sv r n sig"
  using assms(1,2) sendChecks_sound [OF assms(3)]
  by (auto simp: may_send_def identify_def lookupPeer_def split: option.splits sum.splits if_splits)

lemma srvEnqueue_log:
  "sv_sends (snd (srvEnqueue k sig sv)) = sv_sends sv"
  "sv_hist (snd (srvEnqueue k sig sv)) =
     (if fst (srvEnqueue k sig sv) then (sv_hist sv)(k := sv_hist sv k @ [sig]) else sv_hist sv)"
  using log_basic(4) by (auto simp: srv_log_def srvEnqueue_def setPeer_def Let_def split: prod.splits bool.splits option.splits)

lemma sendEnqueue_log:
  "sv_sends (snd (sendEnqueue k sig sv)) = sv_sends sv"
  "sv_hist (snd (sendEnqueue k sig sv)) =
     (if fst (sendEnqueue k sig sv) = Status 202 then (sv_hist sv)(k := sv_hist sv k @ [sig]) else sv_hist sv)"
  using srvEnqueue_log [of k sig sv] by (auto simp: sendEnqueue_def split: prod.splits bool.splits)

text \<open>What a whole request does to the histories.\<close>

lemma ServeHTTP_log:
  "srv_log (snd (ServeHTTP V r sv)) = srv_log sv \<or>
   (\<exists>k sig. may_send sv r k sig \<and> sv_sends (snd (ServeHTTP V r sv)) = sv_sends sv \<and>
      sv_hist (snd (ServeHTTP V r sv)) = (sv_hist sv)(k := sv_hist sv k @ [sig]))"
proof (cases "rq_method r = ''POST'' \<and> \<not> sv_closed sv")
  case True
  show ?thesis
  proof (cases "identify r sv")
    case (Inr i)
    show ?thesis
    proof (cases "sendChecks V r i sv")
      case c: (Inr d)
      obtain k sig where d: "d = (k, sig)" by fastforce
      have s: "ServeHTTP V r sv = sendEnqueue k sig sv" using True Inr c d by (simp add: ServeHTTP_def serveSend_def)
      show ?thesis using sendChecks_may_send [of r sv i V k sig] True Inr c d sendEnqueue_log [of k sig sv]
        unfolding s by (auto simp: srv_log_def split: if_splits)
    qed (use True Inr in \<open>simp add: ServeHTTP_def serveSend_def\<close>)
  qed (use True in \<open>simp add: ServeHTTP_def\<close>)
next
  case False
  then show ?thesis by (auto simp: ServeHTTP_def log_handlers split: sum.splits)
qed

text \<open>C35: Nobody speaks for another peer. In every step of the server, what has been accepted for a peer record
  changes only by one signal appended at the end, and that signal was posted: either this step is the whole \<open>POST\<close>, or
  a handler is between looking up the recipient and queueing the signal. And a handler gets there only with a request
  that authenticates as the sender the signal names, with a valid signal, while the record is the one registered for
  the recipient.\<close>

theorem server_authentic:
  assumes "srv_step sv sv'"
  shows "(sv_hist sv' n = sv_hist sv n \<or> (\<exists>r sig. sv_hist sv' n = sv_hist sv n @ [sig] \<and>
      (may_send sv r n sig \<or> (r, n, sig) \<in> set (sv_sends sv)))) \<and>
    (\<forall>(r, k, sig) \<in> set (sv_sends sv') - set (sv_sends sv). may_send sv r k sig)"
  using assms
proof (induction rule: srv_step.induct)
  case (vs_http sv V r)
  show ?case using ServeHTTP_log [of V r sv] by (auto simp: srv_log_def)
next
  case (vs_send r sv i V dst sig)
  then show ?case using sendChecks_may_send by auto
next
  case (vs_enqueue r dst sig sv)
  then show ?case using set_remove1_subset by (fastforce simp: sendEnqueue_log)
next
  case (vs_wait b evs sv' n a sv)
  then have "srv_log sv' = srv_log sv" by (auto simp: streamWait_def split: if_splits option.splits)
  then show ?case by (simp add: srv_log_def)
next
  case (vs_muxWait b evs sv' m sv)
  then have "srv_log sv' = srv_log sv" by (auto simp: muxWait_def split: if_splits)
  then show ?case by (simp add: srv_log_def)
qed (use log_peer log_mux log_join log_write log_basic in \<open>simp_all add: srv_log_def\<close>)

text \<open>The same \<open>POST\<close> in two halves: the recipient is found, then the signal is queued.\<close>

definition ex_server_sending :: server where
  "ex_server_sending = ex_server\<lparr>sv_sends := [(ex_post, 0, ex_signal)]\<rparr>"

lemma ex_sending_step: "srv_step ex_server ex_server_sending"
proof -
  have "identify ex_post ex_server = Inr ''a''"
    using ex_auth(2) by (simp add: identify_def ex_server_facts ex_sse_cfg_def) (simp add: ex_post_def)
  moreover have "sendChecks ex_senv ex_post ''a'' ex_server = Inr (0, ex_signal)"
    by (simp add: sendChecks_def ex_post_def ex_signal_valid lookupPeer_def ex_server_facts ex_senv_def)
      (simp add: ex_signal_def)
  ultimately show ?thesis
    using vs_send [of ex_post ex_server "''a''" ex_senv 0 ex_signal]
    by (simp add: ex_server_sending_def ex_server_facts ex_post_def)
qed

theorem server_authentic_witness:
  "set (sv_sends ex_server_sending) - set (sv_sends ex_server) = {(ex_post, 0, ex_signal)} \<and>
   may_send ex_server ex_post 0 ex_signal"
  using server_authentic [OF ex_sending_step] by (auto simp: ex_server_sending_def ex_server_facts)

subsection \<open>The search from the cursor against its specification\<close>

text \<open>What a take is meant to be: every entry numbered above the cursor, and afterwards the cursor at the end and
  the last \<open>ReplayDepth\<close> entries kept.\<close>

definition takeUnsent_spec :: "int \<Rightarrow> 'a peer \<Rightarrow> 'a entry list \<times> 'a peer" where
  "takeUnsent_spec D p =
     (filter (\<lambda>e. p_sentUpTo p < e_id e) (p_log p),
      p\<lparr>p_sentUpTo := (if p_down p then p_sentUpTo p else p_seq p), p_log := drop (length (p_log p) - nat D) (p_log p)\<rparr>)"

lemma filter_entries:
  assumes "k \<le> unat s" "unat s \<le> n" "n < 2 ^ 64"
  shows "filter (\<lambda>e. s < e_id e) (entries hist k n) = entries hist (unat s) n"
proof -
  have w: "s < of_nat (Suc i) \<longleftrightarrow> unat s \<le> i" if "i < n" for i
    using that assms(3) word_above [of "Suc i" s] by (simp add: less_Suc_eq_le del: of_nat_Suc)
  have "filter (\<lambda>e. s < e_id e) (entries hist k (unat s)) = []"
    using assms w by (auto simp: entries_def filter_empty_conv simp del: of_nat_Suc)
  moreover have "filter (\<lambda>e. s < e_id e) (entries hist (unat s) n) = entries hist (unat s) n"
    using w by (auto simp: entries_def filter_id_conv simp del: of_nat_Suc)
  ultimately show ?thesis using entries_append [OF assms(1,2), of hist] by (metis append_Nil filter_append)
qed

lemma takeUnsent_log: "p_stream p = Some a \<Longrightarrow> 0 \<le> D \<Longrightarrow> takeUnsent D a p = (out, p') \<Longrightarrow>
    p' = p\<lparr>p_sentUpTo := p_sentUpTo p', p_log := drop (length (p_log p) - nat D) (p_log p)\<rparr>"
  by (cases p) (auto simp: takeUnsent_def Let_def nat_diff_distrib split: if_splits)

text \<open>C36: The backward search of \<open>takeUnsent\<close> is right. On every record of a reachable server it hands out exactly
  the logged entries numbered above the cursor, in order, moves the cursor to the last number given out and trims the
  log to the replay depth.\<close>

theorem takeUnsent_equiv:
  assumes "srv_reach sv" "n < sv_next sv" "p_stream (sv_objs sv n) = Some a"
  shows "takeUnsent (sc_ReplayDepth (sv_cfg sv)) a (sv_objs sv n) =
    takeUnsent_spec (sc_ReplayDepth (sv_cfg sv)) (sv_objs sv n)"
proof -
  let ?p = "sv_objs sv n" and ?D = "sc_ReplayDepth (sv_cfg sv)" and ?h = "sv_hist sv n"
  have ok: "srv_ok sv" by (rule srv_reach_ok [OF assms(1)])
  have c: "0 \<le> sc_QueueSize (sv_cfg sv)" "0 \<le> ?D" using ok by (simp_all add: srv_ok_def cfg_ok_def)
  note p = srv_peer [OF ok assms(2)]
  obtain out p' where t: "takeUnsent ?D a ?p = (out, p')" by fastforce
  have l: "p' = ?p\<lparr>p_sentUpTo := p_sentUpTo p', p_log := drop (length (p_log ?p) - nat ?D) (p_log ?p)\<rparr>"
    by (rule takeUnsent_log [OF assms(3) c(2) t])
  show ?thesis
  proof (cases "p_down ?p")
    case True
    then have "p_log ?p = []" using p by (simp add: peer_ok_def)
    then show ?thesis using True assms(3) c(2) by (simp add: takeUnsent_def takeUnsent_spec_def)
  next
    case False
    note k = takeUnsent_ok [OF p c(2,1) t False assms(3)]
    have h: "length ?h < 2 ^ 64" "p_seq ?p = of_nat (length ?h)" using p by (simp_all add: peer_ok_def)
    have f: "filter (\<lambda>e. p_sentUpTo ?p < e_id e) (p_log ?p) = out"
      using p False filter_entries [OF _ _ h(1)] k(1) by (auto simp: peer_ok_def)
    have "p_sentUpTo p' = p_seq ?p" using k(3) h by (simp add: word_unat_eq_iff unat_seq)
    then show ?thesis using t l f False by (simp add: takeUnsent_spec_def)
  qed
qed

theorem takeUnsent_equiv_witness:
  "takeUnsent 4 0 (sv_objs ex_server_sent 0) = takeUnsent_spec 4 (sv_objs ex_server_sent 0)"
proof -
  have "0 < sv_next ex_server_sent" using srv_reach_ok [OF ex_server_reach(2)] ex_sent_facts(3)
    by (simp add: srv_ok_def names_ok_def)
  then show ?thesis using takeUnsent_equiv [OF ex_server_reach(2), of 0 0] ex_sent_facts by (simp add: ex_sse_cfg_def)
qed

end
