(* ===== verification/Sse_Client.thy ===== *)
theory Sse_Client
  imports Sse_Server Config Queue
begin

text \<open>
  The signaling client (\<^verbatim>\<open>signaling/sse/client.go\<close>).

  \<^item> An HTTP client is a function from requests to a status or an error. Whether encoding a signal or building a
    request fails are inputs.
  \<^item> The event stream reader is a package outside the repository: a receiver has a number, opening one and reading
    from it give an event or an error. An event carries what decoding its data gives.
  \<^item> A connection is one record. \<open>cn_hand\<close> is the signal the stream goroutine is putting in the inbox, \<open>cn_got\<close> the
    history of what \<open>Receive\<close> returned. Channels that are only closed are flags.
  \<^item> The delay before a reconnect is \<open>delayFor\<close> of the theory \<open>Backoff\<close>; here the timer fires at any moment.
\<close>

subsection \<open>The client\<close>

record sseClient =
  cl_URL :: string
  cl_Token :: string
  cl_Authorize :: "(request \<Rightarrow> PeerID \<Rightarrow> request) option"
  cl_Backoff :: Backoff
  cl_Inbox :: int

definition DefaultInbox :: int where "DefaultInbox = 64"

definition inboxSize :: "sseClient \<Rightarrow> int" where
  "inboxSize c = (if cl_Inbox c > 0 then cl_Inbox c else DefaultInbox)"

definition clientBackoff :: "sseClient \<Rightarrow> Backoff" where
  "clientBackoff c =
     (let b = cl_Backoff c;
          b = (if bo_Initial b \<le> 0 then b\<lparr>bo_Initial := 500 * 10 ^ 6\<rparr> else b);
          b = (if bo_Maximum b \<le> 0 then b\<lparr>bo_Maximum := 10 * 10 ^ 9\<rparr> else b);
          b = (if bo_Maximum b < bo_Initial b then b\<lparr>bo_Maximum := bo_Initial b\<rparr> else b);
          b = (if f64_lt (bo_Factor b) (Fin 1) then b\<lparr>bo_Factor := Fin 2\<rparr> else b);
          b = (if f64_lt (bo_Jitter b) (Fin 0) \<or> f64_lt (Fin 1) (bo_Jitter b) then b\<lparr>bo_Jitter := Fin (1 / 5)\<rparr> else b)
      in b)"

text \<open>The identity headers of a request.\<close>

definition decorate :: "sseClient \<Rightarrow> PeerID \<Rightarrow> request \<Rightarrow> request" where
  "decorate c local r =
     (let r = r\<lparr>rq_PeerHeader := local\<rparr>;
          r = (if cl_Token c \<noteq> [] then r\<lparr>rq_Authorization := ''Bearer '' @ cl_Token c\<rparr> else r)
      in case cl_Authorize c of None \<Rightarrow> r | Some f \<Rightarrow> f r local)"

definition newRequest :: "string \<Rightarrow> requestBody \<Rightarrow> request" where
  "newRequest method body = \<lparr> rq_method = method, rq_Authorization = [], rq_PeerHeader = [], rq_MuxHeader = [],
     rq_LastEventID = [], rq_body = body \<rparr>"

subsection \<open>Sending\<close>

record penv =
  pe_marshal :: "gerror option"
  pe_build :: "gerror option"
  pe_do :: "request \<Rightarrow> gerror + nat"

definition postStatus :: "nat \<Rightarrow> gerror option" where
  "postStatus code =
     (if code = 202 \<or> code = 200 \<or> code = 204 then None
      else if code = 404 then Some (Wrap (Sentinel ErrPeerUnavailable))
      else if code = 401 \<or> code = 403 then Some (Wrap (Sentinel ErrUnauthorized))
      else Some (Plain ''sse: send''))"

definition postSignalHTTP :: "penv \<Rightarrow> Signal \<Rightarrow> (request \<Rightarrow> request) \<Rightarrow> gerror option" where
  "postSignalHTTP P msg deco =
     (case pe_marshal P of
        Some e \<Rightarrow> Some (Wrap e)
      | None \<Rightarrow>
          (case pe_build P of
             Some e \<Rightarrow> Some (Wrap e)
           | None \<Rightarrow>
               (case pe_do P (deco (newRequest ''POST'' (BodySignal msg))) of
                  Inl e \<Rightarrow> Some (Wrap e)
                | Inr code \<Rightarrow> postStatus code)))"

subsection \<open>A connection\<close>

record cconn =
  cn_client :: sseClient
  cn_local :: PeerID
  cn_inbox :: "Signal list"
  cn_hand :: "Signal option"
  cn_ready :: bool
  cn_closed :: bool
  cn_cancelled :: bool
  cn_done :: bool
  cn_lastID :: u64
  cn_termErr :: "gerror option"
  cn_receiver :: "nat option"
  cn_shut :: "nat list"
  cn_got :: "Signal list"

text \<open>\<open>Open\<close> up to its wait, and the ways the wait ends.\<close>

definition clientOpen :: "gerror option \<Rightarrow> PeerID \<Rightarrow> sseClient \<Rightarrow> gerror + cconn" where
  "clientOpen ctxErr local c =
     (if cl_URL c = [] then Inl (Plain ''sse: Client.URL is required'')
      else case ctxErr of
        Some e \<Rightarrow> Inl e
      | None \<Rightarrow> Inr \<lparr> cn_client = c, cn_local = local, cn_inbox = [], cn_hand = None, cn_ready = False, cn_closed = False,
          cn_cancelled = False, cn_done = False, cn_lastID = 0, cn_termErr = None, cn_receiver = None, cn_shut = [],
          cn_got = [] \<rparr>)"

definition terminal :: "cconn \<Rightarrow> gerror" where
  "terminal c = (case cn_termErr c of Some e \<Rightarrow> e | None \<Rightarrow> Sentinel ErrClosed)"

definition setTerminal :: "gerror \<Rightarrow> cconn \<Rightarrow> cconn" where
  "setTerminal e c = (if cn_termErr c = None then c\<lparr>cn_termErr := Some e\<rparr> else c)"

definition checkOpen :: "cconn \<Rightarrow> gerror option" where
  "checkOpen c = (if cn_closed c then Some (Sentinel ErrClosed) else if cn_done c then Some (terminal c) else None)"

text \<open>\<open>Close\<close>: the channel, the context, the receiver. Only the first call does this.\<close>

definition closeFlag :: "cconn \<Rightarrow> cconn" where
  "closeFlag c = c\<lparr>cn_closed := True\<rparr>"

definition closeCancel :: "cconn \<Rightarrow> cconn" where
  "closeCancel c = c\<lparr>cn_cancelled := True\<rparr>"

definition closeReceiver :: "cconn \<Rightarrow> cconn" where
  "closeReceiver c = (case cn_receiver c of None \<Rightarrow> c | Some r \<Rightarrow> c\<lparr>cn_shut := r # cn_shut c\<rparr>)"

definition clientClose :: "cconn \<Rightarrow> cconn" where
  "clientClose c = (if cn_closed c then c else closeReceiver (closeCancel (closeFlag c)))"

definition openWait :: "gerror option \<Rightarrow> cconn \<Rightarrow> (gerror option \<times> cconn) list" where
  "openWait ctxErr c =
     (if cn_ready c then [(None, c)] else [])
     @ (if cn_done c then [(Some (terminal c), c)] else [])
     @ (case ctxErr of None \<Rightarrow> [] | Some e \<Rightarrow> [(Some e, clientClose c)])"

text \<open>\<open>Send\<close>: \<open>c'\<close> is the connection when the request has come back.\<close>

definition clientSend :: "penv \<Rightarrow> Signal \<Rightarrow> cconn \<Rightarrow> cconn \<Rightarrow> gerror option" where
  "clientSend P msg c c' =
     (case checkOpen c of
        Some e \<Rightarrow> Some e
      | None \<Rightarrow>
          (case postSignalHTTP P msg (decorate (cn_client c) (cn_local c)) of
             None \<Rightarrow> None
           | Some e \<Rightarrow>
               if \<not> errors_Is e ErrPeerUnavailable \<and> \<not> errors_Is e ErrUnauthorized then
                 (case checkOpen c' of Some ce \<Rightarrow> Some ce | None \<Rightarrow> Some e)
               else Some e))"

text \<open>The inbox, a channel of capacity \<open>inboxSize\<close>.\<close>

definition cInboxPut :: "Signal \<Rightarrow> cconn \<Rightarrow> bool \<times> cconn" where
  "cInboxPut sig c =
     (if int (length (cn_inbox c)) < inboxSize (cn_client c) then (True, c\<lparr>cn_inbox := cn_inbox c @ [sig]\<rparr>) else (False, c))"

definition cInboxTake :: "cconn \<Rightarrow> Signal list \<times> cconn" where
  "cInboxTake c =
     (case cn_inbox c of
        [] \<Rightarrow> ([], c)
      | sig # rest \<Rightarrow> ([sig], c\<lparr>cn_inbox := rest, cn_got := cn_got c @ [sig]\<rparr>))"

interpretation cinbox: bounded_fifo cn_inbox cInboxPut cInboxTake "\<lambda>c. nat (inboxSize (cn_client c))"
  by unfold_locales (auto simp: cInboxPut_def cInboxTake_def split: if_splits list.splits)

text \<open>\<open>Receive\<close>: what has arrived comes first; then the ways the second \<open>select\<close> can go.\<close>

definition recvTry :: "cconn \<Rightarrow> Signal option \<times> cconn" where
  "recvTry c = (case cInboxTake c of ([sig], c') \<Rightarrow> (Some sig, c') | _ \<Rightarrow> (None, c))"

definition recvWait :: "gerror option \<Rightarrow> cconn \<Rightarrow> ((gerror + Signal) \<times> cconn) list" where
  "recvWait ctxErr c =
     (case cInboxTake c of ([sig], c') \<Rightarrow> [(Inr sig, c')] | _ \<Rightarrow> [])
     @ (if cn_closed c then [(Inl (Sentinel ErrClosed), c)] else [])
     @ (if cn_done c then [(Inl (terminal c), c)] else [])
     @ (case ctxErr of None \<Rightarrow> [] | Some e \<Rightarrow> [(Inl e, c)])"

subsection \<open>The stream goroutine\<close>

datatype eventData = DataMalformed | DataText string | DataSignal Signal | DataStream string | DataDetached PeerID

record sseMessage =
  ms_Event :: string
  ms_Id :: string
  ms_Data :: eventData

text \<open>An error of the stream reader: the server refused the request with a status, or anything else.\<close>

datatype streamError = StatusError nat | StreamFailed gerror

definition permanent :: gerror where "permanent = Wrap (Sentinel ErrPermanent)"

definition classifyStream :: "streamError \<Rightarrow> gerror" where
  "classifyStream err =
     (case err of
        StreamFailed e \<Rightarrow> Wrap e
      | StatusError code \<Rightarrow>
          if code = 401 \<or> code = 403 then Wrap2 (Sentinel ErrPermanent) (Sentinel ErrUnauthorized)
          else if code = 404 \<or> code = 405 then permanent
          else Plain ''sse: stream'')"

definition classify :: "streamError \<Rightarrow> cconn \<Rightarrow> gerror option" where
  "classify err c = (if cn_cancelled c then None else Some (classifyStream err))"

text \<open>\<open>handleEvent\<close>; a decoded signal is left in the hand, and \<open>putTurn\<close> puts it in the inbox or gives up.\<close>

definition handleEvent :: "sseMessage \<Rightarrow> cconn \<Rightarrow> gerror option \<times> cconn" where
  "handleEvent msg c =
     (if ms_Event msg = eventHello then
        (case ms_Data msg of
           DataText peer \<Rightarrow> if peer \<noteq> cn_local c then (Some permanent, c) else (None, c\<lparr>cn_ready := True\<rparr>)
         | _ \<Rightarrow> (Some permanent, c))
      else if ms_Event msg = eventSignal then
        (case ms_Data msg of
           DataSignal sig \<Rightarrow>
             let c = (if ms_Id msg \<noteq> [] then
                        (case parse_uint 64 (ms_Id msg) of Some n \<Rightarrow> c\<lparr>cn_lastID := of_nat n\<rparr> | None \<Rightarrow> c)
                      else c)
             in (None, c\<lparr>cn_hand := Some sig\<rparr>)
         | _ \<Rightarrow> (None, c))
      else if ms_Event msg = eventReplaced then (Some permanent, c)
      else if ms_Event msg = eventShutdown then (Some (Plain ''sse: server is shutting down''), c)
      else (None, c))"

definition putTurn :: "cconn \<Rightarrow> (gerror option \<times> cconn) list" where
  "putTurn c =
     (case cn_hand c of
        None \<Rightarrow> []
      | Some sig \<Rightarrow>
          (case cInboxPut sig c of (True, c') \<Rightarrow> [(None, c'\<lparr>cn_hand := None\<rparr>)] | (False, _) \<Rightarrow> [])
          @ (if cn_cancelled c then [(Some (Sentinel ContextCanceled), c\<lparr>cn_hand := None\<rparr>)] else []))"

text \<open>\<open>streamOnce\<close>: the header it resumes with, what happens with the receiver, one turn of its loop (the outer
  option: whether the loop ended), and the deferred release of the receiver.\<close>

definition resumeHeader :: "cconn \<Rightarrow> string" where
  "resumeHeader c = (if cn_lastID c > 0 then format_uint (unat (cn_lastID c)) else [])"

definition streamOpened :: "streamError + nat \<Rightarrow> cconn \<Rightarrow> gerror option option \<times> cconn" where
  "streamOpened r c =
     (case r of
        Inl err \<Rightarrow> (Some (classify err c), c)
      | Inr rcv \<Rightarrow>
          if cn_cancelled c then (Some None, c\<lparr>cn_shut := rcv # cn_shut c\<rparr>)
          else (None, c\<lparr>cn_receiver := Some rcv\<rparr>))"

definition streamTurn :: "bool \<Rightarrow> streamError + sseMessage \<Rightarrow> cconn \<Rightarrow> gerror option option \<times> cconn" where
  "streamTurn wrongType r c =
     (if wrongType then (Some (Some permanent), c)
      else case r of
        Inl err \<Rightarrow> (Some (classify err c), c)
      | Inr msg \<Rightarrow>
          if ms_Event msg = [] then (None, c)
          else (case handleEvent msg c of (None, c) \<Rightarrow> (None, c) | (Some e, c) \<Rightarrow> (Some (Some e), c)))"

definition streamEnd :: "cconn \<Rightarrow> cconn" where
  "streamEnd c = (case cn_receiver c of None \<Rightarrow> c | Some r \<Rightarrow> c\<lparr>cn_receiver := None, cn_shut := r # cn_shut c\<rparr>)"

text \<open>\<open>run\<close> after \<open>streamOnce\<close> has returned: \<open>True\<close> when it waits and connects again.\<close>

definition runTurn :: "gerror option \<Rightarrow> cconn \<Rightarrow> bool \<times> cconn" where
  "runTurn err c =
     (if cn_cancelled c then (False, c\<lparr>cn_done := True\<rparr>)
      else case err of
        None \<Rightarrow> (True, c)
      | Some e \<Rightarrow> if errors_Is e ErrPermanent then (False, (setTerminal e c)\<lparr>cn_done := True\<rparr>) else (True, c))"

definition runWait :: "cconn \<Rightarrow> (bool \<times> cconn) list" where
  "runWait c = [(True, c)] @ (if cn_cancelled c then [(False, c\<lparr>cn_done := True\<rparr>)] else [])"

end
