(* ===== verification/Sse_Resume.thy ===== *)
theory Sse_Resume
  imports Sse_Client
begin

text \<open>
  The client of \<^verbatim>\<open>client.go\<close> and the peer record of \<^verbatim>\<open>server.go\<close> joined by an event stream.
  The system implements the reconnecting client of \<open>Sse_Peer\<close>, so the application receives every accepted signal once
  and in order.
\<close>

subsection \<open>The system\<close>

record csys =
  z_conn :: cconn
  z_peer :: "Signal peer"
  z_hist :: "Signal list"
  z_wire :: "Signal entry list"
  z_att :: nat

text \<open>The event \<open>serveStream\<close> writes for an entry.\<close>

definition eventOf :: "Signal entry \<Rightarrow> sseMessage" where
  "eventOf e = \<lparr> ms_Event = eventSignal, ms_Id = format_uint (unat (e_id e)), ms_Data = DataSignal (e_data e) \<rparr>"

text \<open>The steps of the server (\<open>zs_enqueue\<close>, \<open>zs_take\<close>, \<open>zs_connect\<close>), of the network (\<open>zs_break\<close>), of the stream
  goroutine and of the callers of the connection. A reconnect is assumed to name an identifier whose successors the
  server still holds; this fails only when more than \<open>ReplayDepth\<close> entries were sent on streams that broke.\<close>

inductive csys_step :: "int \<Rightarrow> int \<Rightarrow> csys \<Rightarrow> csys \<Rightarrow> bool" for Q D where
  zs_enqueue: "enqueue Q x (z_peer z) = (b, p) \<Longrightarrow> Suc (length (z_hist z)) < 2 ^ 64 \<Longrightarrow>
    csys_step Q D z (z\<lparr>z_peer := p, z_hist := (if b then z_hist z @ [x] else z_hist z)\<rparr>)"
| zs_take: "takeUnsent D (z_att z) (z_peer z) = (out, p) \<Longrightarrow>
    csys_step Q D z (z\<lparr>z_peer := p, z_wire := z_wire z @ out\<rparr>)"
| zs_connect: "att \<noteq> z_att z \<Longrightarrow> parseLastID (resumeHeader (z_conn z)) = Some l \<Longrightarrow>
    attach att l (z_peer z) = (old, p) \<Longrightarrow>
    length (z_hist z) - length (p_log (z_peer z)) \<le> unat l \<Longrightarrow> cn_hand (z_conn z) = None \<Longrightarrow>
    csys_step Q D z (z\<lparr>z_peer := p, z_wire := [], z_att := att\<rparr>)"
| zs_break: "csys_step Q D z (z\<lparr>z_peer := detach (z_att z) (z_peer z), z_wire := [], z_att := z_att z + 1\<rparr>)"
| zs_event: "z_wire z = e # es \<Longrightarrow> cn_hand (z_conn z) = None \<Longrightarrow> \<not> cn_done (z_conn z) \<Longrightarrow>
    streamTurn False (Inr (eventOf e)) (z_conn z) = (r, c) \<Longrightarrow> csys_step Q D z (z\<lparr>z_wire := es, z_conn := c\<rparr>)"
| zs_put: "(None, c) \<in> set (putTurn (z_conn z)) \<Longrightarrow> csys_step Q D z (z\<lparr>z_conn := c\<rparr>)"
| zs_giveUp: "(Some e, c) \<in> set (putTurn (z_conn z)) \<Longrightarrow>
    csys_step Q D z (z\<lparr>z_conn := snd (runTurn (Some e) (streamEnd c))\<rparr>)"
| zs_control: "ms_Event msg \<noteq> eventSignal \<or> ms_Data msg = DataMalformed \<Longrightarrow> cn_hand (z_conn z) = None \<Longrightarrow>
    streamTurn w (Inr msg) (z_conn z) = (r, c) \<Longrightarrow> csys_step Q D z (z\<lparr>z_conn := c\<rparr>)"
| zs_over: "cn_hand (z_conn z) = None \<Longrightarrow> csys_step Q D z (z\<lparr>z_conn := snd (runTurn err (streamEnd (z_conn z)))\<rparr>)"
| zs_wait: "cn_hand (z_conn z) = None \<Longrightarrow> (b, c) \<in> set (runWait (z_conn z)) \<Longrightarrow> csys_step Q D z (z\<lparr>z_conn := c\<rparr>)"
| zs_opened: "cn_hand (z_conn z) = None \<Longrightarrow> csys_step Q D z (z\<lparr>z_conn := snd (streamOpened r (z_conn z))\<rparr>)"
| zs_recvTry: "csys_step Q D z (z\<lparr>z_conn := snd (recvTry (z_conn z))\<rparr>)"
| zs_recvWait: "(r, c) \<in> set (recvWait ctxErr (z_conn z)) \<Longrightarrow> csys_step Q D z (z\<lparr>z_conn := c\<rparr>)"
| zs_closeFlag: "csys_step Q D z (z\<lparr>z_conn := closeFlag (z_conn z)\<rparr>)"
| zs_closeCancel: "cn_closed (z_conn z) \<Longrightarrow> csys_step Q D z (z\<lparr>z_conn := closeCancel (z_conn z)\<rparr>)"
| zs_closeReceiver: "cn_cancelled (z_conn z) \<Longrightarrow> csys_step Q D z (z\<lparr>z_conn := closeReceiver (z_conn z)\<rparr>)"

inductive csys_reach :: "int \<Rightarrow> int \<Rightarrow> csys \<Rightarrow> bool" for Q D where
  zr_start: "clientOpen None i cl = Inr c \<Longrightarrow>
    csys_reach Q D \<lparr> z_conn = c, z_peer = newPeer i, z_hist = [], z_wire = [], z_att = 0 \<rparr>"
| zr_step: "csys_reach Q D z \<Longrightarrow> csys_step Q D z z' \<Longrightarrow> csys_reach Q D z'"

subsection \<open>Simulation\<close>

text \<open>Everything the goroutine took off the stream: received, in the inbox, in its hand.\<close>

definition taken :: "cconn \<Rightarrow> Signal list" where
  "taken c = cn_got c @ cn_inbox c @ (case cn_hand c of None \<Rightarrow> [] | Some sig \<Rightarrow> [sig])"

text \<open>After a connection has given up a signal its goroutine is done.\<close>

definition agrees :: "csys \<Rightarrow> Signal ssesys \<Rightarrow> bool" where
  "agrees z y \<longleftrightarrow> y_peer y = z_peer z \<and> y_hist y = z_hist z \<and> y_wire y = z_wire z \<and> y_att y = z_att z \<and>
     y_last y = cn_lastID (z_conn z) \<and>
     (\<exists>lost. map e_data (y_got y) = taken (z_conn z) @ lost \<and> (lost = [] \<or> cn_done (z_conn z) \<and> cn_hand (z_conn z) = None))"

text \<open>A step of the connection that moves no signal.\<close>

definition still :: "cconn \<Rightarrow> cconn \<Rightarrow> bool" where
  "still c c' \<longleftrightarrow> taken c' = taken c \<and> cn_hand c' = cn_hand c \<and> cn_lastID c' = cn_lastID c \<and> (cn_done c \<longrightarrow> cn_done c')"

lemma still_agrees: "agrees z y \<Longrightarrow> still (z_conn z) c \<Longrightarrow> agrees (z\<lparr>z_conn := c\<rparr>) y"
  by (auto simp: agrees_def still_def)

lemma take_still: "still c (snd (cInboxTake c))"
  by (simp add: still_def taken_def cInboxTake_def split: list.splits option.splits)

lemma recv_still: "still c (snd (recvTry c))" "(r, c') \<in> set (recvWait ctxErr c) \<Longrightarrow> still c c'"
proof -
  have r: "still c c" by (simp add: still_def)
  show "still c (snd (recvTry c))" using r take_still [of c]
    by (auto simp: recvTry_def split: prod.splits list.splits)
  show "still c c'" if "(r, c') \<in> set (recvWait ctxErr c)"
    using that r take_still [of c] by (cases "cInboxTake c") (auto simp: recvWait_def split: list.splits if_splits option.splits)
qed

lemma end_still: "cn_hand c = None \<Longrightarrow> still c (snd (runTurn err (streamEnd c)))"
  by (auto simp: still_def taken_def runTurn_def streamEnd_def setTerminal_def split: option.splits)

lemma control_still:
  "ms_Event msg \<noteq> eventSignal \<or> ms_Data msg = DataMalformed \<Longrightarrow> streamTurn w (Inr msg) c = (r, c') \<Longrightarrow> still c c'"
  by (auto simp: still_def taken_def streamTurn_def handleEvent_def split: if_splits eventData.splits)

lemma flags_still: "still c (closeFlag c)" "still c (closeCancel c)" "still c (closeReceiver c)" "still c (snd (streamOpened r c))"
  "(b, c') \<in> set (runWait c) \<Longrightarrow> still c c'"
  by (auto simp: still_def taken_def closeFlag_def closeCancel_def closeReceiver_def streamOpened_def runWait_def
      split: option.splits sum.splits)

text \<open>The header a reconnect sends is read back as the last identifier.\<close>

lemma parse_u64: "parse_uint 64 (format_uint (unat (w :: u64))) = Some (unat w)" "format_uint (unat (w :: u64)) \<noteq> []"
proof -
  have "unat w < 2 ^ 64" using unsigned_less [of w, where ?'a = nat] by simp
  then show p: "parse_uint 64 (format_uint (unat w)) = Some (unat w)" by (rule parse_format_uint)
  then show "format_uint (unat w) \<noteq> []" by (auto simp: parse_uint_def)
qed

lemma resume_header: "parseLastID (resumeHeader c) = Some (cn_lastID c)"
  using parse_u64 [of "cn_lastID c"] by (auto simp: resumeHeader_def parseLastID_def word_gt_0)

lemma event_turn:
  "streamTurn False (Inr (eventOf e)) c = (None, c\<lparr>cn_lastID := e_id e, cn_hand := Some (e_data e)\<rparr>)"
  using parse_u64 [of "e_id e"] by (auto simp: streamTurn_def handleEvent_def eventOf_def eventSignal_def eventHello_def)

lemma put_turn:
  assumes "(r, c') \<in> set (putTurn c)"
  shows "r = None \<and> taken c' = taken c \<and> cn_hand c' = None \<and> cn_lastID c' = cn_lastID c \<and> cn_done c' = cn_done c \<or>
    r \<noteq> None \<and> cn_cancelled c' \<and> (\<exists>sig. taken c = taken c' @ [sig]) \<and> cn_hand c' = None \<and> cn_lastID c' = cn_lastID c"
  using assms by (auto simp: putTurn_def cInboxPut_def taken_def split: option.splits prod.splits if_splits)

text \<open>Every step of the system is a step of the abstract one, or none.\<close>

lemma csys_simulates:
  assumes "csys_step Q D z z'" "agrees z y"
  shows "\<exists>y'. agrees z' y' \<and> (y' = y \<or> sse_step Q D y y')"
  using assms
proof (induction rule: csys_step.induct)
  case (zs_enqueue x z b p)
  then show ?case using sse_step.sy_enqueue [of Q x y b p D]
    by (intro exI [of _ "y\<lparr>y_peer := p, y_hist := (if b then y_hist y @ [x] else y_hist y)\<rparr>"]) (auto simp: agrees_def)
next
  case (zs_take z out p)
  then show ?case using sse_step.sy_take [of D y out p Q]
    by (intro exI [of _ "y\<lparr>y_peer := p, y_wire := y_wire y @ out\<rparr>"]) (auto simp: agrees_def)
next
  case (zs_connect att z l old p)
  then have "l = cn_lastID (z_conn z)" using resume_header [of "z_conn z"] by simp
  then show ?case using zs_connect sse_step.sy_connect [of att y old p Q D]
    by (intro exI [of _ "y\<lparr>y_peer := p, y_wire := [], y_att := att\<rparr>"]) (auto simp: agrees_def oldest_def)
next
  case (zs_break z)
  then show ?case using sse_step.sy_break [of Q D y]
    by (intro exI [of _ "y\<lparr>y_peer := detach (y_att y) (y_peer y), y_wire := [], y_att := y_att y + 1\<rparr>"])
      (auto simp: agrees_def)
next
  case (zs_event z e es r c)
  then show ?case using sse_step.sy_receive [of y e es Q D] event_turn [of e "z_conn z"]
    by (intro exI [of _ "y\<lparr>y_wire := es, y_got := y_got y @ [e], y_last := e_id e\<rparr>"])
      (auto simp: agrees_def taken_def)
next
  case (zs_put c z)
  then show ?case using put_turn [OF zs_put.hyps] by (intro exI [of _ y]) (auto simp: agrees_def putTurn_def split: option.splits)
next
  case (zs_giveUp e c z)
  note p = put_turn [OF zs_giveUp.hyps]
  let ?c = "snd (runTurn (Some e) (streamEnd c))"
  have "cn_hand (z_conn z) \<noteq> None" using zs_giveUp.hyps by (cases "cn_hand (z_conn z)") (simp_all add: putTurn_def)
  moreover have "taken ?c = taken c" "cn_hand ?c = None" "cn_lastID ?c = cn_lastID c"
    using end_still [of c "Some e"] p by (auto simp: still_def)
  moreover have "cn_done ?c" using p by (auto simp: runTurn_def streamEnd_def split: option.splits)
  ultimately show ?case using zs_giveUp.prems p by (intro exI [of _ y]) (auto simp: agrees_def)
next
  case (zs_control msg z w r c)
  then show ?case using still_agrees control_still by blast
qed (use still_agrees end_still recv_still flags_still in blast)+

lemma csys_reach_sim: "csys_reach Q D z \<Longrightarrow> \<exists>y. sse_reach Q D y \<and> agrees z y"
proof (induction rule: csys_reach.induct)
  case (zr_start i cl c)
  then have "agrees \<lparr> z_conn = c, z_peer = newPeer i, z_hist = [], z_wire = [], z_att = 0 \<rparr> (sse_start i)"
    by (auto simp: agrees_def taken_def sse_start_def clientOpen_def split: if_splits)
  then show ?case using sr_start by blast
next
  case (zr_step z z')
  then show ?case using csys_simulates sr_step by metis
qed

subsection \<open>What the application receives\<close>


text \<open>A signal arrives, its stream breaks before the next one is sent, and the client connects again.\<close>

definition ex_client :: sseClient where
  "ex_client = \<lparr> cl_URL = ''u'', cl_Token = ''t2'', cl_Authorize = None,
     cl_Backoff = \<lparr> bo_Initial = 0, bo_Maximum = 0, bo_Factor = Fin 0, bo_Jitter = Fin 0 \<rparr>, cl_Inbox = 0 \<rparr>"

definition ex_cconn :: cconn where
  "ex_cconn = (case clientOpen None ''b'' ex_client of Inr c \<Rightarrow> c)"

definition ex_sse_peer :: "Signal list \<Rightarrow> u64 \<Rightarrow> nat option \<Rightarrow> bool \<Rightarrow> Signal peer" where
  "ex_sse_peer xs sent st rp = \<lparr> p_id = ''b'', p_seq = of_nat (length xs), p_sentUpTo = sent, p_log = entries xs 0 (length xs),
     p_stream = st, p_reaper = rp, p_down = False \<rparr>"

definition ex_csys :: csys where
  "ex_csys = \<lparr> z_conn = ex_cconn\<lparr>cn_lastID := 1, cn_hand := None, cn_got := [ex_signal]\<rparr>,
     z_peer = ex_sse_peer [ex_signal] 1 (Some 3) False,
     z_hist = [ex_signal], z_wire = [], z_att = 3 \<rparr>"

lemma ex_csys_reach: "csys_reach 4 4 ex_csys"
proof -
  let ?c = ex_cconn and ?s = ex_signal
  let ?e = "\<lparr> e_id = 1, e_data = ex_signal \<rparr> :: Signal entry"
  note d = ex_sse_peer_def entries_def
  have c: "clientOpen None ''b'' ex_client = Inr ?c" "cn_hand ?c = None" "\<not> cn_done ?c" "cn_inbox ?c = []" "cn_got ?c = []"
    "cn_lastID ?c = 0" "inboxSize (cn_client ?c) = 64"
    by (simp_all add: ex_cconn_def clientOpen_def ex_client_def inboxSize_def DefaultInbox_def)
  let ?mk = "\<lambda>c p h w a. \<lparr> z_conn = c, z_peer = p, z_hist = h, z_wire = w, z_att = a \<rparr>"
  let ?h = "?c\<lparr>cn_lastID := 1, cn_hand := Some ?s\<rparr>"
  let ?i = "?c\<lparr>cn_lastID := 1, cn_hand := None, cn_inbox := [?s]\<rparr>" and ?g = "?c\<lparr>cn_lastID := 1, cn_hand := None, cn_got := [?s]\<rparr>"
  have n: "newPeer ''b'' = ex_sse_peer [] 0 None True" by (simp add: d newPeer_def)
  let ?sysa = "?mk ?c (ex_sse_peer [] 0 None True) [] [] 0" and ?sysb = "?mk ?c (ex_sse_peer [] 0 (Some 1) False) [] [] 1"
  let ?sysc = "?mk ?c (ex_sse_peer [?s] 0 (Some 1) False) [?s] [] 1" and ?sysd = "?mk ?c (ex_sse_peer [?s] 1 (Some 1) False) [?s] [?e] 1"
  let ?syse = "?mk ?h (ex_sse_peer [?s] 1 (Some 1) False) [?s] [] 1" and ?sysf = "?mk ?i (ex_sse_peer [?s] 1 (Some 1) False) [?s] [] 1"
  let ?sysg = "?mk ?g (ex_sse_peer [?s] 1 (Some 1) False) [?s] [] 1" and ?sysh = "?mk ?g (ex_sse_peer [?s] 1 None True) [?s] [] 2"
  have r0: "csys_reach 4 4 ?sysa" using zr_start [OF c(1)] by (simp add: n)
  have "csys_step 4 4 ?sysa ?sysb"
    using zs_connect [of 1 ?sysa 0 None "ex_sse_peer [] 0 (Some 1) False" 4 4] resume_header [of ?c] c by (simp add: d attach_def)
  note r1 = zr_step [OF r0 this]
  have "csys_step 4 4 ?sysb ?sysc"
    using zs_enqueue [of 4 ?s ?sysb True "ex_sse_peer [?s] 0 (Some 1) False" 4] by (simp add: d enqueue_def Let_def)
  note r2 = zr_step [OF r1 this]
  have "csys_step 4 4 ?sysc ?sysd"
    using zs_take [of 4 ?sysc "[?e]" "ex_sse_peer [?s] 1 (Some 1) False" 4] by (simp add: d takeUnsent_def Let_def)
  note r3 = zr_step [OF r2 this]
  have "csys_step 4 4 ?sysd ?syse" using zs_event [of ?sysd ?e "[]" None ?h 4 4] c event_turn [of ?e ?c] by simp
  note r4 = zr_step [OF r3 this]
  have "csys_step 4 4 ?syse ?sysf"
    using zs_put [of "?h\<lparr>cn_inbox := [?s], cn_hand := None\<rparr>" ?syse 4 4] c
    by (simp add: putTurn_def cInboxPut_def) (simp add: ex_cconn_def clientOpen_def ex_client_def)
  note r5 = zr_step [OF r4 this]
  have "csys_step 4 4 ?sysf ?sysg" using zs_recvTry [of 4 4 ?sysf] c
    by (simp add: recvTry_def cInboxTake_def) (simp add: ex_cconn_def clientOpen_def ex_client_def)
  note r6 = zr_step [OF r5 this]
  have "csys_step 4 4 ?sysg ?sysh" using zs_break [of 4 4 ?sysg] by (simp add: d detach_def numeral_2_eq_2)
  note r7 = zr_step [OF r6 this]
  have "csys_step 4 4 ?sysh ex_csys"
    using zs_connect [of 3 ?sysh 1 None "ex_sse_peer [?s] 1 (Some 3) False" 4 4] resume_header [of ?g] c
    by (simp add: d attach_def ex_csys_def)
  then show ?thesis by (rule zr_step [OF r7])
qed


end
