(* ===== verification/Sse_Mux.thy ===== *)
theory Sse_Mux
  imports Sse_Client
begin

text \<open>
  The multiplexing client (\<^verbatim>\<open>signaling/sse/mux.go\<close>): several local peers share one event stream.

  \<^item> Connections are objects with numbers; the table holds numbers, so the pointer comparison of \<open>remove\<close> compares
    numbers. \<open>mk_got\<close> is the history of what \<open>Receive\<close> returned.
  \<^item> The settings are those of a \<open>Client\<close> and are kept as one. Requests are answered by an argument, as in
    \<open>Sse_Client\<close>; a leave request is built, its answer is ignored.
  \<^item> The stream goroutine (\<open>run\<close>, \<open>session\<close>) and the reader are turns; \<open>mu_hand\<close> is the signal the reader is putting in an
    inbox. Timers fire at any moment.
\<close>

subsection \<open>State\<close>

record muxConn =
  mk_local :: PeerID
  mk_inbox :: "Signal list"
  mk_ready :: bool
  mk_closed :: bool
  mk_err :: "gerror option"
  mk_stream :: string
  mk_lastID :: u64
  mk_got :: "Signal list"

record mux =
  mu_client :: sseClient
  mu_conns :: "(PeerID \<times> nat) list"
  mu_objs :: "nat \<Rightarrow> muxConn"
  mu_next :: nat
  mu_running :: bool
  mu_closed :: bool
  mu_cancelled :: bool
  mu_kick :: bool
  mu_stream :: string
  mu_rcv :: "nat option"
  mu_shut :: "nat list"
  mu_hand :: "(nat \<times> Signal) option"

definition newMuxConn :: "PeerID \<Rightarrow> muxConn" where
  "newMuxConn i = \<lparr> mk_local = i, mk_inbox = [], mk_ready = False, mk_closed = False, mk_err = None, mk_stream = [],
     mk_lastID = 0, mk_got = [] \<rparr>"

definition newMux :: "sseClient \<Rightarrow> mux" where
  "newMux cl = \<lparr> mu_client = cl, mu_conns = [], mu_objs = (\<lambda>_. newMuxConn []), mu_next = 0, mu_running = False,
     mu_closed = False, mu_cancelled = False, mu_kick = False, mu_stream = [], mu_rcv = None, mu_shut = [], mu_hand = None \<rparr>"

definition setMux :: "nat \<Rightarrow> muxConn \<Rightarrow> mux \<Rightarrow> mux" where
  "setMux n c m = m\<lparr>mu_objs := (mu_objs m)(n := c)\<rparr>"

definition muxPoke :: "mux \<Rightarrow> mux" where
  "muxPoke m = m\<lparr>mu_kick := True\<rparr>"

definition shutRcv :: "nat option \<Rightarrow> mux \<Rightarrow> mux" where
  "shutRcv r m = (case r of None \<Rightarrow> m | Some r \<Rightarrow> m\<lparr>mu_shut := r # mu_shut m\<rparr>)"

subsection \<open>Connections\<close>

definition muxFail :: "gerror \<Rightarrow> nat \<Rightarrow> mux \<Rightarrow> mux" where
  "muxFail e n m = (let c = mu_objs m n in if mk_err c = None then setMux n (c\<lparr>mk_err := Some e\<rparr>) m else m)"

text \<open>\<open>remove\<close>: the stream the connection was joined to, if it is still the attached one.\<close>

definition muxRemove :: "nat \<Rightarrow> mux \<Rightarrow> string \<times> mux" where
  "muxRemove n m =
     (let c = mu_objs m n in
      if map_of (mu_conns m) (mk_local c) \<noteq> Some n then ([], m)
      else (if mk_stream c = mu_stream m then mk_stream c else [],
            muxPoke (m\<lparr>mu_conns := filter (\<lambda>x. fst x \<noteq> mk_local c) (mu_conns m)\<rparr>)))"

definition leaveRequest :: "PeerID \<Rightarrow> string \<Rightarrow> mux \<Rightarrow> request option" where
  "leaveRequest local streamID m =
     (if mu_cancelled m then None
      else Some (decorate (mu_client m) local ((newRequest ''DELETE'' BodyUnreadable)\<lparr>rq_MuxHeader := streamID\<rparr>)))"

definition muxConnMark :: "nat \<Rightarrow> mux \<Rightarrow> mux" where
  "muxConnMark n m = setMux n ((mu_objs m n)\<lparr>mk_closed := True\<rparr>) m"

definition muxConnClose :: "nat \<Rightarrow> mux \<Rightarrow> request option \<times> mux" where
  "muxConnClose n m =
     (if mk_closed (mu_objs m n) then (None, m)
      else
        (case muxRemove n (muxConnMark n m) of
           (stream, m) \<Rightarrow> (if stream \<noteq> [] then leaveRequest (mk_local (mu_objs m n)) stream m else None, m)))"

definition muxCheckOpen :: "nat \<Rightarrow> mux \<Rightarrow> gerror option" where
  "muxCheckOpen n m = (if mk_closed (mu_objs m n) then Some (Sentinel ErrClosed) else mk_err (mu_objs m n))"

definition muxSend :: "penv \<Rightarrow> Signal \<Rightarrow> nat \<Rightarrow> mux \<Rightarrow> gerror option" where
  "muxSend P msg n m =
     (case muxCheckOpen n m of
        Some e \<Rightarrow> Some e
      | None \<Rightarrow> postSignalHTTP P msg (decorate (mu_client m) (mk_local (mu_objs m n))))"

definition muxInboxPut :: "int \<Rightarrow> Signal \<Rightarrow> muxConn \<Rightarrow> bool \<times> muxConn" where
  "muxInboxPut k sig c =
     (if int (length (mk_inbox c)) < k then (True, c\<lparr>mk_inbox := mk_inbox c @ [sig]\<rparr>) else (False, c))"

definition muxInboxTake :: "muxConn \<Rightarrow> Signal list \<times> muxConn" where
  "muxInboxTake c =
     (case mk_inbox c of
        [] \<Rightarrow> ([], c)
      | sig # rest \<Rightarrow> ([sig], c\<lparr>mk_inbox := rest, mk_got := mk_got c @ [sig]\<rparr>))"

interpretation minbox: bounded_fifo mk_inbox "muxInboxPut k" muxInboxTake "\<lambda>_. nat k" for k
  by unfold_locales (auto simp: muxInboxPut_def muxInboxTake_def split: if_splits list.splits)

definition muxRecvTry :: "nat \<Rightarrow> mux \<Rightarrow> Signal option \<times> mux" where
  "muxRecvTry n m = (case muxInboxTake (mu_objs m n) of ([sig], c) \<Rightarrow> (Some sig, setMux n c m) | _ \<Rightarrow> (None, m))"

definition muxRecvWait :: "gerror option \<Rightarrow> nat \<Rightarrow> mux \<Rightarrow> ((gerror + Signal) \<times> mux) list" where
  "muxRecvWait ctxErr n m =
     (case muxInboxTake (mu_objs m n) of ([sig], c) \<Rightarrow> [(Inr sig, setMux n c m)] | _ \<Rightarrow> [])
     @ (if mk_closed (mu_objs m n) then [(Inl (Sentinel ErrClosed), m)] else [])
     @ (case mk_err (mu_objs m n) of None \<Rightarrow> [] | Some e \<Rightarrow> [(Inl e, m)])
     @ (case ctxErr of None \<Rightarrow> [] | Some e \<Rightarrow> [(Inl e, m)])"

subsection \<open>Opening and closing\<close>

definition muxOpen :: "gerror option \<Rightarrow> PeerID \<Rightarrow> mux \<Rightarrow> (gerror + nat) \<times> mux" where
  "muxOpen ctxErr local m =
     (if cl_URL (mu_client m) = [] then (Inl (Plain ''sse: Mux.URL is required''), m)
      else case ctxErr of
        Some e \<Rightarrow> (Inl e, m)
      | None \<Rightarrow>
          if mu_closed m then (Inl (Sentinel ErrClosed), m)
          else if map_of (mu_conns m) local \<noteq> None then (Inl (Wrap (Sentinel ErrDuplicatePeer)), m)
          else
            let n = mu_next m
            in (Inr n, muxPoke (setMux n (newMuxConn local)
                  (m\<lparr>mu_conns := (local, n) # mu_conns m, mu_next := n + 1, mu_running := True\<rparr>))))"

definition muxOpenWait :: "gerror option \<Rightarrow> nat \<Rightarrow> mux \<Rightarrow> (gerror option \<times> mux) list" where
  "muxOpenWait ctxErr n m =
     (if mk_ready (mu_objs m n) then [(None, m)] else [])
     @ (case mk_err (mu_objs m n) of None \<Rightarrow> [] | Some e \<Rightarrow> [(Some e, snd (muxRemove n m))])
     @ (if mk_closed (mu_objs m n) then [(Some (Sentinel ErrClosed), m)] else [])
     @ (case ctxErr of None \<Rightarrow> [] | Some e \<Rightarrow> [(Some e, snd (muxConnClose n m))])"

text \<open>\<open>Close\<close> up to its wait: under the lock the table is emptied; then the context, the receiver and every connection.\<close>

definition muxClose :: "mux \<Rightarrow> mux" where
  "muxClose m =
     (if mu_closed m then m
      else
        let conns = map snd (mu_conns m); rcv = mu_rcv m;
            m = m\<lparr>mu_closed := True, mu_conns := []\<rparr>;
            m = shutRcv rcv (m\<lparr>mu_cancelled := True\<rparr>)
        in fold muxConnMark conns m)"

definition failAll :: "gerror \<Rightarrow> mux \<Rightarrow> mux" where
  "failAll e m = fold (muxFail e) (map snd (mu_conns m)) (m\<lparr>mu_conns := []\<rparr>)"

subsection \<open>The stream goroutine\<close>

definition keepRunning :: "mux \<Rightarrow> bool \<times> mux" where
  "keepRunning m = (if mu_closed m \<or> mu_conns m = [] then (False, m\<lparr>mu_running := False\<rparr>) else (True, m))"

text \<open>\<open>run\<close> after a session: \<open>True\<close> when the loop goes on.\<close>

definition muxRunTurn :: "mux \<Rightarrow> bool \<times> mux" where
  "muxRunTurn m = (if mu_cancelled m then (False, m\<lparr>mu_running := False\<rparr>) else (True, m))"

text \<open>\<open>pickAuth\<close>: any open peer.\<close>

definition pickAuth :: "mux \<Rightarrow> nat list" where
  "pickAuth m = map snd (mu_conns m)"

definition connectRequest :: "nat \<Rightarrow> mux \<Rightarrow> request" where
  "connectRequest auth m =
     decorate (mu_client m) (mk_local (mu_objs m auth)) ((newRequest ''GET'' BodyUnreadable)\<lparr>rq_MuxHeader := ''1''\<rparr>)"

text \<open>\<open>connect\<close>: the receiver was opened; then the events until the server names the stream. The outer option says
  whether \<open>connect\<close> has returned.\<close>

definition connectOpened :: "streamError + nat \<Rightarrow> mux \<Rightarrow> (gerror + unit) \<times> mux" where
  "connectOpened r m =
     (case r of
        Inl err \<Rightarrow> (Inl (classifyStream err), m)
      | Inr rcv \<Rightarrow>
          if mu_closed m then (Inl (Sentinel ErrClosed), m\<lparr>mu_shut := rcv # mu_shut m\<rparr>)
          else (Inr (), m\<lparr>mu_rcv := Some rcv\<rparr>))"

definition connectFail :: "gerror \<Rightarrow> mux \<Rightarrow> (gerror + string) option \<times> mux" where
  "connectFail e m = (Some (Inl e), shutRcv (mu_rcv m) (m\<lparr>mu_rcv := None\<rparr>))"

definition connectTurn :: "bool \<Rightarrow> streamError + sseMessage \<Rightarrow> mux \<Rightarrow> (gerror + string) option \<times> mux" where
  "connectTurn wrongType r m =
     (if wrongType then connectFail permanent m
      else case r of
        Inl err \<Rightarrow> connectFail (classifyStream err) m
      | Inr msg \<Rightarrow>
          if ms_Event msg = [] then (None, m)
          else if ms_Event msg = eventMux then
            (case ms_Data msg of
               DataStream s \<Rightarrow> if s = [] then connectFail permanent m else (Some (Inr s), m\<lparr>mu_stream := s\<rparr>)
             | _ \<Rightarrow> connectFail permanent m)
          else connectFail permanent m)"

text \<open>\<open>session\<close> after \<open>connect\<close> failed: the error it returns to \<open>run\<close>.\<close>

definition sessionFailed :: "gerror \<Rightarrow> nat \<Rightarrow> mux \<Rightarrow> gerror option \<times> mux" where
  "sessionFailed e auth m =
     (if mu_cancelled m then (None, m)
      else if errors_Is e ErrUnauthorized then (None, snd (muxRemove auth (muxFail e auth m)))
      else if errors_Is e ErrPermanent then (None, failAll e m)
      else (Some e, m))"

definition muxTeardown :: "mux \<Rightarrow> mux" where
  "muxTeardown m = shutRcv (mu_rcv m) (m\<lparr>mu_stream := [], mu_rcv := None\<rparr>)"

text \<open>\<open>joinPending\<close>: who is not on the stream yet, the request of each, and what its answer does: whether the join is
  to be retried, and whether the stream is gone.\<close>

definition joinTodo :: "string \<Rightarrow> mux \<Rightarrow> (nat \<times> u64) list" where
  "joinTodo streamID m =
     map (\<lambda>x. (snd x, mk_lastID (mu_objs m (snd x))))
       (filter (\<lambda>x. mk_stream (mu_objs m (snd x)) \<noteq> streamID) (mu_conns m))"

definition joinRequest :: "nat \<Rightarrow> string \<Rightarrow> u64 \<Rightarrow> mux \<Rightarrow> request" where
  "joinRequest n streamID lastID m =
     (let r = (newRequest ''PUT'' BodyUnreadable)\<lparr>rq_MuxHeader := streamID\<rparr>;
          r = (if lastID > 0 then r\<lparr>rq_LastEventID := format_uint (unat lastID)\<rparr> else r)
      in decorate (mu_client m) (mk_local (mu_objs m n)) r)"

datatype joinResult = Joined | StreamGone | JoinError gerror

definition joinStatus :: "gerror + nat \<Rightarrow> joinResult" where
  "joinStatus r =
     (case r of
        Inl e \<Rightarrow> JoinError (Wrap e)
      | Inr code \<Rightarrow>
          if code = 204 \<or> code = 200 then Joined
          else if code = 404 then StreamGone
          else if code = 401 \<or> code = 403 then JoinError (Wrap2 (Sentinel ErrPermanent) (Sentinel ErrUnauthorized))
          else if code = 405 then JoinError permanent
          else JoinError (Plain ''sse: join''))"

datatype joinTurn = JoinNext | JoinRetry | JoinGone | JoinStop

definition joinAnswer :: "string \<Rightarrow> nat \<Rightarrow> joinResult \<Rightarrow> mux \<Rightarrow> (joinTurn \<times> request option) \<times> mux" where
  "joinAnswer streamID n r m =
     (let c = mu_objs m n in
      case r of
        Joined \<Rightarrow>
          if map_of (mu_conns m) (mk_local c) = Some n
          then ((JoinNext, None), setMux n (c\<lparr>mk_stream := streamID, mk_ready := True\<rparr>) m)
          else ((JoinNext, leaveRequest (mk_local c) streamID m), m)
      | StreamGone \<Rightarrow> ((JoinGone, None), m)
      | JoinError e \<Rightarrow>
          if mu_cancelled m then ((JoinStop, None), m)
          else if errors_Is e ErrUnauthorized then ((JoinNext, None), snd (muxRemove n (muxFail e n m)))
          else ((JoinRetry, None), m))"

subsection \<open>The reader\<close>

text \<open>One event of \<open>read\<close>: the error that ends it, if it does. A signal is left in the hand, and \<open>muxPutTurn\<close> gives the
  ways the \<open>select\<close> can go; \<open>stop\<close> says that the session was torn down.\<close>

definition readTurn :: "string \<Rightarrow> sseMessage \<Rightarrow> mux \<Rightarrow> gerror option \<times> mux" where
  "readTurn streamID msg m =
     (if ms_Event msg = eventSignal then
        (case ms_Data msg of
           DataSignal sig \<Rightarrow>
             (case map_of (mu_conns m) (sig_To sig) of
                None \<Rightarrow> (None, m)
              | Some n \<Rightarrow>
                  let c = mu_objs m n;
                      c = (if ms_Id msg \<noteq> [] then
                             (case parse_uint 64 (ms_Id msg) of Some k \<Rightarrow> c\<lparr>mk_lastID := of_nat k\<rparr> | None \<Rightarrow> c)
                           else c)
                  in (None, (setMux n c m)\<lparr>mu_hand := Some (n, sig)\<rparr>))
         | _ \<Rightarrow> (None, m))
      else if ms_Event msg = eventDetached then
        (case ms_Data msg of
           DataDetached i \<Rightarrow>
             (case map_of (mu_conns m) i of
                None \<Rightarrow> (None, m)
              | Some n \<Rightarrow>
                  if mk_stream (mu_objs m n) = streamID then (None, snd (muxRemove n (muxFail permanent n m))) else (None, m))
         | _ \<Rightarrow> (None, m))
      else if ms_Event msg = eventShutdown then (Some (Plain ''sse: server is shutting down''), m)
      else if ms_Event msg = eventMux then (Some (Plain ''sse: multiplexed stream restarted''), m)
      else (None, m))"

definition muxPutTurn :: "bool \<Rightarrow> mux \<Rightarrow> (bool \<times> mux) list" where
  "muxPutTurn stop m =
     (case mu_hand m of
        None \<Rightarrow> []
      | Some (n, sig) \<Rightarrow>
          (case muxInboxPut (inboxSize (mu_client m)) sig (mu_objs m n) of
             (True, c) \<Rightarrow> [(True, (setMux n c m)\<lparr>mu_hand := None\<rparr>)]
           | (False, _) \<Rightarrow> [])
          @ (if mk_closed (mu_objs m n) \<or> mk_err (mu_objs m n) \<noteq> None then [(True, m\<lparr>mu_hand := None\<rparr>)] else [])
          @ (if stop then [(False, m\<lparr>mu_hand := None\<rparr>)] else []))"

text \<open>What a failed read returns.\<close>

definition readFailed :: "bool \<Rightarrow> streamError \<Rightarrow> gerror option" where
  "readFailed stop err = (if stop then None else Some (classifyStream err))"

subsection \<open>Interleaving\<close>

inductive mux_step :: "mux \<Rightarrow> mux \<Rightarrow> bool" where
  mu_open: "mux_step m (snd (muxOpen ctxErr local m))"
| mu_openWait: "(r, m') \<in> set (muxOpenWait ctxErr n m) \<Longrightarrow> mux_step m m'"
| mu_connMark: "mux_step m (muxConnMark n m)"
| mu_remove: "mux_step m (snd (muxRemove n m))"
| mu_connClose: "mux_step m (snd (muxConnClose n m))"
| mu_recvTry: "mux_step m (snd (muxRecvTry n m))"
| mu_recvWait: "(r, m') \<in> set (muxRecvWait ctxErr n m) \<Longrightarrow> mux_step m m'"
| mu_close: "mux_step m (muxClose m)"
| mu_keep: "mux_step m (snd (keepRunning m))"
| mu_run: "mux_step m (snd (muxRunTurn m))"
| mu_opened: "mux_step m (snd (connectOpened r m))"
| mu_connect: "mux_step m (snd (connectTurn w r m))"
| mu_failed: "mux_step m (snd (sessionFailed e n m))"
| mu_teardown: "mux_step m (muxTeardown m)"
| mu_join: "mux_step m (snd (joinAnswer s n r m))"
| mu_read: "mu_hand m = None \<Longrightarrow> mux_step m (snd (readTurn s msg m))"
| mu_put: "(b, m') \<in> set (muxPutTurn stop m) \<Longrightarrow> mux_step m m'"

inductive mux_reach :: "mux \<Rightarrow> bool" where
  mr_new: "mux_reach (newMux cl)"
| mr_step: "mux_reach m \<Longrightarrow> mux_step m m' \<Longrightarrow> mux_reach m'"

subsection \<open>Invariant\<close>

definition conn_ok :: "int \<Rightarrow> muxConn \<Rightarrow> bool" where
  "conn_ok k c \<longleftrightarrow> (\<forall>sig \<in> set (mk_got c @ mk_inbox c). sig_To sig = mk_local c) \<and> int (length (mk_inbox c)) \<le> k"

definition mux_ok :: "mux \<Rightarrow> bool" where
  "mux_ok m \<longleftrightarrow> (\<forall>n. conn_ok (inboxSize (mu_client m)) (mu_objs m n)) \<and> distinct (map fst (mu_conns m)) \<and>
     (\<forall>(i, n) \<in> set (mu_conns m). n < mu_next m \<and> mk_local (mu_objs m n) = i) \<and>
     (\<forall>n sig. mu_hand m = Some (n, sig) \<longrightarrow> n < mu_next m \<and> sig_To sig = mk_local (mu_objs m n)) \<and>
     (mu_closed m \<longrightarrow> mu_conns m = [])"

lemma setMux_ok:
  "mux_ok m \<Longrightarrow> conn_ok (inboxSize (mu_client m)) c \<Longrightarrow> mk_local c = mk_local (mu_objs m n) \<Longrightarrow> mux_ok (setMux n c m)"
  unfolding mux_ok_def setMux_def by (auto; fastforce)

lemma conn_okD: "mux_ok m \<Longrightarrow> conn_ok (inboxSize (mu_client m)) (mu_objs m n)"
  by (simp add: mux_ok_def)

text \<open>Changes that leave the objects, the table, the hand and the closed flag alone.\<close>

lemma mux_ok_update [simp]:
  "mux_ok (m\<lparr>mu_kick := k\<rparr>) = mux_ok m" "mux_ok (m\<lparr>mu_running := r\<rparr>) = mux_ok m" "mux_ok (m\<lparr>mu_cancelled := c\<rparr>) = mux_ok m"
  "mux_ok (m\<lparr>mu_stream := s\<rparr>) = mux_ok m" "mux_ok (m\<lparr>mu_rcv := v\<rparr>) = mux_ok m" "mux_ok (m\<lparr>mu_shut := w\<rparr>) = mux_ok m"
  "mux_ok (m\<lparr>mu_stream := s, mu_rcv := v\<rparr>) = mux_ok m" "mux_ok (shutRcv q m) = mux_ok m"
  by (simp_all add: mux_ok_def shutRcv_def split: option.splits)

lemma hand_ok: "mux_ok m \<Longrightarrow> mux_ok (m\<lparr>mu_hand := None\<rparr>)"
  by (simp add: mux_ok_def)

lemma muxFail_ok: "mux_ok m \<Longrightarrow> mux_ok (muxFail e n m)"
  using conn_okD [of m n] by (auto simp: muxFail_def Let_def conn_ok_def intro!: setMux_ok)

lemma muxConnMark_ok: "mux_ok m \<Longrightarrow> mux_ok (muxConnMark n m)"
  using conn_okD [of m n] by (auto simp: muxConnMark_def conn_ok_def intro!: setMux_ok)

lemma muxRemove_ok: "mux_ok m \<Longrightarrow> mux_ok (snd (muxRemove n m))"
  by (auto simp: muxRemove_def Let_def muxPoke_def mux_ok_def distinct_map_filter)

lemma muxConnClose_ok: "mux_ok m \<Longrightarrow> mux_ok (snd (muxConnClose n m))"
  using muxRemove_ok [OF muxConnMark_ok] by (simp add: muxConnClose_def case_prod_beta)

lemma fold_ok: "mux_ok m \<Longrightarrow> mux_ok (fold muxConnMark ns m)" "mux_ok m \<Longrightarrow> mux_ok (fold (muxFail e) ns m)"
  by (induction ns arbitrary: m) (simp_all add: muxConnMark_ok muxFail_ok)

lemma cleared_ok: "mux_ok m \<Longrightarrow> mux_ok (m\<lparr>mu_conns := []\<rparr>)" "mux_ok m \<Longrightarrow> mux_ok (m\<lparr>mu_closed := True, mu_conns := []\<rparr>)"
  by (auto simp: mux_ok_def)

lemma muxOpen_ok: "mux_ok m \<Longrightarrow> mux_ok (snd (muxOpen ctxErr i m))"
proof -
  assume ok: "mux_ok m"
  have p: "0 \<le> inboxSize (mu_client m)" by (simp add: inboxSize_def DefaultInbox_def)
  let ?m = "setMux (mu_next m) (newMuxConn i) (m\<lparr>mu_conns := (i, mu_next m) # mu_conns m, mu_next := mu_next m + 1, mu_running := True\<rparr>)"
  have "mux_ok ?m" if "map_of (mu_conns m) i = None" "\<not> mu_closed m"
    using ok that p unfolding mux_ok_def setMux_def
    by (auto simp: map_of_eq_None_iff newMuxConn_def conn_ok_def less_Suc_eq)
  then show ?thesis using ok by (auto simp: muxOpen_def Let_def muxPoke_def split: option.splits)
qed

lemma take_ok: "mux_ok m \<Longrightarrow> muxInboxTake (mu_objs m n) = (x, c) \<Longrightarrow> mux_ok (setMux n c m)"
  using conn_okD [of m n] by (intro setMux_ok) (auto simp: muxInboxTake_def conn_ok_def split: list.splits)

lemma recv_ok: "mux_ok m \<Longrightarrow> mux_ok (snd (muxRecvTry n m))" "mux_ok m \<Longrightarrow> (r, m') \<in> set (muxRecvWait ctxErr n m) \<Longrightarrow> mux_ok m'"
  using take_ok [of m n] by (cases "muxInboxTake (mu_objs m n)";
      auto simp: muxRecvTry_def muxRecvWait_def split: list.splits if_splits option.splits)+

lemma joinAnswer_ok: "mux_ok m \<Longrightarrow> mux_ok (snd (joinAnswer s n r m))"
  using conn_okD [of m n]
  by (auto simp: joinAnswer_def Let_def conn_ok_def muxRemove_ok muxFail_ok intro!: setMux_ok split: joinResult.splits)

lemma readTurn_ok: "mux_ok m \<Longrightarrow> mux_ok (snd (readTurn s msg m))"
proof -
  assume ok: "mux_ok m"
  have "mux_ok ((setMux n c m)\<lparr>mu_hand := Some (n, sig)\<rparr>)"
    if "map_of (mu_conns m) (sig_To sig) = Some n" "c = mu_objs m n \<or> (\<exists>k. c = (mu_objs m n)\<lparr>mk_lastID := k\<rparr>)" for n c sig
  proof -
    have "n < mu_next m \<and> mk_local (mu_objs m n) = sig_To sig" using ok map_of_SomeD [OF that(1)] by (auto simp: mux_ok_def)
    moreover have "mux_ok (setMux n c m)" using ok that(2) conn_okD [OF ok, of n] by (intro setMux_ok) (auto simp: conn_ok_def)
    ultimately show ?thesis using that(2) by (auto simp: mux_ok_def setMux_def)
  qed
  then show ?thesis using ok
    by (auto simp: readTurn_def Let_def muxRemove_ok muxFail_ok split: eventData.splits option.splits)
qed

lemma muxPutTurn_ok: "mux_ok m \<Longrightarrow> (b, m') \<in> set (muxPutTurn stop m) \<Longrightarrow> mux_ok m'"
proof -
  assume ok: "mux_ok m"
  have "mux_ok (setMux n c m)" if "mu_hand m = Some (n, sig)" "muxInboxPut (inboxSize (mu_client m)) sig (mu_objs m n) = (True, c)" for n sig c
    using ok that conn_okD [OF ok, of n] by (intro setMux_ok) (auto simp: muxInboxPut_def conn_ok_def mux_ok_def split: if_splits)
  note p = hand_ok [OF this] hand_ok [OF ok]
  show "mux_ok m'" if "(b, m') \<in> set (muxPutTurn stop m)"
  proof (cases "mu_hand m")
    case (Some x)
    obtain n sig where x: "x = (n, sig)" by fastforce
    obtain ok' c where c: "muxInboxPut (inboxSize (mu_client m)) sig (mu_objs m n) = (ok', c)" by fastforce
    show ?thesis using that p(1) [of n sig c] p(2) Some x c by (auto simp: muxPutTurn_def split: bool.splits if_splits)
  qed (use that in \<open>simp add: muxPutTurn_def\<close>)
qed

lemma mux_step_ok: "mux_step m m' \<Longrightarrow> mux_ok m \<Longrightarrow> mux_ok m'"
proof (induction rule: mux_step.induct)
  case (mu_openWait r m' ctxErr n m)
  then show ?case by (auto simp: muxOpenWait_def muxRemove_ok muxConnClose_ok split: if_splits option.splits)
next
  case (mu_close m)
  then show ?case by (simp add: muxClose_def Let_def fold_ok cleared_ok)
next
  case (mu_connect m w r)
  then show ?case by (auto simp: connectTurn_def connectFail_def split: sum.splits eventData.splits)
next
  case (mu_failed m e n)
  then show ?case by (simp add: sessionFailed_def failAll_def muxRemove_ok muxFail_ok fold_ok cleared_ok)
next
  case (mu_opened m r)
  then show ?case by (cases r) (simp_all add: connectOpened_def)
next
  case (mu_recvWait r m' ctxErr n m)
  then show ?case by (rule recv_ok(2) [rotated])
next
  case (mu_put b m' stop m)
  then show ?case by (rule muxPutTurn_ok [rotated])
qed (simp_all add: muxOpen_ok muxConnMark_ok muxRemove_ok muxConnClose_ok recv_ok(1) keepRunning_def muxRunTurn_def
    muxTeardown_def joinAnswer_ok readTurn_ok)

lemma mux_reach_ok: "mux_reach m \<Longrightarrow> mux_ok m"
proof (induction rule: mux_reach.induct)
  case (mr_new cl)
  then show ?case by (simp add: mux_ok_def newMux_def newMuxConn_def conn_ok_def inboxSize_def DefaultInbox_def)
qed (use mux_step_ok in blast)

text \<open>Every connection of a multiplexing client receives only signals addressed to its peer, within its inbox, and
  while a peer is open no second connection is opened for it.\<close>

lemma mux_delivers:
  assumes "mux_reach m"
  shows "sig \<in> set (mk_got (mu_objs m n) @ mk_inbox (mu_objs m n)) \<Longrightarrow> sig_To sig = mk_local (mu_objs m n)"
    "int (length (mk_inbox (mu_objs m n))) \<le> inboxSize (mu_client m)"
    "(i, n) \<in> set (mu_conns m) \<Longrightarrow> (i, k) \<in> set (mu_conns m) \<Longrightarrow> n = k"
    "mu_closed m \<Longrightarrow> fst (muxOpen None i m) = Inl (Sentinel ErrClosed) \<or> cl_URL (mu_client m) = []"
proof -
  have "mux_ok m" by (rule mux_reach_ok [OF assms])
  then show "sig \<in> set (mk_got (mu_objs m n) @ mk_inbox (mu_objs m n)) \<Longrightarrow> sig_To sig = mk_local (mu_objs m n)"
    "int (length (mk_inbox (mu_objs m n))) \<le> inboxSize (mu_client m)"
    "(i, n) \<in> set (mu_conns m) \<Longrightarrow> (i, k) \<in> set (mu_conns m) \<Longrightarrow> n = k"
    "mu_closed m \<Longrightarrow> fst (muxOpen None i m) = Inl (Sentinel ErrClosed) \<or> cl_URL (mu_client m) = []"
    by (auto simp: mux_ok_def conn_ok_def muxOpen_def dest: eq_key_imp_eq_value)
qed

text \<open>A server or proxy that refuses the method makes the client try again for ever: the answer is marked permanent, but
  only a refused credential ends a join.\<close>

lemma join_refused_retries: "\<not> mu_cancelled m \<Longrightarrow> joinAnswer s n (joinStatus (Inr 405)) m = ((JoinRetry, None), m)"
  by (simp add: joinAnswer_def joinStatus_def permanent_def)

end
