(* ===== verification/Sse_MuxRun.thy ===== *)
theory Sse_MuxRun
  imports Sse_Mux
begin

text \<open>
  The stream goroutine of the multiplexing client (\<open>run\<close>, \<open>session\<close>, \<open>joinPending\<close> of \<^verbatim>\<open>signaling/sse/mux.go\<close>) with its
  reader, as a process: \<open>run_pc\<close> is where the goroutine stands, and its turns are interleaved with the reader and with
  the calls of the application. Timers fire at any moment, and the answers of the server are arbitrary.
\<close>

subsection \<open>The goroutine\<close>

definition errStreamGone :: gerror where "errStreamGone = Plain ''sse: multiplexed stream is gone''"
definition errStreamEnded :: gerror where "errStreamEnded = Plain ''sse: stream ended''"

text \<open>Where it stands: at the head of \<open>run\<close>; picking a peer; waiting for the receiver; waiting for the name of the
  stream; \<open>connect\<close> has failed; at the head of the loop of \<open>session\<close>; in \<open>joinPending\<close> with the joins still to do; looking
  whether a peer is left; in the \<open>select\<close>; tearing down; waiting for the reader; back in \<open>run\<close>; in its back-off.\<close>

datatype runPc =
    RunKeep
  | RunPick
  | RunConnect nat
  | RunNaming nat
  | RunFailed gerror nat
  | RunLoop string
  | RunJoin string "(nat \<times> u64) list" bool
  | RunIdle string bool
  | RunWait string bool
  | RunTear "gerror option"
  | RunDrain "gerror option"
  | RunAfter "gerror option"
  | RunBackoff
  | RunExited

datatype reader = NoReader | Reading string | ReadDone "gerror option"

record muxRun =
  run_mux :: mux
  run_pc :: runPc
  run_reader :: reader
  run_stop :: bool

text \<open>The answer to one join, in the loop of \<open>joinPending\<close>.\<close>

definition joinStep :: "string \<Rightarrow> nat \<Rightarrow> (nat \<times> u64) list \<Rightarrow> bool \<Rightarrow> joinResult \<Rightarrow> mux \<Rightarrow> runPc \<times> mux" where
  "joinStep s n todo retry r m =
     (case joinAnswer s n r m of
        ((turn, _), m) \<Rightarrow>
          (case turn of
             JoinNext \<Rightarrow> RunJoin s todo retry
           | JoinRetry \<Rightarrow> RunJoin s todo True
           | JoinGone \<Rightarrow> RunTear (Some errStreamGone)
           | JoinStop \<Rightarrow> RunIdle s False, m))"

text \<open>The ways the \<open>select\<close> of \<open>session\<close> can go.\<close>

definition sessionWait :: "string \<Rightarrow> bool \<Rightarrow> muxRun \<Rightarrow> muxRun list" where
  "sessionWait s retry z =
     (let m = run_mux z in
      (if mu_kick m then [z\<lparr>run_pc := RunLoop s, run_mux := m\<lparr>mu_kick := False\<rparr>\<rparr>] else [])
      @ (if retry then [z\<lparr>run_pc := RunLoop s\<rparr>] else [])
      @ (case run_reader z of
           ReadDone err \<Rightarrow>
             [z\<lparr>run_pc := RunAfter (Some (case err of None \<Rightarrow> errStreamEnded | Some e \<Rightarrow> e)), run_reader := NoReader,
                run_stop := True, run_mux := muxTeardown m\<rparr>]
         | _ \<Rightarrow> [])
      @ (if mu_cancelled m then [z\<lparr>run_pc := RunTear None\<rparr>] else []))"

inductive run_step :: "muxRun \<Rightarrow> muxRun \<Rightarrow> bool" where
  rn_keep: "run_pc z = RunKeep \<Longrightarrow> keepRunning (run_mux z) = (b, m) \<Longrightarrow>
    run_step z (z\<lparr>run_pc := if b then RunPick else RunExited, run_mux := m\<rparr>)"
| rn_pick: "run_pc z = RunPick \<Longrightarrow> n \<in> set (pickAuth (run_mux z)) \<Longrightarrow> run_step z (z\<lparr>run_pc := RunConnect n\<rparr>)"
| rn_none: "run_pc z = RunPick \<Longrightarrow> pickAuth (run_mux z) = [] \<Longrightarrow> run_step z (z\<lparr>run_pc := RunAfter None\<rparr>)"
| rn_opened: "run_pc z = RunConnect n \<Longrightarrow> connectOpened r (run_mux z) = (x, m) \<Longrightarrow>
    run_step z (z\<lparr>run_pc := (case x of Inl e \<Rightarrow> RunFailed e n | Inr _ \<Rightarrow> RunNaming n), run_mux := m\<rparr>)"
| rn_naming: "run_pc z = RunNaming n \<Longrightarrow> connectTurn w r (run_mux z) = (x, m) \<Longrightarrow>
    run_step z (case x of
      None \<Rightarrow> z\<lparr>run_mux := m\<rparr>
    | Some (Inl e) \<Rightarrow> z\<lparr>run_pc := RunFailed e n, run_mux := m\<rparr>
    | Some (Inr s) \<Rightarrow> z\<lparr>run_pc := RunLoop s, run_mux := m, run_reader := Reading s, run_stop := False\<rparr>)"
| rn_failed: "run_pc z = RunFailed e n \<Longrightarrow> sessionFailed e n (run_mux z) = (x, m) \<Longrightarrow>
    run_step z (z\<lparr>run_pc := RunAfter x, run_mux := m\<rparr>)"
| rn_loop: "run_pc z = RunLoop s \<Longrightarrow> run_step z (z\<lparr>run_pc := RunJoin s (joinTodo s (run_mux z)) False\<rparr>)"
| rn_join: "run_pc z = RunJoin s ((n, lastID) # todo) retry \<Longrightarrow> joinStep s n todo retry r (run_mux z) = (pc, m) \<Longrightarrow>
    run_step z (z\<lparr>run_pc := pc, run_mux := m\<rparr>)"
| rn_joined: "run_pc z = RunJoin s [] retry \<Longrightarrow> run_step z (z\<lparr>run_pc := RunIdle s retry\<rparr>)"
| rn_idle: "run_pc z = RunIdle s retry \<Longrightarrow>
    run_step z (z\<lparr>run_pc := if mu_conns (run_mux z) = [] then RunTear None else RunWait s retry\<rparr>)"
| rn_wait: "run_pc z = RunWait s retry \<Longrightarrow> z' \<in> set (sessionWait s retry z) \<Longrightarrow> run_step z z'"
| rn_tear: "run_pc z = RunTear e \<Longrightarrow>
    run_step z (z\<lparr>run_pc := RunDrain e, run_stop := True, run_mux := muxTeardown (run_mux z)\<rparr>)"
| rn_drain: "run_pc z = RunDrain e \<Longrightarrow> run_reader z = ReadDone err \<Longrightarrow>
    run_step z (z\<lparr>run_pc := RunAfter e, run_reader := NoReader\<rparr>)"
| rn_after: "run_pc z = RunAfter e \<Longrightarrow> muxRunTurn (run_mux z) = (b, m) \<Longrightarrow>
    run_step z (z\<lparr>run_pc := if \<not> b then RunExited else if e = None then RunKeep else RunBackoff, run_mux := m\<rparr>)"
| rn_backoff: "run_pc z = RunBackoff \<Longrightarrow> run_step z (z\<lparr>run_pc := RunKeep\<rparr>)"
| rd_event: "run_reader z = Reading s \<Longrightarrow> mu_hand (run_mux z) = None \<Longrightarrow> readTurn s msg (run_mux z) = (x, m) \<Longrightarrow>
    run_step z (z\<lparr>run_reader := (case x of None \<Rightarrow> Reading s | Some e \<Rightarrow> ReadDone (Some e)), run_mux := m\<rparr>)"
| rd_put: "run_reader z = Reading s \<Longrightarrow> (b, m) \<in> set (muxPutTurn (run_stop z) (run_mux z)) \<Longrightarrow>
    run_step z (z\<lparr>run_reader := (if b then Reading s else ReadDone None), run_mux := m\<rparr>)"
| rd_failed: "run_reader z = Reading s \<Longrightarrow> mu_hand (run_mux z) = None \<Longrightarrow>
    run_step z (z\<lparr>run_reader := ReadDone (readFailed (run_stop z) err)\<rparr>)"
| ap_open: "muxOpen ctxErr i (run_mux z) = (x, m) \<Longrightarrow>
    run_step z (z\<lparr>run_mux := m, run_pc := if mu_running m \<and> \<not> mu_running (run_mux z) then RunKeep else run_pc z\<rparr>)"
| ap_openWait: "(r, m) \<in> set (muxOpenWait ctxErr n (run_mux z)) \<Longrightarrow> run_step z (z\<lparr>run_mux := m\<rparr>)"
| ap_connMark: "run_step z (z\<lparr>run_mux := muxConnMark n (run_mux z)\<rparr>)"
| ap_remove: "run_step z (z\<lparr>run_mux := snd (muxRemove n (run_mux z))\<rparr>)"
| ap_connClose: "run_step z (z\<lparr>run_mux := snd (muxConnClose n (run_mux z))\<rparr>)"
| ap_recvTry: "run_step z (z\<lparr>run_mux := snd (muxRecvTry n (run_mux z))\<rparr>)"
| ap_recvWait: "(r, m) \<in> set (muxRecvWait ctxErr n (run_mux z)) \<Longrightarrow> run_step z (z\<lparr>run_mux := m\<rparr>)"
| ap_close: "run_step z (z\<lparr>run_mux := muxClose (run_mux z)\<rparr>)"

inductive run_reach :: "muxRun \<Rightarrow> bool" where
  rr_new: "run_reach \<lparr> run_mux = newMux cl, run_pc = RunExited, run_reader = NoReader, run_stop = False \<rparr>"
| rr_step: "run_reach z \<Longrightarrow> run_step z z' \<Longrightarrow> run_reach z'"

subsection \<open>Invariant\<close>

text \<open>A change that removes peers at most, keeps the stream every connection is joined to, the receiver and the kick.\<close>

definition calm :: "mux \<Rightarrow> mux \<Rightarrow> bool" where
  "calm m m' \<longleftrightarrow> mu_running m' = mu_running m \<and> mu_rcv m' = mu_rcv m \<and> set (mu_conns m') \<subseteq> set (mu_conns m) \<and>
     (\<forall>n. mk_stream (mu_objs m' n) = mk_stream (mu_objs m n)) \<and> (mu_kick m \<longrightarrow> mu_kick m') \<and>
     ((mu_cancelled m \<longrightarrow> mu_closed m) \<longrightarrow> mu_cancelled m' \<longrightarrow> mu_closed m')"

lemma calm_refl [simp]: "calm m m" by (simp add: calm_def)

lemma calm_trans: "calm a b \<Longrightarrow> calm b c \<Longrightarrow> calm a c" by (auto simp: calm_def)

lemma calm_setMux: "mk_stream c = mk_stream (mu_objs m n) \<Longrightarrow> calm m (setMux n c m)"
  by (simp add: calm_def setMux_def)

lemma calm_ops [simp]: "calm m (muxFail e n m)" "calm m (muxConnMark n m)" "calm m (snd (muxRemove n m))"
  by (auto simp: muxFail_def muxConnMark_def muxRemove_def muxPoke_def setMux_def Let_def calm_def)

lemma calm_connClose [simp]: "calm m (snd (muxConnClose n m))"
  using calm_trans [OF calm_ops(2) calm_ops(3)] by (auto simp: muxConnClose_def case_prod_beta)

lemma calm_fold: "calm m (fold muxConnMark ns m)" "calm m (fold (muxFail e) ns m)"
proof -
  show "calm m (fold muxConnMark ns m)" by (induction ns arbitrary: m) (auto intro: calm_trans [OF calm_ops(2)])
  show "calm m (fold (muxFail e) ns m)" by (induction ns arbitrary: m) (auto intro: calm_trans [OF calm_ops(1)])
qed

lemma calm_failAll [simp]: "calm m (failAll e m)"
  unfolding failAll_def by (rule calm_trans [OF _ calm_fold(2)]) (simp add: calm_def)

lemma calm_close [simp]: "calm m (muxClose m)"
proof -
  have "calm m (shutRcv r (m\<lparr>mu_closed := True, mu_conns := [], mu_cancelled := True\<rparr>))" for r
    by (simp add: calm_def shutRcv_def split: option.splits)
  then show ?thesis by (auto simp: muxClose_def Let_def intro: calm_trans [OF _ calm_fold(1)])
qed

lemma calm_failed [simp]: "sessionFailed e n m = (x, m') \<Longrightarrow> calm m m'"
  using calm_trans [OF calm_ops(1) calm_ops(3)] by (auto simp: sessionFailed_def split: if_splits)

lemma calm_take: "muxInboxTake (mu_objs m n) = (x, c) \<Longrightarrow> calm m (setMux n c m)"
  by (rule calm_setMux) (auto simp: muxInboxTake_def split: list.splits)

lemma calm_recv [simp]: "calm m (snd (muxRecvTry n m))" "(r, m') \<in> set (muxRecvWait ctxErr n m) \<Longrightarrow> calm m m'"
  using calm_take [of m n] by (cases "muxInboxTake (mu_objs m n)";
      auto simp: muxRecvTry_def muxRecvWait_def split: list.splits if_splits option.splits)+

lemma calm_openWait: "(r, m') \<in> set (muxOpenWait ctxErr n m) \<Longrightarrow> calm m m'"
  by (auto simp: muxOpenWait_def split: if_splits option.splits)

lemma calm_hand [simp]: "calm m (m'\<lparr>mu_hand := h\<rparr>) = calm m m'"
  by (simp add: calm_def)

lemma calm_read: "readTurn s msg m = (x, m') \<Longrightarrow> calm m m'"
  using calm_trans [OF calm_ops(1) calm_ops(3)]
  by (auto simp: readTurn_def Let_def intro!: calm_setMux split: if_splits eventData.splits option.splits)

lemma calm_put: "(b, m') \<in> set (muxPutTurn stop m) \<Longrightarrow> calm m m'"
  by (auto simp: muxPutTurn_def muxInboxPut_def intro!: calm_setMux split: option.splits prod.splits bool.splits if_splits)

text \<open>No open peer is forgotten: it is on the stream, still to be joined, or the goroutine will look again.\<close>

definition covered :: "string \<Rightarrow> (nat \<times> u64) list \<Rightarrow> bool \<Rightarrow> mux \<Rightarrow> bool" where
  "covered s todo retry m \<longleftrightarrow> retry \<or> mu_kick m \<or>
     (\<forall>x \<in> set (mu_conns m). mk_stream (mu_objs m (snd x)) = s \<or> snd x \<in> fst ` set todo)"

fun pc_ok :: "runPc \<Rightarrow> mux \<Rightarrow> bool" where
  "pc_ok (RunJoin s todo retry) m = covered s todo retry m"
| "pc_ok (RunIdle s retry) m = covered s [] retry m"
| "pc_ok (RunWait s retry) m = covered s [] retry m"
| "pc_ok _ m = True"

text \<open>Where a receiver may be open.\<close>

fun attached :: "runPc \<Rightarrow> bool" where
  "attached (RunNaming n) = True"
| "attached (RunLoop s) = True"
| "attached (RunJoin s todo retry) = True"
| "attached (RunIdle s retry) = True"
| "attached (RunWait s retry) = True"
| "attached (RunTear e) = True"
| "attached _ = False"

definition run_ok :: "muxRun \<Rightarrow> bool" where
  "run_ok z \<longleftrightarrow> mux_ok (run_mux z) \<and> (mu_cancelled (run_mux z) \<longrightarrow> mu_closed (run_mux z)) \<and>
     (mu_running (run_mux z) \<longleftrightarrow> run_pc z \<noteq> RunExited) \<and> (mu_conns (run_mux z) \<noteq> [] \<longrightarrow> run_pc z \<noteq> RunExited) \<and>
     pc_ok (run_pc z) (run_mux z) \<and> (\<not> attached (run_pc z) \<longrightarrow> mu_rcv (run_mux z) = None)"

lemma covered_calm: "calm m m' \<Longrightarrow> covered s todo retry m \<Longrightarrow> covered s todo retry m'"
  by (auto simp: calm_def covered_def)

lemma pc_ok_calm: "calm m m' \<Longrightarrow> pc_ok pc m \<Longrightarrow> pc_ok pc m'"
  by (cases pc) (auto intro: covered_calm)

lemma run_ok_calm:
  assumes "run_ok z" "calm (run_mux z) m" "mux_ok m"
  shows "run_ok (z\<lparr>run_mux := m\<rparr>)"
proof -
  have "mu_conns m \<noteq> [] \<longrightarrow> run_pc z \<noteq> RunExited"
  proof
    assume "mu_conns m \<noteq> []"
    then have "mu_conns (run_mux z) \<noteq> []" using assms(2) by (auto simp: calm_def)
    then show "run_pc z \<noteq> RunExited" using assms(1) unfolding run_ok_def by blast
  qed
  moreover have "pc_ok (run_pc z) m" using assms(1,2) pc_ok_calm by (simp add: run_ok_def)
  ultimately show ?thesis using assms by (simp add: run_ok_def calm_def)
qed

lemma run_ok_mux: "run_ok z \<Longrightarrow> mux_ok (run_mux z)"
  by (simp add: run_ok_def)

lemma run_ok_cong: "run_ok z \<Longrightarrow> run_pc z' = run_pc z \<Longrightarrow> run_mux z' = run_mux z \<Longrightarrow> run_ok z'"
  by (simp add: run_ok_def)

text \<open>The goroutine moves on and leaves the rest alone.\<close>

lemma run_ok_pc:
  assumes "run_ok z" "pc \<noteq> RunExited" "run_pc z \<noteq> RunExited" "pc_ok pc (run_mux z)" "attached pc \<or> \<not> attached (run_pc z)"
  shows "run_ok (z\<lparr>run_pc := pc\<rparr>)"
  using assms by (auto simp: run_ok_def)

text \<open>The steps of the goroutine that change the connections.\<close>

lemma run_teardown:
  assumes "run_ok z" "run_pc z \<noteq> RunExited" "pc \<noteq> RunExited" "\<And>m. pc_ok pc m"
  shows "run_ok (z\<lparr>run_pc := pc, run_mux := muxTeardown (run_mux z)\<rparr>)"
  using assms mux_step_ok [OF mu_teardown, of "run_mux z"] by (auto simp: run_ok_def muxTeardown_def shutRcv_def split: option.splits)

lemma run_opened:
  assumes z: "run_ok z" "run_pc z = RunConnect n" and c: "connectOpened r (run_mux z) = (x, m)"
  shows "run_ok (z\<lparr>run_pc := (case x of Inl e \<Rightarrow> RunFailed e n | Inr _ \<Rightarrow> RunNaming n), run_mux := m\<rparr>)"
proof -
  have "mux_ok m" using mux_step_ok [OF mu_opened, of "run_mux z" r] z(1) c by (simp add: run_ok_def)
  then show ?thesis using z c by (auto simp: run_ok_def connectOpened_def split: sum.splits if_splits)
qed

lemma run_naming:
  assumes z: "run_ok z" "run_pc z = RunNaming n" and c: "connectTurn w r (run_mux z) = (x, m)"
  shows "run_ok (case x of
      None \<Rightarrow> z\<lparr>run_mux := m\<rparr>
    | Some (Inl e) \<Rightarrow> z\<lparr>run_pc := RunFailed e n, run_mux := m\<rparr>
    | Some (Inr s) \<Rightarrow> z\<lparr>run_pc := RunLoop s, run_mux := m, run_reader := Reading s, run_stop := False\<rparr>)"
proof -
  have "mux_ok m" using mux_step_ok [OF mu_connect, of "run_mux z" w r] z(1) c by (simp add: run_ok_def)
  then show ?thesis using z c
    by (auto simp: run_ok_def connectTurn_def connectFail_def shutRcv_def split: sum.splits if_splits option.splits eventData.splits)
qed

text \<open>One join: the peer is on the stream afterwards, gone from the table, or the join is retried.\<close>

lemma unregistered:
  assumes "mux_ok m" "map_of (mu_conns m) (mk_local (mu_objs m n)) \<noteq> Some n" "x \<in> set (mu_conns m)"
  shows "snd x \<noteq> n"
proof
  assume n: "snd x = n"
  have "distinct (map fst (mu_conns m))" "mk_local (mu_objs m n) = fst x" using assms(1,3) n by (auto simp: mux_ok_def)
  then have "map_of (mu_conns m) (mk_local (mu_objs m n)) = Some n" using assms(3) n by (metis map_of_is_SomeI prod.collapse)
  then show False using assms(2) by simp
qed

lemma join_next:
  assumes ok: "mux_ok m" and c: "covered s ((n, k) # todo) retry m" and a: "joinAnswer s n r m = ((JoinNext, q), m')"
  shows "covered s todo retry m'"
proof (cases "map_of (mu_conns m) (mk_local (mu_objs m n)) = Some n")
  case True
  then consider "m' = setMux n ((mu_objs m n)\<lparr>mk_stream := s, mk_ready := True\<rparr>) m"
    | e where "m' = snd (muxRemove n (muxFail e n m))" using a
    by (auto simp: joinAnswer_def Let_def split: joinResult.splits if_splits)
  then show ?thesis
  proof cases
    case 1
    then show ?thesis using c by (auto simp: covered_def setMux_def)
  next
    case 2
    then have "mu_kick m'" using True by (auto simp: muxRemove_def muxFail_def setMux_def muxPoke_def Let_def)
    then show ?thesis by (simp add: covered_def)
  qed
next
  case False
  then have "covered s todo retry m" using c unregistered [OF ok False] by (auto simp: covered_def)
  moreover have "calm m m'" using a False calm_trans [OF calm_ops(1) calm_ops(3)]
    by (auto simp: joinAnswer_def Let_def split: joinResult.splits if_splits)
  ultimately show ?thesis by (simp add: covered_calm)
qed

lemma run_join:
  assumes z: "run_ok z" "run_pc z = RunJoin s ((n, k) # todo) retry" and j: "joinStep s n todo retry r (run_mux z) = (pc, m)"
  shows "run_ok (z\<lparr>run_pc := pc, run_mux := m\<rparr>)"
proof -
  let ?m = "run_mux z"
  have ok: "mux_ok ?m" "mu_running ?m" "mu_cancelled ?m \<longrightarrow> mu_closed ?m" and c: "covered s ((n, k) # todo) retry ?m"
    using z by (simp_all add: run_ok_def)
  obtain t q where a: "joinAnswer s n r ?m = ((t, q), m)" using j by (auto simp: joinStep_def split: prod.splits)
  then have pc: "pc = (case t of JoinNext \<Rightarrow> RunJoin s todo retry | JoinRetry \<Rightarrow> RunJoin s todo True
      | JoinGone \<Rightarrow> RunTear (Some errStreamGone) | JoinStop \<Rightarrow> RunIdle s False)" using j by (simp add: joinStep_def)
  have m: "mux_ok m" using joinAnswer_ok [OF ok(1), of s n r] a by simp
  have same: "mu_running m" "mu_cancelled m \<longrightarrow> mu_closed m" using a ok(2,3)
    by (auto simp: joinAnswer_def Let_def setMux_def muxRemove_def muxFail_def muxPoke_def split: joinResult.splits if_splits)
  have "pc_ok pc m"
  proof (cases t)
    case JoinNext
    then show ?thesis using join_next [OF ok(1) c] a pc by simp
  next
    case JoinStop
    then have "mu_conns ?m = []" "m = ?m" using a ok(1,3)
      by (auto simp: joinAnswer_def Let_def mux_ok_def split: joinResult.splits if_splits)
    then show ?thesis using pc JoinStop by (simp add: covered_def)
  qed (simp_all add: pc covered_def)
  then show ?thesis using m same by (cases t) (simp_all add: run_ok_def pc)
qed

lemma run_wait:
  assumes z: "run_ok z" "run_pc z = RunWait s retry" "z' \<in> set (sessionWait s retry z)"
  shows "run_ok z'"
proof -
  have k: "run_ok (z\<lparr>run_pc := RunLoop s, run_mux := (run_mux z)\<lparr>mu_kick := False\<rparr>\<rparr>)" using z(1,2) by (auto simp: run_ok_def)
  have "run_ok (z\<lparr>run_pc := RunLoop s\<rparr>)" "run_ok (z\<lparr>run_pc := RunTear None\<rparr>)"
    using run_ok_pc [OF z(1)] z(2) by simp_all
  moreover have "run_ok (z\<lparr>run_pc := RunAfter e, run_mux := muxTeardown (run_mux z)\<rparr>)" for e
    by (rule run_teardown [OF z(1)]) (simp_all add: z(2))
  then have "run_ok w" if "run_pc w = RunAfter e" "run_mux w = muxTeardown (run_mux z)" for e w
    by (rule run_ok_cong) (use that in simp_all)
  ultimately show ?thesis using z(3) k by (auto simp: sessionWait_def Let_def split: if_splits reader.splits)
qed

lemma run_open:
  assumes z: "run_ok z" and o: "muxOpen ctxErr i (run_mux z) = (x, m)"
  shows "run_ok (z\<lparr>run_mux := m, run_pc := if mu_running m \<and> \<not> mu_running (run_mux z) then RunKeep else run_pc z\<rparr>)"
proof (cases "m = run_mux z")
  case True
  then have "(if mu_running m \<and> \<not> mu_running (run_mux z) then RunKeep else run_pc z) = run_pc z" by simp
  then show ?thesis using z True by simp
next
  case False
  then have m: "m = muxPoke (setMux (mu_next (run_mux z)) (newMuxConn i) ((run_mux z)\<lparr>mu_conns := (i, mu_next (run_mux z)) # mu_conns (run_mux z),
      mu_next := mu_next (run_mux z) + 1, mu_running := True\<rparr>))"
    using o by (auto simp: muxOpen_def Let_def split: option.splits if_splits)
  have "mux_ok m" using muxOpen_ok [of "run_mux z" ctxErr i] z o by (simp add: run_ok_def)
  moreover have "mu_running m" "mu_kick m" "mu_rcv m = mu_rcv (run_mux z)" "mu_cancelled m = mu_cancelled (run_mux z)"
      "mu_closed m = mu_closed (run_mux z)" by (simp_all add: m muxPoke_def setMux_def)
  moreover have "pc_ok pc m" for pc using \<open>mu_kick m\<close> by (cases pc) (simp_all add: covered_def)
  ultimately show ?thesis using z by (auto simp: run_ok_def)
qed

lemma run_step_ok: "run_step z z' \<Longrightarrow> run_ok z \<Longrightarrow> run_ok z'"
proof (induction rule: run_step.induct)
  case (rn_keep z b m)
  then show ?case by (auto simp: run_ok_def keepRunning_def mux_ok_def split: if_splits)
next
  case (rn_failed z e n x m)
  have "mux_ok m" using mux_step_ok [OF mu_failed, of "run_mux z" e n] rn_failed by (simp add: run_ok_def)
  then have "run_ok (z\<lparr>run_mux := m\<rparr>)" using run_ok_calm [OF rn_failed(3)] rn_failed(2) by simp
  then have "run_ok (z\<lparr>run_mux := m, run_pc := RunAfter x\<rparr>)" using run_ok_pc [of "z\<lparr>run_mux := m\<rparr>" "RunAfter x"] rn_failed(1) by simp
  then show ?case by (rule run_ok_cong) simp_all
next
  case (rn_loop z s)
  have "covered s (joinTodo s (run_mux z)) False (run_mux z)" by (force simp: covered_def joinTodo_def)
  then show ?case using run_ok_pc [OF rn_loop(2)] rn_loop(1) by simp
next
  case (rn_idle z s retry)
  then show ?case using run_ok_pc [OF rn_idle(2)] by (simp add: run_ok_def)
next
  case (rn_joined z s retry)
  then show ?case using run_ok_pc [OF rn_joined(2)] by (simp add: run_ok_def)
next
  case (rn_tear z e)
  then have "run_ok (z\<lparr>run_pc := RunDrain e, run_mux := muxTeardown (run_mux z)\<rparr>)" by (intro run_teardown) simp_all
  then show ?case by (rule run_ok_cong) simp_all
next
  case (rn_after z e b m)
  then show ?case by (auto simp: run_ok_def muxRunTurn_def mux_ok_def split: if_splits)
next
  case (rd_event z s msg x m)
  have "mux_ok m" using readTurn_ok [of "run_mux z" s msg] rd_event by (simp add: run_ok_def)
  then have "run_ok (z\<lparr>run_mux := m\<rparr>)" using run_ok_calm [OF rd_event(4) calm_read [OF rd_event(3)]] by simp
  then show ?case by (rule run_ok_cong) simp_all
next
  case (rd_put z s b m)
  have "mux_ok m" using muxPutTurn_ok [OF _ rd_put(2)] rd_put(3) by (simp add: run_ok_def)
  then have "run_ok (z\<lparr>run_mux := m\<rparr>)" using run_ok_calm [OF rd_put(3) calm_put [OF rd_put(2)]] by simp
  then show ?case by (rule run_ok_cong) simp_all
next
  case (ap_openWait r m ctxErr n z)
  then show ?case using run_ok_calm [OF ap_openWait(2) calm_openWait] mux_step_ok [OF mu_openWait] by (simp add: run_ok_def)
next
  case (ap_recvWait r m ctxErr n z)
  have "mux_ok m" using recv_ok(2) [OF _ ap_recvWait(1)] ap_recvWait(2) by (simp add: run_ok_def)
  then show ?case using run_ok_calm [OF ap_recvWait(2) calm_recv(2) [OF ap_recvWait(1)]] by simp
next
  case (ap_close z)
  then show ?case using run_ok_calm [OF ap_close calm_close] mux_step_ok [OF mu_close, of "run_mux z"] by (simp add: run_ok_def)
next
  case (rn_drain z e err)
  then have "run_ok (z\<lparr>run_pc := RunAfter e\<rparr>)" by (intro run_ok_pc) simp_all
  then show ?case by (rule run_ok_cong) simp_all
next
  case (rn_opened z n r x m)
  then show ?case by (intro run_opened)
next
  case (rn_naming z n w r x m)
  then show ?case by (intro run_naming)
next
  case (rn_join z s n lastID todo retry r pc m)
  then show ?case by (intro run_join)
next
  case (rn_wait z s retry z')
  show ?case by (rule run_wait [OF rn_wait(3,1,2)])
next
  case (ap_open ctxErr i z x m)
  then show ?case by (intro run_open)
next
  case (rd_failed z s err)
  show ?case by (rule run_ok_cong [OF rd_failed(3)]) simp_all
next
  case (ap_connMark z n)
  then show ?case using run_ok_calm [OF ap_connMark calm_ops(2)] muxConnMark_ok by (simp add: run_ok_mux)
next
  case (ap_remove z n)
  then show ?case using run_ok_calm [OF ap_remove calm_ops(3)] muxRemove_ok by (simp add: run_ok_mux)
next
  case (ap_connClose z n)
  then show ?case using run_ok_calm [OF ap_connClose calm_connClose] muxConnClose_ok by (simp add: run_ok_mux)
next
  case (ap_recvTry z n)
  then show ?case using run_ok_calm [OF ap_recvTry calm_recv(1)] recv_ok(1) by (simp add: run_ok_mux)
qed (simp_all add: run_ok_pc)

lemma run_reach_ok: "run_reach z \<Longrightarrow> run_ok z"
proof (induction rule: run_reach.induct)
  case (rr_new cl)
  then show ?case
    by (simp add: run_ok_def mux_ok_def newMux_def newMuxConn_def conn_ok_def inboxSize_def DefaultInbox_def)
qed (use run_step_ok in blast)


definition ex_mux_client :: sseClient where
  "ex_mux_client = \<lparr> cl_URL = ''u'', cl_Token = [], cl_Authorize = None,
     cl_Backoff = \<lparr> bo_Initial = 0, bo_Maximum = 0, bo_Factor = Fin 0, bo_Jitter = Fin 0 \<rparr>, cl_Inbox = 0 \<rparr>"

definition ex_mux :: muxRun where
  "ex_mux = \<lparr> run_mux = newMux ex_mux_client, run_pc = RunExited, run_reader = NoReader, run_stop = False \<rparr>"

definition ex_mux_open :: muxRun where
  "ex_mux_open = ex_mux\<lparr>run_mux := snd (muxOpen None ''a'' (run_mux ex_mux)), run_pc := RunKeep\<rparr>"


subsection \<open>Leaving after the successor has joined\<close>

text \<open>\<open>Close\<close> of a connection takes the peer out of the table and then, without the lock, asks the server to drop it from
  the stream. If the peer is opened again in between and its join is answered first, the late request names the same
  peer and the same stream: the server drops the new member, and the new connection believes it is on the stream.\<close>

lemma late_leave:
  assumes "mux_reach m" "mu_conns m = [(i, n)]" "\<not> mk_closed (mu_objs m n)" "mk_stream (mu_objs m n) = mu_stream m" "mu_stream m \<noteq> []"
    "\<not> mu_cancelled m" "\<not> mu_closed m" "cl_URL (mu_client m) \<noteq> []"
    and c: "muxConnClose n m = (lv, m1)" and o: "muxOpen None i m1 = (Inr k, m2)" and j: "joinAnswer (mu_stream m) k Joined m2 = (x, m3)"
  shows "lv = Some (decorate (mu_client m) i ((newRequest ''DELETE'' BodyUnreadable)\<lparr>rq_MuxHeader := mu_stream m\<rparr>)) \<and>
    map_of (mu_conns m3) i = Some k \<and> mk_stream (mu_objs m3 k) = mu_stream m \<and> mk_ready (mu_objs m3 k)"
proof -
  have l: "mk_local (mu_objs m n) = i" using mux_reach_ok [OF assms(1)] assms(2) by (simp add: mux_ok_def)
  show ?thesis using c o j l assms(2-8)
    by (auto simp: muxConnClose_def muxRemove_def muxConnMark_def setMux_def muxPoke_def muxOpen_def joinAnswer_def newMuxConn_def
        leaveRequest_def Let_def split: if_splits)
qed

text \<open>The server looks at the names only.\<close>

lemma leave_drops: "map_of (mx_members (sv_streams (leave m i sv) m)) i = None"
  by (auto simp: leave_def detachMember_def srvDetach_def setPeer_def setStream_def map_of_eq_None_iff Let_def split: option.splits)

end
