(* ===== verification/Relay.thy ===== *)
theory Relay
  imports Signal "HOL-Library.AList" "HOL-Library.List_Lexorder" "HOL-Library.Char_ord"
begin

text \<open>
  The STUN and TURN server (\<^verbatim>\<open>relay/relay.go\<close>): plans, authentication, the allocation quota, the counters and
  the shaped sockets.

  \<^item> The TURN implementation, the sockets and the token buckets are packages outside the repository. What they answer
    is an argument: the check of an ephemeral credential (\<open>secretHandler\<close>), the result of a read or a write, whether a
    bucket has room and how long a reservation would wait.
  \<^item> Maps are association lists. The counters of a user are never removed or replaced, so a pointer to them is the
    user's identifier. Counters are integers.
  \<^item> Sizes and rates in texts are in \<open>Relay_Size\<close>, starting and closing a server in \<open>Relay_Server\<close>. Log output is not
    modelled.
\<close>

subsection \<open>Configuration\<close>

record Plan =
  pl_Rate :: int
  pl_Burst :: int
  pl_MaxDelay :: int
  pl_MaxAllocations :: int

record User =
  us_Password :: string
  us_Plan :: string

text \<open>\<open>net.IP\<close>: an address of four bytes, which Go does not tell from its form of sixteen, or any other byte slice.\<close>

type_synonym ip4 = "byte \<times> byte \<times> byte \<times> byte"

datatype ipAddr = IP4 ip4 | IPOther bytes

record relayConfig =
  rl_Listen :: string
  rl_ListenTCP :: string
  rl_Realm :: string
  rl_Users :: "(string \<times> User) list"
  rl_AuthSecret :: string
  rl_Plans :: "(string \<times> Plan) list"
  rl_DefaultPlan :: Plan
  rl_PlanFor :: "(string \<Rightarrow> string) option"
  rl_RelayIP :: "ipAddr option"
  rl_MinPort :: u16
  rl_MaxPort :: u16

definition DefaultRealm :: string where "DefaultRealm = ''pipe.example''"
definition DefaultMaxDelay :: int where "DefaultMaxDelay = 20 * 10 ^ 6"
definition DefaultCredentialTTL :: int where "DefaultCredentialTTL = 24 * 3600 * 10 ^ 9"
definition minBurst :: int where "minBurst = 65536"

text \<open>\<open>Start\<close> up to the first listener: the defaults and the checks.\<close>

definition relayStart :: "relayConfig \<Rightarrow> gerror + relayConfig" where
  "relayStart cfg =
     (let cfg = (if rl_Realm cfg = [] then cfg\<lparr>rl_Realm := DefaultRealm\<rparr> else cfg);
          cfg = (if rl_Listen cfg = [] then cfg\<lparr>rl_Listen := ''127.0.0.1:0''\<rparr> else cfg) in
      if (rl_MinPort cfg = 0) \<noteq> (rl_MaxPort cfg = 0) \<or> rl_MinPort cfg > rl_MaxPort cfg
      then Inl (Plain ''relay: MinPort and MaxPort must both be set, with MinPort <= MaxPort'')
      else if list_ex (\<lambda>(name, _). name = []) (rl_Plans cfg) then Inl (Plain ''relay: a plan name cannot be empty'')
      else if list_ex (\<lambda>(user, u). user = [] \<or> us_Plan u \<noteq> [] \<and> map_of (rl_Plans cfg) (us_Plan u) = None) (rl_Users cfg)
      then Inl (Plain ''relay: a user is not usable'')
      else Inr cfg)"

text \<open>\<open>strings.Cut\<close> with a separator of one character.\<close>

fun cut :: "char \<Rightarrow> string \<Rightarrow> string \<times> string \<times> bool" where
  "cut sep [] = ([], [], False)"
| "cut sep (c # cs) = (if c = sep then ([], cs, True) else (case cut sep cs of (a, b, ok) \<Rightarrow> (c # a, b, ok)))"

definition planName :: "relayConfig \<Rightarrow> string \<Rightarrow> string" where
  "planName cfg userID =
     (case rl_PlanFor cfg of
        Some f \<Rightarrow> f userID
      | None \<Rightarrow>
          let suffix = (case cut (CHR ''@'') userID of
                          (_, p, True) \<Rightarrow> if map_of (rl_Plans cfg) p \<noteq> None then p else []
                        | _ \<Rightarrow> [])
          in case map_of (rl_Users cfg) userID of
               Some u \<Rightarrow> if us_Plan u \<noteq> [] then us_Plan u else suffix
             | None \<Rightarrow> suffix)"

definition plan :: "relayConfig \<Rightarrow> string \<Rightarrow> string \<times> Plan" where
  "plan cfg userID =
     (let name = planName cfg userID in
      case map_of (rl_Plans cfg) name of
        Some p \<Rightarrow> if name \<noteq> [] then (name, p) else (''default'', rl_DefaultPlan cfg)
      | None \<Rightarrow> (''default'', rl_DefaultPlan cfg))"

definition userIDOf :: "relayConfig \<Rightarrow> string \<Rightarrow> string" where
  "userIDOf cfg username =
     (if rl_AuthSecret cfg = [] then username
      else if map_of (rl_Users cfg) username \<noteq> None then username
      else case cut (CHR '':'') username of (_, i, True) \<Rightarrow> i | _ \<Rightarrow> username)"

definition burstFor :: "int \<Rightarrow> int \<Rightarrow> int" where
  "burstFor rateBytes burst = (if burst > 0 then max burst minBurst else max (rateBytes div 10) minBurst)"

definition maxDelayFor :: "int \<Rightarrow> int" where
  "maxDelayFor d = (if d < 0 then 0 else if d = 0 then DefaultMaxDelay else d)"

subsection \<open>Credentials\<close>

text \<open>The digests \<open>Start\<close> keeps of the passwords, and the handler it gives to the TURN server. \<open>generateAuthKey\<close>, of user,
  realm and password, and \<open>secretHandler\<close>, which checks an ephemeral credential, come from the TURN package.\<close>

type_synonym keyGen = "string \<Rightarrow> string \<Rightarrow> string \<Rightarrow> bytes"

definition authKeys :: "keyGen \<Rightarrow> relayConfig \<Rightarrow> (string \<times> bytes) list" where
  "authKeys generateAuthKey cfg = map (\<lambda>(name, u). (name, generateAuthKey name (rl_Realm cfg) (us_Password u))) (rl_Users cfg)"

definition authHandler ::
    "(string \<times> bytes) list \<Rightarrow> (string \<Rightarrow> (string \<times> bytes) option) \<Rightarrow> relayConfig \<Rightarrow> string \<Rightarrow> (string \<times> bytes) option" where
  "authHandler keys secretHandler cfg username =
     (case map_of keys username of
        Some key \<Rightarrow> Some (username, key)
      | None \<Rightarrow> if rl_AuthSecret cfg \<noteq> [] then secretHandler username else None)"

definition IssueCredentials ::
    "(string \<Rightarrow> string \<Rightarrow> int \<Rightarrow> gerror + string \<times> string) \<Rightarrow> string \<Rightarrow> string \<Rightarrow> int \<Rightarrow> gerror + string \<times> string" where
  "IssueCredentials generate secret userID ttl =
     (if secret = [] then Inl (Plain ''relay: an auth secret is required to issue credentials'')
      else if userID = [] \<or> CHR '':'' \<in> set userID
      then Inl (Plain ''relay: the user ID must be non-empty and must not contain a colon'')
      else generate secret userID (if ttl \<le> 0 then DefaultCredentialTTL else ttl))"

subsection \<open>Counters\<close>

record counters =
  ct_sentBytes :: int
  ct_sentPackets :: int
  ct_recvBytes :: int
  ct_recvPackets :: int
  ct_droppedBytes :: int
  ct_droppedPackets :: int
  ct_delayedPackets :: int

definition noCounters :: counters where
  "noCounters = \<lparr> ct_sentBytes = 0, ct_sentPackets = 0, ct_recvBytes = 0, ct_recvPackets = 0, ct_droppedBytes = 0,
     ct_droppedPackets = 0, ct_delayedPackets = 0 \<rparr>"

record userCounters =
  uc_plan :: string
  uc_allocations :: int
  uc_active :: int
  uc_rejected :: int
  uc_counters :: counters

text \<open>A relay socket: its owner, and its budget if its plan has a rate.\<close>

datatype relaySock =
    countingConn string
  | shapedConn string int int int

fun sockUser :: "relaySock \<Rightarrow> string" where
  "sockUser (countingConn i) = i"
| "sockUser (shapedConn i _ _ _) = i"

record generator =
  g_cfg :: relayConfig
  g_allocations :: int
  g_active :: int
  g_counters :: counters
  g_users :: "(string \<times> userCounters) list"

definition newGenerator :: "relayConfig \<Rightarrow> generator" where
  "newGenerator cfg = \<lparr> g_cfg = cfg, g_allocations = 0, g_active = 0, g_counters = noCounters, g_users = [] \<rparr>"

text \<open>\<open>user\<close> makes sure that a user has counters; \<open>onUser\<close> changes those it has.\<close>

definition user :: "string \<Rightarrow> string \<Rightarrow> generator \<Rightarrow> generator" where
  "user i pname g =
     (case map_of (g_users g) i of
        Some uc \<Rightarrow> g
      | None \<Rightarrow> g\<lparr>g_users := (i, \<lparr> uc_plan = pname, uc_allocations = 0, uc_active = 0, uc_rejected = 0,
                                    uc_counters = noCounters \<rparr>) # g_users g\<rparr>)"

definition userExisting :: "string \<Rightarrow> generator \<Rightarrow> generator" where
  "userExisting i g = user i (fst (plan (g_cfg g) i)) g"

definition onUser :: "string \<Rightarrow> (userCounters \<Rightarrow> userCounters) \<Rightarrow> generator \<Rightarrow> generator" where
  "onUser i f g = g\<lparr>g_users := map (\<lambda>(j, uc). if j = i then (j, f uc) else (j, uc)) (g_users g)\<rparr>"

definition toSinks :: "string \<Rightarrow> (counters \<Rightarrow> counters) \<Rightarrow> generator \<Rightarrow> generator" where
  "toSinks i f g = onUser i (\<lambda>uc. uc\<lparr>uc_counters := f (uc_counters uc)\<rparr>) (g\<lparr>g_counters := f (g_counters g)\<rparr>)"

definition addSent :: "string \<Rightarrow> int \<Rightarrow> generator \<Rightarrow> generator" where
  "addSent i n = toSinks i (\<lambda>c. c\<lparr>ct_sentBytes := ct_sentBytes c + n, ct_sentPackets := ct_sentPackets c + 1\<rparr>)"

definition addReceived :: "string \<Rightarrow> int \<Rightarrow> generator \<Rightarrow> generator" where
  "addReceived i n = toSinks i (\<lambda>c. c\<lparr>ct_recvBytes := ct_recvBytes c + n, ct_recvPackets := ct_recvPackets c + 1\<rparr>)"

definition addDropped :: "string \<Rightarrow> int \<Rightarrow> generator \<Rightarrow> generator" where
  "addDropped i n = toSinks i (\<lambda>c. c\<lparr>ct_droppedBytes := ct_droppedBytes c + n, ct_droppedPackets := ct_droppedPackets c + 1\<rparr>)"

definition addDelayed :: "string \<Rightarrow> generator \<Rightarrow> generator" where
  "addDelayed i = toSinks i (\<lambda>c. c\<lparr>ct_delayedPackets := ct_delayedPackets c + 1\<rparr>)"

subsection \<open>Allocations\<close>

text \<open>\<open>inner\<close> is the error of the socket allocator, if it fails.\<close>

definition AllocatePacketConn :: "gerror option \<Rightarrow> string \<Rightarrow> generator \<Rightarrow> (gerror + relaySock) \<times> generator" where
  "AllocatePacketConn inner userID g =
     (case inner of
        Some e \<Rightarrow> (Inl e, g)
      | None \<Rightarrow>
          (case plan (g_cfg g) userID of (name, p) \<Rightarrow>
             let g = user userID name g;
                 g = g\<lparr>g_allocations := g_allocations g + 1\<rparr>;
                 g = onUser userID (\<lambda>uc. uc\<lparr>uc_allocations := uc_allocations uc + 1\<rparr>) g
             in if pl_Rate p \<le> 0 then (Inr (countingConn userID), g)
                else (Inr (shapedConn userID (pl_Rate p) (burstFor (pl_Rate p) (pl_Burst p)) (maxDelayFor (pl_MaxDelay p))), g)))"

definition quota :: "string \<Rightarrow> generator \<Rightarrow> bool \<times> generator" where
  "quota username g =
     (let i = userIDOf (g_cfg g) username in
      case plan (g_cfg g) i of (name, p) \<Rightarrow>
        if pl_MaxAllocations p \<le> 0 then (True, g)
        else
          let g = user i name g in
          case map_of (g_users g) i of
            Some uc \<Rightarrow>
              if uc_active uc < pl_MaxAllocations p then (True, g)
              else (False, onUser i (\<lambda>uc. uc\<lparr>uc_rejected := uc_rejected uc + 1\<rparr>) g)
          | None \<Rightarrow> (True, g))"

definition onAllocationCreated :: "string \<Rightarrow> generator \<Rightarrow> generator" where
  "onAllocationCreated i g =
     onUser i (\<lambda>uc. uc\<lparr>uc_active := uc_active uc + 1\<rparr>) (userExisting i (g\<lparr>g_active := g_active g + 1\<rparr>))"

definition onAllocationDeleted :: "string \<Rightarrow> generator \<Rightarrow> generator" where
  "onAllocationDeleted i g =
     onUser i (\<lambda>uc. uc\<lparr>uc_active := uc_active uc - 1\<rparr>) (userExisting i (g\<lparr>g_active := g_active g - 1\<rparr>))"

subsection \<open>Sockets\<close>

text \<open>A socket without a rate only counts what the socket below answers (bytes, error).\<close>

definition countingWriteTo :: "string \<Rightarrow> int \<times> gerror option \<Rightarrow> generator \<Rightarrow> (int \<times> gerror option) \<times> generator" where
  "countingWriteTo i res g = (res, if fst res > 0 then addSent i (fst res) g else g)"

definition countingReadFrom :: "string \<Rightarrow> int \<times> gerror option \<Rightarrow> generator \<Rightarrow> (int \<times> gerror option) \<times> generator" where
  "countingReadFrom i res g = (res, if fst res > 0 then addReceived i (fst res) g else g)"

text \<open>A write to a socket with a rate: whether the bucket has room for the packet, what the socket below answers.\<close>

definition shapedWriteTo ::
    "string \<Rightarrow> int \<Rightarrow> bool \<Rightarrow> int \<times> gerror option \<Rightarrow> generator \<Rightarrow> (int \<times> gerror option) \<times> generator" where
  "shapedWriteTo i len allow res g =
     (if \<not> allow then ((len, None), addDropped i len g)
      else (res, if fst res > 0 then addSent i (fst res) g else g))"

text \<open>One turn of the loop of a read from such a socket: what the socket below gives and the reservation (whether it can be
  had at all, and its delay); \<open>None\<close> when the packet is discarded and the loop goes on.\<close>

definition shapedReadFrom ::
    "string \<Rightarrow> int \<Rightarrow> int \<times> gerror option \<Rightarrow> bool \<times> int \<Rightarrow> generator \<Rightarrow> (int \<times> gerror option) option \<times> generator" where
  "shapedReadFrom i maxDelay res rsv g =
     (if snd res \<noteq> None then (Some res, g)
      else if fst res = 0 then (Some res, g)
      else if \<not> fst rsv \<or> snd rsv > maxDelay then (None, addDropped i (fst res) g)
      else
        let g = (if snd rsv > 0 then addDelayed i g else g)
        in (Some res, addReceived i (fst res) g))"

text \<open>The calls of the TURN server on a socket it was given.\<close>

fun WriteTo :: "relaySock \<Rightarrow> int \<Rightarrow> bool \<Rightarrow> int \<times> gerror option \<Rightarrow> generator \<Rightarrow> (int \<times> gerror option) \<times> generator" where
  "WriteTo (countingConn i) len allow res g = countingWriteTo i res g"
| "WriteTo (shapedConn i rt bu md) len allow res g = shapedWriteTo i len allow res g"

fun ReadFrom ::
    "relaySock \<Rightarrow> int \<times> gerror option \<Rightarrow> bool \<times> int \<Rightarrow> generator \<Rightarrow> (int \<times> gerror option) option \<times> generator" where
  "ReadFrom (countingConn i) res rsv g = (case countingReadFrom i res g of (r, g) \<Rightarrow> (Some r, g))"
| "ReadFrom (shapedConn i rt bu md) res rsv g = shapedReadFrom i md res rsv g"

lemmas sock_defs = countingWriteTo_def countingReadFrom_def shapedWriteTo_def shapedReadFrom_def

subsection \<open>Statistics\<close>

record UserStats =
  ut_Plan :: string
  ut_Allocations :: int
  ut_Active :: int
  ut_SentBytes :: int
  ut_ReceivedBytes :: int
  ut_DroppedBytes :: int
  ut_DroppedPackets :: int
  ut_RejectedAllocations :: int

record relayStats =
  st_Allocations :: int
  st_Active :: int
  st_SentBytes :: int
  st_SentPackets :: int
  st_ReceivedBytes :: int
  st_ReceivedPackets :: int
  st_DroppedBytes :: int
  st_DroppedPackets :: int
  st_DelayedPackets :: int
  st_Users :: "(string \<times> UserStats) list"

definition counterSnapshot :: "counters \<Rightarrow> relayStats" where
  "counterSnapshot c = \<lparr> st_Allocations = 0, st_Active = 0, st_SentBytes = ct_sentBytes c, st_SentPackets = ct_sentPackets c,
     st_ReceivedBytes = ct_recvBytes c, st_ReceivedPackets = ct_recvPackets c, st_DroppedBytes = ct_droppedBytes c,
     st_DroppedPackets = ct_droppedPackets c, st_DelayedPackets = ct_delayedPackets c, st_Users = [] \<rparr>"

definition userStats :: "userCounters \<Rightarrow> UserStats" where
  "userStats uc =
     (let c = counterSnapshot (uc_counters uc) in
      \<lparr> ut_Plan = uc_plan uc, ut_Allocations = uc_allocations uc, ut_Active = uc_active uc, ut_SentBytes = st_SentBytes c,
        ut_ReceivedBytes = st_ReceivedBytes c, ut_DroppedBytes = st_DroppedBytes c, ut_DroppedPackets = st_DroppedPackets c,
        ut_RejectedAllocations = uc_rejected uc \<rparr>)"

definition stats :: "generator \<Rightarrow> relayStats" where
  "stats g =
     (counterSnapshot (g_counters g))\<lparr>st_Allocations := g_allocations g, st_Active := g_active g,
        st_Users := map (\<lambda>(i, uc). (i, userStats uc)) (g_users g)\<rparr>"

definition SortedUsers :: "relayStats \<Rightarrow> string list" where
  "SortedUsers s = sort (map fst (st_Users s))"

subsection \<open>Texts\<close>

text \<open>\<open>strings.Split\<close> with a separator of one character.\<close>

fun splitOn :: "char \<Rightarrow> string \<Rightarrow> string list" where
  "splitOn sep [] = [[]]"
| "splitOn sep (c # cs) =
     (if c = sep then [] # splitOn sep cs
      else case splitOn sep cs of w # ws \<Rightarrow> (c # w) # ws | [] \<Rightarrow> [[c]])"

fun parseUserEntries :: "string list \<Rightarrow> (string \<times> User) list \<Rightarrow> gerror + (string \<times> User) list" where
  "parseUserEntries [] users = Inr users"
| "parseUserEntries (e # es) users =
     (let entry = trimSpace e in
      if entry = [] then parseUserEntries es users
      else
        (case cut (CHR ''='') entry of (name, rest, ok) \<Rightarrow>
           if \<not> ok \<or> name = [] \<or> rest = [] then Inl (Plain ''relay: not a user=password[:plan] entry'')
           else
             (case cut (CHR '':'') rest of (password, p, _) \<Rightarrow>
                if password = [] then Inl (Plain ''relay: empty password'')
                else parseUserEntries es (AList.update name \<lparr> us_Password = password, us_Plan = p \<rparr> users))))"

definition ParseUsers :: "string \<Rightarrow> gerror + (string \<times> User) list" where
  "ParseUsers spec = parseUserEntries (splitOn (CHR '','') spec) []"

definition ParsePortRange :: "string \<Rightarrow> gerror + u16 \<times> u16" where
  "ParsePortRange s =
     (let spec = trimSpace s in
      if spec = [] then Inr (0, 0)
      else
        (case cut (CHR ''-'') spec of (lo, hi, ok) \<Rightarrow>
           if \<not> ok then Inl (Plain ''relay: not a min-max port range'')
           else
             (case parse_uint 16 (trimSpace lo) of
                None \<Rightarrow> Inl (Plain ''relay: not a valid port'')
              | Some a \<Rightarrow>
                  if a = 0 then Inl (Plain ''relay: not a valid port'')
                  else
                    (case parse_uint 16 (trimSpace hi) of
                       None \<Rightarrow> Inl (Plain ''relay: not a valid upper port'')
                     | Some b \<Rightarrow> if b = 0 \<or> b < a then Inl (Plain ''relay: not a valid upper port'')
                                 else Inr (of_nat a, of_nat b)))))"

subsection \<open>The server at work\<close>

text \<open>The sockets that were handed out, and for every live allocation its user. Requests are handled one after the
  other: authentication, quota, allocation, event.\<close>

record relaySys =
  y_gen :: generator
  y_socks :: "relaySock list"
  y_live :: "string list"

inductive relay_step ::
    "keyGen \<Rightarrow> (string \<Rightarrow> (string \<times> bytes) option) \<Rightarrow> relaySys \<Rightarrow> relaySys \<Rightarrow> bool" for ko sh where
  ry_allocate: "authHandler (authKeys ko (g_cfg (y_gen y))) sh (g_cfg (y_gen y)) username = Some (i, key) \<Longrightarrow> quota username (y_gen y) = (True, g) \<Longrightarrow>
    AllocatePacketConn None i g = (Inr s, g') \<Longrightarrow>
    relay_step ko sh y \<lparr> y_gen = onAllocationCreated i g', y_socks = s # y_socks y, y_live = i # y_live y \<rparr>"
| ry_refused: "quota username (y_gen y) = (False, g) \<Longrightarrow> relay_step ko sh y (y\<lparr>y_gen := g\<rparr>)"
| ry_failed: "quota username (y_gen y) = (True, g) \<Longrightarrow>
    relay_step ko sh y (y\<lparr>y_gen := snd (AllocatePacketConn (Some e) i g)\<rparr>)"
| ry_release: "i \<in> set (y_live y) \<Longrightarrow>
    relay_step ko sh y (y\<lparr>y_gen := onAllocationDeleted i (y_gen y), y_live := remove1 i (y_live y)\<rparr>)"
| ry_write: "s \<in> set (y_socks y) \<Longrightarrow> relay_step ko sh y (y\<lparr>y_gen := snd (WriteTo s len allow res (y_gen y))\<rparr>)"
| ry_read: "s \<in> set (y_socks y) \<Longrightarrow> relay_step ko sh y (y\<lparr>y_gen := snd (ReadFrom s res rsv (y_gen y))\<rparr>)"

inductive relay_reach ::
    "keyGen \<Rightarrow> (string \<Rightarrow> (string \<times> bytes) option) \<Rightarrow> relaySys \<Rightarrow> bool" for ko sh where
  yr_start: "relayStart cfg = Inr cfg' \<Longrightarrow> relay_reach ko sh \<lparr> y_gen = newGenerator cfg', y_socks = [], y_live = [] \<rparr>"
| yr_step: "relay_reach ko sh y \<Longrightarrow> relay_step ko sh y y' \<Longrightarrow> relay_reach ko sh y'"

subsection \<open>Totals\<close>

text \<open>A global figure is the sum of the users' figures.\<close>

definition usum :: "(userCounters \<Rightarrow> int) \<Rightarrow> generator \<Rightarrow> int" where
  "usum f g = (\<Sum>x \<leftarrow> g_users g. f (snd x))"

definition fields :: "(counters \<Rightarrow> int) list" where
  "fields = [ct_sentBytes, ct_sentPackets, ct_recvBytes, ct_recvPackets, ct_droppedBytes, ct_droppedPackets, ct_delayedPackets]"

definition balanced :: "generator \<Rightarrow> bool" where
  "balanced g \<longleftrightarrow> distinct (map fst (g_users g)) \<and> g_active g = usum uc_active g \<and> g_allocations g = usum uc_allocations g \<and>
     (\<forall>F \<in> set fields. F (g_counters g) = usum (\<lambda>uc. F (uc_counters uc)) g)"

lemma onUser_keys [simp]: "map fst (g_users (onUser i f g)) = map fst (g_users g)"
  by (auto simp: onUser_def)

lemma onUser_known [simp]: "fst ` set (g_users (onUser i f g)) = fst ` set (g_users g)"
  using arg_cong [OF onUser_keys [of i f g], of set] by (simp del: onUser_keys)

lemma onUser_sum:
  assumes "distinct (map fst (g_users g))" "i \<in> fst ` set (g_users g)" "\<And>uc. f (h uc) = f uc + d"
  shows "usum f (onUser i h g) = usum f g + d"
proof -
  have "(\<Sum>x \<leftarrow> map (\<lambda>(j, uc). if j = i then (j, h uc) else (j, uc)) us. f (snd x)) =
      (\<Sum>x \<leftarrow> us. f (snd x)) + (if i \<in> fst ` set us then d else 0)" if "distinct (map fst us)" for us
    using that by (induction us) (force simp: assms(3))+
  then show ?thesis using assms(1,2) by (simp add: usum_def onUser_def)
qed

lemma onUser_fields [simp]: "g_cfg (onUser i h g) = g_cfg g" "g_active (onUser i h g) = g_active g"
  "g_allocations (onUser i h g) = g_allocations g" "g_counters (onUser i h g) = g_counters g"
  by (simp_all add: onUser_def)

lemma usum_update [simp]: "usum f (g\<lparr>g_counters := c\<rparr>) = usum f g" "usum f (g\<lparr>g_active := a\<rparr>) = usum f g"
  "usum f (g\<lparr>g_allocations := a\<rparr>) = usum f g"
  by (simp_all add: usum_def)

lemma user_fields [simp]: "g_cfg (user i n g) = g_cfg g" "g_active (user i n g) = g_active g"
  "g_allocations (user i n g) = g_allocations g" "g_counters (user i n g) = g_counters g"
  by (simp_all add: user_def split: option.splits)

lemma user_balanced: "balanced g \<Longrightarrow> balanced (user i n g)"
  by (auto simp: balanced_def user_def usum_def fields_def noCounters_def map_of_eq_None_iff split: option.splits)

lemma user_known: "i \<in> fst ` set (g_users (user i n g))" "j \<in> fst ` set (g_users g) \<Longrightarrow> j \<in> fst ` set (g_users (user i n g))"
  by (force simp: user_def split: option.splits dest: map_of_SomeD)+

lemma user_grows: "fst ` set (g_users g) \<subseteq> fst ` set (g_users (user i n g))"
  using user_known(2) by blast

text \<open>Every counter adds the same to the global figure and to the user's.\<close>

lemma sinks_balanced:
  assumes "balanced g" "i \<in> fst ` set (g_users g)" "\<forall>F \<in> set fields. \<exists>d. \<forall>c. F (f c) = F c + d"
  shows "balanced (toSinks i f g)"
proof -
  let ?h = "\<lambda>uc. uc\<lparr>uc_counters := f (uc_counters uc)\<rparr>" and ?g = "g\<lparr>g_counters := f (g_counters g)\<rparr>"
  have d: "distinct (map fst (g_users ?g))" "i \<in> fst ` set (g_users ?g)" using assms(1,2) by (simp_all add: balanced_def)
  have "F (f (g_counters g)) = usum (\<lambda>uc. F (uc_counters uc)) (onUser i ?h ?g)" if F: "F \<in> set fields" for F
  proof -
    obtain k where k: "\<And>c. F (f c) = F c + k" using assms(3) F by blast
    then have "usum (\<lambda>uc. F (uc_counters uc)) (onUser i ?h ?g) = usum (\<lambda>uc. F (uc_counters uc)) ?g + k"
      by (intro onUser_sum [OF d]) simp
    then show ?thesis using assms(1) F k by (simp add: balanced_def)
  qed
  moreover have "usum uc_active (onUser i ?h ?g) = usum uc_active g" "usum uc_allocations (onUser i ?h ?g) = usum uc_allocations g"
    using onUser_sum [OF d, of uc_active ?h 0] onUser_sum [OF d, of uc_allocations ?h 0] by simp_all
  ultimately show ?thesis using assms(1) by (simp add: balanced_def toSinks_def)
qed

lemma counters_balanced:
  assumes "balanced g" "i \<in> fst ` set (g_users g)"
  shows "balanced (addSent i n g)" "balanced (addReceived i n g)" "balanced (addDropped i n g)" "balanced (addDelayed i g)"
  by (auto simp: addSent_def addReceived_def addDropped_def addDelayed_def fields_def intro!: sinks_balanced assms)

lemma toSinks_same [simp]: "map fst (g_users (toSinks i f g)) = map fst (g_users g)" "g_cfg (toSinks i f g) = g_cfg g"
  by (simp_all add: toSinks_def)

lemma keys_toSinks: "fst ` set (g_users (toSinks i f g)) = fst ` set (g_users g)"
  using toSinks_same(1) [of i f g] by (metis image_set)

lemma sock_ops:
  assumes "balanced g" "sockUser s \<in> fst ` set (g_users g)"
  shows "balanced (snd (WriteTo s len allow res g))" "balanced (snd (ReadFrom s res rsv g))"
    "map fst (g_users (snd (WriteTo s len allow res g))) = map fst (g_users g)"
    "map fst (g_users (snd (ReadFrom s res rsv g))) = map fst (g_users g)"
  using assms
  by (cases s; force simp: sock_defs Let_def addDelayed_def addReceived_def addSent_def addDropped_def
      keys_toSinks intro!: counters_balanced [unfolded addDelayed_def addReceived_def addSent_def addDropped_def])+

subsection \<open>Live allocations\<close>

definition activeOf :: "string \<Rightarrow> generator \<Rightarrow> int" where
  "activeOf i g = (case map_of (g_users g) i of None \<Rightarrow> 0 | Some uc \<Rightarrow> uc_active uc)"

definition limitOf :: "relayConfig \<Rightarrow> string \<Rightarrow> int" where
  "limitOf cfg i = pl_MaxAllocations (snd (plan cfg i))"

lemma map_of_onUser: "map_of (g_users (onUser i h g)) j = (if j = i then map_option h (map_of (g_users g) j) else map_of (g_users g) j)"
proof -
  have "map_of (map (\<lambda>(k, uc). if k = i then (k, h uc) else (k, uc)) us) j =
      (if j = i then map_option h (map_of us j) else map_of us j)" for us
    by (induction us) auto
  then show ?thesis by (simp add: onUser_def)
qed

lemma active_onUser:
  "(\<And>uc. uc_active (h uc) = uc_active uc + d) \<Longrightarrow> i \<in> fst ` set (g_users g) \<Longrightarrow>
    activeOf j (onUser i h g) = activeOf j g + (if j = i then d else 0)"
  by (auto simp: activeOf_def map_of_onUser map_of_eq_None_iff split: option.splits)

lemma active_keep: "(\<And>uc. uc_active (h uc) = uc_active uc) \<Longrightarrow> activeOf j (onUser i h g) = activeOf j g"
  by (auto simp: activeOf_def map_of_onUser split: option.splits)

lemma active_user [simp]: "activeOf j (user i n g) = activeOf j g"
  by (auto simp: activeOf_def user_def split: option.splits)

lemma active_update [simp]: "activeOf j (g\<lparr>g_counters := c\<rparr>) = activeOf j g" "activeOf j (g\<lparr>g_active := a\<rparr>) = activeOf j g"
  "activeOf j (g\<lparr>g_allocations := a\<rparr>) = activeOf j g"
  by (simp_all add: activeOf_def)

lemma active_sinks [simp]: "activeOf j (toSinks i f g) = activeOf j g"
  unfolding toSinks_def by (subst active_keep) simp_all

lemma sock_active:
  "activeOf j (snd (WriteTo s len allow res g)) = activeOf j g" "activeOf j (snd (ReadFrom s res rsv g)) = activeOf j g"
  "g_cfg (snd (WriteTo s len allow res g)) = g_cfg g" "g_cfg (snd (ReadFrom s res rsv g)) = g_cfg g"
  by (cases s; simp add: sock_defs Let_def addDelayed_def addReceived_def addSent_def addDropped_def)+

definition relay_inv :: "relaySys \<Rightarrow> bool" where
  "relay_inv y \<longleftrightarrow> balanced (y_gen y) \<and> (\<forall>s \<in> set (y_socks y). sockUser s \<in> fst ` set (g_users (y_gen y))) \<and>
     (\<forall>i. activeOf i (y_gen y) = int (count_list (y_live y) i)) \<and>
     (\<forall>i. 0 < limitOf (g_cfg (y_gen y)) i \<longrightarrow> int (count_list (y_live y) i) \<le> limitOf (g_cfg (y_gen y)) i)"

lemma onUser_balanced:
  assumes "balanced g" "i \<in> fst ` set (g_users g)"
    and h: "\<And>uc. uc_active (h uc) = uc_active uc + a" "\<And>uc. uc_allocations (h uc) = uc_allocations uc + b"
      "\<And>uc. uc_counters (h uc) = uc_counters uc"
    and g': "g_users g' = g_users g" "g_active g' = g_active g + a" "g_allocations g' = g_allocations g + b"
      "g_counters g' = g_counters g"
  shows "balanced (onUser i h g')"
proof -
  have d: "distinct (map fst (g_users g'))" "i \<in> fst ` set (g_users g')" using assms(1,2) g' by (simp_all add: balanced_def)
  have u: "usum f g' = usum f g" for f using g' by (simp add: usum_def)
  have "usum uc_active (onUser i h g') = usum uc_active g + a" "usum uc_allocations (onUser i h g') = usum uc_allocations g + b"
    using onUser_sum [OF d, of uc_active h a] onUser_sum [OF d, of uc_allocations h b] h u by simp_all
  moreover have "usum (\<lambda>uc. F (uc_counters uc)) (onUser i h g') = usum (\<lambda>uc. F (uc_counters uc)) g" for F
    using onUser_sum [OF d, of "\<lambda>uc. F (uc_counters uc)" h 0] h u by simp
  ultimately show ?thesis using assms(1) g' by (simp add: balanced_def)
qed

lemma quota_effect:
  assumes "quota username g = (b, g')"
  shows "balanced g \<Longrightarrow> balanced g'" "activeOf j g' = activeOf j g" "g_cfg g' = g_cfg g"
    "fst ` set (g_users g) \<subseteq> fst ` set (g_users g')"
    "b \<Longrightarrow> 0 < limitOf (g_cfg g) (userIDOf (g_cfg g) username) \<Longrightarrow>
      activeOf (userIDOf (g_cfg g) username) g < limitOf (g_cfg g) (userIDOf (g_cfg g) username)"
proof -
  let ?i = "userIDOf (g_cfg g) username"
  obtain n p where p: "plan (g_cfg g) ?i = (n, p)" by fastforce
  let ?u = "user ?i n g" and ?h = "\<lambda>uc. uc\<lparr>uc_rejected := uc_rejected uc + 1\<rparr>"
  have g': "g' = g \<or> g' = ?u \<or> g' = onUser ?i ?h ?u"
    using assms by (auto simp: quota_def p Let_def split: if_splits option.splits)
  show "balanced g'" if "balanced g"
  proof -
    have "balanced (onUser ?i ?h ?u)"
      by (rule onUser_balanced [OF user_balanced [OF that] user_known(1), of ?h 0 0]) simp_all
    then show ?thesis using g' that user_balanced by blast
  qed
  show "activeOf j g' = activeOf j g" using g' by (auto simp: active_keep)
  show "g_cfg g' = g_cfg g" using g' by auto
  show "fst ` set (g_users g) \<subseteq> fst ` set (g_users g')" using g' user_grows [of g] by (elim disjE) simp_all
  show "activeOf ?i g < limitOf (g_cfg g) ?i" if "b" "0 < limitOf (g_cfg g) ?i"
  proof -
    obtain uc where u: "map_of (g_users ?u) ?i = Some uc"
      using user_known(1) [of ?i n g] by (cases "map_of (g_users ?u) ?i") (simp_all add: map_of_eq_None_iff)
    then have "activeOf ?i ?u = uc_active uc" by (simp add: activeOf_def del: active_user)
    moreover have "uc_active uc < pl_MaxAllocations p"
      using assms that u by (auto simp: quota_def p Let_def limitOf_def split: if_splits)
    ultimately show ?thesis by (simp add: limitOf_def p)
  qed
qed

lemma event_effect:
  "balanced g \<Longrightarrow> balanced (onAllocationCreated i g)" "balanced g \<Longrightarrow> balanced (onAllocationDeleted i g)"
  "activeOf j (onAllocationCreated i g) = activeOf j g + (if j = i then 1 else 0)"
  "activeOf j (onAllocationDeleted i g) = activeOf j g - (if j = i then 1 else 0)"
  "g_cfg (onAllocationCreated i g) = g_cfg g" "g_cfg (onAllocationDeleted i g) = g_cfg g"
  "fst ` set (g_users g) \<subseteq> fst ` set (g_users (onAllocationCreated i g))"
  "fst ` set (g_users g) \<subseteq> fst ` set (g_users (onAllocationDeleted i g))"
proof -
  let ?e = "\<lambda>d. userExisting i (g\<lparr>g_active := g_active g + d\<rparr>)" and ?h = "\<lambda>d uc. uc\<lparr>uc_active := uc_active uc + d\<rparr>"
  have m: "onAllocationDeleted i g = onUser i (?h (- 1)) (?e (- 1))" "onAllocationCreated i g = onUser i (?h 1) (?e 1)"
    by (simp_all add: onAllocationDeleted_def onAllocationCreated_def)
  have k: "i \<in> fst ` set (g_users (?e d))" "fst ` set (g_users g) \<subseteq> fst ` set (g_users (?e d))"
    "activeOf j (?e d) = activeOf j g" "g_cfg (?e d) = g_cfg g" for d j
    using user_known(1) user_grows [of "g\<lparr>g_active := g_active g + d\<rparr>"] by (simp_all add: userExisting_def)
  have b: "balanced (onUser i (?h d) (?e d))" if "balanced g" for d
  proof (rule onUser_balanced [of "userExisting i g"])
    show "balanced (userExisting i g)" using user_balanced [OF that] by (simp add: userExisting_def)
    show "i \<in> fst ` set (g_users (userExisting i g))" using user_known(1) by (simp add: userExisting_def)
    show "g_users (?e d) = g_users (userExisting i g)" by (simp add: userExisting_def user_def split: option.splits)
  qed (simp_all add: userExisting_def)
  show "balanced g \<Longrightarrow> balanced (onAllocationCreated i g)" "balanced g \<Longrightarrow> balanced (onAllocationDeleted i g)"
    unfolding m by (rule b; assumption)+
  show "activeOf j (onAllocationCreated i g) = activeOf j g + (if j = i then 1 else 0)"
    "activeOf j (onAllocationDeleted i g) = activeOf j g - (if j = i then 1 else 0)"
    unfolding m using active_onUser [OF _ k(1), of "?h 1" 1 j 1] active_onUser [OF _ k(1), of "?h (- 1)" "- 1" j "- 1"] k(3) [of j 1]
      k(3) [of j "- 1"] by simp_all
  show "g_cfg (onAllocationCreated i g) = g_cfg g" "g_cfg (onAllocationDeleted i g) = g_cfg g" unfolding m using k(4) [of 1] k(4) [of "- 1"] by simp_all
  show "fst ` set (g_users g) \<subseteq> fst ` set (g_users (onAllocationCreated i g))"
    "fst ` set (g_users g) \<subseteq> fst ` set (g_users (onAllocationDeleted i g))"
    unfolding m onUser_known by (rule k(2))+
qed

lemma allocate_effect:
  assumes "AllocatePacketConn inner i g = (r, g')"
  shows "balanced g \<Longrightarrow> balanced g'" "activeOf j g' = activeOf j g" "g_cfg g' = g_cfg g"
    "fst ` set (g_users g) \<subseteq> fst ` set (g_users g')" "r = Inr s \<Longrightarrow> sockUser s = i \<and> i \<in> fst ` set (g_users g')"
proof -
  obtain n p where p: "plan (g_cfg g) i = (n, p)" by fastforce
  let ?h = "\<lambda>uc. uc\<lparr>uc_allocations := uc_allocations uc + 1\<rparr>"
  let ?u = "user i n g"
  let ?g = "onUser i ?h (?u\<lparr>g_allocations := g_allocations ?u + 1\<rparr>)"
  have g': "inner \<noteq> None \<and> g' = g \<and> (\<exists>e. r = Inl e) \<or> g' = ?g"
    using assms by (auto simp: AllocatePacketConn_def p Let_def split: option.splits if_splits)
  have s: "fst ` set (g_users ?g) = fst ` set (g_users ?u)" by simp
  show "balanced g'" if "balanced g"
  proof -
    have "balanced ?g" by (rule onUser_balanced [OF user_balanced [OF that] user_known(1), of ?h 0 1]) simp_all
    then show ?thesis using g' that by auto
  qed
  show "activeOf j g' = activeOf j g" using g' by (auto simp: active_keep)
  show "g_cfg g' = g_cfg g" using g' by auto
  show "fst ` set (g_users g) \<subseteq> fst ` set (g_users g')" using g' user_grows [of g] by (elim disjE) simp_all
  show "sockUser s = i \<and> i \<in> fst ` set (g_users g')" if "r = Inr s"
  proof -
    have "g' = ?g" using g' that by auto
    then have "i \<in> fst ` set (g_users g')" using s user_known(1) by simp
    moreover have "sockUser s = i" using assms that
      by (auto simp: AllocatePacketConn_def p Let_def split: option.splits if_splits)
    ultimately show ?thesis by simp
  qed
qed

lemma cut_first: "sep \<notin> set a \<Longrightarrow> cut sep (a @ sep # b) = (a, b, True)"
  by (induction a) auto

lemma map_of_authKeys [simp]:
  "map_of (authKeys ko cfg) n = map_option (\<lambda>u. ko n (rl_Realm cfg) (us_Password u)) (map_of (rl_Users cfg) n)"
proof -
  have "map_of (map (\<lambda>(name, u). (name, f name u)) us) n = map_option (f n) (map_of us n)" for f :: "string \<Rightarrow> User \<Rightarrow> bytes" and us
    by (induction us) auto
  then show ?thesis by (simp add: authKeys_def)
qed

text \<open>The quota is charged to the user the credential authenticates.\<close>

lemma same_user:
  assumes "authHandler (authKeys ko cfg) sh cfg username = Some (i, key)"
    and "\<And>name u k. sh name = Some (u, k) \<Longrightarrow> \<exists>expiry. CHR '':'' \<notin> set expiry \<and> name = expiry @ CHR '':'' # u"
  shows "userIDOf cfg username = i"
proof (cases "map_of (rl_Users cfg) username")
  case None
  then have s: "rl_AuthSecret cfg \<noteq> []" "sh username = Some (i, key)"
    using assms(1) by (auto simp: authHandler_def split: if_splits)
  then obtain e where "CHR '':'' \<notin> set e" "username = e @ CHR '':'' # i" using assms(2) by blast
  then show ?thesis using None s(1) cut_first [of "CHR '':''" e i] by (simp add: userIDOf_def)
qed (use assms(1) in \<open>auto simp: authHandler_def userIDOf_def\<close>)

lemma relay_step_inv:
  assumes "relay_step ko sh y y'" "relay_inv y"
    and sh: "\<And>name u k. sh name = Some (u, k) \<Longrightarrow> \<exists>expiry. CHR '':'' \<notin> set expiry \<and> name = expiry @ CHR '':'' # u"
  shows "relay_inv y'"
  using assms(1,2)
proof (induction rule: relay_step.induct)
  case (ry_allocate y username i key g s g')
  have u: "userIDOf (g_cfg (y_gen y)) username = i" by (rule same_user [OF ry_allocate.hyps(1) sh])
  note q = quota_effect [OF ry_allocate.hyps(2)] and a = allocate_effect [OF ry_allocate.hyps(3)]
  have "activeOf j (onAllocationCreated i g') = int (count_list (i # y_live y) j)" for j
    using ry_allocate.prems q(2) a(2) by (simp add: event_effect(3) relay_inv_def)
  moreover have "int (count_list (i # y_live y) j) \<le> limitOf (g_cfg (onAllocationCreated i g')) j"
    if "0 < limitOf (g_cfg (onAllocationCreated i g')) j" for j
  proof -
    have c: "g_cfg (onAllocationCreated i g') = g_cfg (y_gen y)" using q(3) a(3) by (simp add: event_effect(5))
    show ?thesis
    proof (cases "j = i")
      case True
      then show ?thesis using q(5) u that c ry_allocate.prems by (auto simp: relay_inv_def)
    next
      case False
      then show ?thesis using that c ry_allocate.prems by (simp add: relay_inv_def)
    qed
  qed
  moreover have "balanced (onAllocationCreated i g')"
    using event_effect(1) a(1) q(1) ry_allocate.prems by (simp add: relay_inv_def)
  moreover have "\<forall>t \<in> set (s # y_socks y). sockUser t \<in> fst ` set (g_users (onAllocationCreated i g'))"
  proof -
    have "\<forall>t \<in> set (y_socks y). sockUser t \<in> fst ` set (g_users (y_gen y))" using ry_allocate.prems by (simp add: relay_inv_def)
    then have "\<forall>t \<in> set (s # y_socks y). sockUser t \<in> fst ` set (g_users g')" using q(4) a(4) a(5) [OF refl] by simp blast
    then show ?thesis using event_effect(7) [of g' i] by blast
  qed
  ultimately show ?case by (simp add: relay_inv_def)
next
  case (ry_refused username y g)
  note q = quota_effect [OF ry_refused.hyps]
  show ?case using ry_refused.prems q(1,2,3,4) by (auto simp: relay_inv_def)
next
  case (ry_failed username y g e i)
  note q = quota_effect [OF ry_failed.hyps]
  show ?case using ry_failed.prems q(1,2,3,4) by (auto simp: relay_inv_def AllocatePacketConn_def)
next
  case (ry_release i y)
  have c: "int (count_list (remove1 i l) j) = int (count_list l j) - (if j = i then 1 else 0)" if "i \<in> set l" for l :: "string list" and j
    using that by (induction l) (auto simp: count_list_0_iff)
  have "activeOf j (onAllocationDeleted i (y_gen y)) = int (count_list (remove1 i (y_live y)) j)" for j
    unfolding event_effect(4) c [OF ry_release.hyps] using ry_release.prems by (simp add: relay_inv_def)
  moreover have "int (count_list (remove1 i (y_live y)) j) \<le> limitOf (g_cfg (y_gen y)) j" if "0 < limitOf (g_cfg (y_gen y)) j" for j
  proof -
    have "int (count_list (remove1 i (y_live y)) j) \<le> int (count_list (y_live y) j)" unfolding c [OF ry_release.hyps] by simp
    then show ?thesis using that ry_release.prems by (fastforce simp: relay_inv_def)
  qed
  moreover have "\<forall>s \<in> set (y_socks y). sockUser s \<in> fst ` set (g_users (onAllocationDeleted i (y_gen y)))"
    using ry_release.prems event_effect(8) [of "y_gen y" i] unfolding relay_inv_def by blast
  ultimately show ?case using ry_release.prems by (simp add: relay_inv_def event_effect(2,6))
next
  case (ry_write s y len allow res)
  then have "balanced (y_gen y)" "sockUser s \<in> fst ` set (g_users (y_gen y))" by (simp_all add: relay_inv_def)
  note o = sock_ops [OF this]
  have "fst ` set (g_users (snd (WriteTo s len allow res (y_gen y)))) = fst ` set (g_users (y_gen y))"
    using arg_cong [OF o(3), of set] by simp
  then show ?case using ry_write.prems o(1) by (simp add: relay_inv_def sock_active)
next
  case (ry_read s y res rsv)
  then have "balanced (y_gen y)" "sockUser s \<in> fst ` set (g_users (y_gen y))" by (simp_all add: relay_inv_def)
  note o = sock_ops [OF this]
  have "fst ` set (g_users (snd (ReadFrom s res rsv (y_gen y)))) = fst ` set (g_users (y_gen y))"
    using arg_cong [OF o(4), of set] by simp
  then show ?case using ry_read.prems o(2) by (simp add: relay_inv_def sock_active)
qed

lemma relay_reach_inv:
  assumes "relay_reach ko sh y"
    and "\<And>name u k. sh name = Some (u, k) \<Longrightarrow> \<exists>expiry. CHR '':'' \<notin> set expiry \<and> name = expiry @ CHR '':'' # u"
  shows "relay_inv y"
  using assms(1)
proof (induction rule: relay_reach.induct)
  case (yr_start cfg cfg')
  then show ?case by (auto simp: relay_inv_def balanced_def newGenerator_def usum_def fields_def noCounters_def activeOf_def)
qed (use relay_step_inv assms(2) in blast)

lemma stats_totals:
  assumes "balanced g"
  shows "let s = stats g; total = (\<lambda>f. \<Sum>u \<leftarrow> st_Users s. f (snd u)) in
    st_Active s = total ut_Active \<and> st_Allocations s = total ut_Allocations \<and> st_SentBytes s = total ut_SentBytes \<and>
    st_ReceivedBytes s = total ut_ReceivedBytes \<and> st_DroppedBytes s = total ut_DroppedBytes \<and>
    st_DroppedPackets s = total ut_DroppedPackets"
proof -
  have "(\<Sum>u \<leftarrow> st_Users (stats g). f (snd u)) = usum (f \<circ> userStats) g" for f
    by (simp add: stats_def usum_def case_prod_beta comp_def)
  then show ?thesis
    using assms by (simp add: balanced_def fields_def Let_def userStats_def stats_def counterSnapshot_def comp_def)
qed


text \<open>A user whose plan allows one socket allocates it and sends a packet.\<close>

definition ex_relay_cfg :: relayConfig where
  "ex_relay_cfg = \<lparr> rl_Listen = ''l'', rl_ListenTCP = [], rl_Realm = ''r'', rl_Users = [(''u'', \<lparr> us_Password = ''x'', us_Plan = ''p'' \<rparr>)],
     rl_AuthSecret = [], rl_Plans = [(''p'', \<lparr> pl_Rate = 1000, pl_Burst = 0, pl_MaxDelay = 0, pl_MaxAllocations = 1 \<rparr>)],
     rl_DefaultPlan = \<lparr> pl_Rate = 0, pl_Burst = 0, pl_MaxDelay = 0, pl_MaxAllocations = 0 \<rparr>, rl_PlanFor = None, rl_RelayIP = None,
     rl_MinPort = 0, rl_MaxPort = 0 \<rparr>"

definition ex_relay :: relaySys where
  "ex_relay = (let g = onAllocationCreated ''u'' (snd (AllocatePacketConn None ''u'' (snd (quota ''u'' (newGenerator ex_relay_cfg)))));
     s = shapedConn ''u'' 1000 65536 20000000
     in \<lparr> y_gen = snd (WriteTo s 10 True (10, None) g), y_socks = [s], y_live = [''u''] \<rparr>)"

lemma ex_relay_reach: "relay_reach (\<lambda>_ _ _. []) (\<lambda>_. None) ex_relay"
proof -
  let ?g = "newGenerator ex_relay_cfg" and ?s = "shapedConn ''u'' 1000 65536 20000000"
  have c: "g_cfg ?g = ex_relay_cfg" "g_users ?g = []" by (simp_all add: newGenerator_def)
  have p: "plan ex_relay_cfg ''u'' = (''p'', \<lparr> pl_Rate = 1000, pl_Burst = 0, pl_MaxDelay = 0, pl_MaxAllocations = 1 \<rparr>)"
    by (simp add: plan_def planName_def ex_relay_cfg_def)
  have u: "userIDOf ex_relay_cfg ''u'' = ''u''" by (simp add: userIDOf_def ex_relay_cfg_def)
  have q: "fst (quota ''u'' ?g)" "g_cfg (snd (quota ''u'' ?g)) = ex_relay_cfg"
    using p c by (simp_all add: quota_def u Let_def user_def)
  have a: "fst (AllocatePacketConn None ''u'' (snd (quota ''u'' ?g))) = Inr ?s"
    using p q(2) by (simp add: AllocatePacketConn_def Let_def burstFor_def maxDelayFor_def minBurst_def DefaultMaxDelay_def)
  let ?y = "\<lparr> y_gen = onAllocationCreated ''u'' (snd (AllocatePacketConn None ''u'' (snd (quota ''u'' ?g)))),
    y_socks = [?s], y_live = [''u''] \<rparr>"
  have "relay_reach (\<lambda>_ _ _. []) (\<lambda>_. None) \<lparr> y_gen = ?g, y_socks = [], y_live = [] \<rparr>"
    by (rule yr_start [where cfg = ex_relay_cfg]) (simp add: relayStart_def ex_relay_cfg_def Let_def)
  moreover have "relay_step (\<lambda>_ _ _. []) (\<lambda>_. None) \<lparr> y_gen = ?g, y_socks = [], y_live = [] \<rparr> ?y"
    using ry_allocate [of "\<lambda>_ _ _. []" "\<lparr> y_gen = ?g, y_socks = [], y_live = [] \<rparr>" "\<lambda>_. None" "''u''" "''u''" "[]"
        "snd (quota ''u'' ?g)" ?s "snd (AllocatePacketConn None ''u'' (snd (quota ''u'' ?g)))"] q(1) a
    by (simp add: authHandler_def ex_relay_cfg_def newGenerator_def prod_eq_iff)
  ultimately have "relay_reach (\<lambda>_ _ _. []) (\<lambda>_. None) ?y" by (rule yr_step)
  then show ?thesis
    using yr_step [OF _ ry_write [of ?s ?y "\<lambda>_ _ _. []" "\<lambda>_. None" 10 True "(10, None)"]] by (simp add: ex_relay_def Let_def)
qed


end
