(* ===== verification/Float64.thy ===== *)
theory Float64
  imports Config "HOL-Library.Log_Nat"
begin

text \<open>
  The \<open>float64\<close> arithmetic of Go, as far as the program uses it. A number is a rational, an infinity or not-a-number
  (\<open>Config\<close>). Every operation rounds its exact result to 53 significant bits, ties to even, with gradual underflow, and to
  an infinity above the largest number. The sign of zero is not kept: no branch and no text of the program depends on it.
  Converting a number that is not in the range of \<open>int64\<close> gives a result that depends on the implementation; it is the
  argument \<open>wild\<close>.
\<close>

subsection \<open>Operations\<close>

definition roundEven :: "rat \<Rightarrow> int" where
  "roundEven x = (let f = \<lfloor>x\<rfloor>; d = x - of_int f in if d < 1 / 2 then f else if d > 1 / 2 then f + 1 else if even f then f else f + 1)"

text \<open>The exponent of a positive number: the largest power of two that is not larger.\<close>

definition expo :: "rat \<Rightarrow> int" where
  "expo q =
     (case quotient_of q of (a, b) \<Rightarrow>
        let k = int (floorlog 2 (nat a)) - int (floorlog 2 (nat b))
        in if 2 powi k \<le> q then k else k - 1)"

text \<open>The unit of the last of 53 bits.\<close>

definition ulp :: "rat \<Rightarrow> rat" where
  "ulp q = 2 powi (max (expo q) (- 1022) - 52)"

definition roundPos :: "rat \<Rightarrow> rat" where
  "roundPos q = (if q = 0 then 0 else of_int (roundEven (q / ulp q)) * ulp q)"

definition f64_round :: "rat \<Rightarrow> f64" where
  "f64_round q =
     (let r = roundPos \<bar>q\<bar> in
      if 2 ^ 1024 \<le> r then (if q < 0 then NegInf else PosInf) else Fin (if q < 0 then - r else r))"

text \<open>The product with a positive finite number. A division by \<open>k\<close> is the product with \<open>1 / k\<close>.\<close>

fun f64_scale :: "rat \<Rightarrow> f64 \<Rightarrow> f64" where
  "f64_scale k (Fin q) = f64_round (k * q)"
| "f64_scale k v = v"

text \<open>Products, sums and differences.\<close>

fun f64_inf :: "rat \<Rightarrow> f64" where
  "f64_inf s = (if s = 0 then NaN else if s < 0 then NegInf else PosInf)"

fun f64_sgn :: "f64 \<Rightarrow> rat" where
  "f64_sgn (Fin q) = sgn q"
| "f64_sgn PosInf = 1"
| "f64_sgn NegInf = - 1"
| "f64_sgn NaN = 0"

fun f64_mul :: "f64 \<Rightarrow> f64 \<Rightarrow> f64" where
  "f64_mul (Fin a) (Fin b) = f64_round (a * b)"
| "f64_mul NaN b = NaN"
| "f64_mul a NaN = NaN"
| "f64_mul a b = f64_inf (f64_sgn a * f64_sgn b)"

fun f64_neg :: "f64 \<Rightarrow> f64" where
  "f64_neg (Fin q) = Fin (- q)"
| "f64_neg PosInf = NegInf"
| "f64_neg NegInf = PosInf"
| "f64_neg NaN = NaN"

fun f64_add :: "f64 \<Rightarrow> f64 \<Rightarrow> f64" where
  "f64_add (Fin a) (Fin b) = f64_round (a + b)"
| "f64_add NaN b = NaN"
| "f64_add a NaN = NaN"
| "f64_add (Fin a) b = b"
| "f64_add a (Fin b) = a"
| "f64_add a b = (if a = b then a else NaN)"

definition f64_sub :: "f64 \<Rightarrow> f64 \<Rightarrow> f64" where
  "f64_sub a b = f64_add a (f64_neg b)"

text \<open>\<open>int64(v)\<close>.\<close>

fun f64_int64 :: "(f64 \<Rightarrow> int) \<Rightarrow> f64 \<Rightarrow> int" where
  "f64_int64 wild (Fin q) =
     (let n = (if q < 0 then \<lceil>q\<rceil> else \<lfloor>q\<rfloor>) in if - (2 ^ 63) \<le> n \<and> n < 2 ^ 63 then n else wild (Fin q))"
| "f64_int64 wild v = wild v"

subsection \<open>Rounding\<close>

lemma powi_pos [simp]: "0 < (2 :: rat) powi k"
  by (simp add: zero_less_power_int)

lemma powi_add: "(2 :: rat) powi (a + b) = 2 powi a * 2 powi b" "(2 :: rat) powi (a - b) = 2 powi a / 2 powi b"
  by (simp_all add: power_int_add power_int_diff)

lemma powi_le: "(2 :: rat) powi a \<le> 2 powi b \<longleftrightarrow> a \<le> b" "(2 :: rat) powi a < 2 powi b \<longleftrightarrow> a < b"
proof -
  show "(2 :: rat) powi a \<le> 2 powi b \<longleftrightarrow> a \<le> b"
    using power_int_increasing [of a b "2 :: rat"] power_int_strict_increasing [of b a "2 :: rat"] by force
  then show "(2 :: rat) powi a < 2 powi b \<longleftrightarrow> a < b"
    using power_int_increasing [of b a "2 :: rat"] power_int_strict_increasing [of a b "2 :: rat"] by force
qed

lemma floorlog_powi:
  assumes "0 < a"
  shows "2 powi (int (floorlog 2 (nat a)) - 1) \<le> rat_of_int a" "rat_of_int a < 2 powi int (floorlog 2 (nat a))"
proof -
  let ?f = "floorlog 2 (nat a)"
  have b: "2 ^ (?f - 1) \<le> nat a" "nat a < 2 ^ ?f" using floorlog_bounds [of "nat a" 2] assms by auto
  have "0 < ?f" using assms by (simp add: floorlog_eq_zero_iff zero_less_iff_neq_zero)
  then have f: "int ?f - 1 = int (?f - 1)" by simp
  have "rat_of_nat (2 ^ (?f - 1)) \<le> rat_of_nat (nat a)" "rat_of_nat (nat a) < rat_of_nat (2 ^ ?f)"
    using b of_nat_le_iff of_nat_less_iff by blast+
  then show "2 powi (int ?f - 1) \<le> rat_of_int a" "rat_of_int a < 2 powi int ?f"
    using assms unfolding f by simp_all
qed

lemma expo_bounds:
  assumes "0 < q"
  shows "2 powi expo q \<le> q \<and> q < 2 powi (expo q + 1)"
proof -
  obtain a b where ab: "quotient_of q = (a, b)" by fastforce
  have q: "q = rat_of_int a / rat_of_int b" and b: "0 < b" using quotient_of_div [OF ab] quotient_of_denom_pos [OF ab] by auto
  then have a: "0 < a" using assms by (simp add: zero_less_divide_iff)
  let ?f = "int (floorlog 2 (nat a))" and ?g = "int (floorlog 2 (nat b))"
  note A = floorlog_powi [OF a] and B = floorlog_powi [OF b]
  have "q < 2 powi ?f / 2 powi (?g - 1)" unfolding q using A B a b by (intro frac_less) auto
  then have u: "q < 2 powi (?f - ?g + 1)" by (simp add: powi_add)
  have "2 powi (?f - 1) / 2 powi ?g < q" unfolding q using A B a b by (intro frac_less2) auto
  then have "2 powi (?f - ?g - 1) \<le> q" by (simp add: powi_add)
  then show ?thesis using u by (auto simp: expo_def ab Let_def)
qed

lemma expo_le: "0 < q \<Longrightarrow> q < 2 powi (k + 1) \<Longrightarrow> expo q \<le> k"
  using expo_bounds [of q] powi_le(2) [of "expo q" "k + 1"] by auto

lemma roundEven_int [simp]: "roundEven (of_int m) = m"
  by (simp add: roundEven_def Let_def)

lemma roundEven_near: "2 * \<bar>of_int (roundEven x) - x\<bar> \<le> 1"
proof -
  define d where "d = x - of_int \<lfloor>x\<rfloor>"
  have "0 \<le> d" "d < 1" unfolding d_def by linarith+
  moreover have "roundEven x = \<lfloor>x\<rfloor> \<and> d \<le> 1 / 2 \<or> roundEven x = \<lfloor>x\<rfloor> + 1 \<and> 1 / 2 \<le> d"
    by (auto simp: roundEven_def Let_def d_def)
  ultimately show ?thesis unfolding d_def by (elim disjE conjE) simp_all
qed

lemma roundEven_mono_int: "of_int a \<le> x \<Longrightarrow> a \<le> roundEven x" "x \<le> of_int b \<Longrightarrow> roundEven x \<le> b"
proof -
  show "of_int a \<le> x \<Longrightarrow> a \<le> roundEven x" by (auto simp: roundEven_def Let_def le_floor_iff intro: add_increasing2)
  show "roundEven x \<le> b" if "x \<le> of_int b"
  proof (cases "x = of_int b")
    case False
    then have "\<lfloor>x\<rfloor> < b" using that by (simp add: floor_less_iff)
    then show ?thesis by (auto simp: roundEven_def Let_def)
  qed simp
qed

lemma ulp_pos: "0 < ulp q" by (simp add: ulp_def)

text \<open>A number with a mantissa of 53 bits is not changed.\<close>

lemma round_exact:
  assumes "0 \<le> m" "m \<le> 2 ^ 53" "- 1074 \<le> j"
  shows "roundPos (of_int m * 2 powi j) = of_int m * 2 powi j"
proof (cases "m = 0")
  case False
  let ?q = "rat_of_int m * 2 powi j" and ?e = "max (expo (rat_of_int m * 2 powi j)) (- 1022)"
  have q: "0 < ?q" using assms(1) False by simp
  have r: "?q / ulp ?q = of_int m * 2 powi (j - ?e + 52)"
    by (simp add: ulp_def powi_add power_int_diff)
  have "\<exists>z. ?q / ulp ?q = of_int z"
  proof (cases "0 \<le> j - ?e + 52")
    case True
    then have "?q / ulp ?q = of_int (m * 2 ^ nat (j - ?e + 52))" unfolding r by (simp add: power_int_nonneg_exp)
    then show ?thesis by blast
  next
    case far: False
    then have e: "?e = expo ?q" "j + 53 \<le> expo ?q" using assms(3) by auto
    have "(2 :: rat) powi (j + 53) \<le> 2 powi expo ?q" using e(2) by (simp only: powi_le)
    also have "\<dots> \<le> ?q" using expo_bounds [OF q] by simp
    finally have "2 powi j * 2 ^ 53 \<le> ?q" by (simp add: powi_add)
    then have "rat_of_int (2 ^ 53) \<le> rat_of_int m" by simp
    then have "2 ^ 53 \<le> m" by (simp only: of_int_le_iff)
    then have m: "m = 2 ^ 53" using assms(2) by linarith
    have "expo ?q \<le> j + 53" by (rule expo_le [OF q]) (simp add: m powi_add)
    then have "j - ?e + 52 = - 1" using e by simp
    then have "?q / ulp ?q = of_int m * 2 powi (- 1)" using r by (simp only:)
    moreover have "rat_of_int m * 2 powi (- 1) = of_int (2 ^ 52)" unfolding m by simp
    ultimately show ?thesis by (intro exI [of _ "2 ^ 52"]) (simp only:)
  qed
  then obtain z where "?q / ulp ?q = of_int z" by blast
  moreover have "?q / ulp ?q * ulp ?q = ?q" using ulp_pos [of ?q] by simp
  ultimately show ?thesis using q by (simp add: roundPos_def)
qed (simp add: roundPos_def)

lemma round_near: "0 < q \<Longrightarrow> 2 * \<bar>roundPos q - q\<bar> \<le> ulp q"
proof -
  assume q: "0 < q"
  have "roundPos q - q = (of_int (roundEven (q / ulp q)) - q / ulp q) * ulp q"
    using q ulp_pos [of q] by (simp add: roundPos_def left_diff_distrib)
  then have "2 * \<bar>roundPos q - q\<bar> = 2 * \<bar>of_int (roundEven (q / ulp q)) - q / ulp q\<bar> * ulp q"
    using ulp_pos [of q] by (simp add: abs_mult)
  also have "\<dots> \<le> 1 * ulp q" by (rule mult_right_mono) (use roundEven_near ulp_pos [of q] in auto)
  finally show ?thesis by simp
qed

text \<open>A rounded number has such a mantissa.\<close>

lemma round_form:
  assumes "0 < q"
  shows "\<exists>m. roundPos q = of_int m * ulp q \<and> 0 \<le> m \<and> m \<le> 2 ^ 53"
proof -
  let ?e = "max (expo q) (- 1022)" and ?m = "roundEven (q / ulp q)"
  have "q < 2 powi (expo q + 1)" using expo_bounds [OF assms] by simp
  also have "\<dots> \<le> 2 powi (?e + 1)" by (simp add: powi_le)
  also have "\<dots> = 2 ^ 53 * ulp q" by (simp add: ulp_def powi_add power_int_diff)
  finally have "q / ulp q \<le> rat_of_int (2 ^ 53)" using ulp_pos [of q] by (simp add: pos_divide_le_eq less_imp_le)
  then have "?m \<le> 2 ^ 53" by (rule roundEven_mono_int)
  moreover have "0 \<le> ?m" by (rule roundEven_mono_int) (use assms ulp_pos [of q] in simp)
  ultimately show ?thesis using assms by (intro exI [of _ ?m]) (simp add: roundPos_def)
qed

lemma f64_round_pos: "0 \<le> q \<Longrightarrow> roundPos q < 2 ^ 1024 \<Longrightarrow> f64_round q = Fin (roundPos q)"
  by (simp add: f64_round_def Let_def)

lemma small_num:
  assumes "0 \<le> m" "m \<le> 2 ^ 53" "j \<le> 100"
  shows "rat_of_int m * 2 powi j < 2 ^ 1024"
proof -
  have "rat_of_int m \<le> rat_of_int (2 ^ 53)" using assms(2) by (simp only: of_int_le_iff)
  moreover have "(2 :: rat) powi j \<le> 2 powi 100" using assms(3) by (simp only: powi_le)
  ultimately have "rat_of_int m * 2 powi j \<le> rat_of_int (2 ^ 53) * 2 powi 100" using assms(1) by (intro mult_mono) simp_all
  also have "\<dots> = 2 ^ 153" by simp
  also have "\<dots> < 2 ^ 1024" by (rule power_strict_increasing) simp_all
  finally show ?thesis .
qed

lemma f64_exact:
  assumes "0 \<le> m" "m \<le> 2 ^ 53" "- 1074 \<le> j" "j \<le> 100"
  shows "f64_round (of_int m * 2 powi j) = Fin (of_int m * 2 powi j)"
  using f64_round_pos [of "of_int m * 2 powi j"] round_exact [OF assms(1-3)] small_num [OF assms(1,2,4)] assms(1) by simp

lemma f64_exact_int: "0 \<le> m \<Longrightarrow> m \<le> 2 ^ 53 \<Longrightarrow> f64_round (of_int m) = Fin (of_int m)"
  using f64_exact [of m 0] by simp

text \<open>Rounding is monotone, so a bound that is a floating-point number survives it.\<close>

lemma roundEven_mono: "x \<le> y \<Longrightarrow> roundEven x \<le> roundEven y"
proof (cases "\<lfloor>x\<rfloor> = \<lfloor>y\<rfloor>")
  case True
  then show "x \<le> y \<Longrightarrow> ?thesis" by (auto simp: roundEven_def Let_def)
next
  case False
  assume "x \<le> y"
  then have "\<lfloor>x\<rfloor> + 1 \<le> \<lfloor>y\<rfloor>" using False floor_mono [of x y] by simp
  moreover have "roundEven x \<le> \<lfloor>x\<rfloor> + 1" "\<lfloor>y\<rfloor> \<le> roundEven y" by (auto simp: roundEven_def Let_def)
  ultimately show ?thesis by simp
qed

lemma round_nonneg: "0 \<le> q \<Longrightarrow> 0 \<le> roundPos q"
proof (cases "q = 0")
  case False
  assume "0 \<le> q"
  then obtain k where "roundPos q = of_int k * ulp q" "0 \<le> k" using round_form [of q] False by auto
  then show ?thesis using ulp_pos [of q] by simp
qed (simp add: roundPos_def)

lemma round_mono_int:
  assumes "0 \<le> q" "q \<le> of_int m * 2 powi j" "0 \<le> m" "m \<le> 2 ^ 53" "- 1074 \<le> j"
  shows "0 \<le> roundPos q" "roundPos q \<le> of_int m * 2 powi j"
proof -
  show "0 \<le> roundPos q" by (rule round_nonneg [OF assms(1)])
  let ?b = "rat_of_int m * 2 powi j"
  show "roundPos q \<le> ?b"
  proof (cases "q = 0")
    case False
    then have q: "0 < q" using assms(1) by simp
    then have b: "0 < ?b" using assms(2) by linarith
    have x: "roundPos ?b = ?b" by (rule round_exact [OF assms(3-5)])
    have l: "expo q \<le> expo ?b" using expo_bounds [OF q] expo_bounds [OF b] assms(2) powi_le(2) [of "expo q" "expo ?b + 1"] by force
    show ?thesis
    proof (cases "ulp q = ulp ?b")
      case True
      have "roundEven (q / ulp q) \<le> roundEven (?b / ulp ?b)"
        unfolding True by (rule roundEven_mono) (use assms(2) ulp_pos [of ?b] in \<open>simp add: divide_right_mono\<close>)
      then have "roundPos q \<le> roundPos ?b" using q less_imp_neq [OF b] True ulp_pos [of ?b] by (auto simp: roundPos_def)
      then show ?thesis using x by simp
    next
      case False
      then have "max (expo q) (- 1022) \<noteq> max (expo ?b) (- 1022)" by (auto simp: ulp_def)
      then have e: "max (expo q) (- 1022) + 1 \<le> expo ?b" using l by (simp add: max_def split: if_splits)
      have "q / ulp q \<le> of_int (2 ^ 53)"
      proof -
        have "q < 2 powi (max (expo q) (- 1022) + 1)"
          using expo_bounds [OF q] powi_le(1) [of "expo q + 1" "max (expo q) (- 1022) + 1"] by fastforce
        also have "\<dots> = 2 ^ 53 * ulp q" by (simp add: ulp_def powi_add power_int_diff)
        finally show ?thesis using ulp_pos [of q] by (simp add: pos_divide_le_eq less_imp_le)
      qed
      then have "roundEven (q / ulp q) \<le> 2 ^ 53" by (rule roundEven_mono_int)
      then have "rat_of_int (roundEven (q / ulp q)) \<le> of_int (2 ^ 53)" by (simp only: of_int_le_iff)
      then have "roundPos q \<le> 2 ^ 53 * ulp q" using q ulp_pos [of q] by (simp add: roundPos_def)
      also have "\<dots> = 2 powi (max (expo q) (- 1022) + 1)" by (simp add: ulp_def powi_add power_int_diff)
      also have "\<dots> \<le> 2 powi expo ?b" using e by (simp only: powi_le)
      also have "\<dots> \<le> ?b" using expo_bounds [OF b] by simp
      finally show ?thesis .
    qed
  qed (use assms in \<open>simp add: roundPos_def\<close>)
qed

text \<open>The same for the operations: a number between zero and such a bound rounds to a number between them.\<close>

lemma f64_between:
  assumes "0 \<le> q" "q \<le> of_int m * 2 powi j" "0 \<le> m" "m \<le> 2 ^ 53" "- 1074 \<le> j" "j \<le> 100"
  shows "f64_round q = Fin (roundPos q) \<and> 0 \<le> roundPos q \<and> roundPos q \<le> of_int m * 2 powi j"
proof -
  note r = round_mono_int [OF assms(1-5)]
  have "roundPos q < 2 ^ 1024" using r(2) small_num [OF assms(3,4,6)] by simp
  then show ?thesis using r f64_round_pos [OF assms(1)] by simp
qed

end
