(* ===== verification/Relay_Size.thy ===== *)
theory Relay_Size
  imports Relay Float64
begin

text \<open>
  Sizes, rates and plans in texts (\<^verbatim>\<open>relay/relay.go\<close>): \<open>ParseSize\<close>, \<open>ParsePlans\<close>, \<open>FormatSize\<close> and the texts of plans
  and statistics.

  \<^item> Floating-point numbers and their rounding are those of \<open>Float64\<close>.
  \<^item> \<open>strconv.ParseFloat\<close> is modelled on its whole syntax: decimal and hexadecimal numbers, exponents, underscores between
    digits, infinities and not-a-number. A result out of range is an error.
  \<^item> The argument \<open>wild\<close> is the conversion of a number out of the range of \<open>int64\<close>.
\<close>

subsection \<open>FormatSize\<close>

text \<open>\<open>strconv.FormatInt(n, 10)\<close> and \<open>strconv.FormatFloat(v, 'f', 1, 64)\<close>.\<close>

definition formatInt :: "int \<Rightarrow> string" where
  "formatInt n = (if n < 0 then ''-'' else []) @ format_uint (nat \<bar>n\<bar>)"

fun formatFloat1 :: "f64 \<Rightarrow> string" where
  "formatFloat1 NaN = ''NaN''"
| "formatFloat1 PosInf = ''+Inf''"
| "formatFloat1 NegInf = ''-Inf''"
| "formatFloat1 (Fin q) =
     (let t = nat (roundEven (10 * \<bar>q\<bar>))
      in (if q < 0 then ''-'' else []) @ format_uint (t div 10) @ ''.'' @ [digit_char (t mod 10)])"

fun formatLoop :: "string list \<Rightarrow> f64 \<Rightarrow> string" where
  "formatLoop [] value = formatFloat1 value @ ''PiB''"
| "formatLoop (suffix # rest) value =
     (let value = f64_scale (1 / 1024) value
      in if f64_lt value (Fin 1024) then formatFloat1 value @ suffix else formatLoop rest value)"

definition FormatSize :: "int \<Rightarrow> string" where
  "FormatSize n =
     (if n < 1024 then formatInt n @ ''B''
      else formatLoop [''KiB'', ''MiB'', ''GiB'', ''TiB''] (f64_round (of_int n)))"

definition rateString :: "int \<Rightarrow> string" where
  "rateString rateBytes = (if rateBytes \<le> 0 then ''unlimited'' else FormatSize rateBytes @ ''/s'')"

definition Plan_String :: "Plan \<Rightarrow> string" where
  "Plan_String p =
     rateString (pl_Rate p) @
     (if pl_MaxAllocations p > 0 then '', '' @ formatInt (pl_MaxAllocations p) @ '' allocations'' else [])"

definition UserStats_String :: "UserStats \<Rightarrow> string" where
  "UserStats_String u =
     ''plan='' @ ut_Plan u @ '' allocations='' @ formatInt (ut_Allocations u) @ '' active='' @ formatInt (ut_Active u) @
     '' sent='' @ FormatSize (ut_SentBytes u) @ '' received='' @ FormatSize (ut_ReceivedBytes u) @
     '' dropped='' @ FormatSize (ut_DroppedBytes u) @ ''/'' @ formatInt (ut_DroppedPackets u) @
     ''pkt rejected='' @ formatInt (ut_RejectedAllocations u)"

definition Stats_String :: "relayStats \<Rightarrow> string" where
  "Stats_String s =
     ''allocations='' @ formatInt (st_Allocations s) @ '' active='' @ formatInt (st_Active s) @
     '' sent='' @ FormatSize (st_SentBytes s) @ ''/'' @ formatInt (st_SentPackets s) @
     ''pkt received='' @ FormatSize (st_ReceivedBytes s) @ ''/'' @ formatInt (st_ReceivedPackets s) @
     ''pkt dropped='' @ FormatSize (st_DroppedBytes s) @ ''/'' @ formatInt (st_DroppedPackets s) @
     ''pkt delayed='' @ formatInt (st_DelayedPackets s) @ ''pkt''"

subsection \<open>ParseFloat\<close>

definition lowerc :: "char \<Rightarrow> char" where
  "lowerc c = (let n = of_char c :: nat in if 65 \<le> n \<and> n \<le> 90 then char_of (n + 32) else c)"

text \<open>\<open>strings.EqualFold\<close> for a second argument of ASCII letters and as many bytes as the first has: such texts can only
  be equal if all runes of the first are ASCII.\<close>

definition equalFold :: "string \<Rightarrow> string \<Rightarrow> bool" where
  "equalFold a b \<longleftrightarrow> map lowerc a = map lowerc b"

text \<open>The sign of a number, and what follows it.\<close>

definition readSign :: "string \<Rightarrow> bool \<times> string" where
  "readSign s = (case s of c # r \<Rightarrow> if c = CHR ''-'' then (True, r) else if c = CHR ''+'' then (False, r) else (False, s) | [] \<Rightarrow> (False, []))"

definition special :: "string \<Rightarrow> f64 option" where
  "special s =
     (case readSign s of (neg, r) \<Rightarrow>
        if equalFold r ''inf'' \<or> equalFold r ''infinity'' then Some (if neg then NegInf else PosInf)
        else if equalFold s ''nan'' then Some NaN else None)"

definition is_hex :: "char \<Rightarrow> bool" where
  "is_hex c \<longleftrightarrow> is_digit c \<or> lowerc c \<in> set ''abcdef''"

definition hexPrefix :: "string \<Rightarrow> bool" where
  "hexPrefix s \<longleftrightarrow> length s > 2 \<and> s ! 0 = CHR ''0'' \<and> lowerc (s ! 1) = CHR ''x''"

text \<open>Underscores stand between digits, or between a base prefix and a digit. \<open>saw\<close> is the class of the last character:
  a digit, an underscore or anything else.\<close>

datatype sawClass = SawDigit | SawUnderscore | SawOther

fun underscores :: "bool \<Rightarrow> sawClass \<Rightarrow> string \<Rightarrow> bool" where
  "underscores hex saw [] = (saw \<noteq> SawUnderscore)"
| "underscores hex saw (c # cs) =
     (if is_digit c \<or> hex \<and> is_hex c then underscores hex SawDigit cs
      else if c = CHR ''_'' then saw = SawDigit \<and> underscores hex SawUnderscore cs
      else saw \<noteq> SawUnderscore \<and> underscores hex SawOther cs)"

definition underscoreOK :: "string \<Rightarrow> bool" where
  "underscoreOK s =
     (let r = snd (readSign s) in
      if length r \<ge> 2 \<and> r ! 0 = CHR ''0'' \<and> lowerc (r ! 1) \<in> set ''box''
      then underscores (lowerc (r ! 1) = CHR ''x'') SawDigit (drop 2 r)
      else underscores False SawOther r)"

definition digitVal :: "char \<Rightarrow> nat" where
  "digitVal c = (if is_digit c then of_char c - 48 else of_char (lowerc c) - 87)"

definition mantissa :: "nat \<Rightarrow> string \<Rightarrow> nat" where
  "mantissa base ds = foldl (\<lambda>acc c. acc * base + digitVal c) 0 ds"

text \<open>The digits of an exponent stop counting at 10000.\<close>

definition expDigits :: "string \<Rightarrow> nat" where
  "expDigits ds = foldl (\<lambda>e c. if e < 10000 then e * 10 + digitVal c else e) 0 ds"

text \<open>The exponent after the digits: \<open>None\<close> for a syntax error.\<close>

definition readExp :: "bool \<Rightarrow> string \<Rightarrow> int option" where
  "readExp hex r =
     (case r of
        [] \<Rightarrow> if hex then None else Some 0
      | c # r \<Rightarrow>
          if lowerc c \<noteq> (if hex then CHR ''p'' else CHR ''e'') then None
          else (case readSign r of (neg, ds) \<Rightarrow>
                  if ds = [] \<or> \<not> list_all is_digit ds then None
                  else Some (if neg then - int (expDigits ds) else int (expDigits ds))))"

text \<open>A number without underscores, as an exact value.\<close>

definition readFloat :: "string \<Rightarrow> rat option" where
  "readFloat s =
     (case readSign s of (neg, r) \<Rightarrow>
        let hex = hexPrefix r;
            body = (if hex then drop 2 r else r);
            dig = (if hex then is_hex else is_digit);
            ip = takeWhile dig body;
            r = dropWhile dig body;
            fp = (case r of c # r \<Rightarrow> if c = CHR ''.'' then takeWhile dig r else [] | [] \<Rightarrow> []);
            r = (case r of c # t \<Rightarrow> if c = CHR ''.'' then dropWhile dig t else r | [] \<Rightarrow> [])
        in if ip @ fp = [] then None
           else map_option (\<lambda>e.
                  let m = (if hex then of_nat (mantissa 16 (ip @ fp)) * 2 powi (e - 4 * int (length fp))
                           else of_nat (mantissa 10 (ip @ fp)) * 10 powi (e - int (length fp)))
                  in if neg then - m else m) (readExp hex r))"

definition parseFloat :: "string \<Rightarrow> f64 option" where
  "parseFloat s =
     (case special s of
        Some v \<Rightarrow> Some v
      | None \<Rightarrow>
          if CHR ''_'' \<in> set s \<and> \<not> underscoreOK s then None
          else case readFloat (filter (\<lambda>c. c \<noteq> CHR ''_'') s) of
                 None \<Rightarrow> None
               | Some q \<Rightarrow> (case f64_round q of Fin v \<Rightarrow> Some (Fin v) | _ \<Rightarrow> None))"

subsection \<open>ParseSize and ParsePlans\<close>

definition multipliers :: "(string \<times> int) list" where
  "multipliers = [(''KiB'', 2 ^ 10), (''MiB'', 2 ^ 20), (''GiB'', 2 ^ 30), (''KB'', 1000), (''MB'', 1000 * 1000),
     (''GB'', 1000 * 1000 * 1000), (''K'', 2 ^ 10), (''M'', 2 ^ 20), (''G'', 2 ^ 30), (''B'', 1)]"

fun stripUnit :: "(string \<times> int) list \<Rightarrow> string \<Rightarrow> string \<times> int" where
  "stripUnit [] text = (text, 1)"
| "stripUnit ((suffix, factor) # ms) text =
     (let k = length text - length suffix in
      if length text > length suffix \<and> equalFold (drop k text) suffix then (trimSpace (take k text), factor)
      else stripUnit ms text)"

definition ParseSize :: "(f64 \<Rightarrow> int) \<Rightarrow> string \<Rightarrow> gerror + int" where
  "ParseSize wild s =
     (let text = trimSpace s in
      if text = [] then Inl (Plain ''relay: an empty size'')
      else
        (case stripUnit multipliers text of (text, factor) \<Rightarrow>
           (case parseFloat text of
              None \<Rightarrow> Inl (Plain ''relay: not a size'')
            | Some value \<Rightarrow>
                if f64_lt value (Fin 0) then Inl (Plain ''relay: negative'')
                else Inr (f64_int64 wild (f64_scale (of_int factor) value)))))"

text \<open>\<open>strconv.Atoi\<close>.\<close>

definition atoi :: "string \<Rightarrow> int option" where
  "atoi s =
     (case readSign s of (neg, r) \<Rightarrow>
        if r = [] then None
        else case digits_value 0 r of
          None \<Rightarrow> None
        | Some n \<Rightarrow> let v = (if neg then - int n else int n) in if - (2 ^ 63) \<le> v \<and> v < 2 ^ 63 then Some v else None)"

definition planOf :: "(f64 \<Rightarrow> int) \<Rightarrow> string \<Rightarrow> gerror + Plan" where
  "planOf wild rest =
     (case cut (CHR ''/'') rest of (rateSpec, allocSpec, hasAlloc) \<Rightarrow>
        (case ParseSize wild rateSpec of
           Inl e \<Rightarrow> Inl (Wrap e)
         | Inr r \<Rightarrow>
             let p = \<lparr> pl_Rate = r, pl_Burst = 0, pl_MaxDelay = 0, pl_MaxAllocations = 0 \<rparr> in
             if hasAlloc
             then (case atoi (trimSpace allocSpec) of
                     None \<Rightarrow> Inl (Plain ''relay: not an allocation count'')
                   | Some n \<Rightarrow> if n < 0 then Inl (Plain ''relay: not an allocation count'')
                               else Inr (p\<lparr>pl_MaxAllocations := n\<rparr>))
             else Inr p))"

fun parsePlanEntries :: "(f64 \<Rightarrow> int) \<Rightarrow> string list \<Rightarrow> (string \<times> Plan) list \<Rightarrow> gerror + (string \<times> Plan) list" where
  "parsePlanEntries wild [] plans = Inr plans"
| "parsePlanEntries wild (e # es) plans =
     (let entry = trimSpace e in
      if entry = [] then parsePlanEntries wild es plans
      else
        (case cut (CHR ''='') entry of (name, rest, ok) \<Rightarrow>
           if \<not> ok \<or> name = [] \<or> rest = [] then Inl (Plain ''relay: not a name=rate[/maxallocations] entry'')
           else
             (case planOf wild rest of
                Inl e \<Rightarrow> Inl e
              | Inr p \<Rightarrow> parsePlanEntries wild es (AList.update name p plans))))"

definition ParsePlans :: "(f64 \<Rightarrow> int) \<Rightarrow> string \<Rightarrow> gerror + (string \<times> Plan) list" where
  "ParsePlans wild spec = parsePlanEntries wild (splitOn (CHR '','') spec) []"

subsection \<open>Printing a size\<close>

lemma powi_1024: "(2 :: rat) powi (- (10 * int k)) = 1 / 1024 ^ k"
proof -
  have "(2 :: rat) powi (- (10 * int k)) = inverse ((2 ^ 10) ^ k)"
    by (simp only: power_int_minus power_int_power [symmetric] flip: power_mult power_int_of_nat) (simp add: power_int_mult)
  then show ?thesis by (simp add: inverse_eq_divide)
qed

lemma scale_down:
  assumes "0 \<le> n" "n \<le> 2 ^ 53" "k \<le> 3"
  shows "f64_scale (1 / 1024) (Fin (of_int n / 1024 ^ k)) = Fin (of_int n / 1024 ^ Suc k)"
  using f64_exact [OF assms(1,2), of "- (10 * int (Suc k))"] assms(3) by (simp only: powi_1024) (simp add: mult_ac)

lemma format_large:
  assumes "1024 \<le> n" "n \<le> 2 ^ 53"
  shows "FormatSize n =
    (if n < 1024 ^ 2 then formatFloat1 (Fin (of_int n / 1024 ^ 1)) @ ''KiB''
     else if n < 1024 ^ 3 then formatFloat1 (Fin (of_int n / 1024 ^ 2)) @ ''MiB''
     else if n < 1024 ^ 4 then formatFloat1 (Fin (of_int n / 1024 ^ 3)) @ ''GiB''
     else if n < 1024 ^ 5 then formatFloat1 (Fin (of_int n / 1024 ^ 4)) @ ''TiB''
     else formatFloat1 (Fin (of_int n / 1024 ^ 4)) @ ''PiB'')"
proof -
  have n: "0 \<le> n" using assms(1) by simp
  note s = scale_down [OF n assms(2)]
  have f: "f64_round (of_int n) = Fin (of_int n / 1024 ^ 0)" using f64_exact_int [OF n assms(2)] by simp
  have s4: "f64_scale (1 / 1024) (Fin (of_int n / 1024 ^ 0)) = Fin (of_int n / 1024 ^ 1)"
    "f64_scale (1 / 1024) (Fin (of_int n / 1024 ^ 1)) = Fin (of_int n / 1024 ^ 2)"
    "f64_scale (1 / 1024) (Fin (of_int n / 1024 ^ 2)) = Fin (of_int n / 1024 ^ 3)"
    "f64_scale (1 / 1024) (Fin (of_int n / 1024 ^ 3)) = Fin (of_int n / 1024 ^ 4)"
    using s [of 0] s [of 1] s [of 2] s [of 3] by (simp_all add: numeral_eq_Suc)
  have l: "f64_lt (Fin (of_int n / 1024 ^ k)) (Fin 1024) \<longleftrightarrow> n < 1024 ^ k'" if "k' = Suc k" for k k'
  proof -
    have "rat_of_int n / 1024 ^ k < 1024 \<longleftrightarrow> rat_of_int n < rat_of_int (1024 ^ k')"
      unfolding that by (simp add: pos_divide_less_eq)
    then show ?thesis by (simp only: f64_lt.simps of_int_less_iff)
  qed
  have l4: "f64_lt (Fin (of_int n / 1024 ^ 1)) (Fin 1024) \<longleftrightarrow> n < 1024 ^ 2" "f64_lt (Fin (of_int n / 1024 ^ 2)) (Fin 1024) \<longleftrightarrow> n < 1024 ^ 3"
    "f64_lt (Fin (of_int n / 1024 ^ 3)) (Fin 1024) \<longleftrightarrow> n < 1024 ^ 4" "f64_lt (Fin (of_int n / 1024 ^ 4)) (Fin 1024) \<longleftrightarrow> n < 1024 ^ 5"
    by (rule l; simp)+
  have "\<not> n < 1024" using assms(1) by simp
  then show ?thesis by (simp only: FormatSize_def f formatLoop.simps Let_def s4 l4 if_False)
qed

lemma format_unit:
  assumes "k \<in> {1, 2, 3, 4}" "1024 ^ k \<le> n" "n < 1024 ^ Suc k"
  shows "FormatSize n = formatFloat1 (Fin (of_int n / 1024 ^ k)) @ [''KiB'', ''MiB'', ''GiB'', ''TiB''] ! (k - 1)"
proof -
  have "1024 \<le> n" "n \<le> 2 ^ 53" using assms by auto
  then show ?thesis using assms by (auto simp: format_large simp del: formatFloat1.simps)
qed

text \<open>From one kibibyte to below one pebibyte, the text is the size in its largest unit, rounded to a tenth.\<close>

definition sizeText :: "nat \<Rightarrow> string \<Rightarrow> string" where
  "sizeText t unit = format_uint (t div 10) @ ''.'' @ [digit_char (t mod 10)] @ unit"

lemma format_tenths:
  assumes "0 \<le> n" "1024 ^ k \<le> n"
  shows "\<exists>t. formatFloat1 (Fin (of_int n / 1024 ^ k)) @ u = sizeText t u \<and> 10 \<le> t \<and> 2 * \<bar>10 * n - int t * 1024 ^ k\<bar> \<le> 1024 ^ k"
proof -
  let ?q = "rat_of_int n / 1024 ^ k" and ?r = "roundEven (10 * (rat_of_int n / 1024 ^ k))"
  have "rat_of_int (1024 ^ k) \<le> rat_of_int n" using assms(2) by (simp only: of_int_le_iff)
  then have q: "1 \<le> ?q" by simp
  have "10 \<le> ?r" using mult_left_mono [OF q, of 10] by (intro roundEven_mono_int) simp
  then have t: "10 \<le> nat ?r" "int (nat ?r) = ?r" by simp_all
  have "rat_of_int (2 * \<bar>10 * n - ?r * 1024 ^ k\<bar>) = 2 * \<bar>of_int ?r - 10 * ?q\<bar> * 1024 ^ k"
    by (simp add: abs_mult_pos abs_minus_commute left_diff_distrib)
  also have "\<dots> \<le> 1 * 1024 ^ k" by (rule mult_right_mono) (use roundEven_near in auto)
  finally have "rat_of_int (2 * \<bar>10 * n - ?r * 1024 ^ k\<bar>) \<le> rat_of_int (1024 ^ k)" by simp
  then have "2 * \<bar>10 * n - ?r * 1024 ^ k\<bar> \<le> 1024 ^ k" by (simp only: of_int_le_iff)
  moreover have nn: "\<not> ?q < 0" "\<bar>?q\<bar> = ?q" using q by linarith+
  ultimately show ?thesis unfolding formatFloat1.simps nn if_False using t
    by (intro exI [of _ "nat ?r"]) (simp only: sizeText_def Let_def append.simps append_assoc if_False simp_thms)
qed

lemma FormatSize_shows:
  assumes "1024 \<le> n" "n < 2 ^ 50"
  shows "\<exists>k t. k \<in> {1, 2, 3, 4} \<and> FormatSize n = sizeText t ([''KiB'', ''MiB'', ''GiB'', ''TiB''] ! (k - 1)) \<and> 10 \<le> t \<and>
    1024 ^ k \<le> n \<and> n < 1024 ^ Suc k \<and> 2 * \<bar>10 * n - int t * 1024 ^ k\<bar> \<le> 1024 ^ k"
proof -
  consider "1024 ^ 1 \<le> n" "n < 1024 ^ Suc 1" | "1024 ^ 2 \<le> n" "n < 1024 ^ Suc 2" | "1024 ^ 3 \<le> n" "n < 1024 ^ Suc 3" |
    "1024 ^ 4 \<le> n" "n < 1024 ^ Suc 4"
    using assms by fastforce
  then obtain k where k: "k \<in> {1, 2, 3, 4}" "1024 ^ k \<le> n" "n < 1024 ^ Suc k" by cases blast+
  have "0 \<le> n" using assms(1) by simp
  then show ?thesis
    using format_tenths [OF _ k(2), of "[''KiB'', ''MiB'', ''GiB'', ''TiB''] ! (k - 1)"] k unfolding format_unit [OF k] by blast
qed

text \<open>From one pebibyte on, the number shown counts tebibytes and the unit says pebibytes.\<close>

lemma FormatSize_pebibyte: "FormatSize (2 ^ 50) = ''1024.0PiB''"
proof -
  have "roundEven 10240 = 10240" using roundEven_int [of 10240] by simp
  moreover have "format_uint 1024 = ''1024''" by code_simp
  moreover have "digit_char 0 = CHR ''0''" by code_simp
  ultimately show ?thesis using format_large [of "2 ^ 50"] by (simp add: Let_def)
qed

subsection \<open>Reading a size\<close>

definition plain :: "char \<Rightarrow> bool" where
  "plain c \<longleftrightarrow> 33 \<le> code_of c \<and> code_of c < 127"

lemma runes_ascii: "\<forall>b \<in> set bs. unat b < 128 \<Longrightarrow> runes bs = map (\<lambda>b. (unat b, [b])) bs"
  by (induction bs) (simp_all add: runes.simps decode_rune_def full_rune.simps rune_width_def Let_def)

lemma trim_plain:
  assumes "\<forall>c \<in> set s. plain c"
  shows "trimSpace s = s"
proof -
  have b: "unat (byte_of_char c) = code_of c" if "plain c" for c
    using that by (simp add: byte_of_char_def code_of_def unat_of_nat plain_def)
  have "\<forall>b \<in> set (bytes_of_string s). unat b < 128 \<and> \<not> is_space (unat b)"
    using assms b by (auto simp: bytes_of_string_def plain_def is_space_def)
  moreover have "dropWhile (\<lambda>p. is_space (fst p)) (map (\<lambda>b. (unat b, [b])) bs) = map (\<lambda>b. (unat b, [b])) bs"
    if "\<forall>b \<in> set bs. \<not> is_space (unat b)" for bs :: bytes
    using that by (cases bs) auto
  ultimately show ?thesis by (simp add: trimSpace_def trim_space_def runes_ascii Let_def rev_map comp_def)
qed

lemma digit_plain: "is_digit c \<Longrightarrow> plain c" "is_digit c \<Longrightarrow> lowerc c = c"
  by (auto simp: plain_def is_digit_code lowerc_def code_of_def Let_def)

lemma not_digit [simp]: "\<not> is_digit (CHR ''b'')" "\<not> is_digit (CHR ''k'')" "\<not> is_digit (CHR ''m'')" "\<not> is_digit (CHR ''g'')"
  "\<not> is_digit (CHR ''i'')" "\<not> is_digit (CHR ''n'')" "\<not> is_digit (CHR ''x'')" "\<not> is_digit (CHR ''_'')" "\<not> is_digit (CHR ''.'')"
  "\<not> is_digit (CHR ''-'')" "\<not> is_digit (CHR ''+'')"
  by (simp_all add: is_digit_def)

lemma lowerc_letters [simp]: "lowerc (CHR ''B'') = CHR ''b''" "lowerc (CHR ''K'') = CHR ''k''" "lowerc (CHR ''M'') = CHR ''m''"
  "lowerc (CHR ''G'') = CHR ''g''" "lowerc (CHR ''i'') = CHR ''i''" "lowerc (CHR ''.'') = CHR ''.''"
  "lowerc (CHR ''n'') = CHR ''n''" "lowerc (CHR ''f'') = CHR ''f''" "lowerc (CHR ''t'') = CHR ''t''" "lowerc (CHR ''y'') = CHR ''y''"
  "lowerc (CHR ''a'') = CHR ''a''"
  by code_simp+

lemma lowerc_plain: "97 \<le> code_of (lowerc c) \<Longrightarrow> code_of (lowerc c) \<le> 122 \<Longrightarrow> plain c"
  by (auto simp: plain_def lowerc_def code_of_def Let_def split: if_splits)

lemma stripUnit_end:
  "stripUnit ((u, f) # ms) s =
     (if length u < length s \<and> take (length u) (map lowerc (rev s)) = map lowerc (rev u)
      then (trimSpace (take (length s - length u) s), f) else stripUnit ms s)"
proof -
  have "equalFold (drop (length s - length u) s) u \<longleftrightarrow> take (length u) (map lowerc (rev s)) = map lowerc (rev u)"
    if "length u < length s"
  proof -
    have "rev (map lowerc (drop (length s - length u) s)) = take (length u) (map lowerc (rev s))"
      using that by (simp add: rev_map rev_drop take_map)
    then show ?thesis unfolding equalFold_def by (metis rev_map rev_rev_ident)
  qed
  then show ?thesis by (auto simp: Let_def)
qed

text \<open>A number with a unit, in upper or lower case, and one without.\<close>

lemma stripUnit_unit:
  assumes "is_digit x" "(u, f) \<in> set multipliers" "map lowerc w = map lowerc u"
  shows "stripUnit multipliers (d @ x # w) = (trimSpace (d @ [x]), f)"
proof -
  have l: "length w = length u" using map_eq_imp_length_eq [OF assms(3)] .
  have "map lowerc (rev (d @ x # w)) = rev (map lowerc w) @ x # map lowerc (rev d)"
    using digit_plain(2) [OF assms(1)] by (simp add: rev_map)
  then have m: "map lowerc (rev (d @ x # w)) = rev (map lowerc u) @ x # map lowerc (rev d)" by (simp only: assms(3))
  have x: "x \<noteq> CHR ''b''" "x \<noteq> CHR ''k''" "x \<noteq> CHR ''m''" "x \<noteq> CHR ''g''" "x \<noteq> CHR ''i''" using assms(1) by auto
  have t: "take (length (d @ x # w) - length u) (d @ x # w) = d @ [x]" using l by simp
  have "(u, f) \<in> set multipliers \<Longrightarrow> ?thesis"
    unfolding multipliers_def stripUnit_end m list.set insert_iff empty_iff prod.inject
    by (elim disjE conjE FalseE) (use l x t in simp_all)
  then show ?thesis using assms(2) by blast
qed

lemma stripUnit_none:
  assumes "is_digit x"
  shows "stripUnit multipliers (d @ [x]) = (d @ [x], 1)"
proof -
  have "x \<noteq> CHR ''b''" "x \<noteq> CHR ''k''" "x \<noteq> CHR ''m''" "x \<noteq> CHR ''g''" "lowerc x = x" using assms digit_plain(2) by auto
  then show ?thesis unfolding multipliers_def stripUnit_end by simp
qed

lemma digits_foldl: "digits_value acc ds = Some v \<Longrightarrow> foldl (\<lambda>acc c. acc * 10 + digitVal c) acc ds = v"
  by (induction ds arbitrary: acc) (auto simp: digitVal_def split: if_splits)

lemma mantissa_format: "mantissa 10 (format_uint n) = n"
  unfolding mantissa_def by (rule digits_foldl [OF digits_value_format])

lemma mantissa_snoc: "mantissa 10 (ds @ [c]) = mantissa 10 ds * 10 + digitVal c"
  by (simp add: mantissa_def)

lemma digitVal_char: "b < 10 \<Longrightarrow> digitVal (digit_char b) = b \<and> is_digit (digit_char b)"
  using digit_char_code [of b] by (auto simp: digitVal_def is_digit_code code_of_def)

text \<open>\<open>parseFloat\<close> on digits with at most one point after the first.\<close>

lemma parse_plain:
  assumes "is_digit c" "\<forall>x \<in> set r. is_digit x \<or> x = CHR ''.''"
  shows "parseFloat (c # r) = (case readFloat (c # r) of None \<Rightarrow> None | Some q \<Rightarrow> (case f64_round q of Fin v \<Rightarrow> Some (Fin v) | _ \<Rightarrow> None))"
    "\<not> hexPrefix (c # r)" "readSign (c # r) = (False, c # r)"
proof -
  have c: "c \<noteq> CHR ''-''" "c \<noteq> CHR ''+''" "c \<noteq> CHR ''_''" "c \<noteq> CHR ''i''" "c \<noteq> CHR ''n''" "lowerc c = c"
    using assms(1) digit_plain(2) by auto
  show s: "readSign (c # r) = (False, c # r)" using c by (simp add: readSign_def)
  have "CHR ''_'' \<notin> set (c # r)" using c assms(2) by auto
  moreover from this have "filter (\<lambda>c. c \<noteq> CHR ''_'') (c # r) = c # r" by (auto intro!: filter_True)
  moreover have "special (c # r) = None" using c by (auto simp: special_def s equalFold_def)
  ultimately show "parseFloat (c # r) = (case readFloat (c # r) of None \<Rightarrow> None | Some q \<Rightarrow> (case f64_round q of Fin v \<Rightarrow> Some (Fin v) | _ \<Rightarrow> None))"
    unfolding parseFloat_def by simp
  show "\<not> hexPrefix (c # r)"
  proof
    assume h: "hexPrefix (c # r)"
    then obtain y t where r: "r = y # t" by (cases r) (auto simp: hexPrefix_def)
    then have "is_digit y \<or> y = CHR ''.''" using assms(2) by simp
    then have "lowerc y = y" "y \<noteq> CHR ''x''" using digit_plain(2) by auto
    then show False using h by (simp add: hexPrefix_def r)
  qed
qed

lemma readFloat_decimal:
  assumes "readSign s = (False, s)" "\<not> hexPrefix s" "takeWhile is_digit s = ip" "dropWhile is_digit s = f" "ip \<noteq> []"
    and "f = [] \<and> g = [] \<or> f = CHR ''.'' # g" "takeWhile is_digit g = g" "dropWhile is_digit g = []"
  shows "readFloat s = Some (of_nat (mantissa 10 (ip @ g)) * 10 powi (0 - int (length g)))"
  using assms(6)
proof (elim disjE conjE)
  assume "f = []" "g = []"
  then show ?thesis using assms(1-5) by (simp add: readFloat_def Let_def readExp_def del: dropWhile_eq_Nil_conv)
next
  assume "f = CHR ''.'' # g"
  then show ?thesis using assms(1-5,7,8) by (simp add: readFloat_def Let_def readExp_def del: dropWhile_eq_Nil_conv takeWhile_eq_all_conv)
qed

lemma parse_number:
  assumes "f = [] \<or> (\<exists>b < 10. f = ''.'' @ [digit_char b])"
  shows "parseFloat (format_uint a @ f) =
    (case f64_round (of_nat (mantissa 10 (format_uint a @ tl f)) / 10 ^ length (tl f)) of Fin v \<Rightarrow> Some (Fin v) | _ \<Rightarrow> None)"
proof -
  obtain c r where cr: "format_uint a = c # r" by (cases "format_uint a") auto
  have d: "\<forall>x \<in> set (c # r). is_digit x" using format_uint_digits [of _ a] unfolding cr by blast
  have f: "\<forall>x \<in> set f. is_digit x \<or> x = CHR ''.''" "\<forall>x \<in> set (tl f). is_digit x" "f = [] \<or> f = CHR ''.'' # tl f"
    using assms digitVal_char by auto
  have "\<forall>x \<in> set (r @ f). is_digit x \<or> x = CHR ''.''" using d f(1) by auto
  note p = parse_plain [OF _ this, of c]
  have w: "takeWhile is_digit ((c # r) @ f) = c # r" "dropWhile is_digit ((c # r) @ f) = f"
  proof -
    have "takeWhile is_digit f = []" "dropWhile is_digit f = f" using f(3) by (cases f; simp)+
    then show "takeWhile is_digit ((c # r) @ f) = c # r" "dropWhile is_digit ((c # r) @ f) = f"
      using d by (simp_all add: takeWhile_append dropWhile_append)
  qed
  have w': "takeWhile is_digit (tl f) = tl f" "dropWhile is_digit (tl f) = []" using f(2) by auto
  have "length (tl f) \<le> 1" using assms by auto
  then have e: "(10 :: rat) powi (0 - int (length (tl f))) = 1 / 10 ^ length (tl f)" by (simp add: power_int_minus_divide)
  have "readFloat ((c # r) @ f) = Some (of_nat (mantissa 10 ((c # r) @ tl f)) / 10 ^ length (tl f))"
    using readFloat_decimal [of "(c # r) @ f" "c # r" f "tl f"] p(2,3) d f(3) w w' e by fastforce
  then show ?thesis using p(1) d unfolding cr by simp
qed

lemma parse_nat:
  assumes "int n \<le> 2 ^ 53"
  shows "parseFloat (format_uint n) = Some (Fin (of_nat n))"
  using parse_number [of "[]" n] f64_exact_int [of "int n"] assms by (simp add: mantissa_format)

lemma multipliers_pos: "(u, f) \<in> set multipliers \<Longrightarrow> 1 \<le> f"
  by (auto simp: multipliers_def)

text \<open>The texts with a unit that are read: what precedes the unit is a number, and the unit is not changed by trimming.\<close>

lemma ParseSize_unit:
  assumes "is_digit x" "\<forall>c \<in> set d. plain c" "(u, f) \<in> set multipliers" "map lowerc w = map lowerc u"
  shows "ParseSize wild (d @ x # w) =
    (case parseFloat (d @ [x]) of
       None \<Rightarrow> Inl (Plain ''relay: not a size'')
     | Some value \<Rightarrow> if f64_lt value (Fin 0) then Inl (Plain ''relay: negative'')
                     else Inr (f64_int64 wild (f64_scale (of_int f) value)))"
proof -
  have "\<forall>c \<in> set (map lowerc u). 97 \<le> code_of c \<and> code_of c \<le> 122"
    using assms(3) by (auto simp: multipliers_def code_of_def)
  then have "\<forall>c \<in> set w. plain c" using lowerc_plain unfolding assms(4) [symmetric] by simp
  then have "\<forall>c \<in> set (d @ x # w). plain c" "\<forall>c \<in> set (d @ [x]). plain c" using assms(1,2) digit_plain(1) by auto
  note trim_plain [OF this(1)] trim_plain [OF this(2)]
  then show ?thesis using stripUnit_unit [OF assms(1,3,4), of d] by (simp add: ParseSize_def)
qed

lemma format_uint_snoc: "\<exists>d x. format_uint n = d @ [x] \<and> is_digit x \<and> (\<forall>c \<in> set d. plain c)"
proof -
  have "format_uint n = butlast (format_uint n) @ [last (format_uint n)]" by simp
  moreover have "is_digit (last (format_uint n))" by (rule format_uint_digits [of _ n]) simp
  moreover have "\<forall>c \<in> set (butlast (format_uint n)). plain c"
    using format_uint_digits digit_plain(1) by (meson in_set_butlastD)
  ultimately show ?thesis by blast
qed

text \<open>A whole number with a unit is read exactly, as long as the size has at most 53 bits.\<close>

lemma ParseSize_exact:
  assumes "(u, f) \<in> set multipliers" "map lowerc w = map lowerc u" "int n * f \<le> 2 ^ 53"
  shows "ParseSize wild (format_uint n @ w) = Inr (int n * f)"
proof -
  obtain d x where d: "format_uint n = d @ [x]" "is_digit x" "\<forall>c \<in> set d. plain c" using format_uint_snoc by blast
  have "int n * 1 \<le> int n * f" using multipliers_pos [OF assms(1)] by (intro mult_left_mono) auto
  then have p: "parseFloat (d @ [x]) = Some (Fin (of_nat n))" using parse_nat [of n] assms(3) unfolding d(1) by simp
  have "f64_scale (of_int f) (Fin (of_nat n)) = f64_round (of_int (int n * f))" by (simp add: mult.commute)
  moreover have "0 \<le> int n * f" using multipliers_pos [OF assms(1)] by simp
  ultimately have s: "f64_scale (of_int f) (Fin (of_nat n)) = Fin (of_int (int n * f))"
    using f64_exact_int [OF _ assms(3)] by simp
  have "f64_int64 wild (Fin (of_int (int n * f))) = int n * f"
    using assms(3) \<open>0 \<le> int n * f\<close> by (simp add: Let_def del: of_int_mult)
  then show ?thesis using ParseSize_unit [OF d(2,3) assms(1,2), of wild] p s unfolding d(1) by simp
qed

text \<open>A number of tenths with a binary unit is read up to one byte.\<close>

lemma read_tenths:
  assumes "1 \<le> q" "q < 2 ^ 11" "k \<le> 30"
  shows "\<exists>r m. f64_round q = Fin r \<and> 0 \<le> r \<and> f64_int64 wild (f64_scale (2 ^ k) (Fin r)) = m \<and> 0 \<le> m \<and>
    \<bar>of_int m - q * 2 ^ k\<bar> \<le> 1 + 1 / 2 ^ 13"
proof -
  have e: "expo q \<le> 10" "0 \<le> expo q"
  proof -
    show "expo q \<le> 10" by (rule expo_le) (use assms in simp_all)
    have "(2 :: rat) powi 0 < 2 powi (expo q + 1)" using expo_bounds [of q] assms(1) by simp
    then show "0 \<le> expo q" unfolding powi_le by simp
  qed
  obtain M where M: "roundPos q = of_int M * ulp q" "0 \<le> M" "M \<le> 2 ^ 53" using round_form [of q] assms(1) by auto
  have u: "ulp q = 2 powi (expo q - 52)" using e(2) by (simp add: ulp_def)
  have "(2 :: rat) powi (expo q - 52) \<le> 2 powi (- 42)" unfolding powi_le using e(1) by simp
  then have n: "\<bar>roundPos q - q\<bar> \<le> 1 / 2 ^ 43" using round_near [of q] assms(1) unfolding u by simp
  moreover have "(1 :: rat) / 2 ^ 43 \<le> 1" by simp
  ultimately have "\<bar>roundPos q - q\<bar> \<le> 1" by (rule order_trans)
  then have r: "0 \<le> roundPos q" "roundPos q < 2 ^ 12" using assms(1,2) by (simp_all add: abs_le_iff)
  have "(2 :: rat) ^ 12 < 2 ^ 1024" by (rule power_strict_increasing) simp_all
  then have f: "f64_round q = Fin (roundPos q)" using f64_round_pos r assms(1) by simp
  have x: "2 ^ k * roundPos q = of_int M * 2 powi (expo q - 52 + int k)" unfolding M(1) u by (simp add: powi_add)
  have s: "f64_scale (2 ^ k) (Fin (roundPos q)) = Fin (2 ^ k * roundPos q)"
    unfolding f64_scale.simps x by (rule f64_exact) (use M e assms(3) in auto)
  have K: "(2 :: rat) ^ k \<le> 2 ^ 30" using assms(3) by (intro power_increasing) simp_all
  have b: "0 \<le> 2 ^ k * roundPos q" "2 ^ k * roundPos q < 2 ^ 63"
  proof -
    show "0 \<le> 2 ^ k * roundPos q" using r(1) by simp
    have "2 ^ k * roundPos q \<le> 2 ^ 30 * 2 ^ 12" using K r by (intro mult_mono) simp_all
    then show "2 ^ k * roundPos q < 2 ^ 63" by simp
  qed
  have i: "f64_int64 wild (Fin (2 ^ k * roundPos q)) = \<lfloor>2 ^ k * roundPos q\<rfloor>" "0 \<le> \<lfloor>2 ^ k * roundPos q\<rfloor>"
    using b by (simp_all add: Let_def floor_less_iff not_less)
  have "\<bar>2 ^ k * roundPos q - q * 2 ^ k\<bar> = 2 ^ k * \<bar>roundPos q - q\<bar>"
    by (simp add: abs_mult flip: right_diff_distrib mult.commute [of "2 ^ k" q])
  also have "\<dots> \<le> 2 ^ 30 * (1 / 2 ^ 43)" using K n by (intro mult_mono) simp_all
  finally have "\<bar>2 ^ k * roundPos q - q * 2 ^ k\<bar> \<le> 1 / 2 ^ 13" by simp
  moreover have "\<bar>of_int \<lfloor>2 ^ k * roundPos q\<rfloor> - 2 ^ k * roundPos q\<bar> \<le> 1" by linarith
  ultimately have "\<bar>of_int \<lfloor>2 ^ k * roundPos q\<rfloor> - q * 2 ^ k\<bar> \<le> 1 + 1 / 2 ^ 13" by linarith
  then show ?thesis using f r(1) s i by auto
qed

lemma ParseSize_tenths:
  assumes "(u, 2 ^ k) \<in> set multipliers" "10 \<le> t" "t < 20480"
  shows "\<exists>m. ParseSize wild (sizeText t u) = Inr m \<and> \<bar>10 * m - int t * 2 ^ k\<bar> \<le> 10"
proof -
  let ?q = "rat_of_nat t / 10" and ?x = "digit_char (t mod 10)" and ?d = "format_uint (t div 10) @ ''.''"
  have "k \<le> 30"
  proof (rule ccontr)
    assume "\<not> k \<le> 30"
    then have "(2 :: int) ^ 31 \<le> 2 ^ k" by (intro power_increasing) simp_all
    then show False using assms(1) by (auto simp: multipliers_def)
  qed
  moreover have "1 \<le> ?q" "?q < 2 ^ 11" using assms(2,3) by simp_all
  ultimately obtain r m where rm: "f64_round ?q = Fin r" "0 \<le> r" "f64_int64 wild (f64_scale (2 ^ k) (Fin r)) = m" "0 \<le> m"
    "\<bar>of_int m - ?q * 2 ^ k\<bar> \<le> 1 + 1 / 2 ^ 13" using read_tenths [of ?q k wild] by blast
  have x: "is_digit ?x" "digitVal ?x = t mod 10" using digitVal_char [of "t mod 10"] by simp_all
  have p: "parseFloat (?d @ [?x]) = Some (Fin r)"
  proof -
    have "\<exists>b < 10. ''.'' @ [?x] = ''.'' @ [digit_char b]" by (intro exI [of _ "t mod 10"]) simp
    then show ?thesis using parse_number [of "''.'' @ [?x]" "t div 10"] rm(1) x(2) by (simp add: mantissa_snoc mantissa_format)
  qed
  have "\<forall>c \<in> set ?d. plain c" using format_uint_digits digit_plain(1) by (auto simp: plain_def code_of_def)
  then have "ParseSize wild (?d @ ?x # u) = Inr m"
    using ParseSize_unit [OF x(1) _ assms(1) refl, of ?d wild] p rm(2,3) by (simp add: not_less)
  moreover have "\<bar>10 * m - int t * 2 ^ k\<bar> \<le> 10"
  proof -
    have "rat_of_int (10 * m - int t * 2 ^ k) = 10 * (of_int m - ?q * 2 ^ k)" by simp
    then have "rat_of_int \<bar>10 * m - int t * 2 ^ k\<bar> = 10 * \<bar>of_int m - ?q * 2 ^ k\<bar>" by (simp only: of_int_abs abs_mult)
    also have "\<dots> < 11" using rm(5) by simp
    finally have "\<bar>10 * m - int t * 2 ^ k\<bar> < 11" by linarith
    then show ?thesis by simp
  qed
  ultimately show ?thesis by (auto simp: sizeText_def)
qed

text \<open>C39: A size that was printed can be read. For every size below one tebibyte, \<open>ParseSize\<close> accepts what \<open>FormatSize\<close> prints,
  and the size it returns differs by at most one byte and a twentieth; below one kibibyte it is the same. All roundings
  are counted: the conversion to floating point, the divisions, the tenth that is printed, the decimal number that is
  read, the product and the conversion to an integer.\<close>

theorem size_roundtrip:
  assumes "0 \<le> n" "n < 2 ^ 40"
  shows "\<exists>m. ParseSize wild (FormatSize n) = Inr m \<and> 20 * \<bar>m - n\<bar> \<le> n + 20 \<and> (n < 1024 \<longrightarrow> m = n)"
proof (cases "n < 1024")
  case True
  have "FormatSize n = format_uint (nat n) @ ''B''" using True assms(1) by (simp add: FormatSize_def formatInt_def)
  moreover have "(''B'', 1) \<in> set multipliers" by (simp add: multipliers_def)
  ultimately show ?thesis using ParseSize_exact [of "''B''" 1 "''B''" "nat n" wild] True assms(1) by simp
next
  case False
  obtain k t where k: "k \<in> {1, 2, 3, 4}" "FormatSize n = sizeText t ([''KiB'', ''MiB'', ''GiB'', ''TiB''] ! (k - 1))"
    "10 \<le> t" "1024 ^ k \<le> n" "n < 1024 ^ Suc k" "2 * \<bar>10 * n - int t * 1024 ^ k\<bar> \<le> 1024 ^ k"
    using FormatSize_shows [of n] False assms(2) by force
  then have k3: "k \<in> {1, 2, 3}" using assms(2) by auto
  have F: "(1024 :: int) ^ k = 2 ^ (10 * k)" by (simp add: power_mult)
  have "T < 20480 * X" if "0 < X" "n < 1024 * X" "2 * \<bar>10 * n - T\<bar> \<le> X" for T X :: int
    using that by (auto simp: abs_if split: if_splits)
  then have "int t * 1024 ^ k < 20480 * 1024 ^ k" using k(5,6) by simp
  then have t: "t < 20480" by simp
  have "([''KiB'', ''MiB'', ''GiB'', ''TiB''] ! (k - 1), 2 ^ (10 * k)) \<in> set multipliers"
    using k3 unfolding insert_iff empty_iff
    by (elim disjE FalseE) (simp_all only: multipliers_def list.set insert_iff, simp_all)
  from ParseSize_tenths [OF this k(3) t, of wild] obtain m
    where m: "ParseSize wild (FormatSize n) = Inr m" "\<bar>10 * m - int t * 1024 ^ k\<bar> \<le> 10" unfolding k(2) F by blast
  have "20 * \<bar>m - n\<bar> \<le> 2 * \<bar>10 * m - int t * 1024 ^ k\<bar> + 2 * \<bar>10 * n - int t * 1024 ^ k\<bar>"
  proof -
    have "\<bar>10 * (m - n)\<bar> \<le> \<bar>10 * m - T\<bar> + \<bar>10 * n - T\<bar>" for T using abs_triangle_ineq4 [of "10 * m - T" "10 * n - T"] by simp
    from this [of "int t * 1024 ^ k"] show ?thesis unfolding abs_mult by simp
  qed
  also have "\<dots> \<le> n + 20" using m(2) order_trans [OF k(6,4)] by simp
  finally show ?thesis using m(1) False by auto
qed

theorem size_roundtrip_witness:
  "FormatSize 1363148 = ''1.3MiB'' \<and> (\<exists>m. ParseSize (\<lambda>_. 0) (FormatSize 1363148) = Inr m \<and> 20 * \<bar>m - 1363148\<bar> \<le> 1363168)"
proof
  have "\<lfloor>1703935 / 131072 :: rat\<rfloor> = 12" by (simp add: floor_eq_iff)
  then have "roundEven (1703935 / 131072) = 13" by (simp add: roundEven_def Let_def)
  moreover have "format_uint 1 = ''1''" "digit_char 3 = CHR ''3''" by code_simp+
  ultimately show "FormatSize 1363148 = ''1.3MiB''" using format_large [of 1363148] by (simp add: Let_def)
qed (use size_roundtrip [of 1363148 "\<lambda>_. 0"] in auto)

subsection \<open>Plans\<close>

text \<open>A plan that is read has a name, as \<open>Start\<close> demands, no negative limit, and no negative rate unless a size was out of
  the range of integers.\<close>

lemma ParseSize_nonneg: "ParseSize wild s = Inr n \<Longrightarrow> \<forall>v. 0 \<le> wild v \<Longrightarrow> 0 \<le> n"
proof -
  assume s: "ParseSize wild s = Inr n" and w: "\<forall>v. 0 \<le> wild v"
  obtain number factor where t: "stripUnit multipliers (trimSpace s) = (number, factor)" by fastforce
  have "1 \<le> factor"
  proof -
    have "stripUnit ms x = (number, factor) \<Longrightarrow> \<forall>p \<in> set ms. 1 \<le> snd p \<Longrightarrow> 1 \<le> factor" for ms x
      by (induction ms x rule: stripUnit.induct) (auto simp: Let_def split: if_splits)
    then show ?thesis using t multipliers_pos by fastforce
  qed
  moreover obtain v where "parseFloat number = Some v" "\<not> f64_lt v (Fin 0)" "n = f64_int64 wild (f64_scale (of_int factor) v)"
    using s t by (auto simp: ParseSize_def Let_def split: if_splits option.splits)
  moreover have "0 \<le> f64_int64 wild (f64_scale k v)" if "0 \<le> k" "\<not> f64_lt v (Fin 0)" for k
  proof (cases v)
    case (Fin q)
    have "0 \<le> roundPos x" if "0 \<le> x" for x
      using round_form [of x] ulp_pos [of x] that by (cases "x = 0") (auto simp: roundPos_def intro!: mult_nonneg_nonneg less_imp_le [OF ulp_pos])
    then have "f64_round (k * q) = PosInf \<or> (\<exists>r \<ge> 0. f64_round (k * q) = Fin r)"
      using that Fin by (auto simp: f64_round_def Let_def mult_less_0_iff)
    then show ?thesis using w Fin by (auto simp: Let_def)
  qed (use w in auto)
  ultimately show "0 \<le> n" by simp
qed

lemma planOf_ok: "planOf wild rest = Inr p \<Longrightarrow> \<forall>v. 0 \<le> wild v \<Longrightarrow> 0 \<le> pl_Rate p \<and> 0 \<le> pl_MaxAllocations p"
  by (auto simp: planOf_def Let_def dest: ParseSize_nonneg split: prod.splits sum.splits if_splits option.splits)

lemma ParsePlans_ok:
  assumes "ParsePlans wild spec = Inr plans" "\<forall>v. 0 \<le> wild v" "(name, p) \<in> set plans"
  shows "name \<noteq> [] \<and> 0 \<le> pl_Rate p \<and> 0 \<le> pl_MaxAllocations p"
proof -
  define ok where "ok = (\<lambda>(name :: string, p :: Plan). name \<noteq> [] \<and> 0 \<le> pl_Rate p \<and> 0 \<le> pl_MaxAllocations p)"
  have u: "\<forall>x \<in> set (AList.update n p ps). ok x" if "\<forall>x \<in> set ps. ok x" "ok (n, p)" for n p ps
    using that by (induction ps) auto
  have o: "ok (n, p)" if "n \<noteq> []" "planOf wild r = Inr p" for n r p using planOf_ok [OF that(2) assms(2)] that(1) by (simp add: ok_def)
  have "parsePlanEntries wild es ps = Inr plans \<Longrightarrow> \<forall>x \<in> set ps. ok x \<Longrightarrow> \<forall>x \<in> set plans. ok x" for es ps
  proof (induction es arbitrary: ps)
    case (Cons e es)
    consider "parsePlanEntries wild es ps = Inr plans"
      | n r p where "n \<noteq> []" "planOf wild r = Inr p" "parsePlanEntries wild es (AList.update n p ps) = Inr plans"
      using Cons.prems(1) by (auto simp: Let_def split: if_splits prod.splits sum.splits)
    then show ?case using Cons.IH Cons.prems(2) u o by cases blast+
  qed simp
  then show ?thesis using assms(1,3) by (fastforce simp: ParsePlans_def ok_def)
qed

text \<open>Not-a-number passes the check for negative sizes; what becomes of it depends on the implementation of Go.\<close>

lemma ParseSize_nan: "ParseSize wild ''nan'' = Inr (wild NaN)"
proof -
  have "trimSpace ''nan'' = ''nan''" by (rule trim_plain) (simp add: plain_def code_of_def)
  moreover have "stripUnit multipliers ''nan'' = (''nan'', 1)" unfolding multipliers_def stripUnit_end by simp
  moreover have "parseFloat ''nan'' = Some NaN" by (simp add: parseFloat_def special_def readSign_def equalFold_def)
  ultimately show ?thesis by (simp add: ParseSize_def)
qed

end
