(* ===== verification/Relay_Server.thy ===== *)
theory Relay_Server
  imports Relay_Size
begin

text \<open>
  Starting and closing a relay server (\<^verbatim>\<open>relay/relay.go\<close>): \<open>Start\<close> from the checks to the running server, the listeners it
  opens and closes on the way, the URLs of a server and \<open>Close\<close>.

  \<^item> What the operating system and the TURN package answer is a value of \<open>startEnv\<close>: binding the UDP and the TCP listener,
    and starting the TURN server. The listeners that are open are a list, and every call that opens or closes one changes it.
  \<^item> A listener for \<open>udp4\<close> has an address of four bytes.
\<close>

subsection \<open>Addresses\<close>

definition isUnspecified :: "ipAddr \<Rightarrow> bool" where
  "isUnspecified a = (case a of IP4 v \<Rightarrow> v = (0, 0, 0, 0) | IPOther bs \<Rightarrow> bs = replicate 16 0)"

fun ip4String :: "ip4 \<Rightarrow> string" where
  "ip4String (a, b, c, d) =
     format_uint (unat a) @ ''.'' @ format_uint (unat b) @ ''.'' @ format_uint (unat c) @ ''.'' @ format_uint (unat d)"

definition joinHostPort :: "string \<Rightarrow> string \<Rightarrow> string" where
  "joinHostPort host port =
     (if CHR '':'' \<in> set host \<or> CHR ''%'' \<in> set host then ''['' @ host @ '']:'' @ port else host @ '':'' @ port)"

text \<open>The address a listener reports.\<close>

datatype netAddr = UDPAddr ip4 u16 | OtherAddr

subsection \<open>Start\<close>

text \<open>The allocators of the TURN package: relay address, ports, and the address sockets are bound to.\<close>

datatype addrGenerator =
    PortRange ipAddr u16 u16 string
  | Static ipAddr string

record relayServer =
  rv_cfg :: relayConfig
  rv_addr :: "ip4 \<times> u16"
  rv_tcp :: "string option"
  rv_gen :: generator
  rv_inner :: addrGenerator

datatype relayHandle = UdpConn | TcpListener

record startEnv =
  en_udp :: "gerror + netAddr"
  en_tcp :: "gerror + string"
  en_turn :: "gerror option"

definition closeHandle :: "relayHandle \<Rightarrow> relayHandle list \<Rightarrow> relayHandle list" where
  "closeHandle h hs = removeAll h hs"

definition startTurn ::
    "startEnv \<Rightarrow> relayConfig \<Rightarrow> ip4 \<times> u16 \<Rightarrow> addrGenerator \<Rightarrow> string option \<Rightarrow> relayHandle list \<Rightarrow>
      (gerror + relayServer) \<times> relayHandle list" where
  "startTurn env cfg addr inner tcpListener hs =
     (case en_turn env of
        Some e \<Rightarrow>
          let hs = closeHandle UdpConn hs;
              hs = (if tcpListener \<noteq> None then closeHandle TcpListener hs else hs)
          in (Inl (Wrap e), hs)
      | None \<Rightarrow>
          (Inr \<lparr> rv_cfg = cfg, rv_addr = addr, rv_tcp = tcpListener, rv_gen = newGenerator cfg, rv_inner = inner \<rparr>, hs))"

definition startTCP ::
    "startEnv \<Rightarrow> relayConfig \<Rightarrow> ip4 \<times> u16 \<Rightarrow> addrGenerator \<Rightarrow> relayHandle list \<Rightarrow> (gerror + relayServer) \<times> relayHandle list" where
  "startTCP env cfg addr inner hs =
     (if rl_ListenTCP cfg \<noteq> []
      then (case en_tcp env of
              Inl e \<Rightarrow> (Inl (Wrap e), closeHandle UdpConn hs)
            | Inr a \<Rightarrow> startTurn env cfg addr inner (Some a) (TcpListener # hs))
      else startTurn env cfg addr inner None hs)"

definition innerGenerator :: "relayConfig \<Rightarrow> ip4 \<Rightarrow> ipAddr \<Rightarrow> addrGenerator" where
  "innerGenerator cfg ip relayIP =
     (let bindIP = (if isUnspecified (IP4 ip) then ''0.0.0.0'' else ip4String ip)
      in if rl_MinPort cfg \<noteq> 0 then PortRange relayIP (rl_MinPort cfg) (rl_MaxPort cfg) bindIP else Static relayIP bindIP)"

definition startUDP :: "startEnv \<Rightarrow> relayConfig \<Rightarrow> (gerror + relayServer) \<times> relayHandle list" where
  "startUDP env cfg =
     (case en_udp env of
        Inl e \<Rightarrow> (Inl (Wrap e), [])
      | Inr OtherAddr \<Rightarrow> (Inl (Plain ''relay: listener reported another address''), closeHandle UdpConn [UdpConn])
      | Inr (UDPAddr ip port) \<Rightarrow>
          let relayIP = (case rl_RelayIP cfg of None \<Rightarrow> IP4 ip | Some a \<Rightarrow> a) in
          if isUnspecified relayIP
          then (Inl (Plain ''relay: listening on a wildcard address requires an explicit RelayIP''), closeHandle UdpConn [UdpConn])
          else startTCP env cfg (ip, port) (innerGenerator cfg ip relayIP) [UdpConn])"

definition Start :: "startEnv \<Rightarrow> relayConfig \<Rightarrow> (gerror + relayServer) \<times> relayHandle list" where
  "Start env cfg = (case relayStart cfg of Inl e \<Rightarrow> (Inl e, []) | Inr cfg \<Rightarrow> startUDP env cfg)"

subsection \<open>A running server\<close>

definition hostPort :: "relayServer \<Rightarrow> string" where
  "hostPort s = joinHostPort (ip4String (fst (rv_addr s))) (format_uint (unat (snd (rv_addr s))))"

definition STUNURL :: "relayServer \<Rightarrow> string" where "STUNURL s = ''stun:'' @ hostPort s"
definition TURNURL :: "relayServer \<Rightarrow> string" where "TURNURL s = ''turn:'' @ hostPort s @ ''?transport=udp''"

definition TURNTCPURL :: "relayServer \<Rightarrow> string" where
  "TURNTCPURL s = (case rv_tcp s of None \<Rightarrow> [] | Some a \<Rightarrow> ''turn:'' @ a @ ''?transport=tcp'')"

definition Server_IssueCredentials ::
    "(string \<Rightarrow> string \<Rightarrow> int \<Rightarrow> gerror + string \<times> string) \<Rightarrow> relayServer \<Rightarrow> string \<Rightarrow> int \<Rightarrow> gerror + string \<times> string" where
  "Server_IssueCredentials generate s userID ttl = IssueCredentials generate (rl_AuthSecret (rv_cfg s)) userID ttl"

definition Server_Stats :: "relayServer \<Rightarrow> relayStats" where "Server_Stats s = stats (rv_gen s)"

text \<open>Closing the TURN server closes the listeners it was given; \<open>res\<close> is its answer.\<close>

definition relayClose :: "gerror option \<Rightarrow> relayHandle list \<Rightarrow> gerror option \<times> relayHandle list" where
  "relayClose res hs =
     (let hs = [] in
      case res of
        Some e \<Rightarrow> if \<not> errors_Is e NetErrClosed then (Some (Wrap e), hs) else (None, hs)
      | None \<Rightarrow> (None, hs))"

subsection \<open>No listener is lost\<close>

definition relayIPOf :: "relayServer \<Rightarrow> ipAddr" where
  "relayIPOf s = (case rv_inner s of PortRange a _ _ _ \<Rightarrow> a | Static a _ \<Rightarrow> a)"

text \<open>Whatever fails on the way, \<open>Start\<close> leaves no listener open. A server that started has exactly the listeners of its
  configuration, hands out a usable relay address and a proper range of ports, and begins in a state from which the
  accounts of \<open>Relay\<close> are kept.\<close>

lemma startTurn_cases:
  assumes "startTurn env cfg addr inner tcp hs = (r, hs')" "set hs = insert UdpConn (if tcp \<noteq> None then {TcpListener} else {})"
  shows "case r of
      Inl e \<Rightarrow> hs' = []
    | Inr s \<Rightarrow> hs' = hs \<and> s = \<lparr> rv_cfg = cfg, rv_addr = addr, rv_tcp = tcp, rv_gen = newGenerator cfg, rv_inner = inner \<rparr>"
proof (cases "en_turn env")
  case (Some e)
  have "removeAll TcpListener (removeAll UdpConn hs) = []"
    using assms(2) by (auto simp: filter_empty_conv removeAll_filter_not_eq split: if_splits)
  moreover have "removeAll UdpConn hs = []" if "tcp = None"
    using assms(2) that by (auto simp: filter_empty_conv removeAll_filter_not_eq)
  ultimately show ?thesis using assms(1) Some by (auto simp: startTurn_def closeHandle_def Let_def split: if_splits)
qed (use assms(1) in \<open>auto simp: startTurn_def\<close>)

lemma startTCP_cases:
  assumes "startTCP env cfg addr inner [UdpConn] = (r, hs)"
  shows "case r of
      Inl e \<Rightarrow> hs = []
    | Inr s \<Rightarrow> set hs = insert UdpConn (if rl_ListenTCP cfg \<noteq> [] then {TcpListener} else {}) \<and> (rv_tcp s = None \<longleftrightarrow> rl_ListenTCP cfg = []) \<and>
        rv_cfg s = cfg \<and> rv_gen s = newGenerator cfg \<and> rv_inner s = inner"
proof (cases "rl_ListenTCP cfg = []")
  case True
  then show ?thesis using startTurn_cases [of env cfg addr inner None "[UdpConn]" r hs] assms
    by (simp add: startTCP_def split: sum.splits)
next
  case False
  show ?thesis
  proof (cases "en_tcp env")
    case (Inr a)
    then show ?thesis using startTurn_cases [of env cfg addr inner "Some a" "[TcpListener, UdpConn]" r hs] assms False
      by (simp add: startTCP_def insert_commute split: sum.splits)
  qed (use assms False in \<open>auto simp: startTCP_def closeHandle_def\<close>)
qed

lemma inner_ok:
  assumes "rv_inner s = innerGenerator cfg ip a" "rl_MinPort cfg \<le> rl_MaxPort cfg"
  shows "relayIPOf s = a" "rv_inner s = PortRange b lo hi c \<Longrightarrow> 0 < lo \<and> lo \<le> hi"
  using assms by (auto simp: relayIPOf_def innerGenerator_def word_neq_0_conv Let_def split: if_splits)

lemma relayStart_ok:
  "relayStart cfg = Inr cfg' \<Longrightarrow> (rl_MinPort cfg' = 0 \<longleftrightarrow> rl_MaxPort cfg' = 0) \<and> rl_MinPort cfg' \<le> rl_MaxPort cfg' \<and>
    rl_ListenTCP cfg' = rl_ListenTCP cfg \<and> rl_Realm cfg' \<noteq> []"
  by (auto simp: relayStart_def Let_def DefaultRealm_def not_less split: if_splits)

lemma start_no_leak:
  assumes "Start env cfg = (r, hs)"
  shows "case r of
      Inl e \<Rightarrow> hs = []
    | Inr s \<Rightarrow> set hs = insert UdpConn (if rl_ListenTCP cfg \<noteq> [] then {TcpListener} else {}) \<and> (rv_tcp s = None \<longleftrightarrow> rl_ListenTCP cfg = []) \<and>
        \<not> isUnspecified (relayIPOf s) \<and> rl_Realm (rv_cfg s) \<noteq> [] \<and>
        (\<forall>a lo hi b. rv_inner s = PortRange a lo hi b \<longrightarrow> 0 < lo \<and> lo \<le> hi) \<and>
        relay_reach ko sh \<lparr> y_gen = rv_gen s, y_socks = [], y_live = [] \<rparr>"
proof (cases "relayStart cfg")
  case (Inr cfg')
  note c = relayStart_ok [OF Inr] and y = yr_start [OF Inr, of ko sh]
  have s: "startUDP env cfg' = (r, hs)" using assms Inr by (simp add: Start_def)
  show ?thesis
  proof (cases "\<exists>ip port. en_udp env = Inr (UDPAddr ip port) \<and> \<not> isUnspecified (case rl_RelayIP cfg' of None \<Rightarrow> IP4 ip | Some a \<Rightarrow> a)")
    case True
    then obtain ip port where ip: "en_udp env = Inr (UDPAddr ip port)"
      "\<not> isUnspecified (case rl_RelayIP cfg' of None \<Rightarrow> IP4 ip | Some a \<Rightarrow> a)" by blast
    let ?a = "case rl_RelayIP cfg' of None \<Rightarrow> IP4 ip | Some a \<Rightarrow> a"
    have t: "startTCP env cfg' (ip, port) (innerGenerator cfg' ip ?a) [UdpConn] = (r, hs)"
      using s ip by (simp add: startUDP_def Let_def)
    show ?thesis
    proof (cases r)
      case i: (Inr s)
      then have "rv_inner s = innerGenerator cfg' ip ?a" using startTCP_cases [OF t] by simp
      note inner_ok [OF this]
      then show ?thesis using startTCP_cases [OF t] i c y ip(2) by simp
    qed (use startTCP_cases [OF t] in simp)
  qed (use s in \<open>auto simp: startUDP_def closeHandle_def Let_def split: sum.splits netAddr.splits if_splits\<close>)
qed (use assms in \<open>auto simp: Start_def\<close>)

text \<open>With no users and no secret, as \<open>Start\<close> warns, every allocation is refused.\<close>

lemma nobody_allocates:
  assumes "rl_Users cfg = []" "rl_AuthSecret cfg = []"
  shows "authHandler (authKeys ko cfg) sh cfg username = None"
  using assms by (simp add: authHandler_def authKeys_def)

text \<open>Credentials that are issued for a user, in the documented form, are charged to that user.\<close>

lemma issued_is_charged:
  assumes "Server_IssueCredentials gen s userID ttl = Inr (username, password)" "map_of (rl_Users (rv_cfg s)) username = None"
    and gen: "\<And>secret i t. \<exists>expiry password. CHR '':'' \<notin> set expiry \<and> gen secret i t = Inr (expiry @ CHR '':'' # i, password)"
  shows "userIDOf (rv_cfg s) username = userID"
proof -
  have s: "rl_AuthSecret (rv_cfg s) \<noteq> []"
    and g: "gen (rl_AuthSecret (rv_cfg s)) userID (if ttl \<le> 0 then DefaultCredentialTTL else ttl) = Inr (username, password)"
    using assms(1) by (auto simp: Server_IssueCredentials_def IssueCredentials_def split: if_splits)
  obtain e where "CHR '':'' \<notin> set e" "username = e @ CHR '':'' # userID"
    using gen [of "rl_AuthSecret (rv_cfg s)" userID "if ttl \<le> 0 then DefaultCredentialTTL else ttl"] g by auto
  then show ?thesis using assms(2) s cut_first by (simp add: userIDOf_def)
qed

text \<open>The UDP URLs name the address the server listens on: no brackets are needed, and the port is the last part.\<close>

lemma hostPort_plain: "hostPort s = ip4String (fst (rv_addr s)) @ '':'' @ format_uint (unat (snd (rv_addr s)))"
proof -
  have d: "is_digit c" if "c \<in> set (format_uint n)" for c n using that by (rule format_uint_digits)
  have "\<not> is_digit (CHR '':'')" "\<not> is_digit (CHR ''%'')" by (simp_all add: is_digit_def)
  then have "CHR '':'' \<notin> set (format_uint n)" "CHR ''%'' \<notin> set (format_uint n)" for n using d by blast+
  then have "CHR '':'' \<notin> set (ip4String v)" "CHR ''%'' \<notin> set (ip4String v)" for v by (cases v; simp)+
  then show ?thesis by (simp add: hostPort_def joinHostPort_def)
qed

lemma close_releases: "snd (relayClose res hs) = []" "fst (relayClose res hs) \<noteq> None \<longleftrightarrow> (\<exists>e. res = Some e \<and> \<not> errors_Is e NetErrClosed)"
  by (auto simp: relayClose_def split: option.splits)

end
