(* ===== verification/Backoff.thy ===== *)
theory Backoff
  imports Float64
begin

text \<open>
  The delay before another attempt: \<open>backoffFor\<close> of a session (\<^verbatim>\<open>session.go\<close>) and \<open>delayFor\<close> of the signaling client
  (\<^verbatim>\<open>signaling/sse/client.go\<close>). Both multiply in \<open>float64\<close>, each operation rounded on its own. \<open>pow\<close> is \<open>math.Pow\<close>,
  whose last bits depend on the platform, and \<open>rnd\<close> the random number; both are arguments.
\<close>

definition jittered :: "f64 \<Rightarrow> f64 \<Rightarrow> f64 \<Rightarrow> f64" where
  "jittered rnd jitter d =
     (if f64_lt (Fin 0) jitter
      then f64_mul d (f64_add (f64_sub (Fin 1) jitter) (f64_mul (f64_mul (Fin 2) jitter) rnd))
      else d)"

definition delayFor :: "(f64 \<Rightarrow> int) \<Rightarrow> (f64 \<Rightarrow> f64 \<Rightarrow> f64) \<Rightarrow> f64 \<Rightarrow> Backoff \<Rightarrow> int \<Rightarrow> int" where
  "delayFor wild pow rnd b attempt =
     (let d = f64_mul (f64_round (of_int (bo_Initial b))) (pow (bo_Factor b) (f64_round (of_int (attempt - 1))));
          mx = f64_round (of_int (bo_Maximum b));
          d = (if f64_lt mx d then mx else d)
      in f64_int64 wild (jittered rnd (bo_Jitter b) d))"

definition backoffFor :: "(f64 \<Rightarrow> int) \<Rightarrow> (f64 \<Rightarrow> f64 \<Rightarrow> f64) \<Rightarrow> f64 \<Rightarrow> Backoff \<Rightarrow> int \<Rightarrow> int" where
  "backoffFor wild pow rnd b attempt =
     (if bo_Initial b \<le> 0 then 0
      else
        let d = f64_mul (f64_round (of_int (bo_Initial b))) (pow (bo_Factor b) (f64_round (of_int (attempt - 1))));
            mx = f64_round (of_int (bo_Maximum b));
            d = (if f64_lt mx d then mx else d)
        in f64_int64 wild (jittered rnd (bo_Jitter b) d))"

text \<open>The factor of the jitter is between zero and two. For a jitter of at least one half the difference from one is
  exact; below, the two terms are at most one each.\<close>

lemma one_minus:
  assumes "0 < j" "j \<le> 1" "f64_round j = Fin j"
  shows "\<exists>x. f64_sub (Fin 1) (Fin j) = Fin x \<and> 0 \<le> x \<and> x \<le> 1 \<and> (1 / 2 \<le> j \<longrightarrow> x = 1 - j)"
proof (cases "1 / 2 \<le> j")
  case True
  have e: "expo j = - 1 \<or> expo j = 0"
  proof -
    have "expo j \<le> 0" by (rule expo_le) (use assms in simp_all)
    moreover have "(2 :: rat) powi (- 1) < 2 powi (expo j + 1)" using expo_bounds [OF assms(1)] True by simp
    ultimately show ?thesis unfolding powi_le by auto
  qed
  have "roundPos j = j" using assms by (auto simp: f64_round_def Let_def split: if_splits)
  then obtain m where m: "j = of_int m * ulp j" "0 \<le> m" "m \<le> 2 ^ 53" using round_form [OF assms(1)] by auto
  have "ulp j = 2 powi (- 53) \<or> ulp j = 2 powi (- 52)" using e by (auto simp: ulp_def)
  then obtain k where k: "j = of_int k * 2 powi (- 53)" "0 \<le> k"
  proof
    assume u: "ulp j = 2 powi (- 53)"
    show ?thesis by (rule that [OF m(1) [unfolded u] m(2)])
  next
    assume u: "ulp j = 2 powi (- 52)"
    have "(2 :: rat) powi (- 52) = 2 * 2 powi (- 53)" by (simp add: power_int_minus)
    then have "j = of_int (2 * m) * 2 powi (- 53)" using m(1) [unfolded u] by simp
    then show ?thesis using that [of "2 * m"] m(2) by simp
  qed
  have d: "1 - j = of_int (2 ^ 53 - k) * 2 powi (- 53)" unfolding k(1) by (simp add: power_int_minus left_diff_distrib)
  have "0 \<le> 2 ^ 53 - k"
  proof -
    have "0 \<le> rat_of_int (2 ^ 53 - k) * 2 powi (- 53)" using assms(2) d by simp
    then have "0 \<le> rat_of_int (2 ^ 53 - k)" by (simp only: zero_le_mult_iff powi_pos) (use powi_pos [of "- 53"] in linarith)
    then show ?thesis by (simp only: of_int_0_le_iff)
  qed
  then have "f64_round (1 - j) = Fin (1 - j)" unfolding d by (intro f64_exact) (use k(2) in simp_all)
  then show ?thesis using assms by (simp add: f64_sub_def)
next
  case False
  then show ?thesis using f64_between [of "1 - j" 1 0] assms by (simp add: f64_sub_def)
qed

lemma jitter_factor:
  assumes "0 < j" "j \<le> 1" "f64_round j = Fin j" "0 \<le> r" "r \<le> 1"
  shows "\<exists>f. f64_add (f64_sub (Fin 1) (Fin j)) (f64_mul (f64_mul (Fin 2) (Fin j)) (Fin r)) = Fin f \<and> 0 \<le> f \<and> f \<le> 2"
proof -
  obtain x where x: "f64_sub (Fin 1) (Fin j) = Fin x" "0 \<le> x" "x \<le> 1" "1 / 2 \<le> j \<longrightarrow> x = 1 - j" using one_minus [OF assms(1-3)] by blast
  obtain m e where m: "j = of_int m * 2 powi e" "0 \<le> m" "m \<le> 2 ^ 53" "- 1074 \<le> e" "e \<le> 0"
  proof -
    have "roundPos j = j" using assms by (auto simp: f64_round_def Let_def split: if_splits)
    then obtain m where "j = of_int m * ulp j" "0 \<le> m" "m \<le> 2 ^ 53" using round_form [OF assms(1)] by auto
    moreover have "expo j \<le> 0" by (rule expo_le) (use assms in simp_all)
    ultimately show ?thesis using that [of m "max (expo j) (- 1022) - 52"] by (simp add: ulp_def)
  qed
  have t: "2 * j = of_int m * 2 powi (e + 1)" unfolding m(1) by (simp add: powi_add)
  have "f64_mul (Fin 2) (Fin j) = f64_round (2 * j)" by simp
  also have "\<dots> = Fin (2 * j)" unfolding t by (rule f64_exact) (use m in simp_all)
  finally have "f64_mul (Fin 2) (Fin j) = Fin (2 * j)" .
  moreover have "0 \<le> 2 * j * r" "2 * j * r \<le> of_int m * 2 powi (e + 1)"
    unfolding t [symmetric] using assms(1,4,5) mult_left_le [of r "2 * j"] by simp_all
  then obtain y where y: "f64_round (2 * j * r) = Fin y" "0 \<le> y" "y \<le> 2 * j"
    using f64_between [of "2 * j * r" m "e + 1"] m(2-5) unfolding t by auto
  moreover have "0 \<le> x + y" "x + y \<le> of_int 2 * 2 powi 0" using x y assms(2) by (cases "1 / 2 \<le> j"; simp)+
  then have "\<exists>f. f64_round (x + y) = Fin f \<and> 0 \<le> f \<and> f \<le> 2" using f64_between [of "x + y" 2 0] by simp
  ultimately show ?thesis using x(1) by simp
qed

text \<open>The delays are bounded. With a backoff that \<open>clone\<close> accepts, whose factor is a number and whose maximum has at most
  53 bits (more than a hundred days), every delay is between zero and twice the maximum, whatever the random
  number and the attempt: no power of the factor escapes the maximum, and no rounding escapes the bound.\<close>

lemma delay_bounded:
  assumes b: "backoff_ok b" "bo_Maximum b \<le> 2 ^ 53" "\<And>j. bo_Jitter b = Fin j \<Longrightarrow> f64_round j = Fin j"
    and pow: "\<And>a. pow (bo_Factor b) a = PosInf \<or> (\<exists>p \<ge> 0. pow (bo_Factor b) a = Fin p)"
    and rnd: "0 \<le> r" "r \<le> 1"
  shows "0 \<le> delayFor wild pow (Fin r) b attempt" "delayFor wild pow (Fin r) b attempt \<le> 2 * bo_Maximum b"
    "backoffFor wild pow (Fin r) b attempt = delayFor wild pow (Fin r) b attempt"
proof -
  let ?M = "bo_Maximum b" and ?I = "bo_Initial b"
  have o: "0 < ?I" "?I \<le> ?M" "0 \<le> ?M" using b(1) by (simp_all add: backoff_ok_def)
  then have I: "f64_round (of_int ?I) = Fin (of_int ?I)" and M: "f64_round (of_int ?M) = Fin (of_int ?M)"
    using b(2) by (simp_all add: f64_exact_int)
  define d where "d = f64_mul (f64_round (of_int ?I)) (pow (bo_Factor b) (f64_round (of_int (attempt - 1))))"
  have "\<exists>c. (if f64_lt (Fin (of_int ?M)) d then Fin (of_int ?M) else d) = Fin c \<and> 0 \<le> c \<and> c \<le> of_int ?M"
  proof -
    consider "d = PosInf" | p where "0 \<le> p" "d = f64_round (of_int ?I * p)"
      using pow [of "f64_round (of_int (attempt - 1))"] o(1) unfolding d_def I by fastforce
    then show ?thesis
    proof cases
      case 2
      then have "d = PosInf \<or> (\<exists>q \<ge> 0. d = Fin q)"
        using round_nonneg [of "of_int ?I * p"] o(1) by (auto simp: f64_round_def Let_def mult_less_0_iff)
      then show ?thesis using o(3) by auto
    qed (use o in auto)
  qed
  then obtain c where c: "(if f64_lt (Fin (of_int ?M)) d then Fin (of_int ?M) else d) = Fin c" "0 \<le> c" "c \<le> of_int ?M" by blast
  have "\<exists>v. jittered (Fin r) (bo_Jitter b) (Fin c) = Fin v \<and> 0 \<le> v \<and> v \<le> of_int (2 * ?M)"
  proof (cases "f64_lt (Fin 0) (bo_Jitter b)")
    case True
    then obtain j where j: "bo_Jitter b = Fin j" "0 < j" "j \<le> 1" using b(1) by (cases "bo_Jitter b") (auto simp: backoff_ok_def)
    obtain f where f: "f64_add (f64_sub (Fin 1) (Fin j)) (f64_mul (f64_mul (Fin 2) (Fin j)) (Fin r)) = Fin f" "0 \<le> f" "f \<le> 2"
      using jitter_factor [OF j(2,3) b(3) [OF j(1)] rnd] by blast
    have "c * f \<le> of_int ?M * 2" using c(2,3) f(2,3) o(3) by (intro mult_mono) simp_all
    then show ?thesis using f64_between [of "c * f" ?M 1] c(2) f o(3) b(2) True j(1) by (simp add: jittered_def mult.commute)
  qed (use c o in \<open>auto simp: jittered_def\<close>)
  then obtain v where v: "jittered (Fin r) (bo_Jitter b) (Fin c) = Fin v" "0 \<le> v" "v \<le> of_int (2 * ?M)" by blast
  have D: "delayFor wild pow (Fin r) b attempt = \<lfloor>v\<rfloor>"
  proof -
    have "2 * ?M \<le> 2 ^ 54" using b(2) by simp
    then have "rat_of_int (2 * ?M) \<le> rat_of_int (2 ^ 54)" by (simp only: of_int_le_iff)
    then have "v < 2 ^ 63" using v(3) by simp
    then have "f64_int64 wild (Fin v) = \<lfloor>v\<rfloor>" using v(2) by (simp add: Let_def)
    then show ?thesis unfolding delayFor_def Let_def M d_def [symmetric] c(1) v(1) .
  qed
  then show "0 \<le> delayFor wild pow (Fin r) b attempt" "delayFor wild pow (Fin r) b attempt \<le> 2 * ?M"
    using v by (simp_all add: floor_le_iff)
  show "backoffFor wild pow (Fin r) b attempt = delayFor wild pow (Fin r) b attempt"
    using o(1) by (simp add: backoffFor_def delayFor_def)
qed

text \<open>A factor that is not a number, which \<open>clone\<close> accepts, makes the delay depend on the implementation of Go.\<close>

lemma nan_delay:
  assumes "bo_Factor b = NaN" "bo_Initial b = 1" "bo_Jitter b = Fin 0" "\<And>a. pow NaN a = NaN"
  shows "delayFor wild pow rnd b attempt = wild NaN"
  using assms f64_exact_int [of 1] by (simp add: delayFor_def jittered_def)

end
