(* ===== verification/Clock.thy ===== *)
theory Clock
  imports Prelude
begin

text \<open>
  The time source of the timers (\<^verbatim>\<open>internal/clock/clock.go\<close>). A \<open>time.Time\<close> is the number of nanoseconds since the
  zero time (1 January of year 1), a \<open>time.Duration\<close> a number of nanoseconds. The system clock only forwards to the
  package \<open>time\<close>; the manually advanced \<open>Fake\<close> is modelled as it is written.

  \<^item> Timers are objects with numbers; the pending list holds numbers, so \<open>removeLocked\<close> compares numbers.
  \<^item> The channel of a timer has room for one value: \<open>ft_ch\<close> is what it holds.
  \<^item> \<open>fk_fired\<close> is the history of the firings, with the deadline each timer had and the time the clock showed; no
    operation reads it.

  Every operation holds the mutex of the clock from its first line to its last, so a run is a sequence of operations.
\<close>

subsection \<open>Operations\<close>

record fakeTimer =
  ft_deadline :: int
  ft_ch :: "int option"
  ft_active :: bool

record Fake =
  fk_now :: int
  fk_timers :: "nat list"
  fk_objs :: "nat \<Rightarrow> fakeTimer"
  fk_next :: nat
  fk_fired :: "(nat \<times> int \<times> int) list"

text \<open>The time 2020-01-01 00:00:00 UTC.\<close>

definition fakeStart :: int where "fakeStart = 63713433600 * 10 ^ 9"

definition NewFake :: "int \<Rightarrow> Fake" where
  "NewFake start =
     (let start = (if start = 0 then fakeStart else start)
      in \<lparr> fk_now = start, fk_timers = [], fk_objs = (\<lambda>_. \<lparr> ft_deadline = 0, ft_ch = None, ft_active = False \<rparr>),
           fk_next = 0, fk_fired = [] \<rparr>)"

text \<open>\<open>Time.Sub\<close> keeps the difference in the range of a 64-bit duration.\<close>

definition timeSub :: "int \<Rightarrow> int \<Rightarrow> int" where
  "timeSub t u = max (- (2 ^ 63)) (min (2 ^ 63 - 1) (t - u))"

definition fakeNow :: "Fake \<Rightarrow> int" where
  "fakeNow f = fk_now f"

definition Since :: "int \<Rightarrow> Fake \<Rightarrow> int" where
  "Since t f = timeSub (fakeNow f) t"

definition setTimer :: "nat \<Rightarrow> fakeTimer \<Rightarrow> Fake \<Rightarrow> Fake" where
  "setTimer t x f = f\<lparr>fk_objs := (fk_objs f)(t := x)\<rparr>"

definition fireLocked :: "nat \<Rightarrow> Fake \<Rightarrow> Fake" where
  "fireLocked t f =
     (let x = fk_objs f t in
      if \<not> ft_active x then f
      else
        let x = x\<lparr>ft_active := False\<rparr>;
            x = (case ft_ch x of None \<Rightarrow> x\<lparr>ft_ch := Some (fk_now f)\<rparr> | Some _ \<Rightarrow> x)
        in setTimer t x (f\<lparr>fk_fired := fk_fired f @ [(t, ft_deadline x, fk_now f)]\<rparr>))"

definition NewTimer :: "int \<Rightarrow> Fake \<Rightarrow> nat \<times> Fake" where
  "NewTimer d f =
     (let t = fk_next f;
          f = setTimer t \<lparr> ft_deadline = fk_now f + d, ft_ch = None, ft_active = True \<rparr> (f\<lparr>fk_next := t + 1\<rparr>)
      in (t, if d \<le> 0 then fireLocked t f else f\<lparr>fk_timers := fk_timers f @ [t]\<rparr>))"

text \<open>The loop of \<open>Advance\<close>: the timers still to look at, what remains so far.\<close>

fun advanceLoop :: "nat list \<Rightarrow> nat list \<Rightarrow> Fake \<Rightarrow> nat list \<times> Fake" where
  "advanceLoop [] remaining f = (remaining, f)"
| "advanceLoop (t # ts) remaining f =
     (if \<not> ft_deadline (fk_objs f t) > fk_now f then advanceLoop ts remaining (fireLocked t f)
      else advanceLoop ts (remaining @ [t]) f)"

definition Advance :: "int \<Rightarrow> Fake \<Rightarrow> Fake" where
  "Advance d f =
     (let f = f\<lparr>fk_now := fk_now f + d\<rparr>
      in case advanceLoop (fk_timers f) [] f of (remaining, f) \<Rightarrow> f\<lparr>fk_timers := remaining\<rparr>)"

definition Pending :: "Fake \<Rightarrow> int" where
  "Pending f = int (length (fk_timers f))"

definition removeLocked :: "nat \<Rightarrow> Fake \<Rightarrow> Fake" where
  "removeLocked target f = f\<lparr>fk_timers := remove1 target (fk_timers f)\<rparr>"

definition timerStop :: "nat \<Rightarrow> Fake \<Rightarrow> bool \<times> Fake" where
  "timerStop t f =
     (let was = ft_active (fk_objs f t)
      in (was, removeLocked t (setTimer t ((fk_objs f t)\<lparr>ft_active := False\<rparr>) f)))"

definition timerReset :: "int \<Rightarrow> nat \<Rightarrow> Fake \<Rightarrow> bool \<times> Fake" where
  "timerReset d t f =
     (let was = ft_active (fk_objs f t);
          f = removeLocked t f;
          f = setTimer t ((fk_objs f t)\<lparr>ft_active := True, ft_deadline := fk_now f + d\<rparr>) f
      in (was, if d \<le> 0 then fireLocked t f else f\<lparr>fk_timers := fk_timers f @ [t]\<rparr>))"

text \<open>A receive from the channel \<open>C()\<close>: it blocks while the channel is empty.\<close>

definition timerRecv :: "nat \<Rightarrow> Fake \<Rightarrow> (int \<times> Fake) option" where
  "timerRecv t f =
     (case ft_ch (fk_objs f t) of
        None \<Rightarrow> None
      | Some v \<Rightarrow> Some (v, setTimer t ((fk_objs f t)\<lparr>ft_ch := None\<rparr>) f))"

subsection \<open>Invariant\<close>

text \<open>The pending list holds the active timers, each once and not yet due; a timer that fired was due.\<close>

definition fake_ok :: "Fake \<Rightarrow> bool" where
  "fake_ok f \<longleftrightarrow> distinct (fk_timers f) \<and> (\<forall>t \<in> set (fk_timers f). t < fk_next f \<and> fk_now f < ft_deadline (fk_objs f t)) \<and>
     (\<forall>t. t \<in> set (fk_timers f) \<longleftrightarrow> ft_active (fk_objs f t)) \<and>
     (\<forall>(t, deadline, at) \<in> set (fk_fired f). deadline \<le> at)"

lemmas clock_defs = setTimer_def fireLocked_def removeLocked_def Let_def

lemma NewFake_ok: "fake_ok (NewFake start)"
  by (simp add: NewFake_def fake_ok_def Let_def)

lemma fireLocked_simps [simp]:
  "fk_now (fireLocked t f) = fk_now f" "fk_timers (fireLocked t f) = fk_timers f" "fk_next (fireLocked t f) = fk_next f"
  "ft_deadline (fk_objs (fireLocked t f) u) = ft_deadline (fk_objs f u)"
  "u \<noteq> t \<Longrightarrow> fk_objs (fireLocked t f) u = fk_objs f u" "\<not> ft_active (fk_objs (fireLocked t f) t)"
  "ft_active (fk_objs f t) \<Longrightarrow> fk_fired (fireLocked t f) = fk_fired f @ [(t, ft_deadline (fk_objs f t), fk_now f)]"
  by (auto simp: clock_defs split: option.splits)

text \<open>What the loop does to a list of distinct active timers.\<close>

definition due :: "Fake \<Rightarrow> nat \<Rightarrow> bool" where
  "due f t \<longleftrightarrow> ft_deadline (fk_objs f t) \<le> fk_now f"

lemma advanceLoop_simps [simp]:
  "fk_now (snd (advanceLoop ts acc f)) = fk_now f" "fk_next (snd (advanceLoop ts acc f)) = fk_next f"
  "ft_deadline (fk_objs (snd (advanceLoop ts acc f)) u) = ft_deadline (fk_objs f u)"
  by (induction ts acc f rule: advanceLoop.induct) auto

lemma advanceLoop_remaining: "fst (advanceLoop ts acc f) = acc @ filter (\<lambda>t. \<not> due f t) ts"
  by (induction ts acc f rule: advanceLoop.induct) (auto simp: due_def)

lemma advanceLoop_other: "u \<notin> set ts \<or> \<not> due f u \<Longrightarrow> fk_objs (snd (advanceLoop ts acc f)) u = fk_objs f u"
proof (induction ts acc f rule: advanceLoop.induct)
  case (2 t ts acc f)
  have "u \<noteq> t" if "due f t" using 2 that by auto
  then show ?case using 2 by (auto simp: due_def)
qed simp

lemma advanceLoop_due:
  "distinct ts \<Longrightarrow> u \<in> set ts \<Longrightarrow> due f u \<Longrightarrow>
   fk_objs (snd (advanceLoop ts acc f)) u = fk_objs (fireLocked u f) u"
proof (induction ts acc f rule: advanceLoop.induct)
  case (2 t ts acc f)
  show ?case
  proof (cases "u = t")
    case True
    then show ?thesis using "2.prems" by (simp add: due_def advanceLoop_other)
  next
    case False
    have "fk_objs (fireLocked u (fireLocked t f)) u = fk_objs (fireLocked u f) u"
      using False by (auto simp: clock_defs split: option.splits)
    then show ?thesis using "2.IH" "2.prems" False by (auto simp: due_def)
  qed
qed simp

lemma advanceLoop_fired:
  "distinct ts \<Longrightarrow> \<forall>t \<in> set ts. ft_active (fk_objs f t) \<Longrightarrow>
   fk_fired (snd (advanceLoop ts acc f)) =
     fk_fired f @ map (\<lambda>t. (t, ft_deadline (fk_objs f t), fk_now f)) (filter (due f) ts)"
proof (induction ts acc f rule: advanceLoop.induct)
  case (2 t ts acc f)
  have "u \<noteq> t" if "u \<in> set ts" for u using "2.prems" that by auto
  then have "\<forall>u \<in> set ts. ft_active (fk_objs (fireLocked t f) u)" using "2.prems" by simp
  then show ?case using 2 by (auto simp: due_def)
qed simp

text \<open>\<open>Advance\<close> in one piece.\<close>

lemma Advance_simps [simp]:
  "fk_now (Advance d f) = fk_now f + d" "fk_next (Advance d f) = fk_next f"
  "ft_deadline (fk_objs (Advance d f) u) = ft_deadline (fk_objs f u)"
  by (simp_all add: Advance_def case_prod_beta Let_def)

lemma Advance_timers: "fk_timers (Advance d f) = filter (\<lambda>t. fk_now f + d < ft_deadline (fk_objs f t)) (fk_timers f)"
  by (simp add: Advance_def case_prod_beta Let_def advanceLoop_remaining due_def not_le)

lemma Advance_objs:
  assumes "fake_ok f"
  shows "fk_objs (Advance d f) t =
    (if t \<in> set (fk_timers f) \<and> ft_deadline (fk_objs f t) \<le> fk_now f + d
     then fk_objs (fireLocked t (f\<lparr>fk_now := fk_now f + d\<rparr>)) t else fk_objs f t)"
  using assms advanceLoop_due [of "fk_timers f" t "f\<lparr>fk_now := fk_now f + d\<rparr>" "[]"]
    advanceLoop_other [of t "fk_timers f" "f\<lparr>fk_now := fk_now f + d\<rparr>" "[]"]
  by (auto simp: Advance_def case_prod_beta Let_def due_def fake_ok_def)

lemma Advance_fired:
  assumes "fake_ok f"
  shows "fk_fired (Advance d f) = fk_fired f @ map (\<lambda>t. (t, ft_deadline (fk_objs f t), fk_now f + d))
    (filter (\<lambda>t. ft_deadline (fk_objs f t) \<le> fk_now f + d) (fk_timers f))"
  using assms advanceLoop_fired [of "fk_timers f" "f\<lparr>fk_now := fk_now f + d\<rparr>" "[]"]
  by (simp add: Advance_def case_prod_beta Let_def due_def [abs_def] fake_ok_def)

lemma Advance_ok: "fake_ok f \<Longrightarrow> fake_ok (Advance d f)"
proof -
  assume ok: "fake_ok f"
  have a: "ft_active (fk_objs (Advance d f) t) \<longleftrightarrow> t \<in> set (fk_timers (Advance d f))" for t
    using ok by (auto simp: Advance_objs Advance_timers fake_ok_def)
  show ?thesis using ok a by (auto simp: fake_ok_def Advance_timers Advance_fired [OF ok])
qed

lemma NewTimer_ok: "fake_ok f \<Longrightarrow> fake_ok (snd (NewTimer d f))"
  by (auto simp: NewTimer_def fake_ok_def clock_defs split: option.splits)

lemma timerStop_ok: "fake_ok f \<Longrightarrow> fake_ok (snd (timerStop t f))"
  by (auto simp: timerStop_def fake_ok_def clock_defs)

lemma timerReset_ok: "fake_ok f \<Longrightarrow> t < fk_next f \<Longrightarrow> fake_ok (snd (timerReset d t f))"
  by (auto simp: timerReset_def fake_ok_def clock_defs split: option.splits)

lemma timerRecv_ok: "fake_ok f \<Longrightarrow> timerRecv t f = Some (v, f') \<Longrightarrow> fake_ok f'"
  by (auto simp: timerRecv_def fake_ok_def setTimer_def split: option.splits if_splits)

subsection \<open>The contract of the timers\<close>

text \<open>What the rest of the program relies on: which timers are armed and for when, as a function of the operations.\<close>

locale timer_service =
  fixes now :: "'c \<Rightarrow> int"
    and armed :: "'c \<Rightarrow> nat \<Rightarrow> int option"
    and ok :: "'c \<Rightarrow> bool"
    and known :: "'c \<Rightarrow> nat \<Rightarrow> bool"
    and advance :: "int \<Rightarrow> 'c \<Rightarrow> 'c"
    and stop :: "nat \<Rightarrow> 'c \<Rightarrow> bool \<times> 'c"
    and reset :: "int \<Rightarrow> nat \<Rightarrow> 'c \<Rightarrow> bool \<times> 'c"
  assumes ok_advance: "ok c \<Longrightarrow> ok (advance d c)"
    and ok_stop: "ok c \<Longrightarrow> ok (snd (stop t c))"
    and ok_reset: "ok c \<Longrightarrow> known c t \<Longrightarrow> ok (snd (reset d t c))"
    and known_advance: "known (advance d c) = known c"
    and known_stop: "known (snd (stop t c)) = known c"
    and known_reset: "known (snd (reset d t c)) = known c"
    and now_advance: "now (advance d c) = now c + d"
    and now_stop: "now (snd (stop t c)) = now c"
    and now_reset: "now (snd (reset d t c)) = now c"
    and armed_advance: "ok c \<Longrightarrow> armed (advance d c) t =
      (case armed c t of None \<Rightarrow> None | Some deadline \<Rightarrow> if now c + d < deadline then Some deadline else None)"
    and armed_stop: "ok c \<Longrightarrow> armed (snd (stop t c)) = (armed c)(t := None)"
    and armed_reset: "ok c \<Longrightarrow> known c t \<Longrightarrow>
      armed (snd (reset d t c)) = (armed c)(t := if d \<le> 0 then None else Some (now c + d))"
    and was_stop: "ok c \<Longrightarrow> fst (stop t c) \<longleftrightarrow> armed c t \<noteq> None"
    and was_reset: "ok c \<Longrightarrow> known c t \<Longrightarrow> fst (reset d t c) \<longleftrightarrow> armed c t \<noteq> None"
begin

text \<open>A timer set for \<open>d\<close> is armed until the clock has moved by \<open>d\<close>, and not after.\<close>

lemma reset_advance:
  "ok c \<Longrightarrow> known c t \<Longrightarrow> 0 < d \<Longrightarrow>
   armed (advance e (snd (reset d t c))) t = (if e < d then Some (now c + d) else None)"
  by (simp add: armed_advance ok_reset armed_reset now_reset)

text \<open>A stopped timer stays stopped, however far the clock moves.\<close>

lemma stop_advance: "ok c \<Longrightarrow> armed (advance e (snd (stop t c))) t = None"
  by (simp add: armed_advance ok_stop armed_stop)

text \<open>Small steps forward do what one large step does.\<close>

lemma advance_advance: "ok c \<Longrightarrow> 0 \<le> b \<Longrightarrow> armed (advance b (advance a c)) = armed (advance (a + b) c)"
  by (rule ext) (auto simp: armed_advance ok_advance now_advance add.assoc split: option.splits)

text \<open>The last setting of a timer counts, and stopping reports whether it was still to come.\<close>

lemma reset_reset:
  "ok c \<Longrightarrow> known c t \<Longrightarrow> armed (snd (reset e t (snd (reset d t c)))) = armed (snd (reset e t c))"
  by (simp add: armed_reset ok_reset known_reset now_reset)

lemma stop_reset:
  "ok c \<Longrightarrow> known c t \<Longrightarrow> 0 < d \<Longrightarrow> fst (stop t (advance e (snd (reset d t c)))) \<longleftrightarrow> e < d"
  by (simp add: was_stop ok_advance ok_reset reset_advance)

end

definition fake_armed :: "Fake \<Rightarrow> nat \<Rightarrow> int option" where
  "fake_armed f t = (if t \<in> set (fk_timers f) then Some (ft_deadline (fk_objs f t)) else None)"

lemma timer_now [simp]: "fk_now (snd (timerStop t f)) = fk_now f" "fk_now (snd (timerReset d t f)) = fk_now f"
  "fk_next (snd (timerStop t f)) = fk_next f" "fk_next (snd (timerReset d t f)) = fk_next f"
  by (simp_all add: timerStop_def timerReset_def removeLocked_def setTimer_def Let_def)

lemma fake_armed_stop: "fake_ok f \<Longrightarrow> fake_armed (snd (timerStop t f)) = (fake_armed f)(t := None)"
  by (auto simp: fake_armed_def timerStop_def fake_ok_def clock_defs fun_eq_iff)

lemma fake_armed_reset:
  "fake_ok f \<Longrightarrow> fake_armed (snd (timerReset d t f)) = (fake_armed f)(t := if d \<le> 0 then None else Some (fk_now f + d))"
  by (auto simp: fake_armed_def timerReset_def fake_ok_def removeLocked_def Let_def fun_eq_iff)
    (auto simp: setTimer_def)

lemma fake_armed_advance:
  "fake_ok f \<Longrightarrow> fake_armed (Advance d f) t =
    (case fake_armed f t of None \<Rightarrow> None | Some deadline \<Rightarrow> if fk_now f + d < deadline then Some deadline else None)"
  by (simp add: fake_armed_def Advance_timers)

interpretation fake: timer_service fk_now fake_armed fake_ok "\<lambda>f t. t < fk_next f" Advance timerStop timerReset
proof
  show "fst (timerStop t f) \<longleftrightarrow> fake_armed f t \<noteq> None" if "fake_ok f" for f t
    using that by (simp add: timerStop_def fake_armed_def fake_ok_def Let_def)
  show "fst (timerReset d t f) \<longleftrightarrow> fake_armed f t \<noteq> None" if "fake_ok f" for f t d
    using that by (simp add: timerReset_def fake_armed_def fake_ok_def Let_def)
qed (simp_all add: Advance_ok timerStop_ok timerReset_ok fake_armed_stop fake_armed_reset fake_armed_advance)

subsection \<open>Runs of the clock\<close>

inductive fake_reach :: "Fake \<Rightarrow> bool" where
  fr_new: "fake_reach (NewFake start)"
| fr_newTimer: "fake_reach f \<Longrightarrow> fake_reach (snd (NewTimer d f))"
| fr_advance: "fake_reach f \<Longrightarrow> fake_reach (Advance d f)"
| fr_stop: "fake_reach f \<Longrightarrow> fake_reach (snd (timerStop t f))"
| fr_reset: "fake_reach f \<Longrightarrow> t < fk_next f \<Longrightarrow> fake_reach (snd (timerReset d t f))"
| fr_recv: "fake_reach f \<Longrightarrow> timerRecv t f = Some (v, f') \<Longrightarrow> fake_reach f'"

lemma fake_reach_ok: "fake_reach f \<Longrightarrow> fake_ok f"
  by (induction rule: fake_reach.induct)
    (auto intro: NewFake_ok NewTimer_ok Advance_ok timerStop_ok timerReset_ok timerRecv_ok)

text \<open>A new timer is the armed one the caller gets.\<close>

lemma NewTimer_armed:
  "fake_ok f \<Longrightarrow> fst (NewTimer d f) = fk_next f \<and> fk_next (snd (NewTimer d f)) = Suc (fk_next f) \<and>
    fake_armed (snd (NewTimer d f)) = (fake_armed f)(fk_next f := if d \<le> 0 then None else Some (fk_now f + d))"
  by (auto simp: NewTimer_def fake_armed_def fake_ok_def Let_def fun_eq_iff) (auto simp: setTimer_def)

text \<open>The value in the channel of a timer whose reader keeps it empty is the time of the last firing.\<close>

lemma Advance_channel:
  assumes "fake_ok f" "fake_armed f t = Some deadline" "deadline \<le> fk_now f + d" "ft_ch (fk_objs f t) = None"
  shows "ft_ch (fk_objs (Advance d f) t) = Some (fk_now f + d)"
  using assms by (auto simp: Advance_objs fake_armed_def fake_ok_def clock_defs split: if_splits)

text \<open>Elapsed time is exact as long as it fits a duration.\<close>

lemma Since_exact: "\<bar>fk_now f - t\<bar> < 2 ^ 63 \<Longrightarrow> Since t f = fk_now f - t"
  by (auto simp: Since_def timeSub_def fakeNow_def abs_if split: if_splits)

text \<open>Every run of the fake clock: the pending timers are the armed ones, each listed once and due in the future; no
  timer ever fired before its deadline; and moving the clock fires exactly the timers that are due, each once, in the
  order of the pending list, and leaves the others pending.\<close>

lemma fake_clock_exact:
  assumes "fake_reach f"
  shows "(\<forall>t. t \<in> set (fk_timers f) \<longleftrightarrow> ft_active (fk_objs f t)) \<and> distinct (fk_timers f) \<and>
    (\<forall>t \<in> set (fk_timers f). fk_now f < ft_deadline (fk_objs f t)) \<and>
    (\<forall>(t, deadline, at) \<in> set (fk_fired f). deadline \<le> at) \<and>
    fk_timers (Advance d f) = filter (\<lambda>t. fk_now f + d < ft_deadline (fk_objs f t)) (fk_timers f) \<and>
    fk_fired (Advance d f) = fk_fired f @ map (\<lambda>t. (t, ft_deadline (fk_objs f t), fk_now f + d))
      (filter (\<lambda>t. ft_deadline (fk_objs f t) \<le> fk_now f + d) (fk_timers f))"
  using fake_reach_ok [OF assms] by (simp add: Advance_timers Advance_fired) (simp add: fake_ok_def)

text \<open>Two timers, the later one armed first: it also fires first. The order is that of arming, not of the
  deadlines.\<close>

definition ex_clock :: Fake where
  "ex_clock = snd (NewTimer 3 (snd (NewTimer 5 (NewFake 100))))"

lemma advance_not_by_deadline: "fk_fired (Advance 10 ex_clock) = [(0, 105, 110), (1, 103, 110)]"
  by code_simp

end
