(* ===== verification/Spec2Isabelle.thy ===== *)
theory Spec2Isabelle
  imports Owned Endpoint_Close Conformance_Hub Sse_Correct Sse_Resume Sse_MuxRun Relay_Server Backoff Clock
begin

text \<open>
  \<^bold>\<open>A verification development for pipe\<close>

  The program (\<^verbatim>\<open>src/\<close>) is a Go library that gives two peers a \<open>net.Conn\<close> over a WebRTC data
  channel. Its parts, from the wire upwards:

  \<^item> a frame codec and a byte stream over a message channel (\<^verbatim>\<open>internal/frame\<close>);
  \<^item> an adapter to the WebRTC implementation (\<^verbatim>\<open>internal/pionx\<close>);
  \<^item> signaling envelopes and their validation (\<^verbatim>\<open>signal_payload.go\<close>, \<^verbatim>\<open>signal_validate.go\<close>);
  \<^item> a session per connection: an event loop that negotiates, watches connectivity, restarts and tears down
    (\<^verbatim>\<open>session.go\<close>, \<^verbatim>\<open>mailbox.go\<close>);
  \<^item> an endpoint, which routes signals to sessions, limits the backlog and hands connections to a listener
    (\<^verbatim>\<open>endpoint.go\<close>, \<^verbatim>\<open>listener.go\<close>, \<^verbatim>\<open>dedupe.go\<close>);
  \<^item> signaling transports: an in-process hub (\<^verbatim>\<open>signaling/memory\<close>) and a server that pushes signals over
    event streams, with its client (\<^verbatim>\<open>signaling/sse\<close>);
  \<^item> a relay for peers that cannot reach each other (\<^verbatim>\<open>relay\<close>).

  \<^bold>\<open>Theories\<close>

  \<^item> \<open>Prelude\<close>: types (\<open>bytes\<close>, \<open>u64\<close>), lemma collections, lists, words and text shared by all; \<open>Utf8\<close>: Go's
    decoding of UTF-8, trimming and control characters.
  \<^item> \<open>Errors\<close> (\<^verbatim>\<open>errors.go\<close>): error values with \<open>errors.Is\<close>; the message texts are left out, what is
    wrapped is kept.
  \<^item> \<open>Frame\<close> (\<^verbatim>\<open>frame.go\<close>): \<open>Encode\<close>, \<open>Append\<close>, \<open>Parse\<close>, close payloads. \<open>Parse\<close> accepts exactly the encodings.
  \<^item> \<open>Stream\<close>, \<open>Stream_Inv\<close>, \<open>Stream_Correct\<close> (\<^verbatim>\<open>stream.go\<close>): the state of a stream, buffers as an explicit
    store, one definition per critical section of \<open>Read\<close>, \<open>Write\<close>, \<open>Ping\<close>, \<open>CloseWith\<close>, \<open>Shutdown\<close> and the read loop.
    \<open>Stream_Inv\<close> has the interleaving and the invariant, \<open>Stream_Correct\<close> two streams joined by a reliable ordered
    channel: the bytes read are a prefix of the bytes committed.
  \<^item> \<open>Queue\<close>: the contract of a bounded queue as a locale, interpreted by the mailbox, the accept queue and the inbox of
    the hub. \<open>Mailbox\<close>: the event queue of a session and its wake channel.
  \<^item> \<open>Json\<close>, \<open>Signal\<close>: the encoding of payloads and \<open>Validate\<close>. \<open>Config\<close>: \<open>Config.clone\<close>. \<open>Dedupe\<close>: the duplicate cache.
    \<open>Conn\<close>: states, addresses, counters and \<open>Conn\<close>. \<open>Metrics\<close>: metric names and labels. \<open>Pionx\<close>: the adapter; the
    WebRTC implementation is a parameter record of functions on an abstract peer connection.
  \<^item> \<open>Session\<close>: every handler of the session loop on one state record; \<open>Session_Inv\<close>: the interleaving of the loop with
    the goroutines around it and the invariant of each phase; \<open>Session_Frame\<close>: what no step changes;
    \<open>Session_Correct\<close>: life cycle, exactly-once settlement, bounds, timeouts, termination of recovery.
  \<^item> \<open>Listener\<close>, \<open>Endpoint\<close>: the accept queue, the session table, slots, routing, dialing, closing. Sessions are objects
    with numbers. \<open>Endpoint_Inv\<close>: the interleaving of the endpoint with all its sessions; \<open>Endpoint_Correct\<close>: slots, table,
    guards of routing, closing; \<open>Endpoint_Close\<close>: all of \<open>Close\<close> as a process of its own. \<open>Owned\<close> (\<^verbatim>\<open>dial.go\<close>): the package-level \<open>Dial\<close> and \<open>Listen\<close>.
  \<^item> \<open>Memory\<close>: the hub and its fault injectors. \<open>Conformance\<close> (\<^verbatim>\<open>signaling/signalertest\<close>): the interface of a
    transport, the conformance suite, and a contract (a locale) that implies it; \<open>Conformance_Hub\<close>: the hub fulfils
    the contract.
  \<^item> \<open>Sse_Peer\<close>: the queue, replay log and cursor of one peer, and an abstract client that reconnects; \<open>Sse_Server\<close>:
    authentication, tables, handlers and multiplexed streams; \<open>Sse_Correct\<close>: the interleaving of the handlers and what
    holds in it. \<open>Sse_Client\<close> (\<^verbatim>\<open>client.go\<close>): requests, the connection and its stream goroutine;
    \<open>Sse_Resume\<close>: client and server joined by an event stream simulate the abstract client. \<open>Sse_Mux\<close> (\<^verbatim>\<open>mux.go\<close>):
    the client that shares one stream between several local peers; \<open>Sse_MuxRun\<close>: its stream goroutine as a process.
  \<^item> \<open>Relay\<close> (\<^verbatim>\<open>relay/relay.go\<close>): plans, credentials, the allocation quota, counters and shaped sockets.
    \<open>Relay_Size\<close>: sizes, rates, plans and statistics in texts, with the reader of numbers they use; \<open>Relay_Server\<close>: \<open>Start\<close> with the
    listeners it opens, URLs, \<open>Close\<close>.
  \<^item> \<open>Float64\<close>: floating-point numbers with rounding. \<open>Backoff\<close>: the delays of sessions and signaling clients.
  \<^item> \<open>Clock\<close> (\<^verbatim>\<open>internal/clock\<close>): the manually advanced clock, and the contract of its timers as a locale.
  \<^item> This theory: properties that span components.

  \<^bold>\<open>Conventions\<close>

  \<^item> A goroutine is a sequence of steps, one per critical section or channel operation; the step relations
    (\<open>stream_step\<close>, \<open>sess_step\<close>, \<open>ep_step\<close>, \<open>hub_step\<close>, \<open>srv_step\<close>, \<open>csys_step\<close>, \<open>run_step\<close>, \<open>close_step\<close>) interleave them freely. A call that blocks has no outcome in
    that state: operations that may block or choose return the list of their outcomes.
  \<^item> Timers are flags or deadlines and expire at any moment; random bytes, clock readings, the outcome of calls into
    the WebRTC implementation and of the network are arguments.
  \<^item> Sequence numbers, counters and lengths on the wire are words of their width. Where a property needs that a
    64-bit counter does not wrap, the bound is a hypothesis.
  \<^item> Histories (\<open>sv_hist\<close>, \<open>h_put\<close>, \<open>h_got\<close>, the outputs of a session) record what happened; no operation reads them.
  \<^item> Recursive definitions are structural or have a termination proof. Fuel occurs twice: in the JSON parser, where
    \<open>2 * length s + 2\<close> is enough (\<open>pvalue_fuel\<close>), and in the loop of the hub's \<open>Send\<close>, which takes one turn per signal
    and one more.

  \<^bold>\<open>What is shown\<close>

  \<^item> Wire: codec round trips and exact acceptance; stream integrity under all interleavings; bounded, unaliased
    buffers; final, idempotent close; probes matched by nonce.
  \<^item> Session: documented life cycle; one result; bounded candidates and restarts; a dial ends when its timer expires;
    recovery ends; decoded signals refine abstract messages.
  \<^item> Endpoint: no slot is lost or returned twice; an established connection finds room in the accept queue; the
    table is exact; only guarded signals reach a session; a signal is acted on once; closing leaves no session behind.
  \<^item> Transports: first-in first-out delivery to the addressee; reconnecting loses and repeats nothing; the server's
    state is well-formed and bounded; nobody speaks for another peer; no peer of a shared
    stream is stranded; the hub passes the conformance suite.
  \<^item> Relay: no user holds more sockets than its plan allows, and the totals are the sums over the users;
    a printed size is read back up to its rounding; a failed start leaves no listener open (\<open>start_no_leak\<close>).
  \<^item> Backoff: every delay is within twice the maximum (\<open>delay_bounded\<close>).

  \<^bold>\<open>Not modelled\<close>

  \<^item> HTTP itself and the text of event streams; the TURN protocol, the sockets of the operating
    system and the token buckets of the relay, whose answers are inputs.
  \<^item> Log output, message texts of errors. \<open>math.Pow\<close>, whose last bits depend on the platform, is an argument.
  \<^item> Leak checks of tests (\<^verbatim>\<open>internal/testutil\<close>), the system clock, examples.
\<close>

section \<open>Duplicate signals at an endpoint\<close>

text \<open>The identity and the duplicate cache of an endpoint; of its operations only \<open>route\<close> touches the cache.\<close>

definition ep_key :: "('p, 'd) endpoint \<Rightarrow> PeerID \<times> dedupeCache" where
  "ep_key ep = (ep_id ep, ep_dedupe ep)"

lemma key_basic [simp]:
  "ep_key (eEmit x ep) = ep_key ep" "ep_key (eCount m ls ep) = ep_key ep" "ep_key (setObj r s ep) = ep_key ep"
  "ep_key (spawn r s ep) = ep_key ep" "ep_key (releaseSlot r ep) = ep_key ep" "ep_key (removeSession r ep) = ep_key ep"
  "ep_key (setSignalErr e ep) = ep_key ep" "ep_key (clearListener ep) = ep_key ep" "ep_key (lnMark ep) = ep_key ep"
  "ep_key (release f ep) = ep_key ep" "ep_key (received sig w ep) = ep_key ep" "ep_key (closeFinish ep) = ep_key ep"
  "ep_key (ep\<lparr>ep_ln := l\<rparr>) = ep_key ep" "ep_key (ep\<lparr>ep_closed := c\<rparr>) = ep_key ep" "ep_key (ep\<lparr>ep_next := k\<rparr>) = ep_key ep"
  "ep_key (ep\<lparr>ep_slots := j\<rparr>) = ep_key ep" "ep_key (ep\<lparr>ep_sent := q\<rparr>) = ep_key ep"
  "ep_key (ep\<lparr>ep_sessions := t\<rparr>) = ep_key ep"
  "ep_key (ep\<lparr>ep_ln := l, ep_attached := a, ep_listened := h\<rparr>) = ep_key ep"
  by (auto simp: ep_key_def eEmit_def eCount_def setObj_def spawn_def releaseSlot_def removeSession_def setSignalErr_def
      clearListener_def lnMark_def release_def received_def closeFinish_def Let_def split: option.splits)

lemma key_table [simp]:
  "ep_key (snd (send V sig ep)) = ep_key ep" "ep_key (reject V sig c m ep) = ep_key ep"
  "ep_key (snd (addSession r s ep)) = ep_key ep" "ep_key (snd (enqueueInbound r ep)) = ep_key ep"
  by (auto simp: send_def reject_def addSession_def enqueueInbound_def Let_def case_prod_beta
      split: option.splits sum.splits bool.splits)

lemma addSession_key: "addSession r s ep = (x, ep') \<Longrightarrow> ep_key ep' = ep_key ep"
  using key_table(3) [of r s ep] by simp

lemma key_admit [simp]: "ep_key (acceptOffer V sig ep) = ep_key ep"
proof -
  have "ep_key (admit V sig e) = ep_key e" for e :: "('a, 'b) endpoint"
    by (auto simp: admit_def Let_def split: prod.splits option.splits dest!: addSession_key)
  then show ?thesis by (simp add: acceptOffer_def Let_def)
qed

lemma key_drain [simp]: "ep_key (drainPending now cr q ep) = ep_key ep" "ep_key (drainQueue now cr ep) = ep_key ep"
  "ep_key (Listener_Close now cr ep) = ep_key ep" "ep_key (closeAll rs ep) = ep_key ep" "ep_key (settle r xs ep) = ep_key ep"
proof -
  show d: "ep_key (drainPending now cr q ep) = ep_key ep" for q ep by (induction q arbitrary: ep) (simp_all add: Let_def)
  show q: "ep_key (drainQueue now cr ep) = ep_key ep" for ep by (simp add: drainQueue_def d split: option.splits)
  show "ep_key (Listener_Close now cr ep) = ep_key ep" by (simp add: Listener_Close_def q split: option.splits)
  show "ep_key (closeAll rs ep) = ep_key ep" by (induction rs arbitrary: ep) simp_all
  show "ep_key (settle r xs ep) = ep_key ep" by (induction r xs ep rule: settle.induct) simp_all
qed

lemma route_key:
  "ep_key (route V sig ep) = (ep_id ep,
     if Validate sig = None \<and> sig_To sig = ep_id ep then snd (seenBefore (ep_dedupe ep) (sig_ID sig)) else ep_dedupe ep)"
proof -
  obtain b d where d: "seenBefore (ep_dedupe ep) (sig_ID sig) = (b, d)" by fastforce
  have k: "ep_key (ep\<lparr>ep_dedupe := d\<rparr>) = (ep_id ep, d)" "ep_key ep = (ep_id ep, ep_dedupe ep)" by (simp_all add: ep_key_def)
  show ?thesis using d by (cases b) (auto simp: route_def k Let_def split: option.splits)
qed

text \<open>A step leaves the cache alone or presents one identifier to it.\<close>

lemma ep_step_key:
  assumes "ep_step X ep ep'"
  shows "ep_id ep' = ep_id ep \<and>
    (ep_dedupe ep' = ep_dedupe ep \<or> (\<exists>i. ep_dedupe ep' = snd (seenBefore (ep_dedupe ep) i)))"
proof -
  have "ep_key ep' = ep_key ep \<or> (\<exists>V sig. ep' = route V sig ep)" using assms
  proof (induction rule: ep_step.induct)
    case (es_receive ep V r)
    then show ?case by (auto simp: receiveTurn_def split: sum.splits)
  next
    case (es_dial buf peer ctxErr ep r ep')
    have "ep_key (snd (Dial buf peer ctxErr ep)) = ep_key ep"
      by (auto simp: Dial_def dialStart_def Let_def split: prod.splits option.splits dest!: addSession_key)
    then show ?case using es_dial by simp
  next
    case (es_accept r ep' now cr ep)
    then show ?case by (auto simp: AcceptConn_def split: option.splits if_splits prod.splits list.splits)
  next
    case (es_close ep now cr)
    then show ?case by (simp add: closeStart_def Let_def)
  qed (auto simp: dialWait_def dialCancel_def dialAbandon_def dialDone_def Listen_def Let_def
      split: option.splits if_splits)
  then show ?thesis
  proof
    assume "\<exists>V sig. ep' = route V sig ep"
    then obtain V sig where "ep' = route V sig ep" by blast
    then show ?thesis using route_key [of V sig ep] by (auto simp: ep_key_def split: if_splits)
  qed (simp add: ep_key_def)
qed

text \<open>\<open>ep_run X n\<close>: any interleaving in which \<open>n\<close> steps presented an identifier to the cache.\<close>

inductive ep_run :: "('p, 'd) sctx \<Rightarrow> nat \<Rightarrow> ('p, 'd) endpoint \<Rightarrow> ('p, 'd) endpoint \<Rightarrow> bool" for X where
  rn_start: "ep_run X 0 ep ep"
| rn_quiet: "ep_run X n ep e \<Longrightarrow> ep_step X e ep' \<Longrightarrow> ep_dedupe ep' = ep_dedupe e \<Longrightarrow> ep_run X n ep ep'"
| rn_present: "ep_run X n ep e \<Longrightarrow> ep_step X e ep' \<Longrightarrow> ep_run X (Suc n) ep ep'"

lemma ep_run_feed:
  "ep_run X n ep ep' \<Longrightarrow> ep_id ep' = ep_id ep \<and> (\<exists>is. length is \<le> n \<and> ep_dedupe ep' = feed (ep_dedupe ep) is)"
proof (induction rule: ep_run.induct)
  case (rn_start ep)
  then show ?case by (intro conjI exI [of _ "[]"]) simp_all
next
  case (rn_quiet n ep e ep')
  then show ?case using ep_step_key [OF rn_quiet.hyps(2)] by auto
next
  case (rn_present n ep e ep')
  then obtain is' where is': "length is' \<le> n" "ep_dedupe e = feed (ep_dedupe ep) is'" by blast
  have "\<exists>is. length is \<le> Suc n \<and> ep_dedupe ep' = feed (ep_dedupe ep) is"
  proof (cases "ep_dedupe ep' = ep_dedupe e")
    case False
    then obtain i where "ep_dedupe ep' = feed (ep_dedupe ep) (is' @ [i])"
      using ep_step_key [OF rn_present.hyps(2)] is'(2) by auto
    then show ?thesis using is'(1) by (intro exI [of _ "is' @ [i]"]) simp
  qed (use is' in \<open>auto intro: exI [of _ is']\<close>)
  then show ?case using rn_present.IH ep_step_key [OF rn_present.hyps(2)] by simp
qed

text \<open>An identifier that was recorded as new is still known after half a cache of others.\<close>

lemma feed_known:
  assumes "int n + int k + 2 < 2 ^ 64" "length ys \<le> n" "length zs \<le> k" "int k \<le> max 2 m div 2"
    "\<not> fst (seenBefore (feed (newDedupeCache m) ys) i)"
  shows "fst (seenBefore (feed (snd (seenBefore (feed (newDedupeCache m) ys) i)) zs) i)"
proof -
  let ?d = "feed (newDedupeCache m) ys"
  let ?e = "snd (seenBefore ?d i)"
  have new: "dc_next (newDedupeCache m) = 0" "dc_max (newDedupeCache m) = max 2 m" by (auto simp: newDedupeCache_def Let_def)
  have d: "dedupe_ok ?d" "dc_max ?d = max 2 m" "uint (dc_next ?d) \<le> int (length ys)"
    using feed_ok [OF new_dedupe_ok, of m ys] assms(1,2) new by auto
  have b: "uint (dc_next ?d) + 1 < 2 ^ 64" using d(3) assms(1,2) by simp
  note e = seenBefore_ok [OF d(1) b, of i]
  have none: "map_of (dc_seen ?d) i = None" using assms(5) by (auto simp: seenBefore_def split: if_splits)
  have q: "(i, dc_next ?d) \<in> set (dc_seen ?e)" by (rule seenBefore_fresh [OF d(1) none b]) simp
  have "(i, dc_next ?d) \<in> set (dc_seen (feed ?e zs))"
    by (rule feed_keeps [OF e(1) _ q]) (use e(2,3) d(2,3) assms(1-4) in simp_all)
  then show ?thesis unfolding seenBefore_mem by force
qed

text \<open>C40: A signal is acted on once. Take an endpoint from \<open>New\<close> in any interleaving of its operations. After it
  has routed a valid signal addressed to it whose identifier it did not know, the same signal is only counted
  as a duplicate, and nothing else of the endpoint changes, until more than half of the duplicate cache
  (2048) of other signals have come in between; dials, accepted connections and session steps in between make no
  difference.\<close>

theorem duplicate_suppressed:
  assumes "New P cfg None = Inr (X, ep0)" "ep_run X n ep0 ep"
    "Validate sig = None" "sig_To sig = ep_id ep" "\<not> fst (seenBefore (ep_dedupe ep) (sig_ID sig))"
    "ep_run X k (route V sig ep) ep'" "k \<le> 2048" "n < 2 ^ 63"
  shows "route V' sig ep' = received sig ''duplicate'' ep'"
proof -
  have new: "ep_dedupe ep0 = newDedupeCache dedupeCacheSize"
    using assms(1) by (auto simp: New_def Let_def split: sum.splits if_splits option.splits prod.splits)
  obtain ys where ys: "length ys \<le> n" "ep_dedupe ep = feed (newDedupeCache dedupeCacheSize) ys"
    using ep_run_feed [OF assms(2)] new by auto
  have r: "ep_id (route V sig ep) = ep_id ep" "ep_dedupe (route V sig ep) = snd (seenBefore (ep_dedupe ep) (sig_ID sig))"
    using route_key [of V sig ep] assms(3,4) by (simp_all add: ep_key_def)
  obtain zs where zs: "length zs \<le> k" "ep_id ep' = ep_id ep"
    "ep_dedupe ep' = feed (snd (seenBefore (ep_dedupe ep) (sig_ID sig))) zs"
    using ep_run_feed [OF assms(6)] r by auto
  have s: "fst (seenBefore (ep_dedupe ep') (sig_ID sig))" unfolding zs(3) ys(2)
    by (rule feed_known [of n k]) (use ys zs(1) assms(5,7,8) in \<open>simp_all add: dedupeCacheSize_def\<close>)
  then have "seenBefore (ep_dedupe ep') (sig_ID sig) = (True, ep_dedupe ep')"
    by (auto simp: seenBefore_def Let_def split: if_splits)
  then show ?thesis using assms(3,4) zs(2) by (simp add: route_def)
qed

text \<open>An offer is admitted; the same offer comes again after the endpoint has begun to dial.\<close>

theorem duplicate_suppressed_witness:
  "route ex_eenv ex_offer (snd (Dial [] ''c'' None ex_admitted)) =
     received ex_offer ''duplicate'' (snd (Dial [] ''c'' None ex_admitted))"
proof -
  let ?l = "snd (Listen ex_endpoint)"
  have l: "ep_run ex_ctx 0 ex_endpoint ?l"
    by (rule rn_quiet [OF rn_start es_listen]) (simp add: Listen_def ex_endpoint_def Let_def)
  have f: "ep_id ?l = ''a''" "ep_dedupe ?l = newDedupeCache dedupeCacheSize" by (simp_all add: Listen_def ex_endpoint_def Let_def)
  have a: "ex_admitted = route ex_eenv ex_offer ?l" by (simp add: ex_admitted_def receiveTurn_def)
  have d: "ep_run ex_ctx (Suc 0) (route ex_eenv ex_offer ?l) (snd (Dial [] ''c'' None ex_admitted))"
    unfolding a by (rule rn_present [OF rn_start es_dial]) (rule prod.collapse [symmetric])
  show ?thesis
    by (rule duplicate_suppressed [OF ex_endpoint_eq l ex_offer_valid _ _ d])
      (simp_all add: f ex_offer_def newDedupeCache_def seenBefore_def)
qed

end
